(* ===== verification/Prelude.thy ===== *)
theory Prelude
  imports Main "HOL-Library.Word" "HOL-Library.AList" "HOL-Library.Multiset"
begin

text \<open>
  Shared vocabulary of the development: the names of Go's fixed-width integers, byte
  slices and lengths, the sum type used for Go's \<open>(value, error)\<close> results, and the
  generic facts on lists, sums and association lists that the component theories use.
\<close>

section \<open>Go's integer types and byte slices\<close>

type_synonym u8 = "8 word"
type_synonym u16 = "16 word"
type_synonym u32 = "32 word"
type_synonym u64 = "64 word"
type_synonym byte = "8 word"
type_synonym bytes = "byte list"

text \<open>An \<open>int64\<close> (a Unix time, a \<open>time.Duration\<close>) is a 64-bit word read with \<^const>\<open>sint\<close>.\<close>

type_synonym i64 = "64 word"

section \<open>Collections of simplification rules\<close>

named_theorems wire_simps
  \<open>decoders return exactly the values whose encoding they consumed\<close>
named_theorems frame_simps
  \<open>fields and addresses an operation leaves alone\<close>

section \<open>Results\<close>

text \<open>
  \<open>attempt\<close> is Go's \<open>if x, err := f(); err != nil { return err }\<close>: the error is passed on,
  otherwise the continuation runs with the value.
\<close>

definition attempt :: "'e + 'a \<Rightarrow> ('a \<Rightarrow> 'e + 'b) \<Rightarrow> 'e + 'b" where
  "attempt m k = (case m of Inl e \<Rightarrow> Inl e | Inr x \<Rightarrow> k x)"

lemma attempt_simps [simp]:
  "attempt (Inl e) k = Inl e"
  "attempt (Inr x) k = k x"
  by (simp_all add: attempt_def)

lemma attempt_eq_Inr: "attempt m k = Inr y \<longleftrightarrow> (\<exists>x. m = Inr x \<and> k x = Inr y)"
  by (cases m) auto

lemma attempt_cong [fundef_cong]:
  "m = m' \<Longrightarrow> (\<And>x. m' = Inr x \<Longrightarrow> k x = k' x) \<Longrightarrow> attempt m k = attempt m' k'"
  by (cases m') (auto simp: attempt_def)

text \<open>\<open>fmt.Errorf("...: %v", err)\<close> around an error.\<close>

definition wrapErr :: "('e \<Rightarrow> 'f) \<Rightarrow> 'e + 'a \<Rightarrow> 'f + 'a" where
  "wrapErr f m = (case m of Inl e \<Rightarrow> Inl (f e) | Inr x \<Rightarrow> Inr x)"

lemma wrapErr_simps [simp]:
  "wrapErr f (Inl e) = Inl (f e)"
  "wrapErr f (Inr x) = Inr x"
  by (simp_all add: wrapErr_def)

lemma wrapErr_Inr_iff [simp]: "wrapErr f m = Inr x \<longleftrightarrow> m = Inr x"
  by (cases m) auto

text \<open>A loop that checks each element and returns the first error.\<close>

fun checkAll :: "('a \<Rightarrow> 'e + unit) \<Rightarrow> 'a list \<Rightarrow> 'e + unit" where
  "checkAll f [] = Inr ()"
| "checkAll f (x # xs) = attempt (f x) (\<lambda>_. checkAll f xs)"

lemma checkAll_Inr_iff [simp]: "checkAll f xs = Inr () \<longleftrightarrow> (\<forall>x \<in> set xs. f x = Inr ())"
  by (induction xs) (auto simp: attempt_eq_Inr)

lemma not_Inl_iff: "(\<forall>e. m \<noteq> Inl e) \<longleftrightarrow> (\<exists>x. m = Inr x)"
  by (cases m) auto

lemma isl_iff: "isl m \<longleftrightarrow> (\<exists>e. m = Inl e)"
  by (cases m) auto

section \<open>Words\<close>

lemma unat_less: "unat (w :: 'a::len word) < 2 ^ LENGTH('a)"
  by (rule unsigned_less)

lemma word_of_nat_eqI: "unat w = n \<Longrightarrow> word_of_nat n = w"
  by auto

section \<open>Lists\<close>

lemma take_append_exact [simp]: "length xs = n \<Longrightarrow> take n (xs @ ys) = xs"
  by simp

lemma drop_append_exact [simp]: "length xs = n \<Longrightarrow> drop n (xs @ ys) = ys"
  by simp

lemma split_at_length: "n \<le> length xs \<Longrightarrow> xs = take n xs @ drop n xs \<and> length (take n xs) = n"
  by simp

lemma append_eq_append_same_length:
  "length xs = length ys \<Longrightarrow> xs @ us = ys @ vs \<longleftrightarrow> xs = ys \<and> us = vs"
  by (rule append_eq_append_conv) simp

lemma sorted_wrt_nth_mono:
  "sorted_wrt R xs \<Longrightarrow> reflp R \<Longrightarrow> i \<le> j \<Longrightarrow> j < length xs \<Longrightarrow> R (xs ! i) (xs ! j)"
  by (cases "i = j") (auto simp: sorted_wrt_iff_nth_less reflp_def)

lemma sum_list_update_nat:
  "i < length xs \<Longrightarrow> sum_list (map f (xs[i := y])) + f (xs ! i) = sum_list (map f xs) + (f y :: nat)"
proof (induction xs arbitrary: i)
  case (Cons x xs)
  then show ?case by (cases i) (auto simp: algebra_simps)
qed simp

lemma length_filter_sum: "length (filter P xs) = sum_list (map (\<lambda>x. if P x then 1 else 0) xs)"
  by (induction xs) auto

lemma length_filter_update:
  "i < length xs \<Longrightarrow> length (filter P (xs[i := y])) + (if P (xs ! i) then 1 else 0)
     = length (filter P xs) + (if P y then 1 else 0)"
  unfolding length_filter_sum by (rule sum_list_update_nat)

section \<open>Association lists\<close>

text \<open>
  A \<open>sync.Map\<close> whose entries are counted or ranged over is an association list with
  distinct keys; \<open>Store\<close>, \<open>Load\<close> and \<open>Delete\<close> are \<^const>\<open>AList.update\<close>, \<^const>\<open>map_of\<close>
  and \<^const>\<open>AList.delete\<close>.
\<close>

lemma distinct_keys_update [intro]:
  "distinct (map fst al) \<Longrightarrow> distinct (map fst (AList.update k v al))"
  by (rule distinct_update)

lemma distinct_keys_delete [intro]:
  "distinct (map fst al) \<Longrightarrow> distinct (map fst (AList.delete k al))"
  by (rule distinct_delete)

lemma map_of_AList_update [simp]: "map_of (AList.update k v al) = (map_of al)(k \<mapsto> v)"
  by (rule update_conv')

lemma map_of_AList_delete [simp]: "map_of (AList.delete k al) = (map_of al)(k := None)"
  by (rule delete_conv')

lemma map_of_empty_iff: "map_of al = Map.empty \<longleftrightarrow> al = []"
  by (cases al) (auto simp: fun_eq_iff)

end
