(* ===== verification/Bytes.thy ===== *)
theory Bytes
  imports Prelude
begin

text \<open>
  The part of Go's \<open>encoding/binary\<close>, \<open>io\<close> and \<open>bytes\<close> that every message of the program is
  written and read with: big-endian integers (\<open>binary.Write\<close> and \<open>binary.Read\<close> with
  \<open>binary.BigEndian\<close>), byte slices with a length prefix (\<open>utils.Uint8Len\<close>,
  \<open>utils.Uint16Len\<close>, \<open>utils.Uint32Len\<close> of \<open>src/utils/utils.go\<close>), and sequences of
  elements after a count.  The locale \<open>codec\<close> is the contract between a \<open>Marshal\<close> method and
  its \<open>Unmarshal\<close> function; each message of the wire and storage formats interprets it.
\<close>

section \<open>Big-endian integers\<close>

text \<open>
  \<open>binary.BigEndian.PutUintN\<close>: the bytes of \<open>v\<close>, most significant first; the conversion to
  \<open>byte\<close> keeps the low 8 bits.
\<close>

fun be_bytes :: "nat \<Rightarrow> nat \<Rightarrow> bytes" where
  "be_bytes 0 v = []"
| "be_bytes (Suc n) v = word_of_nat (v div 256 ^ n) # be_bytes n v"

fun be_nat_acc :: "nat \<Rightarrow> bytes \<Rightarrow> nat" where
  "be_nat_acc acc [] = acc"
| "be_nat_acc acc (b # bs) = be_nat_acc (acc * 256 + unat b) bs"

text \<open>\<open>big.Int.SetBytes\<close> and \<open>binary.BigEndian.UintN\<close>: the bytes read as a big-endian number.\<close>

definition be_nat :: "bytes \<Rightarrow> nat" where
  "be_nat bs = be_nat_acc 0 bs"

definition putU8 :: "u8 \<Rightarrow> bytes" where
  "putU8 w = [w]"

definition putU16 :: "u16 \<Rightarrow> bytes" where
  "putU16 w = be_bytes 2 (unat w)"

definition putU32 :: "u32 \<Rightarrow> bytes" where
  "putU32 w = be_bytes 4 (unat w)"

definition putU64 :: "u64 \<Rightarrow> bytes" where
  "putU64 w = be_bytes 8 (unat w)"

section \<open>Readers\<close>

text \<open>
  \<open>binary.Read\<close> fills its buffer with \<open>io.ReadFull\<close>: \<open>io.EOF\<close> when nothing is left,
  \<open>io.ErrUnexpectedEOF\<close> when the input ends inside the value.  A reader is a function from
  the unread input to an error or the value with the input that is left.
\<close>

datatype io_error = EOF | ErrUnexpectedEOF | ErrText

type_synonym 'a reader = "bytes \<Rightarrow> io_error + 'a \<times> bytes"

definition readFull :: "nat \<Rightarrow> bytes reader" where
  "readFull n bs =
     (if n \<le> length bs then Inr (take n bs, drop n bs)
      else if bs = [] then Inl EOF else Inl ErrUnexpectedEOF)"

text \<open>\<open>reading\<close> is one \<open>if err = binary.Read(...); err != nil { return nil, err }\<close> step.\<close>

definition reading :: "'a reader \<Rightarrow> bytes \<Rightarrow> ('a \<Rightarrow> bytes \<Rightarrow> io_error + 'b) \<Rightarrow> io_error + 'b" where
  "reading p bs k = (case p bs of Inl e \<Rightarrow> Inl e | Inr (x, r) \<Rightarrow> k x r)"

definition readU8 :: "u8 reader" where
  "readU8 bs = reading (readFull 1) bs (\<lambda>b r. Inr (word_of_nat (be_nat b), r))"

definition readU16 :: "u16 reader" where
  "readU16 bs = reading (readFull 2) bs (\<lambda>b r. Inr (word_of_nat (be_nat b), r))"

definition readU32 :: "u32 reader" where
  "readU32 bs = reading (readFull 4) bs (\<lambda>b r. Inr (word_of_nat (be_nat b), r))"

definition readU64 :: "u64 reader" where
  "readU64 bs = reading (readFull 8) bs (\<lambda>b r. Inr (word_of_nat (be_nat b), r))"

section \<open>Length-prefixed slices\<close>

definition Uint8Len :: "bytes \<Rightarrow> u8" where
  "Uint8Len data = word_of_nat (length data)"

definition Uint16Len :: "bytes \<Rightarrow> u16" where
  "Uint16Len data = word_of_nat (length data)"

definition Uint32Len :: "bytes \<Rightarrow> u32" where
  "Uint32Len data = word_of_nat (length data)"

definition putBytes8 :: "bytes \<Rightarrow> bytes" where
  "putBytes8 b = putU8 (Uint8Len b) @ b"

definition putBytes16 :: "bytes \<Rightarrow> bytes" where
  "putBytes16 b = putU16 (Uint16Len b) @ b"

definition readBytes8 :: "bytes reader" where
  "readBytes8 bs = reading readU8 bs (\<lambda>n r. readFull (unat n) r)"

definition readBytes16 :: "bytes reader" where
  "readBytes16 bs = reading readU16 bs (\<lambda>n r. readFull (unat n) r)"

text \<open>A \<open>for i := 0; i < n; i++\<close> loop that reads one element per round and appends it.\<close>

fun readMany :: "'a reader \<Rightarrow> nat \<Rightarrow> 'a list reader" where
  "readMany p 0 bs = Inr ([], bs)"
| "readMany p (Suc n) bs =
     reading p bs (\<lambda>x r. reading (readMany p n) r (\<lambda>xs r'. Inr (x # xs, r')))"

section \<open>Facts\<close>

lemma length_be_bytes [simp]: "length (be_bytes n v) = n"
  by (induction n) auto

lemma be_nat_acc_eq: "be_nat_acc acc bs = acc * 256 ^ length bs + be_nat_acc 0 bs"
proof (induction bs arbitrary: acc)
  case (Cons b bs)
  show ?case
    using Cons [of "acc * 256 + unat b"] Cons [of "unat b"] by (simp add: algebra_simps)
qed simp

lemma be_nat_Nil [simp]: "be_nat [] = 0"
  by (simp add: be_nat_def)

lemma be_nat_Cons [simp]: "be_nat (b # bs) = unat b * 256 ^ length bs + be_nat bs"
  by (simp add: be_nat_def) (subst be_nat_acc_eq, simp)

lemma be_nat_append: "be_nat (xs @ ys) = be_nat xs * 256 ^ length ys + be_nat ys"
  by (induction xs) (auto simp: algebra_simps power_add)

lemma be_nat_less: "be_nat bs < 256 ^ length bs"
proof (induction bs)
  case (Cons b bs)
  have "unat b \<le> 255"
    using unat_less [of b] by simp
  then have "unat b * 256 ^ length bs \<le> 255 * 256 ^ length bs"
    by (rule mult_right_mono) simp
  with Cons have "unat b * 256 ^ length bs + be_nat bs < 255 * 256 ^ length bs + 256 ^ length bs"
    by (rule add_le_less_mono [rotated])
  then show ?case by simp
qed simp

lemma be_nat_be_bytes: "be_nat (be_bytes n v) = v mod 256 ^ n"
proof (induction n)
  case (Suc n)
  have "v mod 256 ^ Suc n = v mod (256 ^ n * 256)"
    by (simp add: mult.commute)
  also have "\<dots> = 256 ^ n * (v div 256 ^ n mod 256) + v mod 256 ^ n"
    by (rule mod_mult2_eq)
  finally show ?case using Suc
    by (simp add: unat_of_nat mult.commute)
qed simp

lemma be_bytes_be_nat: "be_bytes (length bs) (be_nat bs + k * 256 ^ length bs) = bs"
proof (induction bs arbitrary: k)
  case (Cons b bs)
  let ?p = "256 ^ length bs :: nat"
  have hd: "(be_nat (b # bs) + k * 256 ^ length (b # bs)) div ?p = unat b + k * 256"
  proof -
    have "be_nat (b # bs) + k * 256 ^ length (b # bs) = be_nat bs + (unat b + k * 256) * ?p"
      by (simp add: algebra_simps)
    then show ?thesis
      by (simp only:) (simp add: be_nat_less)
  qed
  have tl: "be_bytes (length bs) (be_nat (b # bs) + k * 256 ^ length (b # bs)) = bs"
    using Cons [of "unat b + k * 256"] by (simp add: algebra_simps)
  have "(word_of_nat (k * 256) :: byte) = 0"
    by (rule word_of_nat_eq_0_iff [THEN iffD2]) simp
  then have "(word_of_nat (unat b + k * 256) :: byte) = b"
    by (simp only: of_nat_add) simp
  with hd tl show ?case by simp
qed simp

lemma be_bytes_be_nat' [simp]: "length bs = n \<Longrightarrow> be_bytes n (be_nat bs) = bs"
  using be_bytes_be_nat [of bs 0] by simp

lemma readFull_iff [wire_simps]: "readFull n bs = Inr (x, r) \<longleftrightarrow> length x = n \<and> bs = x @ r"
  by (auto simp: readFull_def)

lemma reading_Inr_iff [wire_simps]:
  "reading p bs k = Inr z \<longleftrightarrow> (\<exists>x r. p bs = Inr (x, r) \<and> k x r = Inr z)"
  by (auto simp: reading_def split: sum.splits prod.splits)

lemma reading_Inr [simp]: "p bs = Inr (x, r) \<Longrightarrow> reading p bs k = k x r"
  by (simp add: reading_def)

lemma reading_Inl [simp]: "p bs = Inl e \<Longrightarrow> reading p bs k = Inl e"
  by (simp add: reading_def)

lemma reading_cong [fundef_cong]:
  "p = p' \<Longrightarrow> bs = bs' \<Longrightarrow> (\<And>x r. p' bs' = Inr (x, r) \<Longrightarrow> k x r = k' x r)
   \<Longrightarrow> reading p bs k = reading p' bs' k'"
  by (auto simp: reading_def split: sum.splits)

lemma length_put [simp]:
  "length (putU8 a) = 1" "length (putU16 b) = 2" "length (putU32 c) = 4" "length (putU64 d) = 8"
  by (simp_all add: putU8_def putU16_def putU32_def putU64_def)

lemma fixed_width_iff:
  assumes "\<And>w. put w = be_bytes n (unat w)" and "256 ^ n = (2::nat) ^ LENGTH('a::len)"
  shows "reading (readFull n) bs (\<lambda>b r. Inr ((word_of_nat (be_nat b) :: 'a word), r)) = Inr (x, r)
     \<longleftrightarrow> bs = put x @ r"
proof -
  have dec: "(word_of_nat (be_nat (put x)) :: 'a word) = x"
    by (simp add: assms be_nat_be_bytes)
  have enc: "put (word_of_nat (be_nat b)) = b" if "length b = n" for b
    using that be_nat_less [of b] by (simp add: assms unat_of_nat)
  show ?thesis
    using dec enc by (auto simp: wire_simps assms(1))
qed

lemma readU8_iff [wire_simps]: "readU8 bs = Inr (x, r) \<longleftrightarrow> bs = putU8 x @ r"
  unfolding readU8_def by (rule fixed_width_iff) (simp_all add: putU8_def)

lemma readU16_iff [wire_simps]: "readU16 bs = Inr (x, r) \<longleftrightarrow> bs = putU16 x @ r"
  unfolding readU16_def by (rule fixed_width_iff) (simp_all add: putU16_def)

lemma readU32_iff [wire_simps]: "readU32 bs = Inr (x, r) \<longleftrightarrow> bs = putU32 x @ r"
  unfolding readU32_def by (rule fixed_width_iff) (simp_all add: putU32_def)

lemma readU64_iff [wire_simps]: "readU64 bs = Inr (x, r) \<longleftrightarrow> bs = putU64 x @ r"
  unfolding readU64_def by (rule fixed_width_iff) (simp_all add: putU64_def)

lemma unat_Uint8Len: "length b < 256 \<Longrightarrow> unat (Uint8Len b) = length b"
  by (simp add: Uint8Len_def unat_of_nat)

lemma unat_Uint16Len: "length b < 65536 \<Longrightarrow> unat (Uint16Len b) = length b"
  by (simp add: Uint16Len_def unat_of_nat)

lemma unat_Uint32Len: "length b < 2 ^ 32 \<Longrightarrow> unat (Uint32Len b) = length b"
  by (simp add: Uint32Len_def unat_of_nat)

lemma readBytes8_iff [wire_simps]:
  "readBytes8 bs = Inr (x, r) \<longleftrightarrow> length x < 256 \<and> bs = putBytes8 x @ r"
proof -
  have "Uint8Len x = n" if "unat n = length x" for n
    using that by (simp add: Uint8Len_def word_of_nat_eqI)
  then show ?thesis
    using unat_less [where 'a = 8]
    by (auto simp: readBytes8_def putBytes8_def wire_simps unat_Uint8Len)
qed

lemma readBytes16_iff [wire_simps]:
  "readBytes16 bs = Inr (x, r) \<longleftrightarrow> length x < 65536 \<and> bs = putBytes16 x @ r"
proof -
  have "Uint16Len x = n" if "unat n = length x" for n
    using that by (simp add: Uint16Len_def word_of_nat_eqI)
  then show ?thesis
    using unat_less [where 'a = 16]
    by (auto simp: readBytes16_def putBytes16_def wire_simps unat_Uint16Len)
qed

lemma length_putBytes [simp]:
  "length (putBytes8 b) = Suc (length b)" "length (putBytes16 b) = length b + 2"
  by (simp_all add: putBytes8_def putBytes16_def)

section \<open>The contract of a Marshal/Unmarshal pair\<close>

text \<open>
  \<open>valid\<close> are the values the format can carry (lengths that fit their prefix).  The weak
  contract: a valid value is read back from its encoding, with everything behind it left unread.
\<close>

locale wire =
  fixes enc :: "'a \<Rightarrow> bytes" and dec :: "'a reader" and valid :: "'a \<Rightarrow> bool"
  assumes dec_enc: "valid x \<Longrightarrow> dec (enc x @ r) = Inr (x, r)"
begin

lemma dec_enc_whole: "valid x \<Longrightarrow> dec (enc x) = Inr (x, [])"
  using dec_enc [of x "[]"] by simp

text \<open>No encoding is a proper prefix of another: the format is self-delimiting.\<close>

lemma enc_prefix_free:
  assumes "valid x" "valid y" "enc x @ r = enc y @ s"
  shows "x = y \<and> r = s"
proof -
  have "Inr (x, r) = dec (enc x @ r)"
    by (rule dec_enc [OF assms(1), symmetric])
  also have "\<dots> = Inr (y, s)"
    unfolding assms(3) by (rule dec_enc [OF assms(2)])
  finally show ?thesis by simp
qed

lemma enc_inject: "valid x \<Longrightarrow> valid y \<Longrightarrow> enc x = enc y \<longleftrightarrow> x = y"
  using enc_prefix_free [of x y "[]" "[]"] by auto

lemma readMany_enc:
  "\<forall>x \<in> set xs. valid x \<Longrightarrow>
   readMany dec (length xs) (concat (map enc xs) @ r) = Inr (xs, r)"
  by (induction xs) (simp_all add: dec_enc)

end

text \<open>
  The strong contract has both directions: moreover, whatever the decoder accepts is the canonical
  encoding of the value it returns.
\<close>

locale codec =
  fixes enc :: "'a \<Rightarrow> bytes" and dec :: "'a reader" and valid :: "'a \<Rightarrow> bool"
  assumes dec_iff: "dec bs = Inr (x, r) \<longleftrightarrow> valid x \<and> bs = enc x @ r"

sublocale codec \<subseteq> wire enc dec valid
  by unfold_locales (simp add: dec_iff)

context codec
begin

lemma dec_canonical: "dec bs = Inr (x, r) \<Longrightarrow> valid x \<and> bs = enc x @ r"
  by (simp add: dec_iff)

text \<open>A truncated encoding is an error, never another value.\<close>

lemma dec_truncated:
  assumes "valid x" "k < length (enc x)"
  shows "\<exists>e. dec (take k (enc x)) = Inl e"
proof (cases "dec (take k (enc x))")
  case (Inr p)
  obtain y r where p: "p = (y, r)" by (cases p)
  have y: "valid y" "take k (enc x) = enc y @ r"
    using dec_canonical [of "take k (enc x)" y r] Inr p by auto
  have "enc x @ [] = take k (enc x) @ drop k (enc x)"
    by simp
  also have "\<dots> = enc y @ r @ drop k (enc x)"
    unfolding y(2) by simp
  finally have "enc x @ [] = enc y @ r @ drop k (enc x)" .
  then have "[] = r @ drop k (enc x)"
    using enc_prefix_free [OF assms(1) y(1)] by blast
  then show ?thesis using assms(2) by simp
qed simp

lemma readMany_iff:
  "readMany dec n bs = Inr (xs, r) \<longleftrightarrow>
   length xs = n \<and> (\<forall>x \<in> set xs. valid x) \<and> bs = concat (map enc xs) @ r"
proof (induction n arbitrary: bs xs)
  case (Suc n)
  show ?case
  proof
    assume "readMany dec (Suc n) bs = Inr (xs, r)"
    then show "length xs = Suc n \<and> (\<forall>x \<in> set xs. valid x) \<and> bs = concat (map enc xs) @ r"
      by (auto simp: reading_Inr_iff Suc dec_iff)
  next
    assume a: "length xs = Suc n \<and> (\<forall>x \<in> set xs. valid x) \<and> bs = concat (map enc xs) @ r"
    then obtain y ys where "xs = y # ys" by (cases xs) auto
    with a show "readMany dec (Suc n) bs = Inr (xs, r)"
      by (auto simp: reading_Inr_iff Suc dec_iff)
  qed
qed auto

end

text \<open>A count in front of a sequence: \<open>uint16(len(xs))\<close>, then the elements.\<close>

definition putSeq16 :: "('a \<Rightarrow> bytes) \<Rightarrow> 'a list \<Rightarrow> bytes" where
  "putSeq16 enc xs = putU16 (word_of_nat (length xs)) @ concat (map enc xs)"

definition readSeq16 :: "'a reader \<Rightarrow> 'a list reader" where
  "readSeq16 p bs = reading readU16 bs (\<lambda>n r. readMany p (unat n) r)"

definition wfSeq16 :: "('a \<Rightarrow> bool) \<Rightarrow> 'a list \<Rightarrow> bool" where
  "wfSeq16 valid xs \<longleftrightarrow> length xs < 65536 \<and> (\<forall>x \<in> set xs. valid x)"

context wire
begin

lemma readSeq16_enc:
  assumes "wfSeq16 valid xs"
  shows "readSeq16 dec (putSeq16 enc xs @ r) = Inr (xs, r)"
proof -
  have "readU16 (putU16 (word_of_nat (length xs)) @ concat (map enc xs) @ r)
      = Inr (word_of_nat (length xs), concat (map enc xs) @ r)"
    by (simp add: readU16_iff)
  then show ?thesis
    using assms by (simp add: readSeq16_def putSeq16_def wfSeq16_def unat_of_nat readMany_enc)
qed

end

context codec
begin

lemma readSeq16_iff:
  "readSeq16 dec bs = Inr (xs, r) \<longleftrightarrow> wfSeq16 valid xs \<and> bs = putSeq16 enc xs @ r"
proof -
  have len: "word_of_nat (length xs) = (n :: u16)" if "unat n = length xs" for n :: u16
    using that by (rule word_of_nat_eqI)
  have "length xs = unat n \<longleftrightarrow> length xs < 65536 \<and> n = word_of_nat (length xs)" for n :: u16
    using len [of n] unat_less [of n] by (auto simp: unat_of_nat)
  then show ?thesis
    unfolding readSeq16_def putSeq16_def wfSeq16_def reading_Inr_iff readU16_iff readMany_iff
    by (simp only:) auto
qed

end

interpretation u8: codec putU8 readU8 "\<lambda>_. True"
  by unfold_locales (simp add: readU8_iff)

interpretation u16: codec putU16 readU16 "\<lambda>_. True"
  by unfold_locales (simp add: readU16_iff)

interpretation u32: codec putU32 readU32 "\<lambda>_. True"
  by unfold_locales (simp add: readU32_iff)

interpretation u64: codec putU64 readU64 "\<lambda>_. True"
  by unfold_locales (simp add: readU64_iff)

interpretation bytes8: codec putBytes8 readBytes8 "\<lambda>b. length b < 256"
  by unfold_locales (rule readBytes8_iff)

interpretation bytes16: codec putBytes16 readBytes16 "\<lambda>b. length b < 65536"
  by unfold_locales (rule readBytes16_iff)

end
