(* ===== verification/Utils.thy ===== *)
theory Utils
  imports Bytes
begin

text \<open>
  The helpers of \<open>src/utils/utils.go\<close> that the core logic depends on: upper-case hexadecimal
  (the key of every in-memory map), its inverse, the hash length, and
  \<open>utf8.RuneCountInString\<close>, which bounds an evidence's description.  \<open>utils.Hash\<close>
  (SHA-256) is an argument of the definitions that use it, so that every theorem holds for
  any hash function with the stated property.
\<close>

section \<open>Hashing\<close>

type_synonym hasher = "bytes \<Rightarrow> bytes"

definition HashLength :: nat where
  "HashLength = 32"

text \<open>What the code relies on of SHA-256: a digest has \<open>sha256.Size\<close> bytes.\<close>

definition hash_ok :: "hasher \<Rightarrow> bool" where
  "hash_ok Hash \<longleftrightarrow> (\<forall>x. length (Hash x) = HashLength)"

lemma hash_ok_length [simp]: "hash_ok Hash \<Longrightarrow> length (Hash x) = 32"
  by (simp add: hash_ok_def HashLength_def)

text \<open>
  A concrete function of this kind, for evaluation: the input read as a number, modulo a prime,
  in 32 bytes.
\<close>

definition mod_hash :: hasher where
  "mod_hash x = be_bytes 32 (be_nat x mod 1000003)"

lemma mod_hash_ok: "hash_ok mod_hash"
  by (simp add: hash_ok_def mod_hash_def HashLength_def)

section \<open>Hexadecimal\<close>

definition hextable :: string where
  "hextable = ''0123456789abcdef''"

fun EncodeToString :: "bytes \<Rightarrow> string" where
  "EncodeToString [] = []"
| "EncodeToString (b # bs) =
     hextable ! (unat b div 16) # hextable ! (unat b mod 16) # EncodeToString bs"

definition upperChar :: "char \<Rightarrow> char" where
  "upperChar c = (if 97 \<le> (of_char c :: nat) \<and> (of_char c :: nat) \<le> 122
                  then char_of ((of_char c :: nat) - 32) else c)"

definition ToUpper :: "string \<Rightarrow> string" where
  "ToUpper s = map upperChar s"

definition ToHex :: "bytes \<Rightarrow> string" where
  "ToHex data = ToUpper (EncodeToString data)"

datatype hex_error = InvalidByteError char | ErrLength

definition fromHexChar :: "char \<Rightarrow> nat option" where
  "fromHexChar c =
     (let n = (of_char c :: nat) in
      if 48 \<le> n \<and> n \<le> 57 then Some (n - 48)
      else if 97 \<le> n \<and> n \<le> 102 then Some (n - 97 + 10)
      else if 65 \<le> n \<and> n \<le> 70 then Some (n - 65 + 10)
      else None)"

text \<open>\<open>hex.DecodeString\<close>; a trailing odd digit is checked before the length error.\<close>

fun FromHex :: "string \<Rightarrow> hex_error + bytes" where
  "FromHex [] = Inr []"
| "FromHex [c] = (case fromHexChar c of None \<Rightarrow> Inl (InvalidByteError c) | Some _ \<Rightarrow> Inl ErrLength)"
| "FromHex (c # d # s) =
     (case fromHexChar c of
        None \<Rightarrow> Inl (InvalidByteError c)
      | Some a \<Rightarrow>
          (case fromHexChar d of
             None \<Rightarrow> Inl (InvalidByteError d)
           | Some b \<Rightarrow> attempt (FromHex s) (\<lambda>bs. Inr (word_of_nat (a * 16 + b) # bs))))"

section \<open>Counting runes\<close>

text \<open>
  \<open>utf8.RuneCountInString\<close>: the table \<open>first\<close> of \<open>unicode/utf8\<close> gives for each leading
  byte the length of the sequence and the accepted range of its second byte; a byte that does
  not start a valid sequence counts as one rune.
\<close>

definition inRange :: "nat \<Rightarrow> nat \<Rightarrow> byte \<Rightarrow> bool" where
  "inRange lo hi b \<longleftrightarrow> lo \<le> unat b \<and> unat b \<le> hi"

definition runeFirst :: "byte \<Rightarrow> nat \<times> nat \<times> nat" where
  "runeFirst c =
     (if inRange 0xC2 0xDF c then (2, 0x80, 0xBF)
      else if inRange 0xE0 0xE0 c then (3, 0xA0, 0xBF)
      else if inRange 0xE1 0xEC c then (3, 0x80, 0xBF)
      else if inRange 0xED 0xED c then (3, 0x80, 0x9F)
      else if inRange 0xEE 0xEF c then (3, 0x80, 0xBF)
      else if inRange 0xF0 0xF0 c then (4, 0x90, 0xBF)
      else if inRange 0xF1 0xF3 c then (4, 0x80, 0xBF)
      else if inRange 0xF4 0xF4 c then (4, 0x80, 0x8F)
      else (1, 0, 0))"

text \<open>The number of bytes the next rune takes; the string is not empty.\<close>

definition runeLen :: "bytes \<Rightarrow> nat" where
  "runeLen s =
     (let (size, lo, hi) = runeFirst (s ! 0) in
      if size = 1 then 1
      else if length s < size then 1
      else if \<not> inRange lo hi (s ! 1) then 1
      else if size = 2 then 2
      else if \<not> inRange 0x80 0xBF (s ! 2) then 1
      else if size = 3 then 3
      else if \<not> inRange 0x80 0xBF (s ! 3) then 1
      else 4)"

lemma runeLen_pos: "0 < runeLen s"
  by (auto simp: runeLen_def Let_def split: prod.splits)

function RuneCountInString :: "bytes \<Rightarrow> nat" where
  "RuneCountInString s =
     (if s = [] then 0 else Suc (RuneCountInString (drop (runeLen s) s)))"
  by pat_completeness auto
termination
  by (relation "measure length") (auto simp: runeLen_pos)

declare RuneCountInString.simps [simp del]

lemma RuneCountInString_Nil [simp]: "RuneCountInString [] = 0"
  by (simp add: RuneCountInString.simps)

lemma RuneCountInString_Cons:
  "RuneCountInString (c # s) = Suc (RuneCountInString (drop (runeLen (c # s)) (c # s)))"
  by (simp add: RuneCountInString.simps)

section \<open>White space\<close>

text \<open>The encodings of the white space of Unicode, which \<open>strings.TrimSpace\<close> removes at both ends.\<close>

definition whiteSpaces :: "string list" where
  "whiteSpaces = [[CHR 0x09], [CHR 0x0A], [CHR 0x0B], [CHR 0x0C], [CHR 0x0D], [CHR 0x20],
     [CHR 0xC2, CHR 0x85], [CHR 0xC2, CHR 0xA0], [CHR 0xE1, CHR 0x9A, CHR 0x80],
     [CHR 0xE2, CHR 0x80, CHR 0x80], [CHR 0xE2, CHR 0x80, CHR 0x81], [CHR 0xE2, CHR 0x80, CHR 0x82],
     [CHR 0xE2, CHR 0x80, CHR 0x83], [CHR 0xE2, CHR 0x80, CHR 0x84], [CHR 0xE2, CHR 0x80, CHR 0x85],
     [CHR 0xE2, CHR 0x80, CHR 0x86], [CHR 0xE2, CHR 0x80, CHR 0x87], [CHR 0xE2, CHR 0x80, CHR 0x88],
     [CHR 0xE2, CHR 0x80, CHR 0x89], [CHR 0xE2, CHR 0x80, CHR 0x8A], [CHR 0xE2, CHR 0x80, CHR 0xA8],
     [CHR 0xE2, CHR 0x80, CHR 0xA9], [CHR 0xE2, CHR 0x80, CHR 0xAF], [CHR 0xE2, CHR 0x81, CHR 0x9F],
     [CHR 0xE3, CHR 0x80, CHR 0x80]]"

section \<open>Facts\<close>

lemma upto15: "(n::nat) < 16 \<longleftrightarrow> n \<in> {0, 1, 2, 3, 4, 5, 6, 7, 8, 9, 10, 11, 12, 13, 14, 15}"
  by (simp only: insert_iff empty_iff) arith

lemma fromHexChar_hextable:
  assumes "n < 16"
  shows "fromHexChar (upperChar (hextable ! n)) = Some n"
  using assms unfolding upto15
  by (elim insertE emptyE; hypsubst)
    (simp_all add: hextable_def fromHexChar_def upperChar_def)

lemma ToHex_simps [simp]:
  "ToHex [] = []"
  "ToHex (b # bs) =
     upperChar (hextable ! (unat b div 16)) # upperChar (hextable ! (unat b mod 16)) # ToHex bs"
  by (simp_all add: ToHex_def ToUpper_def)

lemma FromHex_ToHex [simp]: "FromHex (ToHex bs) = Inr bs"
proof (induction bs)
  case (Cons b bs)
  have "unat b div 16 < 16" "unat b mod 16 < 16"
    using unat_less [of b] by (simp_all add: less_mult_imp_div_less)
  then show ?case
    using Cons by (simp add: fromHexChar_hextable flip: of_nat_add of_nat_mult)
qed simp

lemma ToHex_inject [simp]: "ToHex xs = ToHex ys \<longleftrightarrow> xs = ys"
  by (metis FromHex_ToHex sum.inject(2))

lemma ToHex_Nil_iff [simp]: "ToHex bs = [] \<longleftrightarrow> bs = []"
  by (metis ToHex_simps(1) ToHex_inject)

lemma length_ToHex [simp]: "length (ToHex bs) = 2 * length bs"
  by (induction bs) auto

lemma RuneCountInString_le: "RuneCountInString s \<le> length s"
proof (induction s rule: RuneCountInString.induct)
  case (1 s)
  show ?case
  proof (cases "s = []")
    case False
    have "RuneCountInString (drop (runeLen s) s) \<le> length (drop (runeLen s) s)"
      using 1 False by simp
    moreover have "length (drop (runeLen s) s) < length s"
      using False runeLen_pos [of s] by simp
    ultimately show ?thesis
      using False by (simp add: RuneCountInString.simps [of s])
  qed (simp add: RuneCountInString.simps)
qed

lemma runeLen_le: "runeLen s \<le> 4"
  by (auto simp: runeLen_def Let_def split: prod.splits)

lemma length_le_RuneCountInString: "length s \<le> 4 * RuneCountInString s"
proof (induction s rule: RuneCountInString.induct)
  case (1 s)
  show ?case
  proof (cases "s = []")
    case False
    have "length (drop (runeLen s) s) \<le> 4 * RuneCountInString (drop (runeLen s) s)"
      using 1 False by simp
    then show ?thesis
      using False runeLen_le [of s] by (simp add: RuneCountInString.simps [of s])
  qed simp
qed

end
