(* ===== verification/CoreProtocol.thy ===== *)
theory CoreProtocol
  imports Utils
begin

text \<open>
  The messages and stored values of \<open>src/serialize/cp\<close>: \<open>Head\<close>, \<open>Evidence\<close>,
  \<open>BlockHeader\<close>, \<open>Block\<close> and the six messages of the core protocol, each with its
  constructor, \<open>Marshal\<close>, \<open>Unmarshal\<close> and \<open>Verify\<close>.  Field names carry a prefix for
  their struct.  The mining cache \<open>pc\<close> of \<open>Evidence\<close> and \<open>BlockHeader\<close> is kept
  beside the value, in theory \<open>Pow\<close>.  A nil slice and an empty one are both \<open>[]\<close>, except
  in \<open>EvidenceBroadcast\<close>, whose \<open>Verify\<close> tells them apart.
  Signatures and keys come from the package btcec, which is an argument here.
\<close>

section \<open>The signature library\<close>

text \<open>
  \<open>btcec.ParseSignature\<close>, \<open>btcec.ParsePubKey\<close>, \<open>Signature.Verify\<close>,
  \<open>PrivateKey.PubKey\<close>, \<open>PublicKey.SerializeCompressed\<close> and \<open>PrivateKey.Sign\<close>
  followed by \<open>Signature.Serialize\<close>, as functions.
\<close>

record ('sig, 'key, 'priv) btcec =
  ParseSignature :: "bytes \<Rightarrow> 'sig option"
  ParsePubKey :: "bytes \<Rightarrow> 'key option"
  VerifySig :: "'sig \<Rightarrow> bytes \<Rightarrow> 'key \<Rightarrow> bool"
  PubKeyOf :: "'priv \<Rightarrow> 'key"
  SerializeCompressed :: "'key \<Rightarrow> bytes"
  SignHash :: "'priv \<Rightarrow> bytes \<Rightarrow> bytes option"

definition PubKeyBytesLenCompressed :: nat where
  "PubKeyBytesLenCompressed = 33"

text \<open>
  What the program relies on: a compressed key has 33 bytes and parses back, and a signature
  made with a private key parses and verifies under its public key.
\<close>

locale signatures =
  fixes ec :: "('sig, 'key, 'priv) btcec"
  assumes compressed_length: "length (SerializeCompressed ec k) = PubKeyBytesLenCompressed"
    and parse_compressed: "ParsePubKey ec (SerializeCompressed ec k) = Some k"
    and sign_verifies: "SignHash ec p h = Some s \<Longrightarrow>
          \<exists>sig. ParseSignature ec s = Some sig \<and> VerifySig ec sig h (PubKeyOf ec p)"

section \<open>Constants\<close>

definition CoreProtocolV1 :: u8 where "CoreProtocolV1 = 1"
definition MsgSyncReq :: u8 where "MsgSyncReq = 1"
definition MsgSyncResp :: u8 where "MsgSyncResp = 2"
definition MsgBlockRequest :: u8 where "MsgBlockRequest = 3"
definition MsgBlockResponse :: u8 where "MsgBlockResponse = 4"
definition MsgBlockBroadcast :: u8 where "MsgBlockBroadcast = 5"
definition MsgEvidenceBroadcast :: u8 where "MsgEvidenceBroadcast = 6"

lemmas cp_consts = CoreProtocolV1_def MsgSyncReq_def MsgSyncResp_def MsgBlockRequest_def
  MsgBlockResponse_def MsgBlockBroadcast_def MsgEvidenceBroadcast_def

text \<open>\<open>[]byte("EMPTY")\<close>.\<close>

definition EmptyEvidenceRoot :: bytes where
  "EmptyEvidenceRoot = [69, 77, 80, 84, 89]"

definition EvidenceMaxDescriptionLen :: nat where
  "EvidenceMaxDescriptionLen = 140"

definition EvidenceBasicLen :: nat where
  "EvidenceBasicLen = 1 + 4 + 1 + 1 + 2 + 2"

datatype cp_error =
    NotUtf8 | DescriptionLength nat
  | EvidenceVersion u8 | EvidenceHashLength nat | EvidencePubKeyLength nat
  | InvalidSignature | InvalidPubKey | SignatureMismatch
  | HeaderVersion | HeaderLastHash | HeaderMiner | HeaderEvidenceRoot
  | BlockHeaderFailed cp_error | ExpectNoEvidence nat | ExpectEvidence | EvidenceFailed cp_error
  | MsgVersion u8 | MsgType u8 | MsgBase | MsgEnd | MsgBlock cp_error
  | MsgNilEvds | MsgEvidence cp_error

section \<open>Head\<close>

record Head =
  hVersion :: u8
  hType :: u8
  hReserved :: u16

definition NewHeadV1 :: "u8 \<Rightarrow> Head" where
  "NewHeadV1 t = \<lparr>hVersion = CoreProtocolV1, hType = t, hReserved = 0\<rparr>"

definition UnmarshalHead :: "Head reader" where
  "UnmarshalHead d0 =
     reading readU8 d0 (\<lambda>version d1.
     reading readU8 d1 (\<lambda>type d2.
     reading readU16 d2 (\<lambda>reserved d3.
     Inr (\<lparr>hVersion = version, hType = type, hReserved = reserved\<rparr>, d3))))"

definition MarshalHead :: "Head \<Rightarrow> bytes" where
  "MarshalHead h = putU8 (hVersion h) @ putU8 (hType h) @ putU16 (hReserved h)"

section \<open>Evidence\<close>

record Evidence =
  eVersion :: u8
  eNonce :: u32
  eHash :: bytes
  eDescription :: bytes
  ePubKey :: bytes
  eSig :: bytes

definition NewEvidenceV1 :: "bytes \<Rightarrow> bytes \<Rightarrow> bytes \<Rightarrow> Evidence" where
  "NewEvidenceV1 hash description pubKey =
     \<lparr>eVersion = CoreProtocolV1, eNonce = 0, eHash = hash, eDescription = description,
      ePubKey = pubKey, eSig = []\<rparr>"

definition UnmarshalEvidence :: "Evidence reader" where
  "UnmarshalEvidence d0 =
     reading readU8 d0 (\<lambda>version d1.
     reading readU32 d1 (\<lambda>nonce d2.
     reading readBytes8 d2 (\<lambda>hash d3.
     reading readBytes16 d3 (\<lambda>description d4.
     reading readBytes8 d4 (\<lambda>pubKey d5.
     reading readBytes16 d5 (\<lambda>sig d6.
     Inr (\<lparr>eVersion = version, eNonce = nonce, eHash = hash, eDescription = description,
           ePubKey = pubKey, eSig = sig\<rparr>, d6)))))))"

definition MarshalEvidence :: "Evidence \<Rightarrow> bytes" where
  "MarshalEvidence e =
     putU8 (eVersion e) @ putU32 (eNonce e) @ putBytes8 (eHash e) @
     putBytes16 (eDescription e) @ putBytes8 (ePubKey e) @ putBytes16 (eSig e)"

definition EvidenceSetNonce :: "Evidence \<Rightarrow> u32 \<Rightarrow> Evidence" where
  "EvidenceSetNonce e nonce = e\<lparr>eNonce := nonce\<rparr>"

definition EvidenceSize :: "Evidence \<Rightarrow> nat" where
  "EvidenceSize e = EvidenceBasicLen + length (eHash e) + length (ePubKey e)
                    + length (eDescription e) + length (eSig e)"

definition EvidenceGetSerializedHash :: "hasher \<Rightarrow> Evidence \<Rightarrow> bytes" where
  "EvidenceGetSerializedHash Hash e = Hash (MarshalEvidence e)"

definition EvidenceGetPow :: "hasher \<Rightarrow> Evidence \<Rightarrow> nat" where
  "EvidenceGetPow Hash e = be_nat (EvidenceGetSerializedHash Hash e)"

definition getSignContentHash :: "hasher \<Rightarrow> Evidence \<Rightarrow> bytes" where
  "getSignContentHash Hash e = Hash (eDescription e @ eHash e)"

definition EvidenceSign ::
  "('sig, 'key, 'priv) btcec \<Rightarrow> hasher \<Rightarrow> Evidence \<Rightarrow> 'priv \<Rightarrow> Evidence option" where
  "EvidenceSign ec Hash e key =
     (case SignHash ec key (getSignContentHash Hash e) of
        None \<Rightarrow> None
      | Some sig \<Rightarrow> Some (e\<lparr>eSig := sig\<rparr>))"

definition verifySig ::
  "('sig, 'key, 'priv) btcec \<Rightarrow> hasher \<Rightarrow> Evidence \<Rightarrow> 'sig \<Rightarrow> 'key \<Rightarrow> bool" where
  "verifySig ec Hash e signature key = VerifySig ec signature (getSignContentHash Hash e) key"

text \<open>\<open>count == -1\<close> is compared as in the source: the count is an \<open>int\<close>.\<close>

definition VerifyDescription :: "bytes \<Rightarrow> cp_error + unit" where
  "VerifyDescription d =
     (let count = int (RuneCountInString d) in
      if count = -1 then Inl NotUtf8
      else if count > int EvidenceMaxDescriptionLen then Inl (DescriptionLength (nat count))
      else Inr ())"

definition EvidenceVerify ::
  "('sig, 'key, 'priv) btcec \<Rightarrow> hasher \<Rightarrow> Evidence \<Rightarrow> cp_error + unit" where
  "EvidenceVerify ec Hash e =
     (if eVersion e \<noteq> CoreProtocolV1 then Inl (EvidenceVersion (eVersion e))
      else if length (eHash e) \<noteq> HashLength then Inl (EvidenceHashLength (length (eHash e)))
      else if length (ePubKey e) \<noteq> PubKeyBytesLenCompressed
        then Inl (EvidencePubKeyLength (length (ePubKey e)))
      else attempt (VerifyDescription (eDescription e)) (\<lambda>_.
        case ParseSignature ec (eSig e) of
          None \<Rightarrow> Inl InvalidSignature
        | Some signature \<Rightarrow>
            (case ParsePubKey ec (ePubKey e) of
               None \<Rightarrow> Inl InvalidPubKey
             | Some key \<Rightarrow>
                 if \<not> verifySig ec Hash e signature key then Inl SignatureMismatch
                 else Inr ())))"

section \<open>BlockHeader\<close>

record BlockHeader =
  bhVersion :: u8
  bhTime :: i64
  bhNonce :: u32
  bhTarget :: u32
  bhLastHash :: bytes
  bhMiner :: bytes
  bhEvidenceRoot :: bytes

text \<open>\<open>now\<close> is \<open>time.Now().Unix()\<close>.\<close>

definition NewBlockHeaderV1 :: "i64 \<Rightarrow> bytes \<Rightarrow> bytes \<Rightarrow> bytes \<Rightarrow> BlockHeader" where
  "NewBlockHeaderV1 now lastHash miner root =
     \<lparr>bhVersion = CoreProtocolV1, bhTime = now, bhNonce = 0, bhTarget = 0,
      bhLastHash = lastHash, bhMiner = miner, bhEvidenceRoot = root\<rparr>"

definition UnmarshalBlockHeader :: "BlockHeader reader" where
  "UnmarshalBlockHeader d0 =
     reading readU8 d0 (\<lambda>version d1.
     reading readU64 d1 (\<lambda>time d2.
     reading readU32 d2 (\<lambda>nonce d3.
     reading readU32 d3 (\<lambda>target d4.
     reading readBytes8 d4 (\<lambda>lastHash d5.
     reading readBytes8 d5 (\<lambda>miner d6.
     reading readBytes8 d6 (\<lambda>evRoot d7.
     Inr (\<lparr>bhVersion = version, bhTime = time, bhNonce = nonce, bhTarget = target,
           bhLastHash = lastHash, bhMiner = miner, bhEvidenceRoot = evRoot\<rparr>, d7))))))))"

definition MarshalBlockHeader :: "BlockHeader \<Rightarrow> bytes" where
  "MarshalBlockHeader b =
     putU8 (bhVersion b) @ putU64 (bhTime b) @ putU32 (bhNonce b) @ putU32 (bhTarget b) @
     putBytes8 (bhLastHash b) @ putBytes8 (bhMiner b) @ putBytes8 (bhEvidenceRoot b)"

definition UpdateTime :: "i64 \<Rightarrow> BlockHeader \<Rightarrow> BlockHeader" where
  "UpdateTime now b = b\<lparr>bhTime := now\<rparr>"

definition HeaderSetNonce :: "BlockHeader \<Rightarrow> u32 \<Rightarrow> BlockHeader" where
  "HeaderSetNonce b nonce = b\<lparr>bhNonce := nonce\<rparr>"

definition SetTarget :: "BlockHeader \<Rightarrow> u32 \<Rightarrow> BlockHeader" where
  "SetTarget b target = b\<lparr>bhTarget := target\<rparr>"

text \<open>A nil \<open>EvidenceRoot\<close> fails as the empty one does.\<close>

definition BlockHeaderVerify :: "BlockHeader \<Rightarrow> cp_error + unit" where
  "BlockHeaderVerify b =
     (if bhVersion b \<noteq> CoreProtocolV1 then Inl HeaderVersion
      else if length (bhLastHash b) \<noteq> HashLength then Inl HeaderLastHash
      else if length (bhMiner b) \<noteq> PubKeyBytesLenCompressed then Inl HeaderMiner
      else if bhEvidenceRoot b = [] then Inl HeaderEvidenceRoot
      else if bhEvidenceRoot b \<noteq> EmptyEvidenceRoot \<and> length (bhEvidenceRoot b) \<noteq> HashLength
        then Inl HeaderEvidenceRoot
      else Inr ())"

definition HeaderGetSerializedHash :: "hasher \<Rightarrow> BlockHeader \<Rightarrow> bytes" where
  "HeaderGetSerializedHash Hash b = Hash (MarshalBlockHeader b)"

definition HeaderGetPow :: "hasher \<Rightarrow> BlockHeader \<Rightarrow> nat" where
  "HeaderGetPow Hash b = be_nat (HeaderGetSerializedHash Hash b)"

definition IsEmptyEvidenceRoot :: "BlockHeader \<Rightarrow> bool" where
  "IsEmptyEvidenceRoot b \<longleftrightarrow> bhEvidenceRoot b = EmptyEvidenceRoot"

definition SetEmptyEvdsRoot :: "BlockHeader \<Rightarrow> BlockHeader" where
  "SetEmptyEvdsRoot b = b\<lparr>bhEvidenceRoot := EmptyEvidenceRoot\<rparr>"

section \<open>Block\<close>

record Block =
  bHeader :: BlockHeader
  bEvds :: "Evidence list"

definition NewBlock :: "BlockHeader \<Rightarrow> Evidence list \<Rightarrow> Block" where
  "NewBlock header evds = \<lparr>bHeader = header, bEvds = evds\<rparr>"

definition UnmarshalBlock :: "Block reader" where
  "UnmarshalBlock d0 =
     reading UnmarshalBlockHeader d0 (\<lambda>header d1.
     reading (readSeq16 UnmarshalEvidence) d1 (\<lambda>evds d2.
     Inr (\<lparr>bHeader = header, bEvds = evds\<rparr>, d2)))"

definition MarshalBlock :: "Block \<Rightarrow> bytes" where
  "MarshalBlock b = MarshalBlockHeader (bHeader b) @ putSeq16 MarshalEvidence (bEvds b)"

definition BlockVerify ::
  "('sig, 'key, 'priv) btcec \<Rightarrow> hasher \<Rightarrow> Block \<Rightarrow> cp_error + unit" where
  "BlockVerify ec Hash b =
     attempt (wrapErr BlockHeaderFailed (BlockHeaderVerify (bHeader b))) (\<lambda>_.
       if IsEmptyEvidenceRoot (bHeader b) \<and> length (bEvds b) \<noteq> 0
         then Inl (ExpectNoEvidence (length (bEvds b)))
       else if \<not> IsEmptyEvidenceRoot (bHeader b) \<and> length (bEvds b) = 0
         then Inl ExpectEvidence
       else checkAll (\<lambda>evd. wrapErr EvidenceFailed (EvidenceVerify ec Hash evd)) (bEvds b))"

definition BlockShallowCopy :: "Block \<Rightarrow> bool \<Rightarrow> Block" where
  "BlockShallowCopy b onlyHeader =
     \<lparr>bHeader = bHeader b, bEvds = (if onlyHeader then [] else bEvds b)\<rparr>"

definition BlockHash :: "hasher \<Rightarrow> Block \<Rightarrow> bytes" where
  "BlockHash Hash b = HeaderGetSerializedHash Hash (bHeader b)"

section \<open>The messages of the core protocol\<close>

record SyncRequest =
  sqHead :: Head
  sqBase :: bytes

definition NewSyncRequest :: "bytes \<Rightarrow> SyncRequest" where
  "NewSyncRequest base = \<lparr>sqHead = NewHeadV1 MsgSyncReq, sqBase = base\<rparr>"

definition UnmarshalSyncRequest :: "SyncRequest reader" where
  "UnmarshalSyncRequest d0 =
     reading UnmarshalHead d0 (\<lambda>h d1.
     reading readBytes8 d1 (\<lambda>base d2.
     Inr (\<lparr>sqHead = h, sqBase = base\<rparr>, d2)))"

definition MarshalSyncRequest :: "SyncRequest \<Rightarrow> bytes" where
  "MarshalSyncRequest s = MarshalHead (sqHead s) @ putBytes8 (sqBase s)"

definition SyncRequestVerify :: "SyncRequest \<Rightarrow> cp_error + unit" where
  "SyncRequestVerify s =
     (if hVersion (sqHead s) \<noteq> CoreProtocolV1 then Inl (MsgVersion (hVersion (sqHead s)))
      else if hType (sqHead s) \<noteq> MsgSyncReq then Inl (MsgType (hType (sqHead s)))
      else if length (sqBase s) \<noteq> HashLength then Inl MsgBase
      else Inr ())"

record SyncResponse =
  srHead :: Head
  srBase :: bytes
  srEnd :: bytes
  srHeightDiff :: u32
  srUptodate :: u8

definition uptodateFlag :: u8 where "uptodateFlag = 1"
definition outOfDateFlag :: u8 where "outOfDateFlag = 0"

definition NewSyncResponse :: "bytes \<Rightarrow> bytes \<Rightarrow> u32 \<Rightarrow> bool \<Rightarrow> SyncResponse" where
  "NewSyncResponse base end heightDiff uptodate =
     \<lparr>srHead = NewHeadV1 MsgSyncResp, srBase = base, srEnd = end, srHeightDiff = heightDiff,
      srUptodate = (if uptodate then uptodateFlag else outOfDateFlag)\<rparr>"

definition UnmarshalSyncResponse :: "SyncResponse reader" where
  "UnmarshalSyncResponse d0 =
     reading UnmarshalHead d0 (\<lambda>h d1.
     reading readBytes8 d1 (\<lambda>base d2.
     reading readBytes8 d2 (\<lambda>end d3.
     reading readU32 d3 (\<lambda>diff d4.
     reading readU8 d4 (\<lambda>uptodate d5.
     Inr (\<lparr>srHead = h, srBase = base, srEnd = end, srHeightDiff = diff,
           srUptodate = uptodate\<rparr>, d5))))))"

definition MarshalSyncResponse :: "SyncResponse \<Rightarrow> bytes" where
  "MarshalSyncResponse s =
     MarshalHead (srHead s) @ putBytes8 (srBase s) @ putBytes8 (srEnd s) @
     putU32 (srHeightDiff s) @ putU8 (srUptodate s)"

definition IsUptodate :: "SyncResponse \<Rightarrow> bool" where
  "IsUptodate s \<longleftrightarrow> srUptodate s = uptodateFlag"

definition SyncResponseVerify :: "SyncResponse \<Rightarrow> cp_error + unit" where
  "SyncResponseVerify s =
     (if hVersion (srHead s) \<noteq> CoreProtocolV1 then Inl (MsgVersion (hVersion (srHead s)))
      else if hType (srHead s) \<noteq> MsgSyncResp then Inl (MsgType (hType (srHead s)))
      else if length (srBase s) \<noteq> HashLength then Inl MsgBase
      else if length (srEnd s) \<noteq> HashLength then Inl MsgEnd
      else Inr ())"

record BlockRequest =
  brqHead :: Head
  brqBase :: bytes
  brqEnd :: bytes
  brqOnlyHeader :: u8

definition onlyHeaderFlag :: u8 where "onlyHeaderFlag = 1"
definition notOnlyHeaderFlag :: u8 where "notOnlyHeaderFlag = 0"

definition NewBlockRequest :: "bytes \<Rightarrow> bytes \<Rightarrow> bool \<Rightarrow> BlockRequest" where
  "NewBlockRequest base end onlyHeader =
     \<lparr>brqHead = NewHeadV1 MsgBlockRequest, brqBase = base, brqEnd = end,
      brqOnlyHeader = (if onlyHeader then onlyHeaderFlag else notOnlyHeaderFlag)\<rparr>"

definition UnmarshalBlockRequest :: "BlockRequest reader" where
  "UnmarshalBlockRequest d0 =
     reading UnmarshalHead d0 (\<lambda>h d1.
     reading readBytes8 d1 (\<lambda>base d2.
     reading readBytes8 d2 (\<lambda>end d3.
     reading readU8 d3 (\<lambda>only d4.
     Inr (\<lparr>brqHead = h, brqBase = base, brqEnd = end, brqOnlyHeader = only\<rparr>, d4)))))"

definition MarshalBlockRequest :: "BlockRequest \<Rightarrow> bytes" where
  "MarshalBlockRequest b =
     MarshalHead (brqHead b) @ putBytes8 (brqBase b) @ putBytes8 (brqEnd b) @
     putU8 (brqOnlyHeader b)"

definition BlockRequestVerify :: "BlockRequest \<Rightarrow> cp_error + unit" where
  "BlockRequestVerify b =
     (if hVersion (brqHead b) \<noteq> CoreProtocolV1 then Inl (MsgVersion (hVersion (brqHead b)))
      else if hType (brqHead b) \<noteq> MsgBlockRequest then Inl (MsgType (hType (brqHead b)))
      else if length (brqBase b) \<noteq> HashLength then Inl MsgBase
      else if length (brqEnd b) \<noteq> HashLength then Inl MsgEnd
      else Inr ())"

definition IsOnlyHeader :: "BlockRequest \<Rightarrow> bool" where
  "IsOnlyHeader b \<longleftrightarrow> brqOnlyHeader b = onlyHeaderFlag"

record BlockResponse =
  brsHead :: Head
  brsBlocks :: "Block list"

definition NewBlockResponse :: "Block list \<Rightarrow> BlockResponse" where
  "NewBlockResponse blocks = \<lparr>brsHead = NewHeadV1 MsgBlockResponse, brsBlocks = blocks\<rparr>"

definition UnmarshalBlockResponse :: "BlockResponse reader" where
  "UnmarshalBlockResponse d0 =
     reading UnmarshalHead d0 (\<lambda>h d1.
     reading (readSeq16 UnmarshalBlock) d1 (\<lambda>blocks d2.
     Inr (\<lparr>brsHead = h, brsBlocks = blocks\<rparr>, d2)))"

definition MarshalBlockResponse :: "BlockResponse \<Rightarrow> bytes" where
  "MarshalBlockResponse b = MarshalHead (brsHead b) @ putSeq16 MarshalBlock (brsBlocks b)"

definition BlockResponseVerify ::
  "('sig, 'key, 'priv) btcec \<Rightarrow> hasher \<Rightarrow> BlockResponse \<Rightarrow> cp_error + unit" where
  "BlockResponseVerify ec Hash b =
     (if hVersion (brsHead b) \<noteq> CoreProtocolV1 then Inl (MsgVersion (hVersion (brsHead b)))
      else if hType (brsHead b) \<noteq> MsgBlockResponse then Inl (MsgType (hType (brsHead b)))
      else checkAll (\<lambda>block. wrapErr MsgBlock (BlockVerify ec Hash block)) (brsBlocks b))"

record BlockBroadcast =
  bbHead :: Head
  bbBlock :: Block

definition NewBlockBroadcast :: "Block \<Rightarrow> BlockBroadcast" where
  "NewBlockBroadcast block = \<lparr>bbHead = NewHeadV1 MsgBlockBroadcast, bbBlock = block\<rparr>"

definition UnmarshalBlockBroadcast :: "BlockBroadcast reader" where
  "UnmarshalBlockBroadcast d0 =
     reading UnmarshalHead d0 (\<lambda>h d1.
     reading UnmarshalBlock d1 (\<lambda>block d2.
     Inr (\<lparr>bbHead = h, bbBlock = block\<rparr>, d2)))"

definition MarshalBlockBroadcast :: "BlockBroadcast \<Rightarrow> bytes" where
  "MarshalBlockBroadcast b = MarshalHead (bbHead b) @ MarshalBlock (bbBlock b)"

definition BlockBroadcastVerify ::
  "('sig, 'key, 'priv) btcec \<Rightarrow> hasher \<Rightarrow> BlockBroadcast \<Rightarrow> cp_error + unit" where
  "BlockBroadcastVerify ec Hash b =
     (if hVersion (bbHead b) \<noteq> CoreProtocolV1 then Inl (MsgVersion (hVersion (bbHead b)))
      else if hType (bbHead b) \<noteq> MsgBlockBroadcast then Inl (MsgType (hType (bbHead b)))
      else wrapErr MsgBlock (BlockVerify ec Hash (bbBlock b)))"

text \<open>\<open>None\<close> is the nil slice, which is what \<open>append\<close> in a loop of no rounds leaves.\<close>

record EvidenceBroadcast =
  ebHead :: Head
  ebEvds :: "Evidence list option"

definition NewEvidenceBroadcast :: "Evidence list option \<Rightarrow> EvidenceBroadcast" where
  "NewEvidenceBroadcast evds = \<lparr>ebHead = NewHeadV1 MsgEvidenceBroadcast, ebEvds = evds\<rparr>"

definition sliceList :: "'a list option \<Rightarrow> 'a list" where
  "sliceList s = (case s of None \<Rightarrow> [] | Some xs \<Rightarrow> xs)"

definition appended :: "'a list \<Rightarrow> 'a list option" where
  "appended xs = (if xs = [] then None else Some xs)"

definition UnmarshalEvidenceBroadcast :: "EvidenceBroadcast reader" where
  "UnmarshalEvidenceBroadcast d0 =
     reading UnmarshalHead d0 (\<lambda>h d1.
     reading (readSeq16 UnmarshalEvidence) d1 (\<lambda>evds d2.
     Inr (\<lparr>ebHead = h, ebEvds = appended evds\<rparr>, d2)))"

text \<open>\<open>binary.Write\<close> of the struct \<open>Head\<close> writes its fields in order, as its \<open>Marshal\<close> does.\<close>

definition MarshalEvidenceBroadcast :: "EvidenceBroadcast \<Rightarrow> bytes" where
  "MarshalEvidenceBroadcast e =
     putU8 (hVersion (ebHead e)) @ putU8 (hType (ebHead e)) @ putU16 (hReserved (ebHead e)) @
     putSeq16 MarshalEvidence (sliceList (ebEvds e))"

definition EvidenceBroadcastVerify ::
  "('sig, 'key, 'priv) btcec \<Rightarrow> hasher \<Rightarrow> EvidenceBroadcast \<Rightarrow> cp_error + unit" where
  "EvidenceBroadcastVerify ec Hash e =
     (if hVersion (ebHead e) \<noteq> CoreProtocolV1 then Inl (MsgVersion (hVersion (ebHead e)))
      else if hType (ebHead e) \<noteq> MsgEvidenceBroadcast then Inl (MsgType (hType (ebHead e)))
      else case ebEvds e of
             None \<Rightarrow> Inl MsgNilEvds
           | Some evds \<Rightarrow>
               checkAll (\<lambda>evd. wrapErr MsgEvidence (EvidenceVerify ec Hash evd)) evds)"

end
