(* ===== verification/CoreProtocolFacts.thy ===== *)
theory CoreProtocolFacts
  imports CoreProtocol
begin

text \<open>
  Correctness of \<open>src/serialize/cp\<close>: every message meets the contract \<open>codec\<close>, \<open>Size\<close>
  is the length of the encoding, what \<open>Verify\<close> accepts fits its format, a signed evidence
  passes \<open>Verify\<close>, and the signed content determines the description and the hash.
\<close>

section \<open>Values the formats can carry\<close>

definition evidence_fits :: "Evidence \<Rightarrow> bool" where
  "evidence_fits e \<longleftrightarrow> length (eHash e) < 256 \<and> length (eDescription e) < 65536
     \<and> length (ePubKey e) < 256 \<and> length (eSig e) < 65536"

definition header_fits :: "BlockHeader \<Rightarrow> bool" where
  "header_fits b \<longleftrightarrow> length (bhLastHash b) < 256 \<and> length (bhMiner b) < 256
     \<and> length (bhEvidenceRoot b) < 256"

definition block_fits :: "Block \<Rightarrow> bool" where
  "block_fits b \<longleftrightarrow> header_fits (bHeader b) \<and> wfSeq16 evidence_fits (bEvds b)"

definition evidence_broadcast_fits :: "EvidenceBroadcast \<Rightarrow> bool" where
  "evidence_broadcast_fits e \<longleftrightarrow>
     ebEvds e \<noteq> Some [] \<and> wfSeq16 evidence_fits (sliceList (ebEvds e))"

section \<open>Every message meets the codec contract\<close>

lemma Head_dec_iff [wire_simps]: "UnmarshalHead bs = Inr (h, r) \<longleftrightarrow> bs = MarshalHead h @ r"
  by (cases h) (auto simp: UnmarshalHead_def MarshalHead_def wire_simps)

lemma Evidence_dec_iff [wire_simps]:
  "UnmarshalEvidence bs = Inr (e, r) \<longleftrightarrow> evidence_fits e \<and> bs = MarshalEvidence e @ r"
  by (cases e) (auto simp: UnmarshalEvidence_def MarshalEvidence_def evidence_fits_def wire_simps)

lemma BlockHeader_dec_iff [wire_simps]:
  "UnmarshalBlockHeader bs = Inr (b, r) \<longleftrightarrow> header_fits b \<and> bs = MarshalBlockHeader b @ r"
  by (cases b)
    (auto simp: UnmarshalBlockHeader_def MarshalBlockHeader_def header_fits_def wire_simps)

interpretation head: codec MarshalHead UnmarshalHead "\<lambda>_. True"
  by unfold_locales (simp add: Head_dec_iff)

interpretation evidence: codec MarshalEvidence UnmarshalEvidence evidence_fits
  by unfold_locales (rule Evidence_dec_iff)

interpretation block_header: codec MarshalBlockHeader UnmarshalBlockHeader header_fits
  by unfold_locales (rule BlockHeader_dec_iff)

lemma Block_dec_iff [wire_simps]:
  "UnmarshalBlock bs = Inr (b, r) \<longleftrightarrow> block_fits b \<and> bs = MarshalBlock b @ r"
  by (cases b)
    (auto simp: UnmarshalBlock_def MarshalBlock_def block_fits_def wire_simps
      evidence.readSeq16_iff)

interpretation block: codec MarshalBlock UnmarshalBlock block_fits
  by unfold_locales (rule Block_dec_iff)

interpretation sync_request: codec MarshalSyncRequest UnmarshalSyncRequest
  "\<lambda>s. length (sqBase s) < 256"
proof unfold_locales
  show "UnmarshalSyncRequest bs = Inr (s, r) \<longleftrightarrow>
    length (sqBase s) < 256 \<and> bs = MarshalSyncRequest s @ r" for bs s r
    by (cases s) (auto simp: UnmarshalSyncRequest_def MarshalSyncRequest_def wire_simps)
qed

interpretation sync_response: codec MarshalSyncResponse UnmarshalSyncResponse
  "\<lambda>s. length (srBase s) < 256 \<and> length (srEnd s) < 256"
proof unfold_locales
  show "UnmarshalSyncResponse bs = Inr (s, r) \<longleftrightarrow>
    (length (srBase s) < 256 \<and> length (srEnd s) < 256) \<and> bs = MarshalSyncResponse s @ r" for bs s r
    by (cases s) (auto simp: UnmarshalSyncResponse_def MarshalSyncResponse_def wire_simps)
qed

interpretation block_request: codec MarshalBlockRequest UnmarshalBlockRequest
  "\<lambda>b. length (brqBase b) < 256 \<and> length (brqEnd b) < 256"
proof unfold_locales
  show "UnmarshalBlockRequest bs = Inr (b, r) \<longleftrightarrow>
    (length (brqBase b) < 256 \<and> length (brqEnd b) < 256) \<and> bs = MarshalBlockRequest b @ r" for bs b r
    by (cases b) (auto simp: UnmarshalBlockRequest_def MarshalBlockRequest_def wire_simps)
qed

interpretation block_response: codec MarshalBlockResponse UnmarshalBlockResponse
  "\<lambda>b. wfSeq16 block_fits (brsBlocks b)"
proof unfold_locales
  show "UnmarshalBlockResponse bs = Inr (b, r) \<longleftrightarrow>
    wfSeq16 block_fits (brsBlocks b) \<and> bs = MarshalBlockResponse b @ r" for bs b r
    by (cases b) (auto simp: UnmarshalBlockResponse_def MarshalBlockResponse_def wire_simps
        block.readSeq16_iff)
qed

interpretation block_broadcast: codec MarshalBlockBroadcast UnmarshalBlockBroadcast
  "\<lambda>b. block_fits (bbBlock b)"
proof unfold_locales
  show "UnmarshalBlockBroadcast bs = Inr (b, r) \<longleftrightarrow>
    block_fits (bbBlock b) \<and> bs = MarshalBlockBroadcast b @ r" for bs b r
    by (cases b) (auto simp: UnmarshalBlockBroadcast_def MarshalBlockBroadcast_def wire_simps)
qed

lemma sliceList_appended [simp]: "sliceList (appended xs) = xs"
  by (simp add: sliceList_def appended_def)

lemma eq_appended_iff: "s = appended xs \<longleftrightarrow> s \<noteq> Some [] \<and> xs = sliceList s"
  by (cases s) (auto simp: sliceList_def appended_def)

interpretation evidence_broadcast: codec MarshalEvidenceBroadcast UnmarshalEvidenceBroadcast
  evidence_broadcast_fits
proof unfold_locales
  fix bs r and e :: EvidenceBroadcast
  obtain h s where e: "e = \<lparr>ebHead = h, ebEvds = s\<rparr>" by (cases e)
  have "UnmarshalEvidenceBroadcast bs = Inr (e, r) \<longleftrightarrow>
    (\<exists>evds. s = appended evds \<and> wfSeq16 evidence_fits evds \<and>
       bs = MarshalHead h @ putSeq16 MarshalEvidence evds @ r)"
    unfolding e UnmarshalEvidenceBroadcast_def
    by (auto simp: wire_simps evidence.readSeq16_iff)
  also have "\<dots> \<longleftrightarrow> s \<noteq> Some [] \<and> wfSeq16 evidence_fits (sliceList s) \<and>
       bs = MarshalHead h @ putSeq16 MarshalEvidence (sliceList s) @ r"
    unfolding eq_appended_iff by blast
  finally show "UnmarshalEvidenceBroadcast bs = Inr (e, r) \<longleftrightarrow>
      evidence_broadcast_fits e \<and> bs = MarshalEvidenceBroadcast e @ r"
    by (simp add: e evidence_broadcast_fits_def MarshalEvidenceBroadcast_def MarshalHead_def)
qed

section \<open>Verify\<close>

lemma VerifyDescription_ok [simp]:
  "VerifyDescription d = Inr () \<longleftrightarrow> RuneCountInString d \<le> 140"
  by (auto simp: VerifyDescription_def Let_def EvidenceMaxDescriptionLen_def)

lemma EvidenceVerify_ok:
  "EvidenceVerify ec Hash e = Inr () \<longleftrightarrow>
     eVersion e = CoreProtocolV1 \<and> length (eHash e) = 32 \<and> length (ePubKey e) = 33 \<and>
     RuneCountInString (eDescription e) \<le> 140 \<and>
     (\<exists>s k. ParseSignature ec (eSig e) = Some s \<and> ParsePubKey ec (ePubKey e) = Some k \<and>
            VerifySig ec s (getSignContentHash Hash e) k)"
  by (auto simp: EvidenceVerify_def HashLength_def PubKeyBytesLenCompressed_def attempt_eq_Inr
      verifySig_def split: option.splits)

lemma BlockHeaderVerify_ok:
  "BlockHeaderVerify b = Inr () \<longleftrightarrow>
     bhVersion b = CoreProtocolV1 \<and> length (bhLastHash b) = 32 \<and> length (bhMiner b) = 33 \<and>
     (bhEvidenceRoot b = EmptyEvidenceRoot \<or> length (bhEvidenceRoot b) = 32)"
  by (auto simp: BlockHeaderVerify_def HashLength_def PubKeyBytesLenCompressed_def
      EmptyEvidenceRoot_def)

lemma BlockVerify_ok:
  "BlockVerify ec Hash b = Inr () \<longleftrightarrow>
     BlockHeaderVerify (bHeader b) = Inr () \<and>
     (IsEmptyEvidenceRoot (bHeader b) \<longleftrightarrow> bEvds b = []) \<and>
     (\<forall>e \<in> set (bEvds b). EvidenceVerify ec Hash e = Inr ())"
  by (auto simp: BlockVerify_def attempt_eq_Inr)

lemma header_fits_of_Verify: "BlockHeaderVerify b = Inr () \<Longrightarrow> header_fits b"
  by (auto simp: BlockHeaderVerify_ok header_fits_def EmptyEvidenceRoot_def)

section \<open>Sizes\<close>

lemma length_MarshalEvidence: "length (MarshalEvidence e) = EvidenceSize e"
  by (simp add: MarshalEvidence_def EvidenceSize_def EvidenceBasicLen_def)

lemma length_MarshalBlockHeader:
  "length (MarshalBlockHeader b) =
     20 + length (bhLastHash b) + length (bhMiner b) + length (bhEvidenceRoot b)"
  by (simp add: MarshalBlockHeader_def)

section \<open>Properties\<close>

text \<open>
  C27 Wire round trip. A block whose lengths fit their prefixes is read back from its encoding by
  \<open>UnmarshalBlock\<close>, whatever follows it in the input; conversely, whatever \<open>UnmarshalBlock\<close>
  accepts is exactly \<open>Marshal\<close> of the block it returns, which fits its prefixes, followed by the
  unread rest; and the encoding cut short anywhere is an error, not another block.
\<close>

theorem block_wire_roundtrip:
  assumes "block_fits b"
  shows "UnmarshalBlock (MarshalBlock b @ rest) = Inr (b, rest)
    \<and> (\<forall>bs b' r. UnmarshalBlock bs = Inr (b', r) \<longrightarrow> block_fits b' \<and> bs = MarshalBlock b' @ r)
    \<and> (\<forall>k < length (MarshalBlock b). \<exists>e. UnmarshalBlock (take k (MarshalBlock b)) = Inl e)"
  using assms block.dec_enc block.dec_canonical block.dec_truncated by blast

theorem block_wire_roundtrip_witness:
  defines "w \<equiv> \<lparr>bHeader = NewBlockHeaderV1 7 [1] [2, 3] EmptyEvidenceRoot,
                bEvds = [NewEvidenceV1 [4] [5] [6]]\<rparr>"
  shows "block_fits w \<and> UnmarshalBlock (MarshalBlock w @ [9, 9]) = Inr (w, [9, 9])"
proof -
  have w: "block_fits w"
    by (simp add: w_def block_fits_def header_fits_def wfSeq16_def evidence_fits_def
        NewBlockHeaderV1_def NewEvidenceV1_def EmptyEvidenceRoot_def)
  from block_wire_roundtrip [OF w, of "[9, 9]"] w show ?thesis by simp
qed

text \<open>
  C28 All six messages of the core protocol keep their content on the wire, and nothing else is
  accepted: each decoder returns a message and a rest exactly when the message fits its length
  prefixes and the input is the encoding of the message followed by that rest.
\<close>

theorem messages_wire_roundtrip:
  "(UnmarshalSyncRequest bs = Inr (q, rest) \<longleftrightarrow>
      length (sqBase q) < 256 \<and> bs = MarshalSyncRequest q @ rest)
   \<and> (UnmarshalSyncResponse bs = Inr (s, rest) \<longleftrightarrow>
        (length (srBase s) < 256 \<and> length (srEnd s) < 256) \<and> bs = MarshalSyncResponse s @ rest)
   \<and> (UnmarshalBlockRequest bs = Inr (r, rest) \<longleftrightarrow>
        (length (brqBase r) < 256 \<and> length (brqEnd r) < 256) \<and> bs = MarshalBlockRequest r @ rest)
   \<and> (UnmarshalBlockResponse bs = Inr (p, rest) \<longleftrightarrow>
        wfSeq16 block_fits (brsBlocks p) \<and> bs = MarshalBlockResponse p @ rest)
   \<and> (UnmarshalBlockBroadcast bs = Inr (c, rest) \<longleftrightarrow>
        block_fits (bbBlock c) \<and> bs = MarshalBlockBroadcast c @ rest)
   \<and> (UnmarshalEvidenceBroadcast bs = Inr (d, rest) \<longleftrightarrow>
        evidence_broadcast_fits d \<and> bs = MarshalEvidenceBroadcast d @ rest)"
  by (intro conjI sync_request.dec_iff sync_response.dec_iff block_request.dec_iff
      block_response.dec_iff block_broadcast.dec_iff evidence_broadcast.dec_iff)

text \<open>
  What \<open>Verify\<close> accepts can be sent: an evidence that passes \<open>Verify\<close> has at most
  560 description bytes and, when its signature is shorter than 65536 bytes, survives the wire;
  and \<open>Size\<close>, which fills blocks up to \<open>BlockSize\<close>, is the length of its encoding.
\<close>

theorem verified_evidence_fits:
  assumes "EvidenceVerify ec Hash e = Inr ()" and "length (eSig e) < 65536"
  shows "UnmarshalEvidence (MarshalEvidence e) = Inr (e, [])
    \<and> length (MarshalEvidence e) = EvidenceSize e
    \<and> EvidenceSize e \<le> 636 + length (eSig e)"
proof -
  have desc: "length (eDescription e) \<le> 560"
    using assms(1) length_le_RuneCountInString [of "eDescription e"] by (auto simp: EvidenceVerify_ok)
  then have "evidence_fits e"
    using assms by (auto simp: EvidenceVerify_ok evidence_fits_def)
  then show ?thesis
    using assms(1) desc
    by (simp add: evidence.dec_enc_whole length_MarshalEvidence EvidenceSize_def EvidenceVerify_ok
        EvidenceBasicLen_def)
qed

text \<open>
  A signature library that keeps the laws, for evaluation: one key pair, whose compressed form is 33
  bytes, and the signature of a digest is the digest.
\<close>

definition toy_ec :: "(bytes, unit, unit) btcec" where
  "toy_ec = \<lparr>ParseSignature = Some, ParsePubKey = (\<lambda>b. Some ()),
     VerifySig = (\<lambda>s h k. s = h), PubKeyOf = id,
     SerializeCompressed = (\<lambda>k. replicate 33 2), SignHash = (\<lambda>p h. Some h)\<rparr>"

interpretation toy: signatures toy_ec
  by unfold_locales (simp_all add: toy_ec_def PubKeyBytesLenCompressed_def)

definition toy_evidence :: Evidence where
  "toy_evidence = \<lparr>eVersion = 1, eNonce = 0, eHash = replicate 32 5, eDescription = [104, 105],
     ePubKey = replicate 33 2, eSig = mod_hash ([104, 105] @ replicate 32 5)\<rparr>"

lemma RuneCountInString_ascii: "RuneCountInString [104, 105] = 2"
  by (simp add: RuneCountInString_Cons runeLen_def runeFirst_def inRange_def)

lemma toy_evidence_verifies: "EvidenceVerify toy_ec mod_hash toy_evidence = Inr ()"
  by (simp add: EvidenceVerify_ok toy_ec_def toy_evidence_def RuneCountInString_ascii
      getSignContentHash_def CoreProtocolV1_def)

theorem verified_evidence_fits_witness:
  "EvidenceVerify toy_ec mod_hash toy_evidence = Inr ()
   \<and> UnmarshalEvidence (MarshalEvidence toy_evidence) = Inr (toy_evidence, [])"
proof -
  have "length (eSig toy_evidence) < 65536"
    by (simp add: toy_evidence_def mod_hash_ok)
  from verified_evidence_fits [OF toy_evidence_verifies this] toy_evidence_verifies
  show ?thesis by blast
qed

text \<open>
  Signing and verifying agree: an evidence built by \<open>NewEvidenceV1\<close> from a 32-byte hash, a
  description of at most 140 characters and the signer's compressed key passes \<open>Verify\<close>
  after \<open>Sign\<close>, whatever nonce is set afterwards, because the signed content leaves the nonce out.
\<close>

theorem signed_evidence_verifies:
  assumes "signatures ec"
    and "length hash = 32" and "RuneCountInString description \<le> 140"
    and "EvidenceSign ec Hash
           (NewEvidenceV1 hash description (SerializeCompressed ec (PubKeyOf ec priv))) priv = Some e"
  shows "EvidenceVerify ec Hash (EvidenceSetNonce e nonce) = Inr ()"
proof -
  let ?e = "NewEvidenceV1 hash description (SerializeCompressed ec (PubKeyOf ec priv))"
  from assms(4) obtain s where s: "SignHash ec priv (getSignContentHash Hash ?e) = Some s"
    and e: "e = ?e\<lparr>eSig := s\<rparr>"
    by (auto simp: EvidenceSign_def split: option.splits)
  show ?thesis
    using signatures.sign_verifies [OF assms(1) s] signatures.parse_compressed [OF assms(1)]
      signatures.compressed_length [OF assms(1)] assms(2,3)
    by (auto simp: e EvidenceVerify_ok EvidenceSetNonce_def NewEvidenceV1_def
        getSignContentHash_def PubKeyBytesLenCompressed_def)
qed

theorem signed_evidence_verifies_witness:
  "\<exists>e. EvidenceSign toy_ec mod_hash (NewEvidenceV1 (replicate 32 5) [104, 105]
          (SerializeCompressed toy_ec (PubKeyOf toy_ec ()))) () = Some e
     \<and> EvidenceVerify toy_ec mod_hash (EvidenceSetNonce e 77) = Inr ()"
proof -
  obtain e where e: "EvidenceSign toy_ec mod_hash (NewEvidenceV1 (replicate 32 5) [104, 105]
      (SerializeCompressed toy_ec (PubKeyOf toy_ec ()))) () = Some e"
    by (simp add: EvidenceSign_def toy_ec_def)
  have "length (replicate 32 (5::byte)) = 32" "RuneCountInString [104, 105] \<le> 140"
    by (simp_all add: RuneCountInString_ascii)
  from signed_evidence_verifies [OF toy.signatures_axioms this e] e show ?thesis by blast
qed

text \<open>
  C33 A signature covers the description and the hash, nothing can move between them, and nothing
  else is covered: two evidences that pass \<open>Verify\<close> have the same signed digest exactly when they
  have the same description and the same hash, whatever their nonces and public keys are, when the
  hash function does not collide on their contents.
\<close>

theorem signed_content_binding:
  assumes "EvidenceVerify ec Hash e1 = Inr ()" and "EvidenceVerify ec Hash e2 = Inr ()"
    and "inj_on Hash {eDescription e1 @ eHash e1, eDescription e2 @ eHash e2}"
  shows "getSignContentHash Hash e1 = getSignContentHash Hash e2 \<longleftrightarrow>
    eDescription e1 = eDescription e2 \<and> eHash e1 = eHash e2"
proof
  assume "getSignContentHash Hash e1 = getSignContentHash Hash e2"
  then have "Hash (eDescription e1 @ eHash e1) = Hash (eDescription e2 @ eHash e2)"
    by (simp add: getSignContentHash_def)
  then have "eDescription e1 @ eHash e1 = eDescription e2 @ eHash e2"
    by (rule inj_onD [OF assms(3)]) simp_all
  moreover have "length (eHash e1) = length (eHash e2)"
    using assms(1,2) by (simp add: EvidenceVerify_ok)
  ultimately show "eDescription e1 = eDescription e2 \<and> eHash e1 = eHash e2" by simp
qed (simp add: getSignContentHash_def)

theorem signed_content_binding_witness:
  "getSignContentHash mod_hash toy_evidence = getSignContentHash mod_hash (toy_evidence\<lparr>eNonce := 9\<rparr>)
   \<and> eDescription toy_evidence = eDescription (toy_evidence\<lparr>eNonce := 9\<rparr>)"
proof -
  have "EvidenceVerify toy_ec mod_hash (toy_evidence\<lparr>eNonce := 9\<rparr>) = Inr ()"
    using toy_evidence_verifies by (simp add: EvidenceVerify_ok getSignContentHash_def)
  from signed_content_binding [OF toy_evidence_verifies this] show ?thesis by simp
qed

text \<open>
  The UTF-8 check never fires: \<open>VerifyDescription\<close> returns no "not utf-8" error for any byte
  string, since a rune count is never negative; a lone continuation byte, which is not UTF-8, is
  accepted.  The only rejection is more than 140 runes, with the count in the error.
\<close>

theorem description_check:
  "VerifyDescription d =
     (if RuneCountInString d > 140 then Inl (DescriptionLength (RuneCountInString d)) else Inr ())
   \<and> VerifyDescription [0x80] = Inr ()"
  by (auto simp: VerifyDescription_def Let_def EvidenceMaxDescriptionLen_def
      RuneCountInString_Cons runeLen_def runeFirst_def inRange_def)

text \<open>
  The reply "already up to date" is built as \<open>NewSyncResponse(nil, nil, 0, true)\<close> and is
  rejected by its own \<open>Verify\<close>: its base is not a hash.
\<close>

theorem uptodate_response_fails_verify:
  "IsUptodate (NewSyncResponse [] [] 0 True)
   \<and> SyncResponseVerify (NewSyncResponse [] [] 0 True) = Inl MsgBase"
  by (simp add: NewSyncResponse_def IsUptodate_def SyncResponseVerify_def NewHeadV1_def
      HashLength_def)

end
