(* ===== verification/StorageFormat.thy ===== *)
theory StorageFormat
  imports CoreProtocolFacts
begin

text \<open>
  The values of \<open>src/serialize/storage\<close>: a stored header is the wire header with its height, a
  stored block is the list of its evidences' hashes, a stored evidence is the wire evidence.
\<close>

record StoredHeader =
  shHeader :: BlockHeader
  shHeight :: u64

definition StorageNewBlockHeader :: "BlockHeader \<Rightarrow> u64 \<Rightarrow> StoredHeader" where
  "StorageNewBlockHeader h height = \<lparr>shHeader = h, shHeight = height\<rparr>"

definition StorageUnmarshalBlockHeader :: "StoredHeader reader" where
  "StorageUnmarshalBlockHeader d0 =
     reading UnmarshalBlockHeader d0 (\<lambda>h d1.
     reading readU64 d1 (\<lambda>height d2.
     Inr (\<lparr>shHeader = h, shHeight = height\<rparr>, d2)))"

definition StorageMarshalBlockHeader :: "StoredHeader \<Rightarrow> bytes" where
  "StorageMarshalBlockHeader b = MarshalBlockHeader (shHeader b) @ putU64 (shHeight b)"

type_synonym StoredBlock = "bytes list"

definition StorageNewBlock :: "bytes list \<Rightarrow> StoredBlock" where
  "StorageNewBlock evdsHash = evdsHash"

definition StorageUnmarshalBlock :: "StoredBlock reader" where
  "StorageUnmarshalBlock d0 =
     reading readU16 d0 (\<lambda>evdsSize d1. readMany readBytes8 (unat evdsSize) d1)"

definition StorageMarshalBlock :: "StoredBlock \<Rightarrow> bytes" where
  "StorageMarshalBlock b =
     putU16 (word_of_nat (length b)) @ concat (map (\<lambda>evdH. putBytes8 evdH) b)"

definition StorageUnmarshalEvidence :: "Evidence reader" where
  "StorageUnmarshalEvidence d0 = UnmarshalEvidence d0"

lemma StoredHeader_dec_iff:
  "StorageUnmarshalBlockHeader bs = Inr (b, r) \<longleftrightarrow>
   header_fits (shHeader b) \<and> bs = StorageMarshalBlockHeader b @ r"
  by (cases b)
    (auto simp: StorageUnmarshalBlockHeader_def StorageMarshalBlockHeader_def wire_simps)

lemma StoredBlock_dec_iff:
  "StorageUnmarshalBlock bs = Inr (b, r) \<longleftrightarrow>
   wfSeq16 (\<lambda>h. length h < 256) b \<and> bs = StorageMarshalBlock b @ r"
  using bytes8.readSeq16_iff
  by (simp add: StorageUnmarshalBlock_def StorageMarshalBlock_def readSeq16_def putSeq16_def)

interpretation stored_header: codec StorageMarshalBlockHeader StorageUnmarshalBlockHeader
  "\<lambda>b. header_fits (shHeader b)"
  by unfold_locales (rule StoredHeader_dec_iff)

interpretation stored_block: codec StorageMarshalBlock StorageUnmarshalBlock
  "wfSeq16 (\<lambda>h. length h < 256)"
  by unfold_locales (rule StoredBlock_dec_iff)

interpretation stored_evidence: codec MarshalEvidence StorageUnmarshalEvidence evidence_fits
  by unfold_locales (simp add: StorageUnmarshalEvidence_def evidence.dec_iff)

end
