(* ===== verification/PeerID.thy ===== *)
theory PeerID
  imports CoreProtocolFacts
begin

text \<open>
  The peer identifiers of \<open>src/crypto/id.go\<close>: the base-32 text of a compressed public key.  The
  coding is that of package \<open>encoding/base32\<close> with the standard alphabet and no padding, quantum
  by quantum; \<open>DecodeString\<close> returns the bytes decoded before the first malformed quantum, and the
  callers drop its error.
\<close>

unbundle bit_operations_syntax

section \<open>Base 32\<close>

definition encodeStd :: string where
  "encodeStd = ''ABCDEFGHIJKLMNOPQRSTUVWXYZ234567''"

definition encode32 :: "byte \<Rightarrow> char" where
  "encode32 b = encodeStd ! unat b"

text \<open>The inverse table of the alphabet; \<open>0xFF\<close> marks a character outside of it.\<close>

definition decode32 :: "char \<Rightarrow> byte" where
  "decode32 c =
     (if 65 \<le> (of_char c :: nat) \<and> (of_char c :: nat) \<le> 90 then word_of_nat (of_char c - 65)
      else if 50 \<le> (of_char c :: nat) \<and> (of_char c :: nat) \<le> 55 then word_of_nat (of_char c - 24)
      else 255)"

text \<open>The 5-bit groups of a quantum of at most five bytes.\<close>

definition grp0 :: "byte \<Rightarrow> byte" where "grp0 a = drop_bit 3 a"
definition grp1 :: "byte \<Rightarrow> byte \<Rightarrow> byte" where "grp1 a b = (push_bit 2 a AND 31) OR (drop_bit 6 b AND 31)"
definition grp2 :: "byte \<Rightarrow> byte" where "grp2 b = drop_bit 1 b AND 31"
definition grp3 :: "byte \<Rightarrow> byte \<Rightarrow> byte" where "grp3 b c = (push_bit 4 b AND 31) OR (drop_bit 4 c AND 31)"
definition grp4 :: "byte \<Rightarrow> byte \<Rightarrow> byte" where "grp4 c d = (push_bit 1 c AND 31) OR drop_bit 7 d"
definition grp5 :: "byte \<Rightarrow> byte" where "grp5 d = drop_bit 2 d AND 31"
definition grp6 :: "byte \<Rightarrow> byte \<Rightarrow> byte" where "grp6 d e = (push_bit 3 d AND 31) OR drop_bit 5 e"
definition grp7 :: "byte \<Rightarrow> byte" where "grp7 e = e AND 31"

fun groups32 :: "bytes \<Rightarrow> bytes" where
  "groups32 (a # b # c # d # e # rest) =
     grp0 a # grp1 a b # grp2 b # grp3 b c # grp4 c d # grp5 d # grp6 d e # grp7 e # groups32 rest"
| "groups32 [a, b, c, d] = [grp0 a, grp1 a b, grp2 b, grp3 b c, grp4 c d, grp5 d, grp6 d 0]"
| "groups32 [a, b, c] = [grp0 a, grp1 a b, grp2 b, grp3 b c, grp4 c 0]"
| "groups32 [a, b] = [grp0 a, grp1 a b, grp2 b, grp3 b 0]"
| "groups32 [a] = [grp0 a, grp1 a 0]"
| "groups32 [] = []"

definition base32EncodeToString :: "bytes \<Rightarrow> string" where
  "base32EncodeToString src = map encode32 (groups32 src)"

text \<open>
  One quantum of \<open>decode\<close>: the bytes of \<open>dlen\<close> groups, by the cases 8, 7, 5, 4, 2 that fall
  through; with 6 or 3 or 1 groups no case applies and nothing is written.
\<close>

fun quantum32 :: "bytes \<Rightarrow> bytes" where
  "quantum32 [p, q, r, s, t, u, v, w] =
     [push_bit 3 p OR drop_bit 2 q, push_bit 6 q OR push_bit 1 r OR drop_bit 4 s,
      push_bit 4 s OR drop_bit 1 t, push_bit 7 t OR push_bit 2 u OR drop_bit 3 v, push_bit 5 v OR w]"
| "quantum32 [p, q, r, s, t, u, v] =
     [push_bit 3 p OR drop_bit 2 q, push_bit 6 q OR push_bit 1 r OR drop_bit 4 s,
      push_bit 4 s OR drop_bit 1 t, push_bit 7 t OR push_bit 2 u OR drop_bit 3 v]"
| "quantum32 [p, q, r, s, t] =
     [push_bit 3 p OR drop_bit 2 q, push_bit 6 q OR push_bit 1 r OR drop_bit 4 s,
      push_bit 4 s OR drop_bit 1 t]"
| "quantum32 [p, q, r, s] =
     [push_bit 3 p OR drop_bit 2 q, push_bit 6 q OR push_bit 1 r OR drop_bit 4 s]"
| "quantum32 [p, q] = [push_bit 3 p OR drop_bit 2 q]"
| "quantum32 _ = []"

text \<open>The loop over the quanta, and whether it met a corrupt character.\<close>

function decodeLoop32 :: "string \<Rightarrow> bytes \<times> bool" where
  "decodeLoop32 src =
     (if src = [] then ([], True)
      else let dbuf = map decode32 (take 8 src)
        in if 255 \<in> set dbuf then ([], False)
           else let (out, good) = decodeLoop32 (drop 8 src) in (quantum32 dbuf @ out, good))"
  by pat_completeness auto

termination by (relation "measure length") auto

declare decodeLoop32.simps [simp del]

text \<open>\<open>DecodeString\<close> removes line breaks first.\<close>

definition base32DecodeString :: "string \<Rightarrow> bytes \<times> bool" where
  "base32DecodeString s = decodeLoop32 (filter (\<lambda>c. c \<noteq> CHR 0x0D \<and> c \<noteq> CHR 0x0A) s)"

section \<open>Identifiers\<close>

definition BytesToID :: "bytes \<Rightarrow> string" where
  "BytesToID compressedKey = base32EncodeToString compressedKey"

definition PubKeyToID :: "('sig, 'key, 'priv) btcec \<Rightarrow> 'key \<Rightarrow> string" where
  "PubKeyToID ec pubKey = base32EncodeToString (SerializeCompressed ec pubKey)"

definition PrivKeyToID :: "('sig, 'key, 'priv) btcec \<Rightarrow> 'priv \<Rightarrow> string" where
  "PrivKeyToID ec privKey = PubKeyToID ec (PubKeyOf ec privKey)"

definition IDToBytes :: "string \<Rightarrow> bytes" where
  "IDToBytes s = fst (base32DecodeString s)"

text \<open>The slice that \<open>IDToBytes\<close> returns is never nil, so its nil check never fires.\<close>

definition IDToPubKey :: "('sig, 'key, 'priv) btcec \<Rightarrow> string \<Rightarrow> 'key option" where
  "IDToPubKey ec s = ParsePubKey ec (IDToBytes s)"

section \<open>Facts\<close>

lemmas grp_defs = grp0_def grp1_def grp2_def grp3_def grp4_def grp5_def grp6_def grp7_def

lemma less8_cases: "n < 8 \<Longrightarrow> n = 0 \<or> n = 1 \<or> n = 2 \<or> n = 3 \<or> n = 4 \<or> n = 5 \<or> n = 6 \<or> n = (7::nat)"
  by arith

lemma bit_31: "bit (31 :: byte) n \<longleftrightarrow> n < 5" "bit (31 :: int) n \<longleftrightarrow> n < 5"
proof -
  have "(31 :: byte) = mask 5" "(31 :: int) = mask 5" by (simp_all add: mask_eq_exp_minus_1)
  then show "bit (31 :: byte) n \<longleftrightarrow> n < 5" "bit (31 :: int) n \<longleftrightarrow> n < 5"
    by (simp_all only: bit_mask_iff possible_bit_def) auto
qed

lemma ungroup:
  "push_bit 3 (grp0 a) OR drop_bit 2 (grp1 a b) = a"
  "push_bit 6 (grp1 a b) OR push_bit 1 (grp2 b) OR drop_bit 4 (grp3 b c) = b"
  "push_bit 4 (grp3 b c) OR drop_bit 1 (grp4 c d) = c"
  "push_bit 7 (grp4 c d) OR push_bit 2 (grp5 d) OR drop_bit 3 (grp6 d e) = d"
  "push_bit 5 (grp6 d e) OR grp7 e = e"
proof -
  have byteI: "x = y" if "\<And>n. n = 0 \<or> n = 1 \<or> n = 2 \<or> n = 3 \<or> n = 4 \<or> n = 5 \<or> n = 6 \<or> n = 7 \<Longrightarrow>
      bit x n \<longleftrightarrow> bit y n" for x y :: byte
    by (rule bit_word_eqI) (use that less8_cases in simp)
  show "push_bit 3 (grp0 a) OR drop_bit 2 (grp1 a b) = a"
    by (rule byteI) (auto simp: grp_defs bit_simps bit_31 simp del: push_bit_Suc)
  show "push_bit 6 (grp1 a b) OR push_bit 1 (grp2 b) OR drop_bit 4 (grp3 b c) = b"
    by (rule byteI) (auto simp: grp_defs bit_simps bit_31 numeral_eq_Suc simp del: push_bit_Suc)
  show "push_bit 4 (grp3 b c) OR drop_bit 1 (grp4 c d) = c"
    by (rule byteI) (auto simp: grp_defs bit_simps bit_31 simp del: push_bit_Suc)
  show "push_bit 7 (grp4 c d) OR push_bit 2 (grp5 d) OR drop_bit 3 (grp6 d e) = d"
    by (rule byteI) (auto simp: grp_defs bit_simps bit_31 numeral_eq_Suc simp del: push_bit_Suc)
  show "push_bit 5 (grp6 d e) OR grp7 e = e"
    by (rule byteI) (auto simp: grp_defs bit_simps bit_31 simp del: push_bit_Suc)
qed

lemma groups32_range: "g \<in> set (groups32 bs) \<Longrightarrow> unat g < 32"
proof -
  have r: "unat g < 32" if "\<And>n. bit g n \<Longrightarrow> n < 5" for g :: byte
  proof -
    have "g = g AND 31" by (rule bit_word_eqI) (metis bit_31 bit_and_iff that)
    moreover have "unat (g AND 31) \<le> unat (31::byte)" by (simp only: word_le_nat_alt [symmetric] word_and_le1)
    ultimately show ?thesis by simp
  qed
  have *: "unat (grp0 a) < 32" "unat (grp1 a b) < 32" "unat (grp2 a) < 32" "unat (grp3 a b) < 32"
    "unat (grp4 a b) < 32" "unat (grp5 a) < 32" "unat (grp6 a b) < 32" "unat (grp7 a) < 32" for a b
    by (rule r; auto simp: grp_defs bit_simps bit_31 dest: bit_imp_le_length)+
  show "g \<in> set (groups32 bs) \<Longrightarrow> unat g < 32"
    by (induction bs rule: groups32.induct) (auto simp: *)
qed

lemma decode_encode32:
  assumes "unat g < 32" shows "decode32 (encode32 g) = g" "encode32 g \<noteq> CHR 0x0D" "encode32 g \<noteq> CHR 0x0A"
proof -
  have all: "\<forall>k \<in> set [0..<32]. decode32 (encodeStd ! k) = word_of_nat k \<and>
      encodeStd ! k \<noteq> CHR 0x0D \<and> encodeStd ! k \<noteq> CHR 0x0A"
    by (simp add: decode32_def encodeStd_def upt_rec)
  from assms have "unat g \<in> set [0..<32]" by simp
  with all show "decode32 (encode32 g) = g" "encode32 g \<noteq> CHR 0x0D" "encode32 g \<noteq> CHR 0x0A"
    unfolding encode32_def by (auto simp del: set_upt)
qed

lemma quantum32_groups:
  "quantum32 [grp0 a, grp1 a b, grp2 b, grp3 b c, grp4 c d, grp5 d, grp6 d e, grp7 e] = [a, b, c, d, e]"
  "quantum32 [grp0 a, grp1 a b, grp2 b, grp3 b c, grp4 c d, grp5 d, grp6 d 0] = [a, b, c, d]"
  "quantum32 [grp0 a, grp1 a b, grp2 b, grp3 b c, grp4 c 0] = [a, b, c]"
  "quantum32 [grp0 a, grp1 a b, grp2 b, grp3 b 0] = [a, b]"
  "quantum32 [grp0 a, grp1 a 0] = [a]"
  using ungroup by (simp_all del: push_bit_Suc One_nat_def)

lemma decodeLoop32_groups:
  assumes "\<And>g. g \<in> set gs \<Longrightarrow> unat g < 32"
  shows "decodeLoop32 (map encode32 gs) =
    (if gs = [] then ([], True)
     else let (out, good) = decodeLoop32 (map encode32 (drop 8 gs)) in (quantum32 (take 8 gs) @ out, good))"
proof -
  have m: "map decode32 (take 8 (map encode32 gs)) = take 8 gs"
    using assms by (auto simp: take_map intro!: map_idI decode_encode32(1) dest!: in_set_takeD)
  have n: "(255 :: byte) \<notin> set (take 8 gs)"
    using assms [of 255] by (auto dest!: in_set_takeD)
  show ?thesis by (subst decodeLoop32.simps) (simp only: m n Let_def drop_map simp_thms if_False map_is_Nil_conv)
qed

lemma decodeLoop32_encode: "decodeLoop32 (map encode32 (groups32 bs)) = (bs, True)"
proof (induction bs rule: groups32.induct)
  case (1 a b c d e rest)
  then show ?case
    by (subst decodeLoop32_groups) (erule groups32_range, simp add: quantum32_groups del: quantum32.simps)
qed (subst decodeLoop32_groups, erule groups32_range, simp add: quantum32_groups decodeLoop32.simps del: quantum32.simps)+

lemma base32_roundtrip: "base32DecodeString (base32EncodeToString bs) = (bs, True)"
proof -
  have "filter (\<lambda>c. c \<noteq> CHR 0x0D \<and> c \<noteq> CHR 0x0A) (map encode32 (groups32 bs)) = map encode32 (groups32 bs)"
    using decode_encode32(2,3) groups32_range by (auto simp: filter_id_conv)
  then show ?thesis by (simp add: base32DecodeString_def base32EncodeToString_def decodeLoop32_encode)
qed

lemma length_groups32: "length (groups32 bs) = (8 * length bs + 4) div 5"
  by (induction bs rule: groups32.induct) auto

section \<open>Properties\<close>

text \<open>
  A peer identifier names one key: \<open>IDToBytes\<close> gives back the bytes of an identifier,
  \<open>IDToPubKey\<close> gives back the key it was made from, the identifiers of two keys differ unless the
  keys are equal, and each has 53 characters.
\<close>

theorem peer_id_roundtrip:
  assumes "signatures ec"
  shows "IDToBytes (BytesToID bs) = bs \<and> IDToPubKey ec (PubKeyToID ec k) = Some k \<and>
    (PubKeyToID ec k = PubKeyToID ec k' \<longleftrightarrow> k = k') \<and> length (PubKeyToID ec k) = 53"
proof (intro conjI)
  have inv: "IDToBytes (base32EncodeToString xs) = xs" for xs
    by (simp add: IDToBytes_def base32_roundtrip)
  then show "IDToBytes (BytesToID bs) = bs" by (simp add: BytesToID_def)
  have key: "IDToPubKey ec (PubKeyToID ec j) = Some j" for j
    using signatures.parse_compressed [OF assms] by (simp add: IDToPubKey_def PubKeyToID_def inv)
  then show "IDToPubKey ec (PubKeyToID ec k) = Some k" .
  show "PubKeyToID ec k = PubKeyToID ec k' \<longleftrightarrow> k = k'" by (metis key option.inject)
  show "length (PubKeyToID ec k) = 53"
    using signatures.compressed_length [OF assms, of k]
    by (simp add: PubKeyToID_def base32EncodeToString_def length_groups32 PubKeyBytesLenCompressed_def)
qed

theorem peer_id_roundtrip_witness:
  "signatures toy_ec \<and> IDToBytes (BytesToID [2, 255, 7]) = [2, 255, 7] \<and>
   IDToPubKey toy_ec (PubKeyToID toy_ec ()) = Some () \<and> length (PubKeyToID toy_ec ()) = 53"
  using peer_id_roundtrip [OF toy.signatures_axioms, of "[2, 255, 7]" "()" "()"] toy.signatures_axioms by blast

text \<open>
  A malformed identifier does not give nil, as the comment of \<open>IDToBytes\<close> says, but the bytes in
  front of the malformed quantum.
\<close>

lemma malformed_id_gives_prefix: "IDToBytes ''AAAAAAAA!'' = [0, 0, 0, 0, 0]"
  by (simp add: IDToBytes_def base32DecodeString_def decodeLoop32.simps decode32_def)

end
