(* ===== verification/Discover.thy ===== *)
theory Discover
  imports Bytes
begin

text \<open>
  The messages of the peer discovery protocol, \<open>src/serialize/discover\<close>: ping, pong and the
  exchange of neighbours.  A node's address is written as the text of its IP; the conversions
  \<open>IP.MarshalText\<close> and \<open>IP.UnmarshalText\<close> of package \<open>net\<close> are the arguments \<open>ipText\<close> and
  \<open>parse\<close>, and the locale \<open>ip_text\<close> states what the messages rely on.
\<close>

type_synonym IP = bytes

section \<open>Head\<close>

definition DiscoverV1 :: u8 where "DiscoverV1 = 1"
definition MsgPing :: u8 where "MsgPing = 1"
definition MsgPong :: u8 where "MsgPong = 2"
definition MsgGetNeighbours :: u8 where "MsgGetNeighbours = 3"
definition MsgNeighbours :: u8 where "MsgNeighbours = 4"

record DiscvHead =
  dhVersion :: u8
  dhType :: u8
  dhTime :: i64
  dhReserved :: u16

text \<open>\<open>now\<close> is \<open>time.Now().Unix()\<close>.\<close>

definition DiscvNewHeadV1 :: "i64 \<Rightarrow> u8 \<Rightarrow> DiscvHead" where
  "DiscvNewHeadV1 now t = \<lparr>dhVersion = DiscoverV1, dhType = t, dhTime = now, dhReserved = 0\<rparr>"

definition DiscvUnmarshalHead :: "DiscvHead reader" where
  "DiscvUnmarshalHead d0 =
     reading readU8 d0 (\<lambda>version d1.
     reading readU8 d1 (\<lambda>type d2.
     reading readU64 d2 (\<lambda>time d3.
     reading readU16 d3 (\<lambda>reserved d4.
     Inr (\<lparr>dhVersion = version, dhType = type, dhTime = time, dhReserved = reserved\<rparr>, d4)))))"

definition DiscvMarshalHead :: "DiscvHead \<Rightarrow> bytes" where
  "DiscvMarshalHead h =
     putU8 (dhVersion h) @ putU8 (dhType h) @ putU64 (dhTime h) @ putU16 (dhReserved h)"

section \<open>Address and node\<close>

text \<open>The port is an \<open>int32\<close>, written as its 32 bits.\<close>

record Address =
  adIP :: IP
  adPort :: u32

text \<open>\<open>parseIP\<close> is \<open>net.ParseIP\<close>, which returns nil for a text that is not an address.\<close>

definition NewAddress :: "(string \<Rightarrow> IP option) \<Rightarrow> string \<Rightarrow> u32 \<Rightarrow> Address option" where
  "NewAddress parseIP ipstr port =
     (case parseIP ipstr of None \<Rightarrow> None | Some ip \<Rightarrow> Some \<lparr>adIP = ip, adPort = port\<rparr>)"

definition UnmarshalAddress :: "(bytes \<Rightarrow> IP option) \<Rightarrow> Address reader" where
  "UnmarshalAddress parse d0 =
     reading readBytes8 d0 (\<lambda>ipBuf d1.
     case parse ipBuf of
       None \<Rightarrow> Inl ErrText
     | Some ip \<Rightarrow>
         reading readU32 d1 (\<lambda>port d2. Inr (\<lparr>adIP = ip, adPort = port\<rparr>, d2)))"

text \<open>The error of \<open>MarshalText\<close> is dropped; it then returns no bytes.\<close>

definition MarshalAddress :: "(IP \<Rightarrow> bytes) \<Rightarrow> Address \<Rightarrow> bytes" where
  "MarshalAddress ipText a = putBytes8 (ipText (adIP a)) @ putU32 (adPort a)"

record Node =
  ndAddr :: Address
  ndPubKey :: bytes

definition NewNode :: "Address \<Rightarrow> bytes \<Rightarrow> Node" where
  "NewNode addr pubKey = \<lparr>ndAddr = addr, ndPubKey = pubKey\<rparr>"

definition UnmarshalNode :: "(bytes \<Rightarrow> IP option) \<Rightarrow> Node reader" where
  "UnmarshalNode parse d0 =
     reading (UnmarshalAddress parse) d0 (\<lambda>addr d1.
     reading readBytes8 d1 (\<lambda>pubKey d2.
     Inr (\<lparr>ndAddr = addr, ndPubKey = pubKey\<rparr>, d2)))"

definition MarshalNode :: "(IP \<Rightarrow> bytes) \<Rightarrow> Node \<Rightarrow> bytes" where
  "MarshalNode ipText n = MarshalAddress ipText (ndAddr n) @ putBytes8 (ndPubKey n)"

section \<open>Ping, pong, get neighbours, neighbours\<close>

record Ping =
  piHead :: DiscvHead
  piPubKey :: bytes

definition NewPing :: "i64 \<Rightarrow> bytes \<Rightarrow> Ping" where
  "NewPing now pubKey = \<lparr>piHead = DiscvNewHeadV1 now MsgPing, piPubKey = pubKey\<rparr>"

definition MarshalPing :: "Ping \<Rightarrow> bytes" where
  "MarshalPing p = DiscvMarshalHead (piHead p) @ putBytes8 (piPubKey p)"

definition UnmarshalPing :: "Ping reader" where
  "UnmarshalPing d0 =
     reading DiscvUnmarshalHead d0 (\<lambda>head d1.
     reading readBytes8 d1 (\<lambda>pubKey d2.
     Inr (\<lparr>piHead = head, piPubKey = pubKey\<rparr>, d2)))"

record Pong =
  poHead :: DiscvHead
  poPingHash :: bytes
  poPubKey :: bytes

definition NewPong :: "i64 \<Rightarrow> bytes \<Rightarrow> bytes \<Rightarrow> Pong" where
  "NewPong now pingHash pubKey =
     \<lparr>poHead = DiscvNewHeadV1 now MsgPong, poPingHash = pingHash, poPubKey = pubKey\<rparr>"

definition UnmarshalPong :: "Pong reader" where
  "UnmarshalPong d0 =
     reading DiscvUnmarshalHead d0 (\<lambda>head d1.
     reading readBytes8 d1 (\<lambda>pingHash d2.
     reading readBytes8 d2 (\<lambda>pubKey d3.
     Inr (\<lparr>poHead = head, poPingHash = pingHash, poPubKey = pubKey\<rparr>, d3))))"

definition MarshalPong :: "Pong \<Rightarrow> bytes" where
  "MarshalPong p = DiscvMarshalHead (poHead p) @ putBytes8 (poPingHash p) @ putBytes8 (poPubKey p)"

record GetNeighbours =
  gnHead :: DiscvHead
  gnPubKey :: bytes

definition NewGetNeighbours :: "i64 \<Rightarrow> bytes \<Rightarrow> GetNeighbours" where
  "NewGetNeighbours now pubKey = \<lparr>gnHead = DiscvNewHeadV1 now MsgGetNeighbours, gnPubKey = pubKey\<rparr>"

definition UnmarshalGetNeighbours :: "GetNeighbours reader" where
  "UnmarshalGetNeighbours d0 =
     reading DiscvUnmarshalHead d0 (\<lambda>head d1.
     reading readBytes8 d1 (\<lambda>pubKey d2.
     Inr (\<lparr>gnHead = head, gnPubKey = pubKey\<rparr>, d2)))"

definition MarshalGetNeighbours :: "GetNeighbours \<Rightarrow> bytes" where
  "MarshalGetNeighbours g = DiscvMarshalHead (gnHead g) @ putBytes8 (gnPubKey g)"

record Neighbours =
  nbHead :: DiscvHead
  nbNodes :: "Node list"

definition NewNeighbours :: "i64 \<Rightarrow> Node list \<Rightarrow> Neighbours" where
  "NewNeighbours now nodes = \<lparr>nbHead = DiscvNewHeadV1 now MsgNeighbours, nbNodes = nodes\<rparr>"

definition UnmarshalNeighbours :: "(bytes \<Rightarrow> IP option) \<Rightarrow> Neighbours reader" where
  "UnmarshalNeighbours parse d0 =
     reading DiscvUnmarshalHead d0 (\<lambda>head d1.
     reading readU16 d1 (\<lambda>nodesNum d2.
     reading (readMany (UnmarshalNode parse) (unat nodesNum)) d2 (\<lambda>nodes d3.
     Inr (\<lparr>nbHead = head, nbNodes = nodes\<rparr>, d3))))"

text \<open>The loop counts in \<open>uint16\<close> up to \<open>uint16(len(n.Nodes))\<close>.\<close>

definition MarshalNeighbours :: "(IP \<Rightarrow> bytes) \<Rightarrow> Neighbours \<Rightarrow> bytes" where
  "MarshalNeighbours ipText n =
     (let nodesNum = word_of_nat (length (nbNodes n)) :: u16
      in DiscvMarshalHead (nbHead n) @ putU16 nodesNum
         @ concat (map (MarshalNode ipText) (take (unat nodesNum) (nbNodes n))))"

section \<open>Facts\<close>

lemma DiscvHead_iff [wire_simps]:
  "DiscvUnmarshalHead bs = Inr (h, r) \<longleftrightarrow> bs = DiscvMarshalHead h @ r"
  by (cases h) (auto simp: DiscvUnmarshalHead_def DiscvMarshalHead_def wire_simps)

interpretation discv_head: codec DiscvMarshalHead DiscvUnmarshalHead "\<lambda>_. True"
  by unfold_locales (simp add: DiscvHead_iff)

interpretation ping: codec MarshalPing UnmarshalPing "\<lambda>p. length (piPubKey p) < 256"
proof unfold_locales
  show "UnmarshalPing bs = Inr (p, r) \<longleftrightarrow> length (piPubKey p) < 256 \<and> bs = MarshalPing p @ r" for bs p r
    by (cases p) (auto simp: UnmarshalPing_def MarshalPing_def wire_simps)
qed

interpretation pong: codec MarshalPong UnmarshalPong
  "\<lambda>p. length (poPingHash p) < 256 \<and> length (poPubKey p) < 256"
proof unfold_locales
  show "UnmarshalPong bs = Inr (p, r)
      \<longleftrightarrow> (length (poPingHash p) < 256 \<and> length (poPubKey p) < 256) \<and> bs = MarshalPong p @ r" for bs p r
    by (cases p) (auto simp: UnmarshalPong_def MarshalPong_def wire_simps)
qed

interpretation get_neighbours: codec MarshalGetNeighbours UnmarshalGetNeighbours
  "\<lambda>g. length (gnPubKey g) < 256"
proof unfold_locales
  show "UnmarshalGetNeighbours bs = Inr (g, r)
      \<longleftrightarrow> length (gnPubKey g) < 256 \<and> bs = MarshalGetNeighbours g @ r" for bs g r
    by (cases g) (auto simp: UnmarshalGetNeighbours_def MarshalGetNeighbours_def wire_simps)
qed

text \<open>
  What the address relies on: the text of an address of interest fits a length byte and is parsed
  back to it.  (The converse fails: one address has several texts, so \<open>Address\<close> only meets the
  weak contract.)
\<close>

definition node_fits :: "(IP \<Rightarrow> bool) \<Rightarrow> Node \<Rightarrow> bool" where
  "node_fits ok n \<longleftrightarrow> ok (adIP (ndAddr n)) \<and> length (ndPubKey n) < 256"

locale ip_text =
  fixes ipText :: "IP \<Rightarrow> bytes" and parse :: "bytes \<Rightarrow> IP option" and ok :: "IP \<Rightarrow> bool"
  assumes parse_text: "ok ip \<Longrightarrow> parse (ipText ip) = Some ip"
    and text_short: "ok ip \<Longrightarrow> length (ipText ip) < 256"

sublocale ip_text \<subseteq> address: wire "MarshalAddress ipText" "UnmarshalAddress parse" "\<lambda>a. ok (adIP a)"
proof unfold_locales
  fix a :: Address and r assume a: "ok (adIP a)"
  show "UnmarshalAddress parse (MarshalAddress ipText a @ r) = Inr (a, r)"
    using bytes8.dec_enc [OF text_short [OF a], of "putU32 (adPort a) @ r"]
    by (simp add: UnmarshalAddress_def MarshalAddress_def parse_text [OF a] u32.dec_enc)
qed

sublocale ip_text \<subseteq> node: wire "MarshalNode ipText" "UnmarshalNode parse" "node_fits ok"
  by unfold_locales
    (simp add: UnmarshalNode_def MarshalNode_def node_fits_def address.dec_enc bytes8.dec_enc)

sublocale ip_text \<subseteq> neighbours: wire "MarshalNeighbours ipText" "UnmarshalNeighbours parse"
  "\<lambda>m. wfSeq16 (node_fits ok) (nbNodes m)"
proof unfold_locales
  fix m :: Neighbours and r assume m: "wfSeq16 (node_fits ok) (nbNodes m)"
  have len: "unat (word_of_nat (length (nbNodes m)) :: u16) = length (nbNodes m)"
    using m by (simp add: wfSeq16_def unat_of_nat)
  show "UnmarshalNeighbours parse (MarshalNeighbours ipText m @ r) = Inr (m, r)"
    using m by (simp add: UnmarshalNeighbours_def MarshalNeighbours_def Let_def len wfSeq16_def
        discv_head.dec_enc u16.dec_enc node.readMany_enc)
qed

context ip_text
begin

lemmas neighbours_dec_enc = neighbours.dec_enc

end

section \<open>IPv4 texts\<close>

text \<open>
  The part of \<open>net.IP\<close>'s text form that IPv4 addresses use: an address is kept in its 16-byte
  form and written in dotted decimal.
\<close>

definition decDigit :: "nat \<Rightarrow> byte" where
  "decDigit d = word_of_nat (48 + d)"

definition decByte :: "byte \<Rightarrow> bytes" where
  "decByte b =
     (let n = unat b in
      if n < 10 then [decDigit n]
      else if n < 100 then [decDigit (n div 10), decDigit (n mod 10)]
      else [decDigit (n div 100), decDigit (n div 10 mod 10), decDigit (n mod 10)])"

definition v4Prefix :: bytes where
  "v4Prefix = replicate 10 0 @ [255, 255]"

definition isV4 :: "IP \<Rightarrow> bool" where
  "isV4 ip \<longleftrightarrow> length ip = 16 \<and> take 12 ip = v4Prefix"

definition v4Text :: "IP \<Rightarrow> bytes" where
  "v4Text ip =
     decByte (ip ! 12) @ [46] @ decByte (ip ! 13) @ [46] @ decByte (ip ! 14) @ [46] @ decByte (ip ! 15)"

text \<open>\<open>dtoi\<close> up to the next dot: digits, no leading zero, at most 255.\<close>

definition parseDec :: "bytes \<Rightarrow> byte option" where
  "parseDec ds =
     (let n = foldl (\<lambda>acc d. acc * 10 + (unat d - 48)) 0 ds in
      if ds = [] \<or> \<not> (\<forall>d \<in> set ds. 48 \<le> unat d \<and> unat d \<le> 57) \<or> (1 < length ds \<and> hd ds = 48) \<or> 255 < n
      then None else Some (word_of_nat n))"

definition splitDot :: "bytes \<Rightarrow> bytes \<times> bytes" where
  "splitDot s = (takeWhile (\<lambda>c. c \<noteq> 46) s, drop 1 (dropWhile (\<lambda>c. c \<noteq> 46) s))"

definition parseV4 :: "bytes \<Rightarrow> IP option" where
  "parseV4 s =
     (let (a, s1) = splitDot s; (b, s2) = splitDot s1; (c, d) = splitDot s2
      in case (parseDec a, parseDec b, parseDec c, parseDec d) of
           (Some w, Some x, Some y, Some z) \<Rightarrow> Some (v4Prefix @ [w, x, y, z])
         | _ \<Rightarrow> None)"

lemma unat_decDigit: "d < 10 \<Longrightarrow> unat (decDigit d) = 48 + d"
  by (simp add: decDigit_def unat_of_nat del: of_nat_add)

lemma decDigit_eq_48: "d < 10 \<Longrightarrow> decDigit d = 48 \<longleftrightarrow> d = 0"
  using unat_decDigit [of d] by (auto simp: word_unat_eq_iff)

lemma decDigit_no_dot: "d < 10 \<Longrightarrow> decDigit d \<noteq> 46"
  using unat_decDigit [of d] by auto

lemma parseDec_decByte: "parseDec (decByte b) = Some b"
proof -
  obtain n where n: "n < 256" and un: "unat b = n" and b: "word_of_nat n = b"
    using unat_less [of b] by simp
  consider "n < 10" | "10 \<le> n" "n < 100" | "100 \<le> n" by linarith
  then show ?thesis
  proof cases
    case 1
    then show ?thesis by (simp add: parseDec_def decByte_def un unat_decDigit b)
  next
    case 2
    then have "n div 10 \<le> 9" "n div 10 \<noteq> 0" "n mod 10 \<le> 9" "\<not> n < 10" by auto
    with 2 show ?thesis by (simp add: parseDec_def decByte_def un unat_decDigit decDigit_eq_48 b)
  next
    case 3
    then have "n div 100 < 10" "n div 100 \<noteq> 0" "n div 10 mod 10 \<le> 9" "n mod 10 \<le> 9" using n by auto
    moreover have "(n div 100 * 10 + n div 10 mod 10) * 10 + n mod 10 = n"
      using div_mult2_eq [of n 10 10] by simp
    ultimately show ?thesis
      using 3 n by (simp add: parseDec_def decByte_def un unat_decDigit decDigit_eq_48 b)
  qed
qed

lemma splitDot_dec: "splitDot (decByte b @ 46 # s) = (decByte b, s)" "splitDot (decByte b) = (decByte b, [])"
proof -
  have "\<forall>c \<in> set (decByte b). c \<noteq> 46"
    using unat_less [of b] by (auto simp: decByte_def Let_def intro!: decDigit_no_dot)
  then show "splitDot (decByte b @ 46 # s) = (decByte b, s)" "splitDot (decByte b) = (decByte b, [])"
    by (simp_all add: splitDot_def takeWhile_append2 dropWhile_append2 takeWhile_eq_all_conv [THEN iffD2]
        dropWhile_eq_Nil_conv [THEN iffD2])
qed

lemma isV4_form:
  assumes "isV4 ip"
  shows "ip = v4Prefix @ [ip ! 12, ip ! 13, ip ! 14, ip ! 15]"
proof -
  have len: "length ip = 16" and pre: "take 12 ip = v4Prefix" using assms by (auto simp: isV4_def)
  have "drop 12 ip = [ip ! 12, ip ! 13, ip ! 14, ip ! 15]"
    using len by (simp add: Cons_nth_drop_Suc [symmetric])
  then show ?thesis using append_take_drop_id [of 12 ip] pre by simp
qed

lemma length_decByte: "length (decByte b) \<le> 3"
  by (simp add: decByte_def Let_def)

interpretation ipv4: ip_text v4Text parseV4 isV4
proof unfold_locales
  fix ip assume "isV4 ip"
  then show "parseV4 (v4Text ip) = Some ip"
    using isV4_form [of ip]
    by (simp add: parseV4_def v4Text_def splitDot_dec parseDec_decByte)
  show "length (v4Text ip) < 256"
    using length_decByte [of "ip ! 12"] length_decByte [of "ip ! 13"]
      length_decByte [of "ip ! 14"] length_decByte [of "ip ! 15"]
    by (simp add: v4Text_def)
qed

text \<open>
  Every message of the discovery protocol is read back from its encoding with the bytes behind it
  left unread, given that the text of each address parses back to the address: pings, pongs and
  requests whose keys and hashes fit their length byte, and answers of fewer than 65536 nodes.
\<close>

theorem discover_roundtrip:
  assumes "\<And>ip. ok ip \<Longrightarrow> parse (ipText ip) = Some ip \<and> length (ipText ip) < 256"
    and "length (piPubKey p) < 256"
    and "length (poPingHash q) < 256" "length (poPubKey q) < 256"
    and "length (gnPubKey g) < 256"
    and "wfSeq16 (node_fits ok) (nbNodes m)"
  shows "UnmarshalPing (MarshalPing p @ r) = Inr (p, r) \<and>
         UnmarshalPong (MarshalPong q @ r) = Inr (q, r) \<and>
         UnmarshalGetNeighbours (MarshalGetNeighbours g @ r) = Inr (g, r) \<and>
         UnmarshalNeighbours parse (MarshalNeighbours ipText m @ r) = Inr (m, r)"
proof -
  have ip: "ip_text ipText parse ok" using assms(1) by unfold_locales blast+
  show ?thesis
    using ping.dec_enc [OF assms(2)] pong.dec_enc [of q r] get_neighbours.dec_enc [OF assms(5)]
      ip_text.neighbours_dec_enc [OF ip assms(6)] assms(3,4)
    by simp
qed

definition demo_node :: Node where
  "demo_node = NewNode \<lparr>adIP = v4Prefix @ [192, 168, 0, 7], adPort = 4399\<rparr> [1, 2, 3]"

theorem discover_roundtrip_witness:
  "UnmarshalPing (MarshalPing (NewPing 5 [1, 2]) @ [9]) = Inr (NewPing 5 [1, 2], [9]) \<and>
   UnmarshalPong (MarshalPong (NewPong 6 [3] [1, 2]) @ [9]) = Inr (NewPong 6 [3] [1, 2], [9]) \<and>
   UnmarshalGetNeighbours (MarshalGetNeighbours (NewGetNeighbours 7 [1]) @ [9])
     = Inr (NewGetNeighbours 7 [1], [9]) \<and>
   UnmarshalNeighbours parseV4 (MarshalNeighbours v4Text (NewNeighbours 8 [demo_node]) @ [9])
     = Inr (NewNeighbours 8 [demo_node], [9])"
proof (rule discover_roundtrip [where ok = isV4])
  show "parseV4 (v4Text ip) = Some ip \<and> length (v4Text ip) < 256" if "isV4 ip" for ip
    using ipv4.parse_text ipv4.text_short that by blast
  show "wfSeq16 (node_fits isV4) (nbNodes (NewNeighbours 8 [demo_node]))"
    by (simp add: NewNeighbours_def wfSeq16_def node_fits_def demo_node_def NewNode_def isV4_def v4Prefix_def)
qed (simp_all add: NewPing_def NewPong_def NewGetNeighbours_def)

end
