(* ===== verification/Peer.thy ===== *)
theory Peer
  imports PeerID Discover
begin

text \<open>
  The peers of \<open>src/p2p/peer/peer.go\<close> and the address parser \<open>ParseIPPort\<close> of
  \<open>src/utils/utils.go\<close>.  An IP is its byte slice and a nil IP the empty one; \<open>net.ParseIP\<close> and
  \<open>IP.String\<close> are the arguments \<open>parseIP\<close> and \<open>ipString\<close>.
\<close>

section \<open>Texts\<close>

text \<open>\<open>IP.To4\<close>: nil for an address that is not IPv4.\<close>

definition To4 :: "IP \<Rightarrow> IP option" where
  "To4 ip = (if length ip = 4 then Some ip else if isV4 ip then Some (drop 12 ip) else None)"

text \<open>\<open>strings.Split\<close> at a character.\<close>

fun splitAt :: "char \<Rightarrow> string \<Rightarrow> string list" where
  "splitAt sep [] = [[]]"
| "splitAt sep (c # cs) =
     (if c = sep then [] # splitAt sep cs
      else case splitAt sep cs of [] \<Rightarrow> [[c]] | w # ws \<Rightarrow> (c # w) # ws)"

definition digitVal :: "char \<Rightarrow> int option" where
  "digitVal c = (if 48 \<le> (of_char c :: nat) \<and> (of_char c :: nat) \<le> 57 then Some (int (of_char c) - 48) else None)"

fun decVal :: "int \<Rightarrow> string \<Rightarrow> int option" where
  "decVal acc [] = Some acc"
| "decVal acc (c # cs) = (case digitVal c of None \<Rightarrow> None | Some d \<Rightarrow> decVal (acc * 10 + d) cs)"

text \<open>\<open>strconv.Atoi\<close>: an optional sign and at least one digit, within an \<open>int64\<close>.\<close>

definition Atoi :: "string \<Rightarrow> int option" where
  "Atoi s =
     (let neg = (s \<noteq> [] \<and> hd s = CHR 0x2D);
          digits = (if s \<noteq> [] \<and> (hd s = CHR 0x2D \<or> hd s = CHR 0x2B) then tl s else s)
      in if digits = [] then None
         else case decVal 0 digits of
           None \<Rightarrow> None
         | Some v \<Rightarrow>
             if neg then (if v \<le> 2 ^ 63 then Some (- v) else None)
             else (if v < 2 ^ 63 then Some v else None))"

definition ParseIPPort :: "(string \<Rightarrow> IP option) \<Rightarrow> string \<Rightarrow> IP \<times> int" where
  "ParseIPPort parseIP ipPort =
     (case splitAt CHR 0x3A ipPort of
        [s0, s1] \<Rightarrow>
          (case parseIP s0 of
             None \<Rightarrow> ([], 0)
           | Some ip \<Rightarrow>
               if To4 ip = None then ([], 0)
               else (case Atoi s1 of
                   None \<Rightarrow> ([], 0)
                 | Some port \<Rightarrow> if port \<le> 0 \<or> port > 65535 then ([], 0) else (ip, port)))
      | _ \<Rightarrow> ([], 0))"

section \<open>Peers\<close>

record 'key Peer =
  prIP :: IP
  prPort :: int
  prKey :: "'key option"
  prID :: string

definition NewPeer :: "('sig, 'key, 'priv) btcec \<Rightarrow> IP \<Rightarrow> int \<Rightarrow> 'key option \<Rightarrow> 'key Peer" where
  "NewPeer ec ip port key =
     \<lparr>prIP = ip, prPort = port, prKey = key,
      prID = (case key of None \<Rightarrow> [] | Some k \<Rightarrow> PubKeyToID ec k)\<rparr>"

text \<open>The verb \<open>%d\<close>.\<close>

fun natString :: "nat \<Rightarrow> string" where
  "natString n =
     (if n < 10 then [char_of (48 + n)] else natString (n div 10) @ [char_of (48 + n mod 10)])"

declare natString.simps [simp del]

definition intString :: "int \<Rightarrow> string" where
  "intString i = (if i < 0 then CHR 0x2D # natString (nat (- i)) else natString (nat i))"

definition PeerAddress :: "(IP \<Rightarrow> string) \<Rightarrow> 'key Peer \<Rightarrow> string" where
  "PeerAddress ipString p =
     (case To4 (prIP p) of
        Some v4IP \<Rightarrow> ipString v4IP @ '':'' @ intString (prPort p)
      | None \<Rightarrow> ''['' @ ipString (prIP p) @ '']:'' @ intString (prPort p))"

section \<open>Facts\<close>

lemma splitAt_not_Nil [simp]: "splitAt sep s \<noteq> []"
  by (cases s) (auto split: list.splits)

lemma splitAt_free: "sep \<notin> set s \<Longrightarrow> splitAt sep s = [s]"
  by (induction s) auto

lemma splitAt_append: "sep \<notin> set a \<Longrightarrow> splitAt sep (a @ sep # b) = a # splitAt sep b"
  by (induction a) auto

lemma of_char_digit: "d < 10 \<Longrightarrow> of_char (char_of (48 + d) :: char) = (48 + d :: nat)"
  by simp

lemma decVal_append: "decVal acc (xs @ ys) = (case decVal acc xs of None \<Rightarrow> None | Some v \<Rightarrow> decVal v ys)"
  by (induction xs arbitrary: acc) (auto split: option.splits)

lemma digitVal_digit: "d < 10 \<Longrightarrow> digitVal (char_of (48 + d)) = Some (int d)"
  by (simp add: digitVal_def)

lemma decVal_natString: "decVal 0 (natString n) = Some (int n)"
proof (induction n rule: natString.induct)
  case (1 n)
  then show ?case
    by (subst natString.simps) (auto simp: decVal_append digitVal_digit zdiv_int zmod_int)
qed

lemma natString_digits: "c \<in> set (natString n) \<Longrightarrow> digitVal c \<noteq> None"
proof (induction n rule: natString.induct)
  case (1 n)
  then show ?case by (subst (asm) (2) natString.simps) (auto simp: digitVal_digit split: if_splits)
qed

lemma natString_not_Nil [simp]: "natString n \<noteq> []"
  by (subst natString.simps) simp

lemma Atoi_intString:
  assumes "0 \<le> i" "i < 2 ^ 63" shows "Atoi (intString i) = Some i"
proof -
  have "digitVal (CHR 0x2D) = None" "digitVal (CHR 0x2B) = None" by (simp_all add: digitVal_def)
  with natString_digits have "hd (natString n) \<noteq> CHR 0x2D" "hd (natString n) \<noteq> CHR 0x2B" for n
    by (metis hd_in_set natString_not_Nil)+
  with assms show ?thesis by (simp add: Atoi_def intString_def decVal_natString)
qed

lemma intString_no_colon: "CHR 0x3A \<notin> set (intString i)"
  using natString_digits [of "CHR 0x3A"] by (auto simp: intString_def digitVal_def)

text \<open>What \<open>ParseIPPort\<close> reads back from the text of an IPv4 peer's address.\<close>

lemma ParseIPPort_address:
  assumes "To4 (prIP p) = Some v4" "parseIP (ipString v4) = Some ip" "To4 ip = Some v4"
    and "CHR 0x3A \<notin> set (ipString v4)" "0 < prPort p" "prPort p \<le> 65535"
  shows "ParseIPPort parseIP (PeerAddress ipString p) = (ip, prPort p)"
  using assms by (simp add: ParseIPPort_def PeerAddress_def splitAt_append splitAt_free intString_no_colon Atoi_intString)

end
