(* ===== verification/PeerTable.thy ===== *)
theory PeerTable
  imports Peer
begin

text \<open>
  The table of known peers: \<open>src/p2p/peer/pstate.go\<close> and \<open>src/p2p/peer/table.go\<close>.  Times are
  nanoseconds since 1970, one reading of the clock per operation.  A Go map is a map here, and an
  operation that ranges over one takes the order of its keys as an argument (\<open>order\<close>), since Go
  leaves it open; \<open>rnd i\<close> is the \<open>i\<close>-th number drawn from the table's generator.  The table's
  lock makes every operation atomic.
\<close>

section \<open>States of a peer\<close>

definition second :: int where "second = 10 ^ 9"

definition peerExpiredTime :: int where "peerExpiredTime = 35 * second"
definition getNeighbourInterval :: int where "getNeighbourInterval = 15 * second"
definition pingInterval :: int where "pingInterval = 10 * second"
definition coolingExpiredTime :: int where "coolingExpiredTime = 300 * second"

text \<open>\<open>Time.Sub\<close> saturates at the bounds of a \<open>Duration\<close>.\<close>

definition subTime :: "int \<Rightarrow> int \<Rightarrow> int" where
  "subTime t u = max (- (2 ^ 63)) (min (2 ^ 63 - 1) (t - u))"

record 'key pstate =
  psPeer :: "'key Peer"
  psIsSeed :: bool
  psHasPingBefore :: bool
  psLastActiveTime :: int
  psLastGetNeighbourTime :: int

definition newPState :: "'key Peer \<Rightarrow> bool \<Rightarrow> 'key pstate" where
  "newPState p isSeed = \<lparr>psPeer = p, psIsSeed = isSeed, psHasPingBefore = False,
     psLastActiveTime = 0, psLastGetNeighbourTime = 0\<rparr>"

definition psID :: "'key pstate \<Rightarrow> string" where
  "psID p = prID (psPeer p)"

definition isTimeToPing :: "int \<Rightarrow> 'key pstate \<Rightarrow> bool" where
  "isTimeToPing now p \<longleftrightarrow> subTime now (psLastActiveTime p) \<ge> pingInterval"

definition isAvaible :: "int \<Rightarrow> 'key pstate \<Rightarrow> bool" where
  "isAvaible now p \<longleftrightarrow> subTime now (psLastActiveTime p) < peerExpiredTime"

definition isTimeToGetNeighbours :: "int \<Rightarrow> 'key pstate \<Rightarrow> bool" where
  "isTimeToGetNeighbours now p \<longleftrightarrow> subTime now (psLastGetNeighbourTime p) \<ge> getNeighbourInterval"

definition isToRemove :: "int \<Rightarrow> 'key pstate \<Rightarrow> bool" where
  "isToRemove now p \<longleftrightarrow> \<not> isAvaible now p \<and> psHasPingBefore p \<and> \<not> psIsSeed p"

definition doPing :: "'key pstate \<Rightarrow> 'key pstate" where
  "doPing p = p\<lparr>psHasPingBefore := True\<rparr>"

definition updateActiveTime :: "int \<Rightarrow> 'key pstate \<Rightarrow> 'key pstate" where
  "updateActiveTime now p = p\<lparr>psLastActiveTime := now\<rparr>"

definition updateGetNeighbourTime :: "int \<Rightarrow> 'key pstate \<Rightarrow> 'key pstate" where
  "updateGetNeighbourTime now p = p\<lparr>psLastGetNeighbourTime := now\<rparr>"

section \<open>The table\<close>

record 'key table =
  tbSelfID :: string
  tbSeeds :: "string \<rightharpoonup> 'key pstate"
  tbPeers :: "string \<rightharpoonup> 'key pstate"
  tbCoolingPeers :: "string \<rightharpoonup> int"

definition newTable :: "string \<Rightarrow> 'key table" where
  "newTable selfID = \<lparr>tbSelfID = selfID, tbSeeds = Map.empty, tbPeers = Map.empty, tbCoolingPeers = Map.empty\<rparr>"

definition addPState :: "'key pstate \<Rightarrow> 'key table \<Rightarrow> 'key table" where
  "addPState pst t =
     (if tbCoolingPeers t (psID pst) \<noteq> None then t
      else if psID pst = tbSelfID t then t
      else if tbPeers t (psID pst) = None then t\<lparr>tbPeers := (tbPeers t)(psID pst \<mapsto> pst)\<rparr>
      else t)"

text \<open>\<open>fmt.Sprintf("%s:%d", peer.IP, peer.Port)\<close>, the key of a seed.\<close>

definition seedKey :: "(IP \<Rightarrow> string) \<Rightarrow> 'key Peer \<Rightarrow> string" where
  "seedKey ipString p = ipString (prIP p) @ '':'' @ intString (prPort p)"

fun addPeers :: "(IP \<Rightarrow> string) \<Rightarrow> 'key Peer list \<Rightarrow> bool \<Rightarrow> 'key table \<Rightarrow> 'key table" where
  "addPeers ipString [] isSeed t = t"
| "addPeers ipString (peer # ps) isSeed t =
     addPeers ipString ps isSeed
       (let pst = newPState peer isSeed
        in if isSeed then t\<lparr>tbSeeds := (tbSeeds t)(seedKey ipString peer \<mapsto> pst)\<rparr> else addPState pst t)"

definition swapAt :: "'a list \<Rightarrow> nat \<Rightarrow> nat \<Rightarrow> 'a list" where
  "swapAt xs i j = xs[i := xs ! j, j := xs ! i]"

definition shuffle :: "(nat \<Rightarrow> nat) \<Rightarrow> 'a list \<Rightarrow> 'a list" where
  "shuffle rnd xs = fold (\<lambda>i ys. swapAt ys i (rnd i mod length xs)) [0..<length xs] xs"

definition rangeMap :: "string list \<Rightarrow> (string \<rightharpoonup> 'v) \<Rightarrow> 'v list" where
  "rangeMap order m = List.map_filter m order"

definition getPeers ::
  "string list \<Rightarrow> (nat \<Rightarrow> nat) \<Rightarrow> int \<Rightarrow> nat \<Rightarrow> string set \<Rightarrow> 'key table \<Rightarrow> 'key Peer list" where
  "getPeers order rnd now expect exclude t =
     (let peers = map psPeer (filter (\<lambda>p. psID p \<notin> exclude \<and> isAvaible now p) (rangeMap order (tbPeers t)))
      in if length peers \<le> expect then peers else take expect (shuffle rnd peers))"

definition tableExists :: "string \<Rightarrow> 'key table \<Rightarrow> bool" where
  "tableExists s t \<longleftrightarrow> tbPeers t s \<noteq> None"

definition getPeersToPing ::
  "string list \<Rightarrow> string list \<Rightarrow> int \<Rightarrow> 'key table \<Rightarrow> 'key Peer list \<times> 'key table" where
  "getPeersToPing order seedOrder now t =
     (map psPeer (filter (isTimeToPing now) (rangeMap order (tbPeers t))) @ map psPeer (rangeMap seedOrder (tbSeeds t)),
      t\<lparr>tbPeers := (\<lambda>s. map_option (\<lambda>p. if isTimeToPing now p then doPing p else p) (tbPeers t s))\<rparr>)"

definition getPeersToGetNeighbours ::
  "string list \<Rightarrow> int \<Rightarrow> 'key table \<Rightarrow> 'key Peer list \<times> 'key table" where
  "getPeersToGetNeighbours order now t =
     (map psPeer (filter (isTimeToGetNeighbours now) (rangeMap order (tbPeers t))),
      t\<lparr>tbPeers := (\<lambda>s. map_option (\<lambda>p. if isTimeToGetNeighbours now p then updateGetNeighbourTime now p else p) (tbPeers t s))\<rparr>)"

definition recvPing :: "'key Peer \<Rightarrow> 'key table \<Rightarrow> 'key table" where
  "recvPing p t =
     (if tbPeers t (prID p) \<noteq> None then t
      else addPState (newPState p False) (t\<lparr>tbCoolingPeers := (tbCoolingPeers t)(prID p := None)\<rparr>))"

definition recvPong :: "(IP \<Rightarrow> string) \<Rightarrow> int \<Rightarrow> 'key Peer \<Rightarrow> 'key table \<Rightarrow> 'key table" where
  "recvPong ipString now p t =
     (case tbPeers t (prID p) of
        Some peer \<Rightarrow> t\<lparr>tbPeers := (tbPeers t)(prID p \<mapsto> updateActiveTime now peer)\<rparr>
      | None \<Rightarrow>
          if tbSeeds t (seedKey ipString p) \<noteq> None
          then (let t1 = addPState (updateActiveTime now (newPState p True)) t
                in t1\<lparr>tbSeeds := (tbSeeds t1)(seedKey ipString p := None)\<rparr>)
          else t)"

text \<open>
  The first loop deletes by \<open>peer.ID\<close>, the key being the one the range is at; an entry deleted
  before the range reaches it is not visited.
\<close>

fun refreshLoop :: "int \<Rightarrow> string list \<Rightarrow> (string \<rightharpoonup> 'key pstate) \<Rightarrow> (string \<rightharpoonup> 'key pstate)" where
  "refreshLoop now [] ps = ps"
| "refreshLoop now (s # order) ps =
     refreshLoop now order
       (case ps s of None \<Rightarrow> ps | Some p \<Rightarrow> if isToRemove now p then ps(psID p := None) else ps)"

definition refreshTable :: "string list \<Rightarrow> int \<Rightarrow> 'key table \<Rightarrow> 'key table" where
  "refreshTable order now t =
     t\<lparr>tbPeers := refreshLoop now order (tbPeers t),
       tbCoolingPeers := (\<lambda>s. case tbCoolingPeers t s of
          None \<Rightarrow> None | Some v \<Rightarrow> if subTime now v > coolingExpiredTime then None else Some v)\<rparr>"

section \<open>Reachable tables\<close>

inductive table_step :: "(IP \<Rightarrow> string) \<Rightarrow> 'key table \<Rightarrow> 'key table \<Rightarrow> bool" for ipString where
  "table_step ipString t (addPeers ipString ps isSeed t)"
| "table_step ipString t (snd (getPeersToPing order seedOrder now t))"
| "table_step ipString t (snd (getPeersToGetNeighbours order now t))"
| "table_step ipString t (recvPing p t)"
| "table_step ipString t (recvPong ipString now p t)"
| "table_step ipString t (refreshTable order now t)"

definition table_wf :: "'key table \<Rightarrow> bool" where
  "table_wf t \<longleftrightarrow> tbCoolingPeers t = Map.empty \<and> (\<forall>s p. tbPeers t s = Some p \<longrightarrow> psID p = s \<and> s \<noteq> tbSelfID t)"

lemma psID_simps [simp]:
  "psID (newPState p b) = prID p" "psID (doPing q) = psID q" "psID (updateActiveTime now q) = psID q"
  "psID (updateGetNeighbourTime now q) = psID q"
  by (simp_all add: psID_def newPState_def doPing_def updateActiveTime_def updateGetNeighbourTime_def)

lemma addPState_wf: "table_wf t \<Longrightarrow> table_wf (addPState pst t)"
  by (auto simp: table_wf_def addPState_def)

lemma addPState_self [simp]: "tbSelfID (addPState pst t) = tbSelfID t"
  by (simp add: addPState_def)

lemma addPeers_wf: "table_wf t \<Longrightarrow> table_wf (addPeers ipString ps isSeed t) \<and> tbSelfID (addPeers ipString ps isSeed t) = tbSelfID t"
proof (induction ps arbitrary: t)
  case (Cons p ps)
  have "table_wf (t\<lparr>tbSeeds := m\<rparr>)" for m using Cons.prems by (simp add: table_wf_def)
  with Cons show ?case by (simp add: Let_def addPState_wf)
qed simp

lemma refreshLoop_lookup:
  "(\<And>s p. ps s = Some p \<Longrightarrow> psID p = s) \<Longrightarrow>
   refreshLoop now order ps s =
     (case ps s of None \<Rightarrow> None | Some p \<Rightarrow> if s \<in> set order \<and> isToRemove now p then None else Some p)"
proof (induction order arbitrary: ps)
  case (Cons x order)
  let ?ps = "case ps x of None \<Rightarrow> ps | Some p \<Rightarrow> if isToRemove now p then ps(psID p := None) else ps"
  have "psID p = s" if "?ps s = Some p" for s p
    using that Cons.prems by (auto split: option.splits if_splits)
  from Cons.IH [OF this] Cons.prems show ?case by (auto split: option.splits)
qed (simp split: option.split)

lemma table_step_wf:
  assumes "table_step ipString t t'" "table_wf t" shows "table_wf t' \<and> tbSelfID t' = tbSelfID t"
  using assms
proof cases
  case (6 order now)
  with assms(2) show ?thesis
    by (auto simp: table_wf_def refreshTable_def refreshLoop_lookup split: option.splits if_splits)
qed (auto simp: addPeers_wf recvPing_def recvPong_def addPState_wf getPeersToPing_def
    getPeersToGetNeighbours_def Let_def split: option.splits, auto simp: table_wf_def addPState_def)

lemma reachable_wf:
  assumes "(table_step ipString)\<^sup>*\<^sup>* (newTable selfID) t"
  shows "table_wf t" "tbSelfID t = selfID"
proof -
  have "table_wf (newTable selfID)" "tbSelfID (newTable selfID) = selfID"
    by (simp_all add: table_wf_def newTable_def)
  with assms have "table_wf t \<and> tbSelfID t = selfID"
    by (induction rule: rtranclp_induct) (auto dest: table_step_wf)
  then show "table_wf t" "tbSelfID t = selfID" by blast+
qed

section \<open>The peers offered\<close>

lemma mset_swapAt: "i < length xs \<Longrightarrow> j < length xs \<Longrightarrow> mset (swapAt xs i j) = mset xs"
  unfolding swapAt_def by (metis mset_swap)

lemma length_swapAt: "length (swapAt xs i j) = length xs"
  by (simp add: swapAt_def)

lemma mset_shuffle: "mset (shuffle rnd xs) = mset xs"
proof -
  have "length ys = length xs \<Longrightarrow> \<forall>i \<in> set is. i < length xs \<Longrightarrow>
      mset (fold (\<lambda>i ys. swapAt ys i (rnd i mod length xs)) is ys) = mset ys" for "is" ys
    by (induction "is" arbitrary: ys) (auto simp: length_swapAt intro!: mset_swapAt mod_less_divisor)
  from this [of xs "[0..<length xs]"] show ?thesis by (simp add: shuffle_def)
qed

definition eligible :: "int \<Rightarrow> string set \<Rightarrow> 'key table \<Rightarrow> 'key Peer set" where
  "eligible now exclude t = {psPeer p | s p. tbPeers t s = Some p \<and> s \<notin> exclude \<and> isAvaible now p}"

definition ordered :: "string list \<Rightarrow> (string \<rightharpoonup> 'v) \<Rightarrow> bool" where
  "ordered order m \<longleftrightarrow> distinct order \<and> set order = dom m"

lemma set_rangeMap: "set (rangeMap order m) = {v. \<exists>s \<in> set order. m s = Some v}"
  by (force simp: rangeMap_def map_filter_def)

lemma psID_rangeMap:
  assumes "table_wf t" "distinct order"
  shows "distinct (map psID (rangeMap order (tbPeers t)))"
proof -
  have "map psID (rangeMap order (tbPeers t)) = filter (\<lambda>s. tbPeers t s \<noteq> None) order"
    using assms(1) by (induction order) (auto simp: rangeMap_def map_filter_simps table_wf_def)
  with assms(2) show ?thesis by simp
qed

lemma candidates:
  fixes now :: int and exclude :: "string set"
  assumes "table_wf t" "ordered order (tbPeers t)"
  defines "cs \<equiv> map psPeer (filter (\<lambda>p. psID p \<notin> exclude \<and> isAvaible now p) (rangeMap order (tbPeers t)))"
  shows "set cs = eligible now exclude t" "distinct (map prID cs)"
proof -
  show "set cs = eligible now exclude t"
    using assms(1,2) by (auto simp: cs_def set_rangeMap eligible_def ordered_def table_wf_def dom_def)
  have "map prID cs = map psID (filter (\<lambda>p. psID p \<notin> exclude \<and> isAvaible now p) (rangeMap order (tbPeers t)))"
    by (simp add: cs_def psID_def)
  then show "distinct (map prID cs)"
    using psID_rangeMap [of t order] assms(1,2) by (simp add: ordered_def distinct_map_filter)
qed

lemma getPeers_result:
  fixes now :: int and exclude :: "string set" and expect :: nat and rnd :: "nat \<Rightarrow> nat"
  assumes "table_wf t" "ordered order (tbPeers t)"
  defines "ps \<equiv> getPeers order rnd now expect exclude t"
  shows "distinct (map prID ps)" "set ps \<subseteq> eligible now exclude t"
    "length ps = min expect (card (eligible now exclude t))"
proof -
  let ?cs = "map psPeer (filter (\<lambda>p. psID p \<notin> exclude \<and> isAvaible now p) (rangeMap order (tbPeers t)))"
  note cs = candidates [OF assms(1,2), where exclude = exclude and now = now]
  have card: "card (eligible now exclude t) = length ?cs"
    using cs distinct_card [of ?cs] by (simp only: distinct_map)
  have sh: "mset (shuffle rnd ?cs) = mset ?cs" by (rule mset_shuffle)
  then have set_sh: "set (shuffle rnd ?cs) = set ?cs" and len_sh: "length (shuffle rnd ?cs) = length ?cs"
    by (rule mset_eq_setD, rule mset_eq_length)
  have dist_sh: "distinct (map prID (shuffle rnd ?cs))"
    using cs(2) mset_eq_imp_distinct_iff [of "map prID (shuffle rnd ?cs)" "map prID ?cs"] sh by (simp only: mset_map)
  have ps: "ps = (if length ?cs \<le> expect then ?cs else take expect (shuffle rnd ?cs))"
    by (simp only: ps_def getPeers_def Let_def)
  show "distinct (map prID ps)"
    using cs(2) distinct_take [OF dist_sh, of expect] by (simp only: ps take_map split: if_split) simp
  show "set ps \<subseteq> eligible now exclude t"
    using cs(1) set_sh by (auto simp only: ps dest: in_set_takeD split: if_splits)
  show "length ps = min expect (card (eligible now exclude t))"
    by (simp only: ps card length_take len_sh split: if_split) (simp add: min_def)
qed

text \<open>
  What the node relies on when it asks its provider for peers: at most as many as it asked for, none
  of them excluded, no two with the same identifier, and all that qualify when they are few.
\<close>

locale peer_provider =
  fixes ask :: "'s \<Rightarrow> nat \<Rightarrow> string set \<Rightarrow> 'key Peer list" and pool :: "'s \<Rightarrow> string set \<Rightarrow> 'key Peer set"
    and ok :: "'s \<Rightarrow> bool"
  assumes ask_distinct: "ok s \<Longrightarrow> distinct (map prID (ask s n ex))"
    and ask_pool: "ok s \<Longrightarrow> set (ask s n ex) \<subseteq> pool s ex"
    and ask_length: "ok s \<Longrightarrow> length (ask s n ex) = min n (card (pool s ex))"
    and pool_finite: "ok s \<Longrightarrow> finite (pool s ex)"
    and pool_excludes: "ok s \<Longrightarrow> p \<in> pool s ex \<Longrightarrow> prID p \<notin> ex"
begin

lemma ask_bounded: "ok s \<Longrightarrow> length (ask s n ex) \<le> n"
  by (simp add: ask_length)

lemma ask_not_excluded: "ok s \<Longrightarrow> p \<in> set (ask s n ex) \<Longrightarrow> prID p \<notin> ex"
  using ask_pool pool_excludes by blast

lemma ask_all:
  assumes "ok s" "length (ask s n ex) < n" shows "set (ask s n ex) = pool s ex"
proof (rule card_subset_eq [OF pool_finite ask_pool])
  have "distinct (ask s n ex)" using ask_distinct [OF assms(1)] by (simp add: distinct_map)
  then show "card (set (ask s n ex)) = card (pool s ex)"
    using assms ask_length [OF assms(1), of n ex] by (simp add: distinct_card)
qed (use assms in simp_all)

end

text \<open>The table as the provider: the clock, the orders and the random numbers are part of its state.\<close>

type_synonym 'key table_view = "string list \<times> (nat \<Rightarrow> nat) \<times> int \<times> 'key table"

definition askTable :: "'key table_view \<Rightarrow> nat \<Rightarrow> string set \<Rightarrow> 'key Peer list" where
  "askTable v n ex = (case v of (order, rnd, now, t) \<Rightarrow> getPeers order rnd now n ex t)"

definition viewPool :: "'key table_view \<Rightarrow> string set \<Rightarrow> 'key Peer set" where
  "viewPool v ex = (case v of (order, rnd, now, t) \<Rightarrow> eligible now ex t)"

definition viewOk :: "'key table_view \<Rightarrow> bool" where
  "viewOk v = (case v of (order, rnd, now, t) \<Rightarrow> table_wf t \<and> ordered order (tbPeers t))"

interpretation table: peer_provider askTable viewPool viewOk
proof unfold_locales
  fix v :: "'key table_view" and n ex and p :: "'key Peer"
  obtain order rnd now t where v: "v = (order, rnd, now, t)" by (cases v)
  assume "viewOk v"
  then have wf: "table_wf t" "ordered order (tbPeers t)" by (simp_all add: v viewOk_def)
  note result = getPeers_result [OF wf, of rnd now n ex] and pool = candidates(1) [OF wf, of ex now]
  show "distinct (map prID (askTable v n ex))" "length (askTable v n ex) = min n (card (viewPool v ex))"
      "set (askTable v n ex) \<subseteq> viewPool v ex"
    using result by (simp_all add: askTable_def viewPool_def v)
  show "finite (viewPool v ex)" by (simp add: viewPool_def v pool [symmetric])
  show "p \<in> viewPool v ex \<Longrightarrow> prID p \<notin> ex"
    using wf(1) by (auto simp: v viewPool_def eligible_def table_wf_def psID_def)
qed

section \<open>Properties\<close>

text \<open>
  C17 The table under all its operations: every peer is kept under its own identifier and never under
  the node's own, and the peers that \<open>getPeers\<close> offers are distinct, alive, not excluded and not the
  node itself, as many as asked for or all there are.
\<close>

theorem peers_offered:
  assumes reach: "(table_step ipString)\<^sup>*\<^sup>* (newTable selfID) t" and order: "ordered order (tbPeers t)"
    and offered: "ps = getPeers order rnd now expect exclude t"
  shows "(\<forall>s p. tbPeers t s = Some p \<longrightarrow> psID p = s \<and> s \<noteq> selfID) \<and> distinct (map prID ps) \<and> length ps \<le> expect \<and>
    (\<forall>p \<in> set ps. \<exists>pst. tbPeers t (prID p) = Some pst \<and> psPeer pst = p \<and> isAvaible now pst \<and>
       prID p \<notin> exclude \<and> prID p \<noteq> selfID) \<and>
    (length ps < expect \<longrightarrow> set ps = eligible now exclude t)"
proof (intro conjI)
  note wf = reachable_wf [OF reach]
  let ?v = "(order, rnd, now, t)"
  have ok: "viewOk ?v" using wf order by (simp add: viewOk_def)
  have ps: "ps = askTable ?v expect exclude" by (simp add: offered askTable_def)
  show keys: "\<forall>s p. tbPeers t s = Some p \<longrightarrow> psID p = s \<and> s \<noteq> selfID" using wf by (auto simp: table_wf_def)
  show "distinct (map prID ps)" unfolding ps by (rule table.ask_distinct [OF ok])
  show "length ps \<le> expect" unfolding ps by (rule table.ask_bounded [OF ok])
  show "\<forall>p \<in> set ps. \<exists>pst. tbPeers t (prID p) = Some pst \<and> psPeer pst = p \<and> isAvaible now pst \<and>
       prID p \<notin> exclude \<and> prID p \<noteq> selfID"
    using table.ask_pool [OF ok, of expect exclude] keys unfolding ps by (fastforce simp: viewPool_def eligible_def psID_def)
  show "length ps < expect \<longrightarrow> set ps = eligible now exclude t"
    using table.ask_all [OF ok, of expect exclude] unfolding ps by (simp add: viewPool_def)
qed

definition demo_peer :: "unit Peer" where
  "demo_peer = \<lparr>prIP = [127, 0, 0, 1], prPort = 7, prKey = Some (), prID = ''A''\<rparr>"

definition demo_table :: "unit table" where
  "demo_table = recvPong (\<lambda>_. []) 100 demo_peer (addPeers (\<lambda>_. []) [demo_peer] True (newTable ''S''))"

lemma demo_table_peers: "tbPeers demo_table = [''A'' \<mapsto> updateActiveTime 100 (newPState demo_peer True)]"
  by (simp add: demo_table_def recvPong_def addPState_def newTable_def Let_def)
    (simp add: demo_peer_def)

theorem peers_offered_witness:
  "(table_step (\<lambda>_. []))\<^sup>*\<^sup>* (newTable ''S'') demo_table \<and> ordered [''A''] (tbPeers demo_table) \<and>
   getPeers [''A''] (\<lambda>_. 0) 101 2 {''B''} demo_table = [demo_peer] \<and>
   eligible 101 {''B''} demo_table = {demo_peer}"
proof (intro conjI)
  show reach: "(table_step (\<lambda>_. []))\<^sup>*\<^sup>* (newTable ''S'') demo_table"
    unfolding demo_table_def
    by (rule rtranclp.rtrancl_into_rtrancl, rule r_into_rtranclp, rule table_step.intros(1), rule table_step.intros(5))
  show order: "ordered [''A''] (tbPeers demo_table)" by (simp add: ordered_def demo_table_peers)
  show offer: "getPeers [''A''] (\<lambda>_. 0) 101 2 {''B''} demo_table = [demo_peer]"
    by (simp add: getPeers_def rangeMap_def map_filter_simps demo_table_peers isAvaible_def subTime_def
        updateActiveTime_def newPState_def peerExpiredTime_def second_def psID_def demo_peer_def)
  show "eligible 101 {''B''} demo_table = {demo_peer}"
    using peers_offered [OF reach order offer [symmetric]] by simp
qed

text \<open>
  The cooling list is never filled: no operation adds to it, so a peer that was just removed for its
  silence comes back with the next message that names it.
\<close>

lemma cooling_always_empty:
  "(table_step ipString)\<^sup>*\<^sup>* (newTable selfID) t \<Longrightarrow> tbCoolingPeers t = Map.empty"
  by (drule reachable_wf(1)) (simp add: table_wf_def)

text \<open>
  A seed that answers a ping is kept for ever, but a seed that pings first is already an ordinary
  peer by then: its entry is not marked and \<open>refresh\<close> removes it when it falls silent.
\<close>

lemma seed_not_marked:
  assumes "tbPeers t (prID p) = None" "tbCoolingPeers t = Map.empty" "prID p \<noteq> tbSelfID t"
  shows "\<exists>pst. tbPeers (recvPong ipString now p (recvPing p t)) (prID p) = Some pst \<and> \<not> psIsSeed pst"
proof -
  have "tbPeers (recvPing p t) (prID p) = Some (newPState p False)"
    using assms by (simp add: recvPing_def addPState_def)
  then show ?thesis by (simp add: recvPong_def updateActiveTime_def newPState_def)
qed

lemma seed_kept:
  assumes "table_wf t" "tbPeers t s = Some p" "psIsSeed p"
  shows "tbPeers (refreshTable order now t) s = Some p"
  using assms by (simp add: refreshTable_def refreshLoop_lookup table_wf_def isToRemove_def)

end
