(* ===== verification/Handshake.thy ===== *)
theory Handshake
  imports CoreProtocolFacts
begin

text \<open>
  The two messages of \<open>src/serialize/handshake\<close> with which two nodes open a connection, their
  signatures, and the acceptance rules of \<open>src/p2p/negotiator.go\<close> that read them.
\<close>

section \<open>Request\<close>

definition HandshakeV1 :: u8 where "HandshakeV1 = 1"
definition FullNode :: u8 where "FullNode = 1"
definition LightNode :: u8 where "LightNode = 2"

record Request =
  rqVersion :: u8
  rqChainID :: u8
  rqCodeVersion :: u16
  rqNodeType :: u8
  rqPubKey :: bytes
  rqSessionKey :: bytes
  rqSig :: bytes

definition NewRequestV1 :: "u8 \<Rightarrow> u16 \<Rightarrow> u8 \<Rightarrow> bytes \<Rightarrow> bytes \<Rightarrow> Request" where
  "NewRequestV1 chainID codeVersion nodeType pubKey sessionKey =
     \<lparr>rqVersion = HandshakeV1, rqChainID = chainID, rqCodeVersion = codeVersion,
      rqNodeType = nodeType, rqPubKey = pubKey, rqSessionKey = sessionKey, rqSig = []\<rparr>"

definition UnmarshalRequest :: "Request reader" where
  "UnmarshalRequest d0 =
     reading readU8 d0 (\<lambda>version d1.
     reading readU8 d1 (\<lambda>chainID d2.
     reading readU16 d2 (\<lambda>codeVersion d3.
     reading readU8 d3 (\<lambda>nodeType d4.
     reading readBytes8 d4 (\<lambda>pubKey d5.
     reading readBytes8 d5 (\<lambda>sessionKey d6.
     reading readBytes16 d6 (\<lambda>sig d7.
     Inr (\<lparr>rqVersion = version, rqChainID = chainID, rqCodeVersion = codeVersion,
           rqNodeType = nodeType, rqPubKey = pubKey, rqSessionKey = sessionKey,
           rqSig = sig\<rparr>, d7))))))))"

definition MarshalRequest :: "Request \<Rightarrow> bytes" where
  "MarshalRequest r =
     putU8 (rqVersion r) @ putU8 (rqChainID r) @ putU16 (rqCodeVersion r) @
     putU8 (rqNodeType r) @ putBytes8 (rqPubKey r) @ putBytes8 (rqSessionKey r) @
     putBytes16 (rqSig r)"

definition requestSignContentHash :: "hasher \<Rightarrow> Request \<Rightarrow> bytes" where
  "requestSignContentHash Hash r =
     Hash (putU8 (rqVersion r) @ putU8 (rqChainID r) @ putU16 (rqCodeVersion r) @
           putU8 (rqNodeType r) @ rqPubKey r @ rqSessionKey r)"

text \<open>
  The error of \<open>privKey.Sign\<close> is dropped, and \<open>sig.Serialize()\<close> of a nil signature panics:
  the result is \<open>None\<close>.
\<close>

definition RequestSign ::
  "('sig, 'key, 'priv) btcec \<Rightarrow> hasher \<Rightarrow> Request \<Rightarrow> 'priv \<Rightarrow> Request option" where
  "RequestSign ec Hash r privKey =
     map_option (\<lambda>sig. r\<lparr>rqSig := sig\<rparr>) (SignHash ec privKey (requestSignContentHash Hash r))"

definition RequestVerify :: "('sig, 'key, 'priv) btcec \<Rightarrow> hasher \<Rightarrow> Request \<Rightarrow> bool" where
  "RequestVerify ec Hash r =
     (case ParsePubKey ec (rqPubKey r) of
        None \<Rightarrow> False
      | Some peerKey \<Rightarrow>
          (case ParseSignature ec (rqSig r) of
             None \<Rightarrow> False
           | Some sig \<Rightarrow> VerifySig ec sig (requestSignContentHash Hash r) peerKey))"

section \<open>Response\<close>

definition acceptFlag :: u8 where "acceptFlag = 1"
definition rejectFlag :: u8 where "rejectFlag = 2"

record Response =
  rsVersion :: u8
  rsAccept :: u8
  rsCodeVersion :: u16
  rsNodeType :: u8
  rsSessionKey :: bytes
  rsSig :: bytes

definition NewAcceptResponseV1 :: "u16 \<Rightarrow> u8 \<Rightarrow> bytes \<Rightarrow> Response" where
  "NewAcceptResponseV1 codeVersion nodeType sessionKey =
     \<lparr>rsVersion = HandshakeV1, rsAccept = acceptFlag, rsCodeVersion = codeVersion,
      rsNodeType = nodeType, rsSessionKey = sessionKey, rsSig = []\<rparr>"

definition NewRejectResponseV1 :: Response where
  "NewRejectResponseV1 =
     \<lparr>rsVersion = HandshakeV1, rsAccept = rejectFlag, rsCodeVersion = 0, rsNodeType = 0,
      rsSessionKey = [], rsSig = []\<rparr>"

definition UnmarshalResponse :: "Response reader" where
  "UnmarshalResponse d0 =
     reading readU8 d0 (\<lambda>version d1.
     reading readU8 d1 (\<lambda>accept d2.
     reading readU16 d2 (\<lambda>codeVersion d3.
     reading readU8 d3 (\<lambda>nodeType d4.
     reading readBytes8 d4 (\<lambda>sessionKey d5.
     reading readBytes16 d5 (\<lambda>sig d6.
     Inr (\<lparr>rsVersion = version, rsAccept = accept, rsCodeVersion = codeVersion,
           rsNodeType = nodeType, rsSessionKey = sessionKey, rsSig = sig\<rparr>, d6)))))))"

definition MarshalResponse :: "Response \<Rightarrow> bytes" where
  "MarshalResponse r =
     putU8 (rsVersion r) @ putU8 (rsAccept r) @ putU16 (rsCodeVersion r) @
     putU8 (rsNodeType r) @ putBytes8 (rsSessionKey r) @ putBytes16 (rsSig r)"

definition responseSignContentHash :: "hasher \<Rightarrow> Response \<Rightarrow> bytes" where
  "responseSignContentHash Hash r =
     Hash (putU8 (rsVersion r) @ putU8 (rsAccept r) @ putU16 (rsCodeVersion r) @
           putU8 (rsNodeType r) @ rsSessionKey r)"

definition ResponseSign ::
  "('sig, 'key, 'priv) btcec \<Rightarrow> hasher \<Rightarrow> Response \<Rightarrow> 'priv \<Rightarrow> Response option" where
  "ResponseSign ec Hash r privKey =
     map_option (\<lambda>sig. r\<lparr>rsSig := sig\<rparr>) (SignHash ec privKey (responseSignContentHash Hash r))"

definition ResponseVerify :: "('sig, 'key, 'priv) btcec \<Rightarrow> hasher \<Rightarrow> Response \<Rightarrow> 'key \<Rightarrow> bool" where
  "ResponseVerify ec Hash r pubKey =
     (case ParseSignature ec (rsSig r) of
        None \<Rightarrow> False
      | Some sig \<Rightarrow> VerifySig ec sig (responseSignContentHash Hash r) pubKey)"

definition IsAccept :: "Response \<Rightarrow> bool" where
  "IsAccept r \<longleftrightarrow> rsAccept r = acceptFlag"

section \<open>The negotiator's acceptance rules\<close>

datatype negotiate_error =
    ErrNegotiateInvalidSig | ErrNegotiateConnectionRefused | ErrNegotiateChainIDMismatch
  | ErrNegotiateNodeTypeMismatch | ErrNegotiateTimeout
  | ErrNegotiateCodeVersionMismatch u16 u16 | ErrNegotiateBrokenData string

text \<open>The fields of \<open>negotiatorImp\<close>; the session key generator is an argument of the operations.\<close>

record ('key, 'priv) negotiator =
  ngPrivKey :: 'priv
  ngPubKey :: 'key
  ngChainID :: u8
  ngNodeType :: u8
  ngCodeVersion :: u16
  ngMinimizeVersionRequired :: u16

definition whetherRejectReq :: "('key, 'priv) negotiator \<Rightarrow> Request \<Rightarrow> negotiate_error + unit" where
  "whetherRejectReq n request =
     (if rqChainID request \<noteq> ngChainID n then Inl ErrNegotiateChainIDMismatch
      else if rqCodeVersion request < ngMinimizeVersionRequired n
        then Inl (ErrNegotiateCodeVersionMismatch (ngMinimizeVersionRequired n) (rqCodeVersion request))
      else if ngNodeType n = LightNode \<and> rqNodeType request = LightNode
        then Inl ErrNegotiateNodeTypeMismatch
      else Inr ())"

definition whetherRejectResp ::
  "('sig, 'key, 'priv) btcec \<Rightarrow> hasher \<Rightarrow> ('key, 'priv) negotiator \<Rightarrow> Response \<Rightarrow> 'key \<Rightarrow> negotiate_error + unit" where
  "whetherRejectResp ec Hash n response remotePubKey =
     (if \<not> ResponseVerify ec Hash response remotePubKey then Inl ErrNegotiateInvalidSig
      else if \<not> IsAccept response then Inl ErrNegotiateConnectionRefused
      else if rsCodeVersion response < ngMinimizeVersionRequired n
        then Inl (ErrNegotiateCodeVersionMismatch (ngMinimizeVersionRequired n) (rsCodeVersion response))
      else if rsNodeType response = LightNode then Inl ErrNegotiateNodeTypeMismatch
      else Inr ())"

section \<open>Facts\<close>

definition request_fits :: "Request \<Rightarrow> bool" where
  "request_fits r \<longleftrightarrow> length (rqPubKey r) < 256 \<and> length (rqSessionKey r) < 256
     \<and> length (rqSig r) < 65536"

definition response_fits :: "Response \<Rightarrow> bool" where
  "response_fits r \<longleftrightarrow> length (rsSessionKey r) < 256 \<and> length (rsSig r) < 65536"

interpretation request: codec MarshalRequest UnmarshalRequest request_fits
proof unfold_locales
  show "UnmarshalRequest bs = Inr (q, r) \<longleftrightarrow> request_fits q \<and> bs = MarshalRequest q @ r" for bs q r
    by (cases q) (auto simp: UnmarshalRequest_def MarshalRequest_def request_fits_def wire_simps)
qed

interpretation response: codec MarshalResponse UnmarshalResponse response_fits
proof unfold_locales
  show "UnmarshalResponse bs = Inr (q, r) \<longleftrightarrow> response_fits q \<and> bs = MarshalResponse q @ r" for bs q r
    by (cases q) (auto simp: UnmarshalResponse_def MarshalResponse_def response_fits_def wire_simps)
qed

end
