(* ===== verification/TcpPacket.thy ===== *)
theory TcpPacket
  imports Utils
begin

text \<open>
  The framing of \<open>src/p2p/tcp_utils.go\<close>: a packet is a 4-byte length, a CRC-32 of the payload,
  a protocol id and the payload.  \<open>buildTCPPacket\<close> writes one, \<open>splitTCPStream\<close> cuts the
  received bytes into packets, \<open>verifyTCPPacket\<close> checks one.  The loop of
  \<open>splitTCPStream\<close> does not always end, so it is a partial function into \<open>option\<close> and
  \<open>None\<close> means that it never returns.
\<close>

unbundle bit_operations_syntax

section \<open>CRC-32\<close>

text \<open>\<open>crc32.ChecksumIEEE\<close>: the reversed polynomial \<open>0xEDB88320\<close>, one bit at a time.\<close>

definition crcBit :: "u32 \<Rightarrow> u32" where
  "crcBit c = (if bit c 0 then drop_bit 1 c XOR 0xEDB88320 else drop_bit 1 c)"

definition crcByte :: "u32 \<Rightarrow> byte \<Rightarrow> u32" where
  "crcByte c b = (crcBit ^^ 8) (c XOR ucast b)"

definition ChecksumIEEE :: "bytes \<Rightarrow> u32" where
  "ChecksumIEEE data = NOT (foldl crcByte (NOT 0) data)"

section \<open>Packets\<close>

definition tcpHeaderSize :: nat where
  "tcpHeaderSize = 9"

definition buildTCPPacket :: "bytes \<Rightarrow> u8 \<Rightarrow> bytes" where
  "buildTCPPacket payload protocolID =
     putU32 (Uint32Len payload) @ putU32 (ChecksumIEEE payload) @ putU8 protocolID @ payload"

text \<open>
  \<open>binary.Read\<close> with its error ignored: the variable keeps its zero value and what was left of
  the input is consumed.
\<close>

definition readOrZero :: "'a::zero reader \<Rightarrow> bytes \<Rightarrow> 'a \<times> bytes" where
  "readOrZero p bs = (case p bs of Inl _ \<Rightarrow> (0, []) | Inr xr \<Rightarrow> xr)"

text \<open>\<open>packetLen := tcpHeaderSize + length\<close>, a \<open>uint32\<close> addition, of the peeked length.\<close>

definition packetLen :: "bytes \<Rightarrow> nat" where
  "packetLen received = unat (9 + fst (readOrZero readU32 received) :: u32)"

text \<open>
  The loop of \<open>splitTCPStream\<close> over the buffer and the packets found so far.  The error of
  \<open>received.Read(packet)\<close> cannot occur: the buffer is not empty there.
\<close>

partial_function (option) splitLoop :: "bytes \<Rightarrow> bytes list \<Rightarrow> (bytes list \<times> bytes) option" where
  "splitLoop received packets =
     (if length received > tcpHeaderSize then
        (if length received < packetLen received then Some (packets, received)
         else splitLoop (drop (packetLen received) received)
                (packets @ [take (packetLen received) received]))
      else Some (packets, received))"

definition splitTCPStream :: "bytes \<Rightarrow> (bytes list \<times> bytes) option" where
  "splitTCPStream received = splitLoop received []"

definition verifyTCPPacket :: "bytes \<Rightarrow> bool \<times> bytes \<times> u8" where
  "verifyTCPPacket packet =
     (let (len, p1) = readOrZero readU32 packet;
          (crc, p2) = readOrZero readU32 p1;
          (protocolID, p3) = readOrZero readU8 p2;
          payload = take (unat len) p3 @ replicate (unat len - length p3) 0
      in if crc \<noteq> ChecksumIEEE payload then (False, [], 0) else (True, payload, protocolID))"

section \<open>The checksum\<close>

lemma crcBit_top: "bit (crcBit c) 31 \<longleftrightarrow> bit c 0"
  by (auto simp: crcBit_def bit_xor_iff bit_drop_bit_eq dest: bit_imp_le_length)

lemma drop_bit_1_inject:
  fixes c d :: u32
  assumes "drop_bit 1 c = drop_bit 1 d" and "bit c 0 \<longleftrightarrow> bit d 0"
  shows "c = d"
proof (rule bit_eqI)
  fix n
  show "bit c n \<longleftrightarrow> bit d n"
  proof (cases n)
    case (Suc m)
    then show ?thesis
      using arg_cong [OF assms(1), of "\<lambda>w. bit w m"] by (simp add: bit_drop_bit_eq)
  qed (use assms(2) in simp)
qed

lemma xor_right_cancel: "a XOR p = b XOR p \<Longrightarrow> a = (b :: 'a::len word)"
  by (metis xor.assoc xor_self_eq xor.right_neutral)

lemma xor_left_cancel: "p XOR a = p XOR b \<Longrightarrow> a = (b :: 'a::len word)"
  by (metis xor.assoc xor_self_eq xor.left_neutral)

lemma crcBit_inject:
  assumes "crcBit c = crcBit d"
  shows "c = d"
proof (rule drop_bit_1_inject)
  show b: "bit c 0 \<longleftrightarrow> bit d 0"
    using crcBit_top [of c] crcBit_top [of d] assms by simp
  show "drop_bit 1 c = drop_bit 1 d"
  proof (cases "bit c 0")
    case True
    with b assms have "drop_bit 1 c XOR 0xEDB88320 = drop_bit 1 d XOR 0xEDB88320"
      by (simp add: crcBit_def)
    then show ?thesis by (rule xor_right_cancel)
  next
    case False
    with b assms show ?thesis by (simp add: crcBit_def)
  qed
qed

lemma crcBit_funpow_inject: "(crcBit ^^ n) c = (crcBit ^^ n) d \<Longrightarrow> c = d"
  by (induction n) (auto dest: crcBit_inject)

lemma crcByte_state_inject: "crcByte c b = crcByte d b \<Longrightarrow> c = d"
  unfolding crcByte_def by (blast dest: crcBit_funpow_inject xor_right_cancel)

lemma crcByte_byte_inject:
  assumes "crcByte c a = crcByte c b"
  shows "a = b"
proof -
  have "(ucast a :: u32) = ucast b"
    using assms unfolding crcByte_def by (blast dest: crcBit_funpow_inject xor_left_cancel)
  then have eq: "bit (ucast a :: u32) n \<longleftrightarrow> bit (ucast b :: u32) n" for n by simp
  show ?thesis
  proof (rule bit_word_eqI)
    show "bit a n \<longleftrightarrow> bit b n" if "n < LENGTH(8)" for n
      using eq [of n] that by (simp add: bit_ucast_iff)
  qed
qed

lemma foldl_crcByte_inject: "foldl crcByte c bs = foldl crcByte d bs \<Longrightarrow> c = d"
  by (induction bs arbitrary: c d) (auto dest: crcByte_state_inject)

lemma NOT_inject: "NOT a = NOT b \<Longrightarrow> a = (b :: 'a::len word)"
  by (metis not_not bit.double_compl)

lemma checksum_detects_one_byte:
  assumes "a \<noteq> b"
  shows "ChecksumIEEE (xs @ a # ys) \<noteq> ChecksumIEEE (xs @ b # ys)"
proof
  assume "ChecksumIEEE (xs @ a # ys) = ChecksumIEEE (xs @ b # ys)"
  then have "foldl crcByte (NOT 0) (xs @ a # ys) = foldl crcByte (NOT 0) (xs @ b # ys)"
    unfolding ChecksumIEEE_def by (rule NOT_inject)
  then have "crcByte (foldl crcByte (NOT 0) xs) a = crcByte (foldl crcByte (NOT 0) xs) b"
    by (auto dest: foldl_crcByte_inject)
  with assms show False by (auto dest: crcByte_byte_inject)
qed

section \<open>Reading a built packet\<close>

lemma readOrZero_put [simp]:
  "readOrZero readU32 (putU32 w @ r) = (w, r)"
  "readOrZero readU8 (putU8 b @ r) = (b, r)"
  by (simp_all add: readOrZero_def u32.dec_enc u8.dec_enc)

lemma length_buildTCPPacket [simp]: "length (buildTCPPacket p i) = 9 + length p"
  by (simp add: buildTCPPacket_def)

lemma packetLen_build:
  assumes "length p + 9 < 2 ^ 32"
  shows "packetLen (buildTCPPacket p i @ r) = length (buildTCPPacket p i)"
proof -
  have "(9 + Uint32Len p :: u32) = word_of_nat (9 + length p)"
    by (simp add: Uint32Len_def)
  moreover have "unat (word_of_nat (9 + length p) :: u32) = 9 + length p"
    using assms by (simp only: unat_of_nat) simp
  ultimately show ?thesis
    by (simp add: packetLen_def buildTCPPacket_def)
qed

lemma packetLen_append: "4 \<le> length xs \<Longrightarrow> packetLen (xs @ ys) = packetLen xs"
  by (simp add: packetLen_def readOrZero_def readU32_def reading_def readFull_def)

lemma verify_build: "length p < 2 ^ 32 \<Longrightarrow> verifyTCPPacket (buildTCPPacket p i) = (True, p, i)"
  using unat_Uint32Len [of p] by (simp add: verifyTCPPacket_def buildTCPPacket_def)

section \<open>Splitting\<close>

lemma splitLoop_step:
  "length r > 9 \<Longrightarrow> packetLen r \<le> length r \<Longrightarrow>
   splitLoop r ps = splitLoop (drop (packetLen r) r) (ps @ [take (packetLen r) r])"
  by (subst splitLoop.simps) (simp add: tcpHeaderSize_def)

lemma splitLoop_stop:
  "length r \<le> 9 \<or> length r < packetLen r \<Longrightarrow> splitLoop r ps = Some (ps, r)"
  by (subst splitLoop.simps) (auto simp: tcpHeaderSize_def)

text \<open>
  Facts of a run that returns, by induction on the rounds of the loop: the packets found so far
  are only a prefix of the result, and bytes that arrive later are not looked at early.
\<close>

lemma splitLoop_induct:
  assumes "splitLoop r ps = Some res"
    and step: "\<And>r ps res. length r > 9 \<Longrightarrow> packetLen r \<le> length r \<Longrightarrow>
      P (drop (packetLen r) r) (ps @ [take (packetLen r) r]) res \<Longrightarrow> P r ps res"
    and stop: "\<And>r ps. length r \<le> 9 \<or> length r < packetLen r \<Longrightarrow> P r ps (ps, r)"
  shows "P r ps res"
proof (rule splitLoop.raw_induct [where P = P, OF _ assms(1)])
  fix f r ps res
  assume IH: "\<And>r ps res. f r ps = Some res \<Longrightarrow> P r ps res"
    and eq: "(if length r > tcpHeaderSize then
        (if length r < packetLen r then Some (ps, r)
         else f (drop (packetLen r) r) (ps @ [take (packetLen r) r]))
      else Some (ps, r)) = Some res"
  show "P r ps res"
  proof (cases "length r > 9 \<and> packetLen r \<le> length r")
    case True
    with eq have "f (drop (packetLen r) r) (ps @ [take (packetLen r) r]) = Some res"
      by (simp add: tcpHeaderSize_def)
    then have "P (drop (packetLen r) r) (ps @ [take (packetLen r) r]) res" by (rule IH)
    with True show ?thesis using step [of r ps res] by blast
  next
    case False
    with eq have "res = (ps, r)"
      by (auto simp: tcpHeaderSize_def split: if_splits)
    with False show ?thesis using stop [of r ps] by auto
  qed
qed

lemma splitLoop_prefix:
  assumes "splitLoop r ps = Some res"
  shows "splitLoop r (qs @ ps) = Some (qs @ fst res, snd res)"
  using assms
proof (rule splitLoop_induct [where P = "\<lambda>r ps res. splitLoop r (qs @ ps) = Some (qs @ fst res, snd res)"])
  fix r ps and res :: "bytes list \<times> bytes"
  assume "length r > 9" "packetLen r \<le> length r"
    "splitLoop (drop (packetLen r) r) (qs @ (ps @ [take (packetLen r) r])) = Some (qs @ fst res, snd res)"
  then show "splitLoop r (qs @ ps) = Some (qs @ fst res, snd res)"
    by (subst splitLoop_step) simp_all
qed (simp add: splitLoop_stop)

lemma splitLoop_extend:
  assumes "splitLoop r ps = Some res"
  shows "splitLoop (r @ ys) ps = splitLoop (snd res @ ys) (fst res)"
  using assms
proof (rule splitLoop_induct [where P = "\<lambda>r ps res. splitLoop (r @ ys) ps = splitLoop (snd res @ ys) (fst res)"])
  fix r ps and res :: "bytes list \<times> bytes"
  assume "length r > 9" "packetLen r \<le> length r"
    "splitLoop (drop (packetLen r) r @ ys) (ps @ [take (packetLen r) r]) = splitLoop (snd res @ ys) (fst res)"
  then show "splitLoop (r @ ys) ps = splitLoop (snd res @ ys) (fst res)"
    by (subst splitLoop_step) (simp_all add: packetLen_append)
qed simp

text \<open>The buffer holds no complete packet: nothing more can be cut from it.\<close>

definition incomplete :: "bytes \<Rightarrow> bool" where
  "incomplete r \<longleftrightarrow> length r \<le> 9 \<or> length r < packetLen r"

lemma splitLoop_build:
  assumes "\<forall>(p, i) \<in> set pkts. p \<noteq> [] \<and> length p + 9 < 2 ^ 32" and "incomplete rest"
  shows "splitLoop (concat (map (\<lambda>(p, i). buildTCPPacket p i) pkts) @ rest) acc
       = Some (acc @ map (\<lambda>(p, i). buildTCPPacket p i) pkts, rest)"
  using assms(1)
proof (induction pkts arbitrary: acc)
  case Nil
  then show ?case using assms(2) by (simp add: splitLoop_stop incomplete_def)
next
  case (Cons pi pkts)
  obtain p i where pi: "pi = (p, i)" by (cases pi)
  let ?b = "buildTCPPacket p i"
  let ?r = "concat (map (\<lambda>(p, i). buildTCPPacket p i) pkts) @ rest"
  have p: "p \<noteq> []" "length p + 9 < 2 ^ 32"
    using Cons.prems by (auto simp: pi)
  have "splitLoop (?b @ ?r) acc = splitLoop ?r (acc @ [?b])"
    using p packetLen_build [OF p(2), of i ?r] by (subst splitLoop_step) auto
  then show ?case using Cons by (simp add: pi)
qed

section \<open>Properties\<close>

text \<open>
  Framing round trip: a stream of packets made by \<open>buildTCPPacket\<close> from non-empty payloads
  that fit the length field, followed by an incomplete packet, is split into exactly those
  packets, the incomplete rest stays in the buffer, and each packet passes
  \<open>verifyTCPPacket\<close> with its payload and protocol id.
\<close>

theorem tcp_stream_roundtrip:
  assumes "\<forall>(p, i) \<in> set pkts. p \<noteq> [] \<and> length p + 9 < 2 ^ 32" and "incomplete rest"
  shows "splitTCPStream (concat (map (\<lambda>(p, i). buildTCPPacket p i) pkts) @ rest)
           = Some (map (\<lambda>(p, i). buildTCPPacket p i) pkts, rest)
    \<and> (\<forall>(p, i) \<in> set pkts. verifyTCPPacket (buildTCPPacket p i) = (True, p, i))"
  using assms splitLoop_build [OF assms, of "[]"] by (auto simp: splitTCPStream_def verify_build)

theorem tcp_stream_roundtrip_witness:
  "splitTCPStream (buildTCPPacket [1, 2] 100 @ buildTCPPacket [3] 0 @ [0, 0, 0]) =
     Some ([buildTCPPacket [1, 2] 100, buildTCPPacket [3] 0], [0, 0, 0])
   \<and> verifyTCPPacket (buildTCPPacket [3] 0) = (True, [3], 0)"
  using tcp_stream_roundtrip [of "[([1, 2], 100), ([3], 0)]" "[0, 0, 0]"]
  by (simp add: incomplete_def)

section \<open>Reading in pieces\<close>

text \<open>\<open>splitTCPStream\<close> called after each read on what is left in the buffer and the bytes of the read.\<close>

fun splitReads :: "bytes list \<Rightarrow> bytes \<Rightarrow> (bytes list \<times> bytes) option" where
  "splitReads [] buf = Some ([], buf)"
| "splitReads (xs # reads) buf =
     (case splitTCPStream (buf @ xs) of
        None \<Rightarrow> None
      | Some (ps, buf') \<Rightarrow> map_option (\<lambda>(qs, r). (ps @ qs, r)) (splitReads reads buf'))"

text \<open>If the loop returns on some bytes, it returns on the first of them.\<close>

lemma splitLoop_earlier:
  assumes "splitLoop (xs @ ys) ps = Some res"
  shows "\<exists>res'. splitLoop xs ps = Some res'"
proof -
  have "\<forall>xs ys. zs = xs @ ys \<longrightarrow> (\<exists>res'. splitLoop xs ps = Some res')" if "splitLoop zs ps = Some res" for zs
    using that
  proof (rule splitLoop_induct [where P = "\<lambda>zs ps res. \<forall>xs ys. zs = xs @ ys \<longrightarrow> (\<exists>res'. splitLoop xs ps = Some res')"],
      goal_cases)
    case (1 zs ps res)
    show ?case
    proof (intro allI impI)
      fix xs ys assume zs: "zs = xs @ ys"
      show "\<exists>res'. splitLoop xs ps = Some res'"
      proof (cases "length xs > 9 \<and> packetLen xs \<le> length xs")
        case True
        then have "packetLen zs = packetLen xs" by (simp add: zs packetLen_append)
        then have "drop (packetLen zs) zs = drop (packetLen xs) xs @ ys" "take (packetLen zs) zs = take (packetLen xs) xs"
          using True by (simp_all add: zs)
        then show ?thesis using 1(3) splitLoop_step [of xs ps] True by auto
      qed (auto simp: splitLoop_stop)
    qed
  next
    case (2 zs ps)
    show ?case
    proof (intro allI impI)
      fix xs ys assume zs: "zs = xs @ ys"
      then have "length xs \<le> 9 \<or> length xs < packetLen xs"
        using 2 packetLen_append [of xs ys] by (cases "4 \<le> length xs") auto
      then show "\<exists>res'. splitLoop xs ps = Some res'" by (simp add: splitLoop_stop)
    qed
  qed
  then show ?thesis using assms by blast
qed

text \<open>What is left in the buffer is incomplete.\<close>

lemma splitLoop_rest: "splitLoop r ps = Some res \<Longrightarrow> incomplete (snd res)"
  by (erule splitLoop_induct) (auto simp: incomplete_def)

lemma splitTCPStream_incomplete: "incomplete r \<Longrightarrow> splitTCPStream r = Some ([], r)"
  by (simp add: splitTCPStream_def splitLoop_stop incomplete_def)

lemma splitLoop_from_nil:
  assumes "splitLoop r ps = Some res"
  shows "\<exists>qs. fst res = ps @ qs \<and> splitLoop r [] = Some (qs, snd res)"
proof -
  have "\<exists>qs. fst res = ps @ qs \<and> (\<forall>acc. splitLoop r acc = Some (acc @ qs, snd res))"
    using assms
  proof (rule splitLoop_induct [where P = "\<lambda>r ps res. \<exists>qs. fst res = ps @ qs \<and> (\<forall>acc. splitLoop r acc = Some (acc @ qs, snd res))"],
      goal_cases)
    case (1 r ps res)
    then obtain qs where "fst res = ps @ take (packetLen r) r # qs"
      "\<forall>acc. splitLoop (drop (packetLen r) r) acc = Some (acc @ qs, snd res)" by auto
    then show ?case using 1(1,2) by (intro exI [of _ "take (packetLen r) r # qs"]) (simp add: splitLoop_step)
  qed (simp add: splitLoop_stop)
  then show ?thesis by auto
qed

lemma splitReads_stream:
  "incomplete buf \<Longrightarrow> splitTCPStream (buf @ concat reads) = Some res \<Longrightarrow> splitReads reads buf = Some res"
proof (induction reads arbitrary: buf res)
  case (Cons xs reads)
  have all: "splitLoop ((buf @ xs) @ concat reads) [] = Some res"
    using Cons.prems(2) by (simp add: splitTCPStream_def)
  then obtain ps buf' where here: "splitLoop (buf @ xs) [] = Some (ps, buf')"
    using splitLoop_earlier by (metis surj_pair)
  then obtain qs where qs: "fst res = ps @ qs" "splitLoop (buf' @ concat reads) [] = Some (qs, snd res)"
    using splitLoop_extend [OF here, of "concat reads"] all splitLoop_from_nil by fastforce
  have "splitReads reads buf' = Some (qs, snd res)"
    using Cons.IH [of buf'] splitLoop_rest [OF here] qs(2) by (simp add: splitTCPStream_def)
  then show ?case using here qs(1) by (cases res) (simp add: splitTCPStream_def)
qed (simp add: splitTCPStream_incomplete)

text \<open>
  C32 Packets are recovered whatever way the stream is cut into reads: when the bytes of the reads
  together are packets made by \<open>buildTCPPacket\<close> from non-empty payloads that fit the length field,
  followed by an incomplete packet, then \<open>splitTCPStream\<close>, called after each read on what is left
  in the buffer and the new bytes, gives exactly these packets in order and leaves the incomplete
  one in the buffer, and each of them passes \<open>verifyTCPPacket\<close> with its payload and protocol id.
\<close>

theorem tcp_stream_chunks:
  assumes "\<forall>(p, i) \<in> set pkts. p \<noteq> [] \<and> length p + 9 < 2 ^ 32" and "incomplete rest"
    and "concat reads = concat (map (\<lambda>(p, i). buildTCPPacket p i) pkts) @ rest"
  shows "splitReads reads [] = Some (map (\<lambda>(p, i). buildTCPPacket p i) pkts, rest) \<and>
    map verifyTCPPacket (map (\<lambda>(p, i). buildTCPPacket p i) pkts) = map (\<lambda>(p, i). (True, p, i)) pkts"
proof -
  have "splitTCPStream ([] @ concat reads) = Some (map (\<lambda>(p, i). buildTCPPacket p i) pkts, rest)"
    using splitLoop_build [OF assms(1,2), of "[]"] assms(3) by (simp add: splitTCPStream_def)
  then have "splitReads reads [] = Some (map (\<lambda>(p, i). buildTCPPacket p i) pkts, rest)"
    by (intro splitReads_stream) (simp_all add: incomplete_def)
  then show ?thesis using assms(1) by (auto simp: verify_build)
qed

theorem tcp_stream_chunks_witness:
  "let b = buildTCPPacket [1, 2] 100 in
     splitReads [take 3 b, drop 3 b @ buildTCPPacket [7] 9 @ [0], [0, 9]] [] = Some ([b, buildTCPPacket [7] 9], [0, 0, 9])"
proof -
  let ?b = "buildTCPPacket [1, 2] 100"
  show ?thesis
    using tcp_stream_chunks [of "[([1, 2], 100), ([7], 9)]" "[0, 0, 9]"
        "[take 3 ?b, drop 3 ?b @ buildTCPPacket [7] 9 @ [0], [0, 9]]"]
    by (simp add: incomplete_def Let_def)
qed

text \<open>
  A packet whose payload was changed in one byte on the way is rejected: CRC-32 distinguishes
  any two payloads that differ in a single byte.
\<close>

theorem corrupted_byte_rejected:
  assumes "a \<noteq> b" and "length (xs @ a # ys) < 2 ^ 32"
  shows "verifyTCPPacket (putU32 (Uint32Len (xs @ a # ys)) @ putU32 (ChecksumIEEE (xs @ a # ys)) @
           putU8 i @ (xs @ b # ys)) = (False, [], 0)"
  using assms unat_Uint32Len [of "xs @ a # ys"] checksum_detects_one_byte [OF assms(1), of xs ys]
  by (simp add: verifyTCPPacket_def)

theorem corrupted_byte_rejected_witness:
  "verifyTCPPacket (putU32 (Uint32Len [7, 1]) @ putU32 (ChecksumIEEE [7, 1]) @ putU8 3 @ [7, 2])
     = (False, [], 0)"
  using corrupted_byte_rejected [of 1 2 "[7]" "[]" 3] by simp

text \<open>
  C40 A header with length field \<open>2^32 - 9\<close> stops the receiver for good: the \<open>uint32\<close>
  addition of the header size wraps to a packet of 0 bytes, the loop of \<open>splitTCPStream\<close> takes
  nothing from the buffer and never returns, before any check of the packet.
\<close>

theorem split_diverges_on_wrapped_length:
  assumes "length r > 9" and "take 4 r = [0xFF, 0xFF, 0xFF, 0xF7]"
  shows "splitTCPStream r = None"
proof (cases "splitLoop r []")
  case (Some res)
  have wrap: "packetLen s = 0" if "take 4 s = [0xFF, 0xFF, 0xFF, 0xF7]" "length s > 9" for s
    using that by (simp add: packetLen_def readOrZero_def readU32_def readFull_def)
  from Some have "length r > 9 \<longrightarrow> take 4 r \<noteq> [0xFF, 0xFF, 0xFF, 0xF7]"
  proof (rule splitLoop_induct [where P = "\<lambda>r ps res.
      length r > 9 \<longrightarrow> take 4 r \<noteq> [0xFF, 0xFF, 0xFF, 0xF7]"])
  qed (use wrap in auto)
  with assms show ?thesis by simp
qed (simp add: splitTCPStream_def)

theorem split_diverges_on_wrapped_length_witness:
  "splitTCPStream [0xFF, 0xFF, 0xFF, 0xF7, 0, 0, 0, 0, 0, 0] = None"
  using split_diverges_on_wrapped_length [of "[0xFF, 0xFF, 0xFF, 0xF7, 0, 0, 0, 0, 0, 0]"] by simp

end
