(* ===== verification/Negotiator.thy ===== *)
theory Negotiator
  imports Handshake TcpPacket Peer
begin

text \<open>
  The opening of a connection: \<open>src/p2p/negotiator.go\<close> and the cipher of \<open>src/p2p/codec.go\<close>.
  Each side signs its message with its long-term key, and both derive an AES-GCM key and nonce from
  the shared secret of two temporary keys.  The connection is what its receive channel delivers
  within five seconds (\<open>None\<close> when nothing does) and the list of packets handed to
  \<open>conn.Send\<close>; a result \<open>None\<close> is a panic.
\<close>

section \<open>The codec\<close>

text \<open>
  \<open>btcec.GenerateSharedSecret\<close>, \<open>sha512.Sum512\<close>, \<open>aes.NewCipher\<close>,
  \<open>cipher.NewGCM\<close> and the two methods of \<open>cipher.AEAD\<close>.
\<close>

record ('key, 'priv, 'block, 'aead) cipher_lib =
  GenerateSharedSecret :: "'priv \<Rightarrow> 'key \<Rightarrow> bytes"
  Sum512 :: "bytes \<Rightarrow> bytes"
  NewCipher :: "bytes \<Rightarrow> 'block option"
  NewGCM :: "'block \<Rightarrow> 'aead option"
  Seal :: "'aead \<Rightarrow> bytes \<Rightarrow> bytes \<Rightarrow> bytes"
  Open :: "'aead \<Rightarrow> bytes \<Rightarrow> bytes \<Rightarrow> bytes option"

record 'aead aesgcmCodec =
  gcAead :: 'aead
  gcNonce :: bytes

datatype handshake_error =
    Negotiate negotiate_error | ErrSessionKey | ErrParsePubKey | ErrNewCipher | ErrNewGCM

definition encrypt :: "('key, 'priv, 'block, 'aead) cipher_lib \<Rightarrow> 'aead aesgcmCodec \<Rightarrow> bytes \<Rightarrow> bytes" where
  "encrypt lib c plainText = Seal lib (gcAead c) (gcNonce c) plainText"

definition decrypt :: "('key, 'priv, 'block, 'aead) cipher_lib \<Rightarrow> 'aead aesgcmCodec \<Rightarrow> bytes \<Rightarrow> bytes option" where
  "decrypt lib c cipherText = Open lib (gcAead c) (gcNonce c) cipherText"

definition newAESGCMCodec ::
  "('key, 'priv, 'block, 'aead) cipher_lib \<Rightarrow> 'key \<Rightarrow> 'priv \<Rightarrow> handshake_error + 'aead aesgcmCodec" where
  "newAESGCMCodec lib remotePubKey randPrivKey =
     (let sharedKey = Sum512 lib (GenerateSharedSecret lib randPrivKey remotePubKey)
      in case NewCipher lib (take 32 sharedKey) of
           None \<Rightarrow> Inl ErrNewCipher
         | Some block \<Rightarrow>
             (case NewGCM lib block of
                None \<Rightarrow> Inl ErrNewGCM
              | Some aesgcm \<Rightarrow> Inr \<lparr>gcAead = aesgcm, gcNonce = take 12 (drop 32 sharedKey)\<rparr>))"

text \<open>
  What the exchange relies on: the two sides compute the same secret, SHA-512 has 64 bytes, AES
  accepts a 32-byte key, GCM opens what it sealed, and a DER signature has at most 72 bytes.
\<close>

locale key_exchange = signatures ec
  for ec :: "('sig, 'key, 'priv) btcec" +
  fixes lib :: "('key, 'priv, 'block, 'aead) cipher_lib"
  assumes shared_secret: "GenerateSharedSecret lib p (PubKeyOf ec q) = GenerateSharedSecret lib q (PubKeyOf ec p)"
    and sum512_length: "length (Sum512 lib x) = 64"
    and aes_256: "length k = 32 \<Longrightarrow> \<exists>b g. NewCipher lib k = Some b \<and> NewGCM lib b = Some g"
    and open_seal: "length nonce = 12 \<Longrightarrow> Open lib g nonce (Seal lib g nonce x) = Some x"
    and signature_length: "SignHash ec p h = Some s \<Longrightarrow> length s \<le> 72"

section \<open>Packets of the exchange\<close>

definition handshakeProtocolID :: u8 where "handshakeProtocolID = 0"

definition CurrentCodeVersion :: u16 where "CurrentCodeVersion = 1"
definition MinimizeVersionRequired :: u16 where "MinimizeVersionRequired = 1"

definition newNegotiator ::
  "('sig, 'key, 'priv) btcec \<Rightarrow> 'priv \<Rightarrow> u8 \<Rightarrow> u8 \<Rightarrow> ('key, 'priv) negotiator" where
  "newNegotiator ec privKey chainID nodeType =
     \<lparr>ngPrivKey = privKey, ngPubKey = PubKeyOf ec privKey, ngChainID = chainID,
      ngNodeType = nodeType, ngCodeVersion = CurrentCodeVersion,
      ngMinimizeVersionRequired = MinimizeVersionRequired\<rparr>"

definition genRequest ::
  "('sig, 'key, 'priv) btcec \<Rightarrow> hasher \<Rightarrow> ('key, 'priv) negotiator \<Rightarrow> 'priv \<Rightarrow> bytes option" where
  "genRequest ec Hash n sessionPrivKey =
     (let req = NewRequestV1 (ngChainID n) (ngCodeVersion n) (ngNodeType n)
                  (SerializeCompressed ec (ngPubKey n))
                  (SerializeCompressed ec (PubKeyOf ec sessionPrivKey))
      in case RequestSign ec Hash req (ngPrivKey n) of
           None \<Rightarrow> None
         | Some r \<Rightarrow> Some (buildTCPPacket (MarshalRequest r) handshakeProtocolID))"

definition genRejectResponse ::
  "('sig, 'key, 'priv) btcec \<Rightarrow> hasher \<Rightarrow> ('key, 'priv) negotiator \<Rightarrow> bytes option" where
  "genRejectResponse ec Hash n =
     (case ResponseSign ec Hash NewRejectResponseV1 (ngPrivKey n) of
        None \<Rightarrow> None
      | Some r \<Rightarrow> Some (buildTCPPacket (MarshalResponse r) handshakeProtocolID))"

definition genAcceptResponse ::
  "('sig, 'key, 'priv) btcec \<Rightarrow> hasher \<Rightarrow> ('key, 'priv) negotiator \<Rightarrow> 'priv \<Rightarrow> bytes option" where
  "genAcceptResponse ec Hash n sessionPrivKey =
     (case ResponseSign ec Hash (NewAcceptResponseV1 (ngCodeVersion n) (ngNodeType n)
             (SerializeCompressed ec (PubKeyOf ec sessionPrivKey))) (ngPrivKey n) of
        None \<Rightarrow> None
      | Some r \<Rightarrow> Some (buildTCPPacket (MarshalResponse r) handshakeProtocolID))"

definition brokenData :: "string \<Rightarrow> handshake_error" where
  "brokenData info = Negotiate (ErrNegotiateBrokenData info)"

text \<open>\<open>recv\<close> is the packet that arrives before the ticker fires.\<close>

definition readPacket :: "bytes option \<Rightarrow> handshake_error + bytes" where
  "readPacket recv =
     (case recv of
        None \<Rightarrow> Inl (Negotiate ErrNegotiateTimeout)
      | Some packet \<Rightarrow>
          (case verifyTCPPacket packet of (ok, payload, protocolID) \<Rightarrow>
             if \<not> ok then Inl (brokenData ''veirfy handshake packet checksum failed'')
             else if protocolID \<noteq> handshakeProtocolID
               then Inl (brokenData ''invalid protocol ID for handshake'')
             else Inr payload))"

definition waitResponse :: "bytes option \<Rightarrow> handshake_error + Response" where
  "waitResponse recv =
     (case readPacket recv of
        Inl e \<Rightarrow> Inl e
      | Inr plainText \<Rightarrow>
          (case UnmarshalResponse plainText of
             Inl _ \<Rightarrow> Inl (brokenData ''unmarshal handshake response failed'')
           | Inr (resp, _) \<Rightarrow> Inr resp))"

definition waitRequest :: "bytes option \<Rightarrow> handshake_error + Request" where
  "waitRequest recv =
     (case readPacket recv of
        Inl e \<Rightarrow> Inl e
      | Inr plainText \<Rightarrow>
          (case UnmarshalRequest plainText of
             Inl _ \<Rightarrow> Inl (brokenData ''unmarshal handshake request failed'')
           | Inr (request, _) \<Rightarrow> Inr request))"

section \<open>The two sides\<close>

text \<open>
  \<open>whetherRejectResp\<close> with a key that may be nil: a signature that does not parse is refused
  before the key is used, any other one makes \<open>Signature.Verify\<close> dereference the nil key.
\<close>

definition rejectRespOrPanic ::
  "('sig, 'key, 'priv) btcec \<Rightarrow> hasher \<Rightarrow> ('key, 'priv) negotiator \<Rightarrow> Response \<Rightarrow> 'key option \<Rightarrow>
   (negotiate_error + unit) option" where
  "rejectRespOrPanic ec Hash n response remotePubKey =
     (case remotePubKey of
        Some key \<Rightarrow> Some (whetherRejectResp ec Hash n response key)
      | None \<Rightarrow> if ParseSignature ec (rsSig response) = None then Some (Inl ErrNegotiateInvalidSig) else None)"

definition handshakeTo ::
  "('sig, 'key, 'priv) btcec \<Rightarrow> hasher \<Rightarrow> ('key, 'priv, 'block, 'aead) cipher_lib \<Rightarrow>
   ('key, 'priv) negotiator \<Rightarrow> 'priv option \<Rightarrow> bytes option \<Rightarrow> 'key Peer \<Rightarrow>
   (bytes list \<times> (handshake_error + 'aead aesgcmCodec)) option" where
  "handshakeTo ec Hash lib n sessionKey recv peer =
     (case sessionKey of
        None \<Rightarrow> Some ([], Inl ErrSessionKey)
      | Some sessionPrivKey \<Rightarrow>
          (case genRequest ec Hash n sessionPrivKey of
             None \<Rightarrow> None
           | Some requestBytes \<Rightarrow>
               (case waitResponse recv of
                  Inl e \<Rightarrow> Some ([requestBytes], Inl e)
                | Inr response \<Rightarrow>
                    (case rejectRespOrPanic ec Hash n response (prKey peer) of
                       None \<Rightarrow> None
                     | Some (Inl e) \<Rightarrow> Some ([requestBytes], Inl (Negotiate e))
                     | Some (Inr _) \<Rightarrow>
                         (case ParsePubKey ec (rsSessionKey response) of
                            None \<Rightarrow> Some ([requestBytes], Inl ErrParsePubKey)
                          | Some peerSessionKey \<Rightarrow>
                              Some ([requestBytes], newAESGCMCodec lib peerSessionKey sessionPrivKey))))))"

text \<open>\<open>addr\<close> is the text of \<open>conn.RemoteAddr()\<close>.\<close>

definition getPeerFromRequest ::
  "('sig, 'key, 'priv) btcec \<Rightarrow> (string \<Rightarrow> IP option) \<Rightarrow> string \<Rightarrow> Request \<Rightarrow> handshake_error + 'key Peer" where
  "getPeerFromRequest ec parseIP addr request =
     (case ParsePubKey ec (rqPubKey request) of
        None \<Rightarrow> Inl (brokenData ''parse handhshake peer public key failed'')
      | Some peerPubKey \<Rightarrow>
          (let (ip, port) = ParseIPPort parseIP addr in Inr (NewPeer ec ip port (Some peerPubKey))))"

definition recvHandshake ::
  "('sig, 'key, 'priv) btcec \<Rightarrow> hasher \<Rightarrow> ('key, 'priv, 'block, 'aead) cipher_lib \<Rightarrow> (string \<Rightarrow> IP option) \<Rightarrow>
   ('key, 'priv) negotiator \<Rightarrow> 'priv option \<Rightarrow> string \<Rightarrow> bool \<Rightarrow> bytes option \<Rightarrow>
   (bytes list \<times> (handshake_error + ('key Peer \<times> 'aead aesgcmCodec) option)) option" where
  "recvHandshake ec Hash lib parseIP n sessionKey addr accept recv =
     (case waitRequest recv of
        Inl e \<Rightarrow> Some ([], Inl e)
      | Inr request \<Rightarrow>
          if \<not> RequestVerify ec Hash request then Some ([], Inl (Negotiate ErrNegotiateInvalidSig))
          else (case ParsePubKey ec (rqSessionKey request) of
              None \<Rightarrow> Some ([], Inl (brokenData ''parse handshake session public key failed''))
            | Some peerSessionKey \<Rightarrow>
                if \<not> accept
                then map_option (\<lambda>rejectRsp. ([rejectRsp], Inr None)) (genRejectResponse ec Hash n)
                else (case whetherRejectReq n request of
                    Inl e \<Rightarrow> Some ([], Inl (Negotiate e))
                  | Inr _ \<Rightarrow>
                      (case sessionKey of
                         None \<Rightarrow> Some ([], Inl ErrSessionKey)
                       | Some sessionPrivKey \<Rightarrow>
                           (case genAcceptResponse ec Hash n sessionPrivKey of
                              None \<Rightarrow> None
                            | Some acceptRsp \<Rightarrow>
                                (case newAESGCMCodec lib peerSessionKey sessionPrivKey of
                                   Inl e \<Rightarrow> Some ([acceptRsp], Inl e)
                                 | Inr cdc \<Rightarrow>
                                     (case getPeerFromRequest ec parseIP addr request of
                                        Inl e \<Rightarrow> Some ([acceptRsp], Inl e)
                                      | Inr peer \<Rightarrow> Some ([acceptRsp], Inr (Some (peer, cdc))))))))))"

section \<open>Facts of an exchange\<close>

definition requestOf :: "('sig, 'key, 'priv) btcec \<Rightarrow> ('key, 'priv) negotiator \<Rightarrow> 'priv \<Rightarrow> bytes \<Rightarrow> Request" where
  "requestOf ec n s sig =
     (NewRequestV1 (ngChainID n) (ngCodeVersion n) (ngNodeType n) (SerializeCompressed ec (ngPubKey n))
        (SerializeCompressed ec (PubKeyOf ec s)))\<lparr>rqSig := sig\<rparr>"

definition responseOf :: "('sig, 'key, 'priv) btcec \<Rightarrow> ('key, 'priv) negotiator \<Rightarrow> 'priv \<Rightarrow> bytes \<Rightarrow> Response" where
  "responseOf ec n s sig =
     (NewAcceptResponseV1 (ngCodeVersion n) (ngNodeType n)
        (SerializeCompressed ec (PubKeyOf ec s)))\<lparr>rsSig := sig\<rparr>"

lemma readPacket_build:
  "length p < 2 ^ 32 \<Longrightarrow> readPacket (Some (buildTCPPacket p handshakeProtocolID)) = Inr p"
  by (simp add: readPacket_def verify_build)

context key_exchange
begin

lemma codec_made:
  obtains c where "newAESGCMCodec lib k p = Inr c" "length (gcNonce c) = 12"
proof -
  have "length (take 32 (Sum512 lib x)) = 32" for x by (simp add: sum512_length)
  from aes_256 [OF this] obtain b g where
    "NewCipher lib (take 32 (Sum512 lib (GenerateSharedSecret lib p k))) = Some b" "NewGCM lib b = Some g"
    by blast
  with that show thesis by (simp add: newAESGCMCodec_def Let_def sum512_length)
qed

lemma codec_agreed: "newAESGCMCodec lib (PubKeyOf ec q) p = newAESGCMCodec lib (PubKeyOf ec p) q"
  by (simp add: newAESGCMCodec_def shared_secret [of p q])

lemma decrypt_encrypt: "newAESGCMCodec lib k p = Inr c \<Longrightarrow> decrypt lib c (encrypt lib c x) = Some x"
  by (metis codec_made decrypt_def encrypt_def open_seal sum.inject(2))

lemma request_arrives:
  assumes "genRequest ec Hash a sa = Some rq" and "ngPubKey a = PubKeyOf ec (ngPrivKey a)"
  obtains sig where "waitRequest (Some rq) = Inr (requestOf ec a sa sig)"
    "RequestVerify ec Hash (requestOf ec a sa sig)"
proof -
  from assms(1) obtain sig where sig: "SignHash ec (ngPrivKey a) (requestSignContentHash Hash (requestOf ec a sa sig)) = Some sig"
      and rq: "rq = buildTCPPacket (MarshalRequest (requestOf ec a sa sig)) handshakeProtocolID"
    by (auto simp: genRequest_def RequestSign_def requestOf_def requestSignContentHash_def Let_def split: option.splits)
  have fits: "request_fits (requestOf ec a sa sig)"
    using signature_length [OF sig] compressed_length
    by (simp add: request_fits_def requestOf_def NewRequestV1_def PubKeyBytesLenCompressed_def)
  then have "length (MarshalRequest (requestOf ec a sa sig)) < 2 ^ 32"
    by (simp add: request_fits_def MarshalRequest_def)
  then have "waitRequest (Some rq) = Inr (requestOf ec a sa sig)"
    by (simp add: waitRequest_def rq readPacket_build request.dec_enc_whole fits)
  moreover have "RequestVerify ec Hash (requestOf ec a sa sig)"
    using sign_verifies [OF sig] parse_compressed assms(2)
    by (auto simp: RequestVerify_def requestOf_def NewRequestV1_def)
  ultimately show thesis by (rule that)
qed

lemma response_arrives:
  assumes "SignHash ec p (responseSignContentHash Hash r) = Some sig" "length (rsSessionKey r) < 256"
  shows "waitResponse (Some (buildTCPPacket (MarshalResponse (r\<lparr>rsSig := sig\<rparr>)) handshakeProtocolID)) = Inr (r\<lparr>rsSig := sig\<rparr>)"
    "ResponseVerify ec Hash (r\<lparr>rsSig := sig\<rparr>) (PubKeyOf ec p)"
proof -
  have fits: "response_fits (r\<lparr>rsSig := sig\<rparr>)"
    using signature_length [OF assms(1)] assms(2) by (simp add: response_fits_def)
  then have "length (MarshalResponse (r\<lparr>rsSig := sig\<rparr>)) < 2 ^ 32"
    by (simp add: response_fits_def MarshalResponse_def)
  then show "waitResponse (Some (buildTCPPacket (MarshalResponse (r\<lparr>rsSig := sig\<rparr>)) handshakeProtocolID)) = Inr (r\<lparr>rsSig := sig\<rparr>)"
    by (simp add: waitResponse_def readPacket_build response.dec_enc_whole fits)
  have "responseSignContentHash Hash (r\<lparr>rsSig := sig\<rparr>) = responseSignContentHash Hash r"
    by (simp add: responseSignContentHash_def)
  then show "ResponseVerify ec Hash (r\<lparr>rsSig := sig\<rparr>) (PubKeyOf ec p)"
    using sign_verifies [OF assms(1)] by (auto simp: ResponseVerify_def)
qed

lemma accept_arrives:
  assumes "genAcceptResponse ec Hash b sb = Some rp"
  obtains sig where "waitResponse (Some rp) = Inr (responseOf ec b sb sig)"
    "ResponseVerify ec Hash (responseOf ec b sb sig) (PubKeyOf ec (ngPrivKey b))"
proof -
  let ?r = "NewAcceptResponseV1 (ngCodeVersion b) (ngNodeType b) (SerializeCompressed ec (PubKeyOf ec sb))"
  from assms obtain sig where sig: "SignHash ec (ngPrivKey b) (responseSignContentHash Hash ?r) = Some sig"
      and rp: "rp = buildTCPPacket (MarshalResponse (?r\<lparr>rsSig := sig\<rparr>)) handshakeProtocolID"
    by (auto simp: genAcceptResponse_def ResponseSign_def split: option.splits)
  have "length (rsSessionKey ?r) < 256"
    using compressed_length by (simp add: NewAcceptResponseV1_def PubKeyBytesLenCompressed_def)
  from response_arrives [OF sig this] that show thesis by (simp add: rp responseOf_def)
qed

lemma reject_arrives:
  assumes "genRejectResponse ec Hash b = Some rp"
  obtains r where "waitResponse (Some rp) = Inr r" "ResponseVerify ec Hash r (PubKeyOf ec (ngPrivKey b))" "\<not> IsAccept r"
proof -
  from assms obtain sig where sig: "SignHash ec (ngPrivKey b) (responseSignContentHash Hash NewRejectResponseV1) = Some sig"
      and rp: "rp = buildTCPPacket (MarshalResponse (NewRejectResponseV1\<lparr>rsSig := sig\<rparr>)) handshakeProtocolID"
    by (auto simp: genRejectResponse_def ResponseSign_def split: option.splits)
  have "length (rsSessionKey NewRejectResponseV1) < 256" by (simp add: NewRejectResponseV1_def)
  note arrives = response_arrives [OF sig this]
  have "\<not> IsAccept (NewRejectResponseV1\<lparr>rsSig := sig\<rparr>)"
    by (simp add: IsAccept_def NewRejectResponseV1_def acceptFlag_def rejectFlag_def)
  with arrives show thesis by (rule that [unfolded rp])
qed

text \<open>What each side ends with, when the responder gets the initiator's request and answers it.\<close>

lemma responder_result:
  assumes "genRequest ec Hash a sa = Some rq" and "ngPubKey a = PubKeyOf ec (ngPrivKey a)"
    and "newAESGCMCodec lib (PubKeyOf ec sa) sb = Inr c"
  shows "recvHandshake ec Hash lib parseIP b (Some sb) addr accept (Some rq) =
    (if \<not> accept then map_option (\<lambda>rp. ([rp], Inr None)) (genRejectResponse ec Hash b)
     else case whetherRejectReq b (requestOf ec a sa []) of
       Inl e \<Rightarrow> Some ([], Inl (Negotiate e))
     | Inr _ \<Rightarrow> map_option (\<lambda>rp. ([rp],
         Inr (Some (NewPeer ec (fst (ParseIPPort parseIP addr)) (snd (ParseIPPort parseIP addr))
           (Some (PubKeyOf ec (ngPrivKey a))), c)))) (genAcceptResponse ec Hash b sb))"
proof -
  from request_arrives [OF assms(1,2)] obtain sig where
    w: "waitRequest (Some rq) = Inr (requestOf ec a sa sig)" "RequestVerify ec Hash (requestOf ec a sa sig)" .
  have k: "ParsePubKey ec (rqSessionKey (requestOf ec a sa sig)) = Some (PubKeyOf ec sa)"
    "ParsePubKey ec (rqPubKey (requestOf ec a sa sig)) = Some (PubKeyOf ec (ngPrivKey a))"
    using parse_compressed assms(2) by (simp_all add: requestOf_def NewRequestV1_def)
  have r: "whetherRejectReq b (requestOf ec a sa sig) = whetherRejectReq b (requestOf ec a sa [])"
    by (simp add: whetherRejectReq_def requestOf_def)
  show ?thesis
    by (simp add: recvHandshake_def w k r getPeerFromRequest_def assms(3) split_beta split: option.splits sum.splits)
qed

lemma initiator_refused:
  assumes "genRequest ec Hash a sa = Some rq" "genRejectResponse ec Hash b = Some rp"
    and "prKey peer = Some (PubKeyOf ec (ngPrivKey b))"
  shows "handshakeTo ec Hash lib a (Some sa) (Some rp) peer =
    Some ([rq], Inl (Negotiate ErrNegotiateConnectionRefused))"
  by (rule reject_arrives [OF assms(2)])
    (simp add: handshakeTo_def assms rejectRespOrPanic_def whetherRejectResp_def)

lemma initiator_result:
  assumes "genRequest ec Hash a sa = Some rq" "genAcceptResponse ec Hash b sb = Some rp"
    and "prKey peer = Some (PubKeyOf ec (ngPrivKey b))"
  shows "handshakeTo ec Hash lib a (Some sa) (Some rp) peer = Some ([rq],
    if ngCodeVersion b < ngMinimizeVersionRequired a
      then Inl (Negotiate (ErrNegotiateCodeVersionMismatch (ngMinimizeVersionRequired a) (ngCodeVersion b)))
    else if ngNodeType b = LightNode then Inl (Negotiate ErrNegotiateNodeTypeMismatch)
    else newAESGCMCodec lib (PubKeyOf ec sb) sa)"
proof -
  from accept_arrives [OF assms(2)] obtain sig where
    w: "waitResponse (Some rp) = Inr (responseOf ec b sb sig)"
      "ResponseVerify ec Hash (responseOf ec b sb sig) (PubKeyOf ec (ngPrivKey b))" .
  have "IsAccept (responseOf ec b sb sig)" "rsCodeVersion (responseOf ec b sb sig) = ngCodeVersion b"
    "rsNodeType (responseOf ec b sb sig) = ngNodeType b"
    "ParsePubKey ec (rsSessionKey (responseOf ec b sb sig)) = Some (PubKeyOf ec sb)"
    by (simp_all add: responseOf_def NewAcceptResponseV1_def IsAccept_def parse_compressed)
  with w show ?thesis
    by (simp add: handshakeTo_def assms rejectRespOrPanic_def whetherRejectResp_def)
qed

end

section \<open>Properties\<close>

text \<open>
  C13 The handshake of two honest nodes: whatever the configurations, it ends on both sides without
  a panic.  When the responder has no room, it reports no peer and the initiator is refused.  When the
  responder's rules reject the request it sends nothing and the initiator times out.  Otherwise the
  responder has the initiator as its peer, and if its version and type suit the initiator both
  sides hold the same codec, with which each decrypts what the other encrypts; if they do not, only
  the initiator gives the connection up.
\<close>

theorem handshake_agreement:
  assumes "key_exchange ec lib" and key: "ngPubKey a = PubKeyOf ec (ngPrivKey a)"
    and sign: "\<forall>p h. SignHash ec p h \<noteq> None"
    and peer: "prKey peerB = Some (PubKeyOf ec (ngPrivKey b))"
  shows "\<exists>rq sentB resB resA c. genRequest ec Hash a sa = Some rq \<and>
    recvHandshake ec Hash lib parseIP b (Some sb) addr accept (Some rq) = Some (sentB, resB) \<and>
    handshakeTo ec Hash lib a (Some sa) (if sentB = [] then None else Some (hd sentB)) peerB = Some ([rq], resA) \<and>
    (\<forall>x. decrypt lib c (encrypt lib c x) = Some x) \<and>
    (if \<not> accept then resB = Inr None \<and> resA = Inl (Negotiate ErrNegotiateConnectionRefused)
     else if ngChainID a \<noteq> ngChainID b \<or> ngCodeVersion a < ngMinimizeVersionRequired b
         \<or> ngNodeType a = LightNode \<and> ngNodeType b = LightNode
       then isl resB \<and> sentB = [] \<and> resA = Inl (Negotiate ErrNegotiateTimeout)
     else resB = Inr (Some (NewPeer ec (fst (ParseIPPort parseIP addr)) (snd (ParseIPPort parseIP addr))
            (Some (PubKeyOf ec (ngPrivKey a))), c)) \<and>
          (if ngCodeVersion b < ngMinimizeVersionRequired a \<or> ngNodeType b = LightNode
           then isl resA else resA = Inr c))"
proof -
  note kx = assms(1)
  from key_exchange.codec_made [OF kx] obtain c where c: "newAESGCMCodec lib (PubKeyOf ec sa) sb = Inr c" .
  then have c': "newAESGCMCodec lib (PubKeyOf ec sb) sa = Inr c"
    using key_exchange.codec_agreed [OF kx, of sb sa] by simp
  have "genRequest ec Hash a sa \<noteq> None" "genAcceptResponse ec Hash b sb \<noteq> None" "genRejectResponse ec Hash b \<noteq> None"
    using sign by (auto simp: genRequest_def genAcceptResponse_def genRejectResponse_def
        RequestSign_def ResponseSign_def Let_def split: option.splits)
  then obtain rq acc rej where gen: "genRequest ec Hash a sa = Some rq" "genAcceptResponse ec Hash b sb = Some acc"
      "genRejectResponse ec Hash b = Some rej"
    by blast
  note resB = key_exchange.responder_result [OF kx gen(1) key c, of parseIP b addr accept]
  have resA: "handshakeTo ec Hash lib a (Some sa) None peerB = Some ([rq], Inl (Negotiate ErrNegotiateTimeout))"
    by (simp add: handshakeTo_def gen waitResponse_def readPacket_def)
  show ?thesis
    using key_exchange.initiator_refused [OF kx gen(1,3) peer] key_exchange.initiator_result [OF kx gen(1,2) peer]
      key_exchange.decrypt_encrypt [OF kx c] resA
    by (intro exI [of _ rq] exI [of _ c])
      (auto simp: gen resB c' whetherRejectReq_def requestOf_def NewRequestV1_def)
qed

definition toy_lib :: "(unit, unit, bytes, bytes) cipher_lib" where
  "toy_lib = \<lparr>GenerateSharedSecret = (\<lambda>_ _. [7]), Sum512 = (\<lambda>x. replicate 64 5), NewCipher = Some,
     NewGCM = Some, Seal = (\<lambda>_ _ x. x), Open = (\<lambda>_ _ x. Some x)\<rparr>"

definition short_ec :: "(bytes, unit, unit) btcec" where
  "short_ec = toy_ec\<lparr>SignHash := (\<lambda>_ _. Some [3]), VerifySig := (\<lambda>_ _ _. True)\<rparr>"

interpretation toy_exchange: key_exchange short_ec toy_lib
  by unfold_locales (simp_all add: short_ec_def toy_ec_def toy_lib_def PubKeyBytesLenCompressed_def)

theorem handshake_agreement_witness:
  "\<exists>rq sentB resB c. genRequest short_ec mod_hash (newNegotiator short_ec () 1 FullNode) () = Some rq \<and>
    recvHandshake short_ec mod_hash toy_lib (\<lambda>_. None) (newNegotiator short_ec () 1 FullNode) (Some ()) [] True (Some rq)
      = Some (sentB, resB) \<and>
    handshakeTo short_ec mod_hash toy_lib (newNegotiator short_ec () 1 FullNode) (Some ())
      (if sentB = [] then None else Some (hd sentB)) (NewPeer short_ec [] 0 (Some ())) = Some ([rq], Inr c) \<and>
    resB = Inr (Some (NewPeer short_ec [] 0 (Some ()), c)) \<and> decrypt toy_lib c (encrypt toy_lib c [1, 2]) = Some [1, 2]"
proof -
  let ?n = "newNegotiator short_ec () 1 FullNode"
  have "ngPubKey ?n = PubKeyOf short_ec (ngPrivKey ?n)" "\<forall>p h. SignHash short_ec p h \<noteq> None"
    "prKey (NewPeer short_ec [] 0 (Some ())) = Some (PubKeyOf short_ec (ngPrivKey ?n))"
    by (simp_all add: newNegotiator_def NewPeer_def short_ec_def)
  note agree = handshake_agreement [OF toy_exchange.key_exchange_axioms this, of mod_hash "()" "\<lambda>_. None" "()" "[]" True]
  have config: "ngCodeVersion ?n = 1" "ngMinimizeVersionRequired ?n = 1" "ngNodeType ?n \<noteq> LightNode"
    "ParseIPPort (\<lambda>_. None) [] = ([], 0)" "PubKeyOf short_ec (ngPrivKey ?n) = ()"
    by (simp_all add: newNegotiator_def FullNode_def LightNode_def CurrentCodeVersion_def
        MinimizeVersionRequired_def ParseIPPort_def)
  from agree show ?thesis
  proof (elim exE conjE)
    fix rq sentB resB resA c
    assume rq: "genRequest short_ec mod_hash ?n () = Some rq"
      and run: "recvHandshake short_ec mod_hash toy_lib (\<lambda>_. None) ?n (Some ()) [] True (Some rq) = Some (sentB, resB)"
        "handshakeTo short_ec mod_hash toy_lib ?n (Some ()) (if sentB = [] then None else Some (hd sentB))
           (NewPeer short_ec [] 0 (Some ())) = Some ([rq], resA)"
      and cdc: "\<forall>x. decrypt toy_lib c (encrypt toy_lib c x) = Some x"
      and outcome: "if \<not> True then resB = Inr None \<and> resA = Inl (Negotiate ErrNegotiateConnectionRefused)
        else if ngChainID ?n \<noteq> ngChainID ?n \<or> ngCodeVersion ?n < ngMinimizeVersionRequired ?n
            \<or> ngNodeType ?n = LightNode \<and> ngNodeType ?n = LightNode
          then isl resB \<and> sentB = [] \<and> resA = Inl (Negotiate ErrNegotiateTimeout)
        else resB = Inr (Some (NewPeer short_ec (fst (ParseIPPort (\<lambda>_. None) [])) (snd (ParseIPPort (\<lambda>_. None) []))
               (Some (PubKeyOf short_ec (ngPrivKey ?n))), c)) \<and>
             (if ngCodeVersion ?n < ngMinimizeVersionRequired ?n \<or> ngNodeType ?n = LightNode
              then isl resA else resA = Inr c)"
    from outcome config have "resB = Inr (Some (NewPeer short_ec [] 0 (Some ()), c))" "resA = Inr c" by simp_all
    with rq run cdc show ?thesis by blast
  qed
qed

text \<open>
  A response is not bound to the request it answers: a signed response recorded from any session
  is accepted in every later one, whatever temporary key the initiator uses.
\<close>

lemma response_replay_accepted:
  assumes "key_exchange ec lib" "genAcceptResponse ec Hash b sb = Some rp" "genRequest ec Hash a sa = Some rq"
    and "prKey peer = Some (PubKeyOf ec (ngPrivKey b))"
    and "ngMinimizeVersionRequired a \<le> ngCodeVersion b" "ngNodeType b \<noteq> LightNode"
  shows "\<exists>c. handshakeTo ec Hash lib a (Some sa) (Some rp) peer = Some ([rq], Inr c)"
proof -
  from key_exchange.codec_made [OF assms(1)] obtain c where "newAESGCMCodec lib (PubKeyOf ec sb) sa = Inr c" .
  then show ?thesis
    using key_exchange.initiator_result [OF assms(1,3,2,4)] assms(5,6) by simp
qed

end
