(* ===== verification/Provider.thy ===== *)
theory Provider
  imports PeerTable Negotiator
begin

text \<open>
  The discovery service of \<open>src/p2p/peer/provider.go\<close>: it pings the known peers, asks them for their
  neighbours and answers the same questions of others.  Every operation returns the datagrams it
  hands to the UDP server and the new state; \<open>None\<close> is a panic, which a node with a nil address
  causes when it is encoded.  \<open>now\<close> is the clock in nanoseconds, read once per operation.
\<close>

section \<open>State and environment\<close>

text \<open>
  Besides the package btcec and the hash: \<open>IP.String\<close>, \<open>net.ParseIP\<close>, the text forms
  \<open>MarshalText\<close> and \<open>UnmarshalText\<close>, and \<open>net.ResolveUDPAddr\<close>.
\<close>

type_synonym udp_addr = "IP \<times> int"

record ('sig, 'key, 'priv) provider_env =
  pePkg :: "('sig, 'key, 'priv) btcec"
  peHash :: hasher
  peIPString :: "IP \<Rightarrow> string"
  peParseIP :: "string \<Rightarrow> IP option"
  peMarshalText :: "IP \<Rightarrow> bytes"
  peUnmarshalText :: "bytes \<Rightarrow> IP option"
  peResolve :: "string \<Rightarrow> udp_addr option"

record 'key provider =
  pvCompressedKey :: bytes
  pvTable :: "'key table"
  pvPingHash :: "string \<rightharpoonup> int"

type_synonym datagram = "bytes \<times> udp_addr"

definition msgDiscardTime :: i64 where "msgDiscardTime = 8"
definition maxNeighboursRspNum :: nat where "maxNeighboursRspNum = 8"
definition pingHashExpiredTime :: int where "pingHashExpiredTime = peerExpiredTime"

definition unixTime :: "int \<Rightarrow> i64" where
  "unixTime now = word_of_int (now div second)"

definition newProvider :: "('sig, 'key, 'priv) provider_env \<Rightarrow> 'key \<Rightarrow> 'key provider" where
  "newProvider env publicKey =
     \<lparr>pvCompressedKey = SerializeCompressed (pePkg env) publicKey,
      pvTable = newTable (PubKeyToID (pePkg env) publicKey), pvPingHash = Map.empty\<rparr>"

definition AddSeeds :: "('sig, 'key, 'priv) provider_env \<Rightarrow> 'key Peer list \<Rightarrow> 'key provider \<Rightarrow> 'key provider" where
  "AddSeeds env seeds p = p\<lparr>pvTable := addPeers (peIPString env) seeds True (pvTable p)\<rparr>"

definition GetPeers ::
  "string list \<Rightarrow> (nat \<Rightarrow> nat) \<Rightarrow> int \<Rightarrow> nat \<Rightarrow> string set \<Rightarrow> 'key provider \<Rightarrow> 'key Peer list" where
  "GetPeers order rnd now expect exclude p = getPeers order rnd now expect exclude (pvTable p)"

section \<open>Questions\<close>

fun pingLoop ::
  "('sig, 'key, 'priv) provider_env \<Rightarrow> int \<Rightarrow> 'key Peer list \<Rightarrow> 'key provider \<Rightarrow> datagram list \<times> 'key provider" where
  "pingLoop env now [] p = ([], p)"
| "pingLoop env now (peer # targets) p =
     (let pkt = MarshalPing (NewPing (unixTime now) (pvCompressedKey p))
      in case peResolve env (PeerAddress (peIPString env) peer) of
           None \<Rightarrow> pingLoop env now targets p
         | Some addr \<Rightarrow>
             (let p1 = p\<lparr>pvPingHash := (pvPingHash p)(ToHex (peHash env pkt) \<mapsto> now)\<rparr>;
                  (sent, p2) = pingLoop env now targets p1
              in ((pkt, addr) # sent, p2)))"

definition ping ::
  "('sig, 'key, 'priv) provider_env \<Rightarrow> string list \<Rightarrow> string list \<Rightarrow> int \<Rightarrow> 'key provider \<Rightarrow> datagram list \<times> 'key provider" where
  "ping env order seedOrder now p =
     (let (targets, t) = getPeersToPing order seedOrder now (pvTable p)
      in pingLoop env now targets (p\<lparr>pvTable := t\<rparr>))"

definition getNeighbours ::
  "('sig, 'key, 'priv) provider_env \<Rightarrow> string list \<Rightarrow> int \<Rightarrow> 'key provider \<Rightarrow> datagram list \<times> 'key provider" where
  "getNeighbours env order now p =
     (let (targets, t) = getPeersToGetNeighbours order now (pvTable p);
          pkt = MarshalGetNeighbours (NewGetNeighbours (unixTime now) (pvCompressedKey p))
      in (map (\<lambda>addr. (pkt, addr)) (List.map_filter (\<lambda>peer. peResolve env (PeerAddress (peIPString env) peer)) targets),
          p\<lparr>pvTable := t\<rparr>))"

section \<open>Answers\<close>

text \<open>\<open>genNeighbours\<close>; its callers pass at most eight peers, so the 16-bit count does not wrap.\<close>

fun genNodes :: "('sig, 'key, 'priv) provider_env \<Rightarrow> 'key Peer list \<Rightarrow> Node list option" where
  "genNodes env [] = Some []"
| "genNodes env (p # peers) =
     (case NewAddress (peParseIP env) (peIPString env (prIP p)) (word_of_int (prPort p)) of
        None \<Rightarrow> None
      | Some addr \<Rightarrow>
          (case genNodes env peers of
             None \<Rightarrow> None
           | Some nodes \<Rightarrow> Some (NewNode addr (IDToBytes (prID p)) # nodes)))"

definition genNeighbours :: "('sig, 'key, 'priv) provider_env \<Rightarrow> int \<Rightarrow> 'key Peer list \<Rightarrow> bytes option" where
  "genNeighbours env now peers =
     (case genNodes env peers of
        None \<Rightarrow> None
      | Some nodes \<Rightarrow> Some (MarshalNeighbours (peMarshalText env) (NewNeighbours (unixTime now) nodes)))"

text \<open>A key that does not parse is only logged: the peer is used with a nil key.\<close>

definition handlePing ::
  "('sig, 'key, 'priv) provider_env \<Rightarrow> int \<Rightarrow> bytes \<Rightarrow> udp_addr \<Rightarrow> 'key provider \<Rightarrow> datagram list \<times> 'key provider" where
  "handlePing env now data remoteAddr p =
     (case UnmarshalPing data of
        Inl _ \<Rightarrow> ([], p)
      | Inr (m, _) \<Rightarrow>
          (let key = ParsePubKey (pePkg env) (piPubKey m);
               peer = NewPeer (pePkg env) (fst remoteAddr) (snd remoteAddr) key;
               pong = MarshalPong (NewPong (unixTime now) (peHash env data) (pvCompressedKey p))
           in ([(pong, remoteAddr)], p\<lparr>pvTable := recvPing peer (pvTable p)\<rparr>)))"

definition handlePong ::
  "('sig, 'key, 'priv) provider_env \<Rightarrow> int \<Rightarrow> bytes \<Rightarrow> udp_addr \<Rightarrow> 'key provider \<Rightarrow> 'key provider" where
  "handlePong env now data remoteAddr p =
     (case UnmarshalPong data of
        Inl _ \<Rightarrow> p
      | Inr (m, _) \<Rightarrow>
          (let pingHash = ToHex (poPingHash m)
           in if pvPingHash p pingHash = None then p
              else (let key = ParsePubKey (pePkg env) (poPubKey m);
                        peer = NewPeer (pePkg env) (fst remoteAddr) (snd remoteAddr) key
                    in p\<lparr>pvPingHash := (pvPingHash p)(pingHash := None),
                         pvTable := recvPong (peIPString env) now peer (pvTable p)\<rparr>)))"

definition handleGetNeigoubours ::
  "('sig, 'key, 'priv) provider_env \<Rightarrow> string list \<Rightarrow> (nat \<Rightarrow> nat) \<Rightarrow> int \<Rightarrow> bytes \<Rightarrow> udp_addr \<Rightarrow> 'key provider \<Rightarrow>
   datagram list option" where
  "handleGetNeigoubours env order rnd now data remoteAddr p =
     (case UnmarshalGetNeighbours data of
        Inl _ \<Rightarrow> Some []
      | Inr (m, _) \<Rightarrow>
          (let remotePubKey = ParsePubKey (pePkg env) (gnPubKey m);
               remoteID = BytesToID (gnPubKey m)
           in if \<not> tableExists remoteID (pvTable p) then Some []
              else (let neighbours = getPeers order rnd now maxNeighboursRspNum {remoteID} (pvTable p)
                    in case genNeighbours env now neighbours of
                         None \<Rightarrow> None
                       | Some neighboursMsg \<Rightarrow>
                           (case genNeighbours env now
                                  [NewPeer (pePkg env) (fst remoteAddr) (snd remoteAddr) remotePubKey] of
                              None \<Rightarrow> None
                            | Some putMsg \<Rightarrow>
                                Some ((neighboursMsg, remoteAddr) #
                                  map (\<lambda>addr. (putMsg, addr))
                                    (List.map_filter (\<lambda>n. peResolve env (PeerAddress (peIPString env) n)) neighbours))))))"

fun neighbourPeers :: "('sig, 'key, 'priv) provider_env \<Rightarrow> Node list \<Rightarrow> 'key Peer list" where
  "neighbourPeers env [] = []"
| "neighbourPeers env (n # nodes) =
     (case ParsePubKey (pePkg env) (ndPubKey n) of
        None \<Rightarrow> neighbourPeers env nodes
      | Some pubKey \<Rightarrow>
          NewPeer (pePkg env) (adIP (ndAddr n)) (sint (adPort (ndAddr n))) (Some pubKey) # neighbourPeers env nodes)"

definition handleNeigoubours ::
  "('sig, 'key, 'priv) provider_env \<Rightarrow> bytes \<Rightarrow> 'key provider \<Rightarrow> 'key provider" where
  "handleNeigoubours env data p =
     (case UnmarshalNeighbours (peUnmarshalText env) data of
        Inl _ \<Rightarrow> p
      | Inr (m, _) \<Rightarrow>
          p\<lparr>pvTable := addPeers (peIPString env) (neighbourPeers env (nbNodes m)) False (pvTable p)\<rparr>)"

text \<open>The sum \<open>head.Time+msgDiscardTime\<close> is an \<open>int64\<close> addition and the comparison is signed.\<close>

definition handleRecv ::
  "('sig, 'key, 'priv) provider_env \<Rightarrow> string list \<Rightarrow> (nat \<Rightarrow> nat) \<Rightarrow> int \<Rightarrow> datagram \<Rightarrow> 'key provider \<Rightarrow>
   (datagram list \<times> 'key provider) option" where
  "handleRecv env order rnd now pkt p =
     (case pkt of (data, addr) \<Rightarrow>
        case DiscvUnmarshalHead data of
          Inl _ \<Rightarrow> Some ([], p)
        | Inr (head, _) \<Rightarrow>
            if sint (dhTime head + msgDiscardTime) < sint (unixTime now) then Some ([], p)
            else if dhType head = MsgPing then Some (handlePing env now data addr p)
            else if dhType head = MsgPong then Some ([], handlePong env now data addr p)
            else if dhType head = MsgGetNeighbours
              then map_option (\<lambda>sent. (sent, p)) (handleGetNeigoubours env order rnd now data addr p)
            else if dhType head = MsgNeighbours then Some ([], handleNeigoubours env data p)
            else Some ([], p))"

definition refreshProvider :: "string list \<Rightarrow> int \<Rightarrow> 'key provider \<Rightarrow> 'key provider" where
  "refreshProvider order now p =
     p\<lparr>pvTable := refreshTable order now (pvTable p),
       pvPingHash := (\<lambda>k. case pvPingHash p k of
          None \<Rightarrow> None | Some v \<Rightarrow> if subTime now v > pingHashExpiredTime then None else Some v)\<rparr>"

section \<open>The goroutine\<close>

text \<open>One round of the select loop: the task ticker, a datagram, or the refresh ticker.\<close>

inductive provider_step ::
  "('sig, 'key, 'priv) provider_env \<Rightarrow> 'key provider \<Rightarrow> datagram list \<Rightarrow> 'key provider \<Rightarrow> bool" for env where
  task: "ping env order seedOrder now p = (sent1, p1) \<Longrightarrow> getNeighbours env order' now' p1 = (sent2, p2) \<Longrightarrow>
    provider_step env p (sent1 @ sent2) p2"
| recv: "handleRecv env order rnd now pkt p = Some (sent, p') \<Longrightarrow> provider_step env p sent p'"
| refresh: "provider_step env p [] (refreshProvider order now p)"
| seeds: "provider_step env p [] (AddSeeds env ps p)"

section \<open>The table of a running provider\<close>

text \<open>Every datagram acts on the table by the table's own operations, so its invariant carries over.\<close>

abbreviation provider_run where
  "provider_run env \<equiv> (\<lambda>p q. \<exists>sent. provider_step env p sent q)\<^sup>*\<^sup>*"

lemma pingLoop_keeps [simp]:
  "pvTable (snd (pingLoop env now targets p)) = pvTable p"
  "pvCompressedKey (snd (pingLoop env now targets p)) = pvCompressedKey p"
  by (induction targets arbitrary: p) (auto simp: Let_def split_beta split: option.split)

lemmas table_steps = table_step.intros [THEN r_into_rtranclp [where r = "table_step ipString" for ipString]]

lemma provider_step_table:
  assumes "provider_step env p sent q"
  shows "(table_step (peIPString env))\<^sup>*\<^sup>* (pvTable p) (pvTable q) \<and> pvCompressedKey q = pvCompressedKey p"
  using assms
proof cases
  case (task order seedOrder now sent1 p1 order' now' sent2)
  have p1: "p1 = snd (ping env order seedOrder now p)" and q: "q = snd (getNeighbours env order' now' p1)"
    using task(2,3) by simp_all
  have "table_step (peIPString env) (pvTable p) (pvTable p1)" "pvCompressedKey p1 = pvCompressedKey p"
    by (simp_all add: p1 ping_def split_beta table_step.intros(2))
  moreover have "table_step (peIPString env) (pvTable p1) (pvTable q)" "pvCompressedKey q = pvCompressedKey p1"
    by (simp_all add: q getNeighbours_def split_beta Let_def table_step.intros(3))
  ultimately show ?thesis by (metis converse_rtranclp_into_rtranclp r_into_rtranclp)
next
  case (recv order rnd now pkt)
  then show ?thesis
    by (auto simp: handleRecv_def handlePing_def handlePong_def handleNeigoubours_def Let_def
        intro: table_steps split: prod.splits sum.splits if_splits)
next
  case (refresh order now)
  then show ?thesis by (auto simp: refreshProvider_def intro: table_steps)
next
  case (seeds ps)
  then show ?thesis by (auto simp: AddSeeds_def intro: table_steps)
qed

lemma provider_run_table:
  assumes "provider_run env (newProvider env k) p"
  shows "(table_step (peIPString env))\<^sup>*\<^sup>* (newTable (PubKeyToID (pePkg env) k)) (pvTable p)"
    "pvCompressedKey p = SerializeCompressed (pePkg env) k"
proof -
  from assms have "(table_step (peIPString env))\<^sup>*\<^sup>* (newTable (PubKeyToID (pePkg env) k)) (pvTable p) \<and>
      pvCompressedKey p = SerializeCompressed (pePkg env) k"
    by (induction rule: rtranclp_induct)
      (auto simp: newProvider_def dest!: provider_step_table intro: rtranclp_trans)
  then show "(table_step (peIPString env))\<^sup>*\<^sup>* (newTable (PubKeyToID (pePkg env) k)) (pvTable p)"
    "pvCompressedKey p = SerializeCompressed (pePkg env) k" by blast+
qed

lemmas provider_run_wf = reachable_wf [OF provider_run_table(1)]

section \<open>A ping and its pong\<close>

lemma pingLoop_sent:
  assumes "peer \<in> set targets" "peResolve env (PeerAddress (peIPString env) peer) = Some addr"
  shows "(MarshalPing (NewPing (unixTime now) (pvCompressedKey p)), addr) \<in> set (fst (pingLoop env now targets p))"
  using assms(1)
proof (induction targets arbitrary: p)
  case (Cons x targets)
  show ?case
  proof (cases "x = peer")
    case True
    then show ?thesis by (simp add: assms(2) Let_def split_beta)
  next
    case False
    with Cons.prems have "peer \<in> set targets" by simp
    note IH = Cons.IH [OF this]
    show ?thesis
      using IH [of p] IH [of "p\<lparr>pvPingHash := m\<rparr>" for m]
      by (auto simp: Let_def split_beta split: option.split)
  qed
qed simp

lemma pingLoop_hash_kept:
  "pvPingHash p h \<noteq> None \<Longrightarrow> pvPingHash (snd (pingLoop env now targets p)) h \<noteq> None"
  by (induction targets arbitrary: p) (auto simp: Let_def split_beta split: option.split)

lemma pingLoop_hash:
  assumes "peer \<in> set targets" "peResolve env (PeerAddress (peIPString env) peer) = Some addr"
  shows "pvPingHash (snd (pingLoop env now targets p))
      (ToHex (peHash env (MarshalPing (NewPing (unixTime now) (pvCompressedKey p))))) \<noteq> None"
  using assms(1)
proof (induction targets arbitrary: p)
  case (Cons x targets)
  show ?case
  proof (cases "x = peer")
    case True
    then show ?thesis by (simp add: assms(2) Let_def split_beta del: not_None_eq) (rule pingLoop_hash_kept, simp)
  next
    case False
    with Cons.prems have "peer \<in> set targets" by simp
    note IH = Cons.IH [OF this]
    show ?thesis
      using IH [of p] IH [of "p\<lparr>pvPingHash := m\<rparr>" for m]
      by (auto simp: Let_def split_beta split: option.split)
  qed
qed simp

lemma seed_pinged:
  assumes "tbSeeds (pvTable a) key = Some pst" "key \<in> set seedOrder"
    and "peResolve env (PeerAddress (peIPString env) (psPeer pst)) = Some addr"
  shows "(MarshalPing (NewPing (unixTime now) (pvCompressedKey a)), addr) \<in> set (fst (ping env order seedOrder now a))"
    "pvPingHash (snd (ping env order seedOrder now a))
      (ToHex (peHash env (MarshalPing (NewPing (unixTime now) (pvCompressedKey a))))) \<noteq> None"
    "tbSeeds (pvTable (snd (ping env order seedOrder now a))) = tbSeeds (pvTable a)"
    "pvCompressedKey (snd (ping env order seedOrder now a)) = pvCompressedKey a"
proof -
  have "psPeer pst \<in> set (fst (getPeersToPing order seedOrder now (pvTable a)))"
    using assms(1,2) by (force simp: getPeersToPing_def set_rangeMap)
  note sent = pingLoop_sent [OF this assms(3)] and hash = pingLoop_hash [OF this assms(3)]
  let ?a = "a\<lparr>pvTable := snd (getPeersToPing order seedOrder now (pvTable a))\<rparr>"
  show "(MarshalPing (NewPing (unixTime now) (pvCompressedKey a)), addr) \<in> set (fst (ping env order seedOrder now a))"
    using sent [of now ?a] by (simp add: ping_def split_beta)
  show "pvPingHash (snd (ping env order seedOrder now a))
      (ToHex (peHash env (MarshalPing (NewPing (unixTime now) (pvCompressedKey a))))) \<noteq> None"
    using hash [of now ?a] by (simp add: ping_def split_beta)
  show "tbSeeds (pvTable (snd (ping env order seedOrder now a))) = tbSeeds (pvTable a)"
    "pvCompressedKey (snd (ping env order seedOrder now a)) = pvCompressedKey a"
    by (simp_all add: ping_def split_beta getPeersToPing_def)
qed

lemma ping_received:
  assumes "length k < 256" "\<not> sint (unixTime t1 + msgDiscardTime) < sint (unixTime t2)"
  shows "handleRecv env order rnd t2 (MarshalPing (NewPing (unixTime t1) k), addr) b =
    Some ([(MarshalPong (NewPong (unixTime t2) (peHash env (MarshalPing (NewPing (unixTime t1) k))) (pvCompressedKey b)), addr)],
      b\<lparr>pvTable := recvPing (NewPeer (pePkg env) (fst addr) (snd addr) (ParsePubKey (pePkg env) k)) (pvTable b)\<rparr>)"
proof -
  let ?m = "NewPing (unixTime t1) k"
  have "UnmarshalPing (MarshalPing ?m) = Inr (?m, [])"
    by (rule ping.dec_enc_whole) (simp add: NewPing_def assms(1))
  moreover obtain r where "DiscvUnmarshalHead (MarshalPing ?m) = Inr (piHead ?m, r)"
    by (simp add: MarshalPing_def DiscvHead_iff)
  ultimately show ?thesis
    using assms(2) by (simp add: handleRecv_def handlePing_def Let_def NewPing_def DiscvNewHeadV1_def)
qed

lemma pong_received:
  assumes "length k < 256" "length h < 256" "\<not> sint (unixTime t2 + msgDiscardTime) < sint (unixTime t3)"
    and "pvPingHash a (ToHex h) \<noteq> None"
  shows "handleRecv env order rnd t3 (MarshalPong (NewPong (unixTime t2) h k), addr) a = Some ([],
     a\<lparr>pvPingHash := (pvPingHash a)(ToHex h := None),
       pvTable := recvPong (peIPString env) t3 (NewPeer (pePkg env) (fst addr) (snd addr) (ParsePubKey (pePkg env) k)) (pvTable a)\<rparr>)"
proof -
  let ?m = "NewPong (unixTime t2) h k"
  have "UnmarshalPong (MarshalPong ?m) = Inr (?m, [])"
    by (rule pong.dec_enc_whole) (simp add: NewPong_def assms(1,2))
  moreover obtain r where "DiscvUnmarshalHead (MarshalPong ?m) = Inr (poHead ?m, r)"
    by (simp add: MarshalPong_def DiscvHead_iff)
  ultimately show ?thesis
    using assms(3,4) by (auto simp: handleRecv_def handlePong_def Let_def NewPong_def DiscvNewHeadV1_def MsgPing_def MsgPong_def)
qed

lemma recvPing_known:
  assumes "table_wf t" "prID p \<noteq> tbSelfID t" shows "tableExists (prID p) (recvPing p t)"
  using assms by (simp add: tableExists_def recvPing_def addPState_def table_wf_def)

lemma recvPong_known:
  fixes t :: "'a table"
  assumes "table_wf t" "prID p \<noteq> tbSelfID t" "tbSeeds t (seedKey ipString p) \<noteq> None"
  shows "\<exists>q. tbPeers (recvPong ipString now p t) (prID p) = Some q \<and> isAvaible now q"
proof -
  have "isAvaible now (updateActiveTime now q)" for q :: "'a pstate"
    by (simp add: isAvaible_def updateActiveTime_def subTime_def peerExpiredTime_def second_def)
  with assms show ?thesis by (auto simp: recvPong_def addPState_def table_wf_def Let_def split: option.split)
qed

lemma prID_NewPeer [simp]: "prID (NewPeer ec ip port (Some k)) = PubKeyToID ec k"
  by (simp add: NewPeer_def)

section \<open>Properties\<close>

text \<open>
  C16 Discovery works: when a node pings a seed and the datagrams arrive within eight seconds,
  the seed gets to know the node and answers, and with the answer the seed is in the node's table as an
  available peer.
\<close>

theorem ping_pong_discovers:
  assumes sigs: "signatures (pePkg env)" and hash: "\<forall>x. length (peHash env x) = 32"
    and runs: "provider_run env (newProvider env ka) a" "provider_run env (newProvider env kb) b" "ka \<noteq> kb"
    and seed: "tbSeeds (pvTable a) (seedKey (peIPString env) (NewPeer (pePkg env) ipB portB (Some kb))) = Some pst"
      "seedKey (peIPString env) (NewPeer (pePkg env) ipB portB (Some kb)) \<in> set seedOrder"
      "peResolve env (PeerAddress (peIPString env) (psPeer pst)) = Some (ipB, portB)"
    and fresh: "\<not> sint (unixTime t1 + msgDiscardTime) < sint (unixTime t2)"
      "\<not> sint (unixTime t2 + msgDiscardTime) < sint (unixTime t3)"
  shows "\<exists>sent a1 pkt pong b' a2. ping env order seedOrder t1 a = (sent, a1) \<and> (pkt, ipB, portB) \<in> set sent \<and>
    handleRecv env order2 rnd2 t2 (pkt, addrA) b = Some ([(pong, addrA)], b') \<and>
    tableExists (PubKeyToID (pePkg env) ka) (pvTable b') \<and>
    handleRecv env order3 rnd3 t3 (pong, ipB, portB) a1 = Some ([], a2) \<and>
    (\<exists>q. tbPeers (pvTable a2) (PubKeyToID (pePkg env) kb) = Some q \<and> isAvaible t3 q)"
proof -
  let ?ec = "pePkg env" and ?a1 = "snd (ping env order seedOrder t1 a)"
  let ?pkt = "MarshalPing (NewPing (unixTime t1) (pvCompressedKey a))"
  have ids: "PubKeyToID ?ec ka \<noteq> PubKeyToID ?ec kb"
    using sigs runs(3) unfolding PubKeyToID_def by (metis base32_roundtrip fst_conv option.inject signatures.parse_compressed)
  have len: "length (SerializeCompressed ?ec k) < 256" for k
    using signatures.compressed_length [OF sigs, of k] by (simp add: PubKeyBytesLenCompressed_def)
  have keys: "pvCompressedKey a = SerializeCompressed ?ec ka" "pvCompressedKey b = SerializeCompressed ?ec kb"
    using provider_run_table(2) [OF runs(1)] provider_run_table(2) [OF runs(2)] by simp_all
  note pinged = seed_pinged [OF seed(1,2,3), where now = t1 and order = order]
  have wf1: "table_wf (pvTable ?a1)" "tbSelfID (pvTable ?a1) = PubKeyToID ?ec ka"
    using provider_run_wf [OF runs(1)] table_step_wf [OF table_step.intros(2) [of _ "pvTable a" order seedOrder t1]]
    by (simp_all add: ping_def split_beta)
  have recvB: "handleRecv env order2 rnd2 t2 (?pkt, addrA) b = Some ([(MarshalPong (NewPong (unixTime t2) (peHash env ?pkt) (pvCompressedKey b)), addrA)],
      b\<lparr>pvTable := recvPing (NewPeer ?ec (fst addrA) (snd addrA) (Some ka)) (pvTable b)\<rparr>)"
    using ping_received [OF _ fresh(1), of "pvCompressedKey a" env order2 rnd2 addrA b] len
    by (simp add: keys signatures.parse_compressed [OF sigs])
  have knownA: "tableExists (PubKeyToID ?ec ka) (recvPing (NewPeer ?ec (fst addrA) (snd addrA) (Some ka)) (pvTable b))"
    using recvPing_known [OF provider_run_wf(1) [OF runs(2)], of "NewPeer ?ec (fst addrA) (snd addrA) (Some ka)"]
      provider_run_wf(2) [OF runs(2)] ids by simp
  have recvA: "handleRecv env order3 rnd3 t3 (MarshalPong (NewPong (unixTime t2) (peHash env ?pkt) (pvCompressedKey b)), ipB, portB) ?a1
      = Some ([], ?a1\<lparr>pvPingHash := (pvPingHash ?a1)(ToHex (peHash env ?pkt) := None),
          pvTable := recvPong (peIPString env) t3 (NewPeer ?ec ipB portB (Some kb)) (pvTable ?a1)\<rparr>)"
    using pong_received [OF _ _ fresh(2) pinged(2), where k = "pvCompressedKey b" and order = order3 and rnd = rnd3
        and addr = "(ipB, portB)" and env = env] len hash
    by (simp add: keys signatures.parse_compressed [OF sigs])
  obtain q where knownB: "tbPeers (recvPong (peIPString env) t3 (NewPeer ?ec ipB portB (Some kb)) (pvTable ?a1)) (PubKeyToID ?ec kb) = Some q"
      "isAvaible t3 q"
    using recvPong_known [OF wf1(1), of "NewPeer ?ec ipB portB (Some kb)" "peIPString env" t3] wf1(2) ids seed(1) pinged(3) by auto
  show ?thesis
    by (rule exI [of _ "fst (ping env order seedOrder t1 a)"], rule exI [of _ ?a1], rule exI [of _ ?pkt],
        intro exI conjI, rule surjective_pairing, rule pinged(1), rule recvB, simp add: knownA, rule recvA,
        simp, rule knownB(1), rule knownB(2))
qed

definition two_keys :: "(bytes, bool, bool) btcec" where
  "two_keys = \<lparr>ParseSignature = Some, ParsePubKey = (\<lambda>b. Some (hd b = 1)), VerifySig = (\<lambda>_ _ _. True),
     PubKeyOf = (\<lambda>k. k), SerializeCompressed = (\<lambda>k. (if k then 1 else 0) # replicate 32 0),
     SignHash = (\<lambda>_ _. Some [])\<rparr>"

interpretation two_keys: signatures two_keys
  by unfold_locales (simp_all add: two_keys_def PubKeyBytesLenCompressed_def)

definition demo_provider_env :: "(bytes, bool, bool) provider_env" where
  "demo_provider_env = \<lparr>pePkg = two_keys, peHash = mod_hash, peIPString = (\<lambda>_. []), peParseIP = (\<lambda>_. Some []),
     peMarshalText = (\<lambda>_. []), peUnmarshalText = (\<lambda>_. Some []), peResolve = (\<lambda>_. Some ([127, 0, 0, 1], 7))\<rparr>"

definition demo_seed :: "bool Peer" where
  "demo_seed = NewPeer two_keys [127, 0, 0, 1] 7 (Some False)"

theorem ping_pong_discovers_witness:
  "\<exists>sent a1 pkt pong b' a2.
    ping demo_provider_env [] ['':7''] 0 (AddSeeds demo_provider_env [demo_seed] (newProvider demo_provider_env True)) = (sent, a1) \<and>
    (pkt, [127, 0, 0, 1], 7) \<in> set sent \<and>
    handleRecv demo_provider_env [] (\<lambda>_. 0) 1 (pkt, [10, 0, 0, 1], 9) (newProvider demo_provider_env False)
      = Some ([(pong, [10, 0, 0, 1], 9)], b') \<and>
    tableExists (PubKeyToID two_keys True) (pvTable b') \<and>
    handleRecv demo_provider_env [] (\<lambda>_. 0) 2 (pong, [127, 0, 0, 1], 7) a1 = Some ([], a2) \<and>
    (\<exists>q. tbPeers (pvTable a2) (PubKeyToID two_keys False) = Some q \<and> isAvaible 2 q)"
proof -
  let ?env = demo_provider_env
  let ?a = "AddSeeds ?env [demo_seed] (newProvider ?env True)"
  have pkg: "pePkg ?env = two_keys" by (simp add: demo_provider_env_def)
  have run: "provider_run ?env (newProvider ?env True) ?a"
    by (rule r_into_rtranclp) (blast intro: provider_step.seeds)
  have key: "seedKey (peIPString ?env) p = '':7''" if "prPort p = 7" for p :: "bool Peer"
  proof -
    have "char_of (55 :: nat) = CHR ''7''" by code_simp
    with that show ?thesis by (simp add: seedKey_def demo_provider_env_def intString_def natString.simps)
  qed
  have "tbSeeds (pvTable ?a) '':7'' = Some (newPState demo_seed True)"
    by (simp add: AddSeeds_def newProvider_def newTable_def key demo_seed_def NewPeer_def Let_def)
  then show ?thesis
    using ping_pong_discovers [of ?env True ?a False "newProvider ?env False" "[127, 0, 0, 1]" 7 "newPState demo_seed True"
        "['':7'']" 0 1 2 "[]" "[]" "\<lambda>_. 0" "([10, 0, 0, 1], 9)" "[]" "\<lambda>_. 0"]
      run two_keys.signatures_axioms
    by (simp add: pkg key NewPeer_def) (simp add: demo_provider_env_def unixTime_def second_def msgDiscardTime_def mod_hash_def)
qed

section \<open>Peers that end the process\<close>

text \<open>
  A ping whose key does not parse puts a peer with a nil key and the empty identifier into the
  table, a pong with such a key makes it available, and when the node connects to it any
  response whose signature parses makes the check of that signature dereference the nil key.
\<close>

lemma unparsable_key_crashes_node:
  assumes run: "provider_run env (newProvider env ka) p" and sigs: "signatures (pePkg env)"
    and bad: "ParsePubKey (pePkg env) k = None" "length k < 256" and new: "tbPeers (pvTable p) [] = None"
    and hash: "pvPingHash p (ToHex h) \<noteq> None" "length h < 256"
    and fresh: "\<not> sint (unixTime t + msgDiscardTime) < sint (unixTime t)"
    and req: "genRequest (pePkg env) (peHash env) n s \<noteq> None"
    and resp: "waitResponse (Some rp) = Inr r" "ParseSignature (pePkg env) (rsSig r) \<noteq> None"
  shows "\<exists>sent p1 p2 peer. handleRecv env order rnd t (MarshalPing (NewPing (unixTime t) k), addr) p = Some (sent, p1) \<and>
    handleRecv env order rnd t (MarshalPong (NewPong (unixTime t) h k), addr) p1 = Some ([], p2) \<and>
    peer \<in> eligible t {} (pvTable p2) \<and>
    handshakeTo (pePkg env) (peHash env) lib n (Some s) (Some rp) peer = None"
proof -
  let ?peer = "NewPeer (pePkg env) (fst addr) (snd addr) None"
  let ?p1 = "p\<lparr>pvTable := recvPing ?peer (pvTable p)\<rparr>"
  have self: "tbSelfID (pvTable p) \<noteq> []"
    using provider_run_wf(2) [OF run] signatures.compressed_length [OF sigs, of ka]
    by (auto simp: PubKeyToID_def base32EncodeToString_def length_groups32 PubKeyBytesLenCompressed_def
        dest!: arg_cong [where f = length])
  have id: "prID ?peer = []" by (simp add: NewPeer_def)
  have known: "tbPeers (pvTable ?p1) [] = Some (newPState ?peer False)"
    using provider_run_wf(1) [OF run] new self by (simp add: id recvPing_def addPState_def table_wf_def)
  have active: "isAvaible t (updateActiveTime t (newPState ?peer False))"
    by (simp add: isAvaible_def updateActiveTime_def subTime_def peerExpiredTime_def second_def)
  have "?peer \<in> eligible t {} (recvPong (peIPString env) t ?peer (pvTable ?p1))"
    using known active by (auto simp: eligible_def recvPong_def id newPState_def updateActiveTime_def intro!: exI [of _ "[]"])
  moreover have "handshakeTo (pePkg env) (peHash env) lib n (Some s) (Some rp) ?peer = None"
    using req resp by (auto simp: handshakeTo_def rejectRespOrPanic_def NewPeer_def split: option.split)
  ultimately show ?thesis
    using ping_received [OF bad(2) fresh, of env order rnd addr p] bad(1)
      pong_received [OF bad(2) hash(2) fresh, of ?p1 env order rnd addr] hash(1) by fastforce
qed

text \<open>
  A peer whose IP text does not parse back (a nil IP, which an empty text in a neighbours message
  gives) ends the process when it is among the neighbours that a known peer asks for.
\<close>

lemma unprintable_ip_crashes_node:
  assumes "UnmarshalGetNeighbours data = Inr (m, r)" "tableExists (BytesToID (gnPubKey m)) (pvTable p)"
    and "q \<in> set (getPeers order rnd now maxNeighboursRspNum {BytesToID (gnPubKey m)} (pvTable p))"
    and "peParseIP env (peIPString env (prIP q)) = None"
  shows "handleGetNeigoubours env order rnd now data addr p = None"
proof -
  have "genNodes env peers = None" if "q \<in> set peers" for peers
    using that assms(4) by (induction peers) (auto simp: NewAddress_def split: option.split)
  with assms show ?thesis by (simp add: handleGetNeigoubours_def genNeighbours_def Let_def)
qed

end
