(* ===== verification/TcpConn.thy ===== *)
theory TcpConn
  imports Negotiator
begin

text \<open>
  The TCP connection of \<open>src/utils/tcp.go\<close>: bytes that arrive are collected in a buffer, cut by
  \<open>splitTCPStream\<close> and queued for the reader; packets to send are queued for a goroutine that
  writes them.  A socket is what a read or a write returns.  \<open>None\<close> is an operation that does
  not return: a send on a full queue whose goroutine does not run, or a split that loops for ever.
\<close>

section \<open>State\<close>

definition tcpRecvQSize :: nat where "tcpRecvQSize = 1024"
definition tcpSendQSize :: nat where "tcpSendQSize = 1024"

text \<open>
  \<open>tcHasSplit\<close> and \<open>tcHasCb\<close> tell whether \<open>SetSplitFunc\<close> and \<open>SetDisconnectCb\<close> were
  called; \<open>tcWritten\<close> are the bytes given to the socket and \<open>tcNotified\<close> whether the callback ran.
\<close>

record tcpConn =
  tcBuffer :: bytes
  tcRecvQ :: "bytes list"
  tcSendQ :: "bytes list"
  tcWritten :: bytes
  tcWorking :: bool
  tcHasSplit :: bool
  tcHasCb :: bool
  tcNotified :: bool

definition newTCPConn :: tcpConn where
  "newTCPConn = \<lparr>tcBuffer = [], tcRecvQ = [], tcSendQ = [], tcWritten = [], tcWorking = True,
     tcHasSplit = False, tcHasCb = False, tcNotified = False\<rparr>"

section \<open>Operations\<close>

definition SetSplitFunc :: "tcpConn \<Rightarrow> tcpConn" where
  "SetSplitFunc c = c\<lparr>tcHasSplit := True\<rparr>"

definition SetDisconnectCb :: "tcpConn \<Rightarrow> tcpConn" where
  "SetDisconnectCb c = c\<lparr>tcHasCb := True\<rparr>"

definition tcpSend :: "bytes \<Rightarrow> tcpConn \<Rightarrow> tcpConn option" where
  "tcpSend data c =
     (if length (tcSendQ c) < tcpSendQSize then Some (c\<lparr>tcSendQ := tcSendQ c @ [data]\<rparr>) else None)"

text \<open>\<open>Disconnect\<close> is \<open>stop\<close>: the callback that is set at that moment runs, at most once.\<close>

definition tcpStop :: "tcpConn \<Rightarrow> tcpConn" where
  "tcpStop c = (if tcWorking c then c\<lparr>tcWorking := False, tcNotified := tcHasCb c\<rparr> else c)"

datatype read_result = ReadTimeout | ReadError | ReadBytes bytes

text \<open>\<open>select\<close> with a default case: a packet is dropped when the queue is full.\<close>

fun queuePackets :: "bytes list \<Rightarrow> bytes list \<Rightarrow> bytes list" where
  "queuePackets q [] = q"
| "queuePackets q (pkt # pkts) =
     queuePackets (if length q < tcpRecvQSize then q @ [pkt] else q) pkts"

text \<open>One round of the loop of \<open>recv\<close>, without a stop request.\<close>

definition tcpRecv :: "read_result \<Rightarrow> tcpConn \<Rightarrow> tcpConn option" where
  "tcpRecv r c =
     (case r of
        ReadTimeout \<Rightarrow> Some c
      | ReadError \<Rightarrow> Some (tcpStop c)
      | ReadBytes bs \<Rightarrow>
          (let buffer = tcBuffer c @ bs
           in if tcHasSplit c
              then (case splitTCPStream buffer of
                  None \<Rightarrow> None
                | Some (pkts, rest) \<Rightarrow> Some (c\<lparr>tcBuffer := rest, tcRecvQ := queuePackets (tcRecvQ c) pkts\<rparr>))
              else Some (c\<lparr>tcBuffer := buffer\<rparr>)))"

text \<open>One round of the loop of \<open>send\<close>; \<open>ok\<close> tells whether the write succeeded.\<close>

definition tcpSendRound :: "bool \<Rightarrow> tcpConn \<Rightarrow> tcpConn" where
  "tcpSendRound ok c =
     (case tcSendQ c of
        [] \<Rightarrow> c
      | pkt # rest \<Rightarrow>
          if ok then c\<lparr>tcSendQ := rest, tcWritten := tcWritten c @ pkt\<rparr> else tcpStop (c\<lparr>tcSendQ := rest\<rparr>))"

fun tcpRecvAll :: "bytes list \<Rightarrow> tcpConn \<Rightarrow> tcpConn option" where
  "tcpRecvAll [] c = Some c"
| "tcpRecvAll (bs # chunks) c =
     (case tcpRecv (ReadBytes bs) c of None \<Rightarrow> None | Some c' \<Rightarrow> tcpRecvAll chunks c')"

section \<open>A stream of packets\<close>

abbreviation built :: "(bytes \<times> u8) list \<Rightarrow> bytes list" where
  "built pkts \<equiv> map (\<lambda>(p, i). buildTCPPacket p i) pkts"

abbreviation sendable :: "(bytes \<times> u8) list \<Rightarrow> bool" where
  "sendable pkts \<equiv> \<forall>(p, i) \<in> set pkts. p \<noteq> [] \<and> length p + 9 < 2 ^ 32"

lemma incomplete_front:
  assumes "p \<noteq> []" "length p + 9 < 2 ^ 32" "buildTCPPacket p i = xs @ ys" "ys \<noteq> []"
  shows "incomplete xs"
proof (cases "length xs \<le> 9")
  case False
  then have "packetLen xs = packetLen (xs @ ys)" by (simp add: packetLen_append)
  also have "\<dots> = length (xs @ ys)" using packetLen_build [OF assms(2), of i "[]"] assms(3) by simp
  finally show ?thesis using assms(4) by (simp add: incomplete_def)
qed (simp add: incomplete_def)

lemma stream_prefix:
  assumes "sendable pkts" "xs @ ys = concat (built pkts)"
  obtains k rest where "xs = concat (built (take k pkts)) @ rest" "incomplete rest"
    "rest @ ys = concat (built (drop k pkts))" "k \<le> length pkts"
  using assms
proof (induction pkts arbitrary: xs thesis)
  case Nil
  then show ?case by (force simp: incomplete_def)
next
  case (Cons pkt pkts)
  obtain p i where pkt: "pkt = (p, i)" by (cases pkt)
  have p: "p \<noteq> []" "length p + 9 < 2 ^ 32" and rest: "sendable pkts" using Cons.prems(2) by (auto simp: pkt)
  from Cons.prems(3) have "xs @ ys = buildTCPPacket p i @ concat (built pkts)" by (simp add: pkt)
  then consider us where "buildTCPPacket p i = xs @ us" "us \<noteq> []" "us @ concat (built pkts) = ys"
    | us where "xs = buildTCPPacket p i @ us" "us @ ys = concat (built pkts)"
  proof -
    assume eq: "xs @ ys = buildTCPPacket p i @ concat (built pkts)"
    then obtain us where "xs = buildTCPPacket p i @ us \<and> us @ ys = concat (built pkts) \<or>
        xs @ us = buildTCPPacket p i \<and> ys = us @ concat (built pkts)"
      by (auto simp: append_eq_append_conv2)
    then show ?thesis using that by (cases "us = []") auto
  qed
  then show ?case
  proof cases
    case 1
    from incomplete_front [OF p 1(1,2)] 1 show ?thesis
      by (intro Cons.prems(1) [of 0 xs]) (simp_all add: pkt)
  next
    case 2
    from Cons.IH [OF _ rest 2(2)] obtain k r where k: "us = concat (built (take k pkts)) @ r" "incomplete r"
      "r @ ys = concat (built (drop k pkts))" "k \<le> length pkts" by blast
    then show ?thesis by (intro Cons.prems(1) [of "Suc k" r]) (simp_all add: pkt 2(1))
  qed
qed

lemma incomplete_stream:
  assumes "incomplete xs" "xs = concat (built pkts)" "sendable pkts" shows "pkts = []"
proof (cases pkts)
  case (Cons pkt rest)
  obtain p i where pkt: "pkt = (p, i)" by (cases pkt)
  have p: "p \<noteq> []" "length p + 9 < 2 ^ 32" using assms(3) by (auto simp: Cons pkt)
  from packetLen_build [OF p(2), of i "concat (built rest)"] have "packetLen xs = 9 + length p"
    by (simp add: assms(2) Cons pkt)
  with p assms(1,2) show ?thesis by (simp add: incomplete_def Cons pkt)
qed simp

lemma queuePackets_fits: "length q + length pkts \<le> tcpRecvQSize \<Longrightarrow> queuePackets q pkts = q @ pkts"
  by (induction pkts arbitrary: q) auto

text \<open>However the stream is cut into reads, the packets come out whole and in order.\<close>

lemma tcp_receives:
  assumes "tcHasSplit c" "incomplete (tcBuffer c)" "sendable pkts"
    and "tcBuffer c @ concat chunks = concat (built pkts)"
    and "length (tcRecvQ c) + length pkts \<le> tcpRecvQSize"
  shows "tcpRecvAll chunks c = Some (c\<lparr>tcBuffer := [], tcRecvQ := tcRecvQ c @ built pkts\<rparr>)"
  using assms
proof (induction chunks arbitrary: c pkts)
  case Nil
  then have "pkts = []" using incomplete_stream [of "tcBuffer c" pkts] by simp
  with Nil show ?case by simp
next
  case (Cons bs chunks)
  from Cons.prems(4) have "(tcBuffer c @ bs) @ concat chunks = concat (built pkts)" by simp
  from stream_prefix [OF Cons.prems(3) this] obtain k rest where
    k: "tcBuffer c @ bs = concat (built (take k pkts)) @ rest" "incomplete rest"
      "rest @ concat chunks = concat (built (drop k pkts))" "k \<le> length pkts" .
  have front: "sendable (take k pkts)" and later: "sendable (drop k pkts)"
    using Cons.prems(3) by (auto dest: in_set_takeD in_set_dropD)
  have split: "splitTCPStream (tcBuffer c @ bs) = Some (built (take k pkts), rest)"
    unfolding k(1) splitTCPStream_def using splitLoop_build [OF front k(2), of "[]"] by simp
  let ?c = "c\<lparr>tcBuffer := rest, tcRecvQ := tcRecvQ c @ built (take k pkts)\<rparr>"
  have "length (tcRecvQ c) + length (built (take k pkts)) \<le> tcpRecvQSize"
    using Cons.prems(5) k(4) by simp
  then have "tcpRecv (ReadBytes bs) c = Some ?c"
    using Cons.prems(1) by (simp add: tcpRecv_def split queuePackets_fits Let_def)
  moreover have "tcpRecvAll chunks ?c = Some (?c\<lparr>tcBuffer := [], tcRecvQ := tcRecvQ ?c @ built (drop k pkts)\<rparr>)"
    using Cons.prems(1,5) k by (intro Cons.IH later) simp_all
  moreover have "built (take k pkts) @ built (drop k pkts) = built pkts"
    by (metis append_take_drop_id map_append)
  ultimately show ?case by simp
qed

end
