(* ===== verification/Connections.thy ===== *)
theory Connections
  imports TcpConn PeerTable
begin

text \<open>
  The connections of a node: \<open>src/p2p/conn.go\<close>, \<open>src/p2p/conn_manager.go\<close> and
  \<open>src/p2p/protocol.go\<close>.  A connection encrypts what it sends and decrypts what it receives with the
  codec of its handshake; the manager keeps one connection per peer, in a list by identifier that
  stands for the Go map and the order in which it is ranged over.  \<open>None\<close> is a call that blocks.
\<close>

section \<open>One connection\<close>

text \<open>\<open>cnStopping\<close>: a goroutine that runs \<open>stop\<close> was started and has not run yet.\<close>

record ('key, 'aead) conn =
  cnPeer :: "'key Peer"
  cnTCP :: tcpConn
  cnEc :: "'aead aesgcmCodec"
  cnWorking :: bool
  cnStopping :: bool

definition newConn :: "'key Peer \<Rightarrow> tcpConn \<Rightarrow> 'aead aesgcmCodec \<Rightarrow> ('key, 'aead) conn" where
  "newConn p nc ec = \<lparr>cnPeer = p, cnTCP = nc, cnEc = ec, cnWorking = False, cnStopping = False\<rparr>"

definition connStart :: "('key, 'aead) conn \<Rightarrow> ('key, 'aead) conn" where
  "connStart c = c\<lparr>cnWorking := True\<rparr>"

definition connStop :: "('key, 'aead) conn \<Rightarrow> ('key, 'aead) conn" where
  "connStop c =
     (if cnWorking c then c\<lparr>cnWorking := False, cnStopping := False, cnTCP := tcpStop (cnTCP c)\<rparr>
      else c\<lparr>cnStopping := False\<rparr>)"

definition connSend ::
  "('key, 'priv, 'block, 'aead) cipher_lib \<Rightarrow> u8 \<Rightarrow> bytes \<Rightarrow> ('key, 'aead) conn \<Rightarrow> ('key, 'aead) conn option" where
  "connSend lib protocolID data c =
     (let pkt = buildTCPPacket (encrypt lib (cnEc c) data) protocolID
      in map_option (\<lambda>t. c\<lparr>cnTCP := t\<rparr>) (tcpSend pkt (cnTCP c)))"

text \<open>A call of the handler: the peer, the protocol and the message.\<close>

type_synonym delivery = "string \<times> u8 \<times> bytes"

text \<open>One round of the loop, on the next packet of the receive queue.\<close>

definition connRound ::
  "('key, 'priv, 'block, 'aead) cipher_lib \<Rightarrow> ('key, 'aead) conn \<Rightarrow> delivery list \<times> ('key, 'aead) conn" where
  "connRound lib c =
     (case tcRecvQ (cnTCP c) of
        [] \<Rightarrow> ([], c)
      | pkt # rest \<Rightarrow>
          (let c1 = c\<lparr>cnTCP := (cnTCP c)\<lparr>tcRecvQ := rest\<rparr>\<rparr>
           in case verifyTCPPacket pkt of (ok, payload, protocolID) \<Rightarrow>
             if \<not> ok then ([], c1\<lparr>cnStopping := True\<rparr>)
             else (case decrypt lib (cnEc c) payload of
                 None \<Rightarrow> ([], c1\<lparr>cnStopping := True\<rparr>)
               | Some plaintext \<Rightarrow> ([(prID (cnPeer c), protocolID, plaintext)], c1))))"

fun connRounds ::
  "('key, 'priv, 'block, 'aead) cipher_lib \<Rightarrow> nat \<Rightarrow> ('key, 'aead) conn \<Rightarrow> delivery list \<times> ('key, 'aead) conn" where
  "connRounds lib 0 c = ([], c)"
| "connRounds lib (Suc n) c =
     (let (ds, c1) = connRound lib c; (es, c2) = connRounds lib n c1 in (ds @ es, c2))"

fun connSendAll ::
  "('key, 'priv, 'block, 'aead) cipher_lib \<Rightarrow> (u8 \<times> bytes) list \<Rightarrow> ('key, 'aead) conn \<Rightarrow> ('key, 'aead) conn option" where
  "connSendAll lib [] c = Some c"
| "connSendAll lib ((i, x) # ms) c =
     (case connSend lib i x c of None \<Rightarrow> None | Some c' \<Rightarrow> connSendAll lib ms c')"

section \<open>The manager\<close>

record PeerData =
  pdPeer :: string
  pdData :: bytes

datatype send_error = ErrPeerNotFound string | ErrNoPeers
datatype add_error = AlreadyExist string | OverMax nat

record ('key, 'aead) connManager =
  cmConns :: "(string \<times> ('key, 'aead) conn) list"
  cmMaxPeerNum :: nat
  cmRemoving :: "string list"

definition newConnManager :: "nat \<Rightarrow> ('key, 'aead) connManager" where
  "newConnManager maxPeerNum = \<lparr>cmConns = [], cmMaxPeerNum = maxPeerNum, cmRemoving = []\<rparr>"

definition cmSize :: "('key, 'aead) connManager \<Rightarrow> nat" where
  "cmSize m = length (cmConns m)"

definition cmGetIDs :: "('key, 'aead) connManager \<Rightarrow> string list" where
  "cmGetIDs m = map fst (cmConns m)"

definition cmIsExist :: "string \<Rightarrow> ('key, 'aead) connManager \<Rightarrow> bool" where
  "cmIsExist peerID m \<longleftrightarrow> map_of (cmConns m) peerID \<noteq> None"

definition cmStop :: "('key, 'aead) connManager \<Rightarrow> ('key, 'aead) connManager" where
  "cmStop m = m\<lparr>cmConns := map (\<lambda>(s, c). (s, connStop c)) (cmConns m)\<rparr>"

fun updateConn :: "string \<Rightarrow> 'c \<Rightarrow> (string \<times> 'c) list \<Rightarrow> (string \<times> 'c) list" where
  "updateConn s c [] = []"
| "updateConn s c ((s', c') # cs) = (if s' = s then (s, c) # cs else (s', c') # updateConn s c cs)"

fun broadcastLoop ::
  "('key, 'priv, 'block, 'aead) cipher_lib \<Rightarrow> u8 \<Rightarrow> bytes \<Rightarrow> (string \<times> ('key, 'aead) conn) list \<Rightarrow>
   (string \<times> ('key, 'aead) conn) list option" where
  "broadcastLoop lib i data [] = Some []"
| "broadcastLoop lib i data ((s, c) # cs) =
     (case connSend lib i data c of
        None \<Rightarrow> None
      | Some c' \<Rightarrow> map_option (\<lambda>r. (s, c') # r) (broadcastLoop lib i data cs))"

definition cmSend ::
  "('key, 'priv, 'block, 'aead) cipher_lib \<Rightarrow> u8 \<Rightarrow> PeerData \<Rightarrow> ('key, 'aead) connManager \<Rightarrow>
   (send_error + ('key, 'aead) connManager) option" where
  "cmSend lib protocolID dp m =
     (if cmSize m = 0 then Some (Inl ErrNoPeers)
      else if pdPeer dp = []
        then map_option (\<lambda>cs. Inr (m\<lparr>cmConns := cs\<rparr>)) (broadcastLoop lib protocolID (pdData dp) (cmConns m))
      else case map_of (cmConns m) (pdPeer dp) of
          None \<Rightarrow> Some (Inl (ErrPeerNotFound (pdPeer dp)))
        | Some c \<Rightarrow>
            map_option (\<lambda>c'. Inr (m\<lparr>cmConns := updateConn (pdPeer dp) c' (cmConns m)\<rparr>))
              (connSend lib protocolID (pdData dp) c))"

definition cmAdd ::
  "'key Peer \<Rightarrow> tcpConn \<Rightarrow> 'aead aesgcmCodec \<Rightarrow> ('key, 'aead) connManager \<Rightarrow> add_error + ('key, 'aead) connManager" where
  "cmAdd peer nc ec m =
     (if map_of (cmConns m) (prID peer) \<noteq> None then Inl (AlreadyExist (prID peer))
      else if length (cmConns m) \<ge> cmMaxPeerNum m then Inl (OverMax (length (cmConns m)))
      else Inr (m\<lparr>cmConns := cmConns m @ [(prID peer, connStart (newConn peer (SetDisconnectCb nc) ec))]\<rparr>))"

text \<open>\<open>removeConn\<close>, the disconnect callback, and the loop that takes its requests.\<close>

definition removeConn :: "string \<Rightarrow> ('key, 'aead) connManager \<Rightarrow> ('key, 'aead) connManager option" where
  "removeConn peerID m =
     (if length (cmRemoving m) < cmMaxPeerNum m then Some (m\<lparr>cmRemoving := cmRemoving m @ [peerID]\<rparr>) else None)"

definition cmRemoveRound :: "('key, 'aead) connManager \<Rightarrow> ('key, 'aead) connManager" where
  "cmRemoveRound m =
     (case cmRemoving m of
        [] \<Rightarrow> m
      | rmID # rest \<Rightarrow> m\<lparr>cmRemoving := rest, cmConns := filter (\<lambda>(s, c). s \<noteq> rmID) (cmConns m)\<rparr>)"

section \<open>The protocol side\<close>

definition protocolQSize :: nat where "protocolQSize = 2048"

text \<open>The \<open>Data\<close> channels of the runners, by protocol.\<close>

type_synonym runners = "u8 \<rightharpoonup> PeerData list"

text \<open>A second protocol with one identifier ends the process.\<close>

definition AddProtocol :: "u8 \<Rightarrow> runners \<Rightarrow> runners option" where
  "AddProtocol i rs = (if rs i \<noteq> None then None else Some (rs(i \<mapsto> [])))"

definition nodeRecv :: "delivery \<Rightarrow> runners \<Rightarrow> runners" where
  "nodeRecv d rs =
     (case d of (peer, protocolID, data) \<Rightarrow>
        case rs protocolID of
          None \<Rightarrow> rs
        | Some q \<Rightarrow>
            if length q < protocolQSize
            then rs(protocolID \<mapsto> q @ [\<lparr>pdPeer = peer, pdData = data\<rparr>]) else rs)"

section \<open>From one side to the other\<close>

definition packets :: "('key, 'priv, 'block, 'aead) cipher_lib \<Rightarrow> 'aead aesgcmCodec \<Rightarrow> (u8 \<times> bytes) list \<Rightarrow> (bytes \<times> u8) list" where
  "packets lib c ms = map (\<lambda>(i, x). (encrypt lib c x, i)) ms"

lemma connSendAll_queues:
  "length (tcSendQ (cnTCP s)) + length ms \<le> tcpSendQSize \<Longrightarrow>
   connSendAll lib ms s =
     Some (s\<lparr>cnTCP := (cnTCP s)\<lparr>tcSendQ := tcSendQ (cnTCP s) @ built (packets lib (cnEc s) ms)\<rparr>\<rparr>)"
  by (induction ms arbitrary: s) (auto simp: packets_def connSend_def tcpSend_def Let_def)

lemma tcpSendRound_flush:
  "tcWritten ((tcpSendRound True ^^ length (tcSendQ c)) c) = tcWritten c @ concat (tcSendQ c)"
proof (induction "tcSendQ c" arbitrary: c)
  case (Cons pkt rest)
  have "tcpSendRound True c = c\<lparr>tcSendQ := rest, tcWritten := tcWritten c @ pkt\<rparr>"
    using Cons.hyps(2) [symmetric] by (simp add: tcpSendRound_def)
  with Cons.hyps(1) [of "tcpSendRound True c"] Cons.hyps(2) [symmetric] show ?case
    by (simp add: funpow_swap1)
qed simp

lemma connRounds_deliver:
  assumes "tcRecvQ (cnTCP r) = built (packets lib (cnEc r) ms)" "sendable (packets lib (cnEc r) ms)"
    and "\<And>i x. (i, x) \<in> set ms \<Longrightarrow> decrypt lib (cnEc r) (encrypt lib (cnEc r) x) = Some x"
  shows "fst (connRounds lib (length ms) r) = map (\<lambda>(i, x). (prID (cnPeer r), i, x)) ms"
  using assms
proof (induction ms arbitrary: r)
  case (Cons m ms)
  obtain i x where m: "m = (i, x)" by (cases m)
  let ?r = "r\<lparr>cnTCP := (cnTCP r)\<lparr>tcRecvQ := built (packets lib (cnEc r) ms)\<rparr>\<rparr>"
  have "verifyTCPPacket (buildTCPPacket (encrypt lib (cnEc r) x) i) = (True, encrypt lib (cnEc r) x, i)"
    using Cons.prems(2) by (intro verify_build) (simp add: packets_def m)
  moreover have "decrypt lib (cnEc r) (encrypt lib (cnEc r) x) = Some x" using Cons.prems(3) [of i x] by (simp add: m)
  ultimately have "connRound lib r = ([(prID (cnPeer r), i, x)], ?r)"
    using Cons.prems(1) by (simp add: connRound_def packets_def m Let_def)
  moreover have "fst (connRounds lib (length ms) ?r) = map (\<lambda>(i, x). (prID (cnPeer ?r), i, x)) ms"
  proof (rule Cons.IH)
    show "sendable (packets lib (cnEc ?r) ms)" using Cons.prems(2) by (simp add: packets_def)
    show "decrypt lib (cnEc ?r) (encrypt lib (cnEc ?r) y) = Some y" if "(j, y) \<in> set ms" for j y
      using Cons.prems(3) [of j y] that by simp
  qed simp
  ultimately show ?case by (simp add: m Let_def split_beta)
qed simp

section \<open>Properties\<close>

text \<open>
  C14 Messages arrive: what one side of a connection sends, up to a queue's length, reaches the
  handler of the other side as the same messages, in order, under the sender's identifier, however
  the bytes written are cut into reads, when both sides hold the codec that their handshake made.
\<close>

theorem messages_delivered:
  assumes kx: "key_exchange ec lib" and cdc: "newAESGCMCodec lib k p = Inr cdc" "cnEc s = cdc" "cnEc r = cdc"
    and sender: "tcSendQ (cnTCP s) = []" "tcWritten (cnTCP s) = []"
    and receiver: "tcHasSplit (cnTCP r)" "tcBuffer (cnTCP r) = []" "tcRecvQ (cnTCP r) = []"
    and fits: "length ms \<le> 1024" "\<forall>(i, x) \<in> set ms. encrypt lib cdc x \<noteq> [] \<and> length (encrypt lib cdc x) + 9 < 2 ^ 32"
  shows "\<exists>s'. connSendAll lib ms s = Some s' \<and>
    (\<forall>chunks. concat chunks = tcWritten ((tcpSendRound True ^^ length ms) (cnTCP s')) \<longrightarrow>
       (\<exists>t. tcpRecvAll chunks (cnTCP r) = Some t \<and>
          fst (connRounds lib (length ms) (r\<lparr>cnTCP := t\<rparr>)) = map (\<lambda>(i, x). (prID (cnPeer r), i, x)) ms))"
proof -
  let ?ps = "packets lib cdc ms" and ?s = "s\<lparr>cnTCP := (cnTCP s)\<lparr>tcSendQ := built (packets lib cdc ms)\<rparr>\<rparr>"
  have ok: "sendable ?ps" using fits(2) by (auto simp: packets_def)
  have sent: "connSendAll lib ms s = Some ?s"
    using connSendAll_queues [of s ms lib] sender(1) fits(1) by (simp add: cdc(2) tcpSendQSize_def)
  have written: "tcWritten ((tcpSendRound True ^^ length ms) (cnTCP ?s)) = concat (built ?ps)"
    using tcpSendRound_flush [of "cnTCP ?s"] sender(2) by (simp add: packets_def)
  have received: "tcpRecvAll chunks (cnTCP r) = Some ((cnTCP r)\<lparr>tcBuffer := [], tcRecvQ := built ?ps\<rparr>)"
    if "concat chunks = concat (built ?ps)" for chunks
    using tcp_receives [OF receiver(1) _ ok, of chunks] receiver fits(1) that
    by (simp add: incomplete_def packets_def tcpRecvQSize_def)
  have "decrypt lib cdc (encrypt lib cdc x) = Some x" for x
    by (rule key_exchange.decrypt_encrypt [OF kx cdc(1)])
  then have "fst (connRounds lib (length ms) (r\<lparr>cnTCP := (cnTCP r)\<lparr>tcBuffer := [], tcRecvQ := built ?ps\<rparr>\<rparr>))
      = map (\<lambda>(i, x). (prID (cnPeer r), i, x)) ms"
    using connRounds_deliver [of "r\<lparr>cnTCP := (cnTCP r)\<lparr>tcBuffer := [], tcRecvQ := built ?ps\<rparr>\<rparr>" lib ms] ok
    by (simp add: cdc(3))
  with sent written received show ?thesis by (intro exI [of _ ?s]) simp
qed

definition demo_codec :: "bytes aesgcmCodec" where
  "demo_codec = \<lparr>gcAead = replicate 32 5, gcNonce = replicate 12 5\<rparr>"

definition demo_conn :: "string \<Rightarrow> (unit, bytes) conn" where
  "demo_conn s = connStart (newConn \<lparr>prIP = [], prPort = 7, prKey = Some (), prID = s\<rparr> (SetSplitFunc newTCPConn) demo_codec)"

theorem messages_delivered_witness:
  "\<exists>s'. connSendAll toy_lib [(1, [10, 11]), (2, [12])] (demo_conn ''B'') = Some s' \<and>
    (\<forall>chunks. concat chunks = tcWritten ((tcpSendRound True ^^ 2) (cnTCP s')) \<longrightarrow>
       (\<exists>t. tcpRecvAll chunks (cnTCP (demo_conn ''A'')) = Some t \<and>
          fst (connRounds toy_lib 2 ((demo_conn ''A'')\<lparr>cnTCP := t\<rparr>)) = [(''A'', 1, [10, 11]), (''A'', 2, [12])]))"
proof -
  have "newAESGCMCodec toy_lib () () = Inr demo_codec"
    by (simp add: newAESGCMCodec_def toy_lib_def demo_codec_def Let_def)
  note sound = messages_delivered [OF toy_exchange.key_exchange_axioms this]
  have conn: "cnEc (demo_conn s) = demo_codec" "tcSendQ (cnTCP (demo_conn s)) = []" "tcWritten (cnTCP (demo_conn s)) = []"
    "tcHasSplit (cnTCP (demo_conn s))" "tcBuffer (cnTCP (demo_conn s)) = []" "tcRecvQ (cnTCP (demo_conn s)) = []"
    "prID (cnPeer (demo_conn s)) = s" for s
    by (simp_all add: demo_conn_def connStart_def newConn_def SetSplitFunc_def newTCPConn_def)
  have fits: "length [(1 :: u8, [10, 11 :: byte]), (2, [12])] \<le> 1024"
    "\<forall>(i, x) \<in> set [(1 :: u8, [10, 11]), (2, [12])]. encrypt toy_lib demo_codec x \<noteq> [] \<and> length (encrypt toy_lib demo_codec x) + 9 < 2 ^ 32"
    by (simp_all add: encrypt_def toy_lib_def)
  show ?thesis
    using sound [OF conn(1) conn(1) conn(2) conn(3) conn(4) conn(5) conn(6) fits, of "''B''" "''A''"]
    by (simp add: conn numeral_2_eq_2 del: connSendAll.simps connRounds.simps funpow.simps)
qed

end
