(* ===== verification/P2PNode.thy ===== *)
theory P2PNode
  imports Connections
begin

text \<open>
  The peer-to-peer node of \<open>src/p2p/node.go\<close>: it asks its provider for peers, opens and accepts
  connections through the negotiator and hands them to the connection manager, and gives what
  arrives to the protocols.  The steps that run in goroutines of their own are separate steps
  here.  A result \<open>None\<close> is a panic or a call that blocks for ever.
\<close>

section \<open>State\<close>

record ('key, 'priv, 'aead) node =
  ndPrivKey :: 'priv
  ndMaxPeersNum :: nat
  ndProtocols :: runners
  ndNg :: "('key, 'priv) negotiator"
  ndBlackList :: "string \<rightharpoonup> int"
  ndConnectTask :: "'key Peer list"
  ndConnMgr :: "('key, 'aead) connManager"

definition newNode ::
  "('sig, 'key, 'priv) btcec \<Rightarrow> 'priv \<Rightarrow> u8 \<Rightarrow> u8 \<Rightarrow> nat \<Rightarrow> ('key, 'priv, 'aead) node option" where
  "newNode ec privKey chainID nodeType maxPeerNum =
     (if nodeType \<noteq> FullNode \<and> nodeType \<noteq> LightNode then None
      else Some \<lparr>ndPrivKey = privKey, ndMaxPeersNum = maxPeerNum, ndProtocols = Map.empty,
        ndNg = newNegotiator ec privKey chainID nodeType, ndBlackList = Map.empty, ndConnectTask = [],
        ndConnMgr = newConnManager maxPeerNum\<rparr>)"

section \<open>Finding peers\<close>

definition addNgBlackList :: "int \<Rightarrow> string \<Rightarrow> ('key, 'priv, 'aead) node \<Rightarrow> ('key, 'priv, 'aead) node" where
  "addNgBlackList now peerID n = n\<lparr>ndBlackList := (ndBlackList n)(peerID \<mapsto> now)\<rparr>"

definition cleanNgBlackList :: "int \<Rightarrow> ('key, 'priv, 'aead) node \<Rightarrow> ('key, 'priv, 'aead) node" where
  "cleanNgBlackList now n =
     n\<lparr>ndBlackList := (\<lambda>s. case ndBlackList n s of
         None \<Rightarrow> None | Some v \<Rightarrow> if subTime now v > 1800 * second then None else Some v)\<rparr>"

definition getExcludePeers :: "('key, 'priv, 'aead) node \<Rightarrow> string set" where
  "getExcludePeers n = dom (ndBlackList n) \<union> set (cmGetIDs (ndConnMgr n))"

text \<open>
  The tasks go to a channel with room for \<open>maxPeersNum\<close>, which only the goroutine that runs this
  operation empties: when it is full the node stands still.
\<close>

fun pushTasks :: "'key Peer list \<Rightarrow> ('key, 'priv, 'aead) node \<Rightarrow> ('key, 'priv, 'aead) node option" where
  "pushTasks [] n = Some n"
| "pushTasks (p # ps) n =
     (if length (ndConnectTask n) < ndMaxPeersNum n
      then pushTasks ps (n\<lparr>ndConnectTask := ndConnectTask n @ [p]\<rparr>) else None)"

text \<open>\<open>ask\<close> is \<open>peerProvider.GetPeers\<close> at this moment.\<close>

definition getPeersToConnect ::
  "(nat \<Rightarrow> string set \<Rightarrow> 'key Peer list) \<Rightarrow> ('key, 'priv, 'aead) node \<Rightarrow> ('key, 'priv, 'aead) node option" where
  "getPeersToConnect ask n =
     (let peersNum = cmSize (ndConnMgr n)
      in if peersNum \<ge> ndMaxPeersNum n then Some n
         else pushTasks (ask (ndMaxPeersNum n - peersNum) (getExcludePeers n)) n)"

section \<open>Opening and accepting connections\<close>

definition addConn ::
  "'key Peer \<Rightarrow> tcpConn \<Rightarrow> 'aead aesgcmCodec \<Rightarrow> ('key, 'priv, 'aead) node \<Rightarrow> ('key, 'priv, 'aead) node" where
  "addConn peer c ec n =
     (case cmAdd peer c ec (ndConnMgr n) of
        Inl _ \<Rightarrow> n
      | Inr m \<Rightarrow> n\<lparr>ndConnMgr := m\<rparr>)"

text \<open>
  \<open>tcpConnect\<close> is what \<open>tcpConnectFunc\<close> returns, \<open>recv\<close> what the peer answers; the peer with the
  smaller identifier connects first and the other one waits ten seconds before this operation.
\<close>

definition setupConn ::
  "('sig, 'key, 'priv) btcec \<Rightarrow> hasher \<Rightarrow> ('key, 'priv, 'block, 'aead) cipher_lib \<Rightarrow> 'priv option \<Rightarrow>
   tcpConn option \<Rightarrow> bytes option \<Rightarrow> int \<Rightarrow> 'key Peer \<Rightarrow> ('key, 'priv, 'aead) node \<Rightarrow> ('key, 'priv, 'aead) node option" where
  "setupConn ec Hash lib sessionKey tcpConnect recv now newPeer n =
     (if cmIsExist (prID newPeer) (ndConnMgr n) then Some n
      else case tcpConnect of
          None \<Rightarrow> Some n
        | Some c \<Rightarrow>
            (let c1 = SetSplitFunc c
             in case handshakeTo ec Hash lib (ndNg n) sessionKey recv newPeer of
                  None \<Rightarrow> None
                | Some (_, Inl _) \<Rightarrow> Some (addNgBlackList now (prID newPeer) n)
                | Some (_, Inr cdc) \<Rightarrow> Some (addConn newPeer c1 cdc n)))"

text \<open>\<open>loop\<close> sets the split function before \<open>recvConn\<close>.\<close>

definition recvConn ::
  "('sig, 'key, 'priv) btcec \<Rightarrow> hasher \<Rightarrow> ('key, 'priv, 'block, 'aead) cipher_lib \<Rightarrow> (string \<Rightarrow> IP option) \<Rightarrow>
   'priv option \<Rightarrow> string \<Rightarrow> bool \<Rightarrow> bytes option \<Rightarrow> tcpConn \<Rightarrow> ('key, 'priv, 'aead) node \<Rightarrow> ('key, 'priv, 'aead) node option" where
  "recvConn ec Hash lib parseIP sessionKey addr accept recv c n =
     (case recvHandshake ec Hash lib parseIP (ndNg n) sessionKey addr accept recv of
        None \<Rightarrow> None
      | Some (_, Inl _) \<Rightarrow> Some n
      | Some (_, Inr None) \<Rightarrow> Some n
      | Some (_, Inr (Some (peer, cdc))) \<Rightarrow> Some (addConn peer (SetSplitFunc c) cdc n))"

definition acceptNow :: "('key, 'priv, 'aead) node \<Rightarrow> bool" where
  "acceptNow n \<longleftrightarrow> cmSize (ndConnMgr n) < ndMaxPeersNum n"

definition p2pSend ::
  "('key, 'priv, 'block, 'aead) cipher_lib \<Rightarrow> u8 \<Rightarrow> PeerData \<Rightarrow> ('key, 'priv, 'aead) node \<Rightarrow>
   (send_error + ('key, 'priv, 'aead) node) option" where
  "p2pSend lib i dp n =
     map_option (\<lambda>r. case r of Inl e \<Rightarrow> Inl e | Inr m \<Rightarrow> Inr (n\<lparr>ndConnMgr := m\<rparr>)) (cmSend lib i dp (ndConnMgr n))"

definition p2pAddProtocol :: "u8 \<Rightarrow> ('key, 'priv, 'aead) node \<Rightarrow> ('key, 'priv, 'aead) node option" where
  "p2pAddProtocol i n = map_option (\<lambda>rs. n\<lparr>ndProtocols := rs\<rparr>) (AddProtocol i (ndProtocols n))"

section \<open>Steps\<close>

text \<open>
  The room for a peer is looked at when its connection is accepted, possibly long before its
  handshake ends, so the decision is any value here.
\<close>

inductive node_step ::
  "('sig, 'key, 'priv) btcec \<Rightarrow> hasher \<Rightarrow> ('key, 'priv, 'block, 'aead) cipher_lib \<Rightarrow>
   ('key, 'priv, 'aead) node \<Rightarrow> ('key, 'priv, 'aead) node \<Rightarrow> bool" for ec Hash lib where
  find_peers: "getPeersToConnect ask n = Some n' \<Longrightarrow> node_step ec Hash lib n n'"
| clean: "node_step ec Hash lib n (cleanNgBlackList now n)"
| take_task: "ndConnectTask n = p # ps \<Longrightarrow> node_step ec Hash lib n (n\<lparr>ndConnectTask := ps\<rparr>)"
| open_conn: "setupConn ec Hash lib sessionKey tcpConnect recv now p n = Some n' \<Longrightarrow> node_step ec Hash lib n n'"
| accept: "recvConn ec Hash lib parseIP sessionKey addr acc recv c n = Some n' \<Longrightarrow> node_step ec Hash lib n n'"
| send: "p2pSend lib i dp n = Some (Inr n') \<Longrightarrow> node_step ec Hash lib n n'"
| protocol: "p2pAddProtocol i n = Some n' \<Longrightarrow> node_step ec Hash lib n n'"
| round: "map_of (cmConns (ndConnMgr n)) s = Some c \<Longrightarrow> connRound lib c = (ds, c') \<Longrightarrow>
    node_step ec Hash lib n (n\<lparr>ndConnMgr := (ndConnMgr n)\<lparr>cmConns := updateConn s c' (cmConns (ndConnMgr n))\<rparr>,
      ndProtocols := fold nodeRecv ds (ndProtocols n)\<rparr>)"
| socket: "map_of (cmConns (ndConnMgr n)) s = Some c \<Longrightarrow>
    node_step ec Hash lib n (n\<lparr>ndConnMgr := (ndConnMgr n)\<lparr>cmConns := updateConn s (c\<lparr>cnTCP := t\<rparr>) (cmConns (ndConnMgr n))\<rparr>\<rparr>)"
| stop_conn: "map_of (cmConns (ndConnMgr n)) s = Some c \<Longrightarrow> cnStopping c \<Longrightarrow>
    node_step ec Hash lib n (n\<lparr>ndConnMgr := (ndConnMgr n)\<lparr>cmConns := updateConn s (connStop c) (cmConns (ndConnMgr n))\<rparr>\<rparr>)"
| disconnected: "removeConn s (ndConnMgr n) = Some m \<Longrightarrow> node_step ec Hash lib n (n\<lparr>ndConnMgr := m\<rparr>)"
| remove: "node_step ec Hash lib n (n\<lparr>ndConnMgr := cmRemoveRound (ndConnMgr n)\<rparr>)"
| stop: "node_step ec Hash lib n (n\<lparr>ndConnMgr := cmStop (ndConnMgr n)\<rparr>)"

section \<open>The manager's invariant\<close>

definition cm_inv :: "nat \<Rightarrow> ('key, 'aead) connManager \<Rightarrow> bool" where
  "cm_inv mx m \<longleftrightarrow> cmMaxPeerNum m = mx \<and> length (cmConns m) \<le> mx \<and> distinct (map fst (cmConns m)) \<and>
     (\<forall>(s, c) \<in> set (cmConns m). prID (cnPeer c) = s)"

lemma updateConn_keys: "map fst (updateConn s c cs) = map fst cs"
  by (induction s c cs rule: updateConn.induct) auto

lemma updateConn_set: "set (updateConn s c cs) \<subseteq> insert (s, c) (set cs)"
  by (induction s c cs rule: updateConn.induct) auto

lemma cm_inv_update:
  assumes "cm_inv mx m" "prID (cnPeer c) = s"
  shows "cm_inv mx (m\<lparr>cmConns := updateConn s c (cmConns m)\<rparr>)"
proof -
  have "length (updateConn s c (cmConns m)) = length (cmConns m)"
    by (metis length_map updateConn_keys)
  with assms show ?thesis using updateConn_set [of s c "cmConns m"]
    by (auto simp: cm_inv_def updateConn_keys)
qed

lemma cm_inv_peer: "cm_inv mx m \<Longrightarrow> map_of (cmConns m) s = Some c \<Longrightarrow> prID (cnPeer c) = s"
  by (auto simp: cm_inv_def dest!: map_of_SomeD)

lemma connSend_peer: "connSend lib i data c = Some c' \<Longrightarrow> cnPeer c' = cnPeer c"
  by (auto simp: connSend_def Let_def)

lemma broadcastLoop_inv:
  "broadcastLoop lib i data cs = Some cs' \<Longrightarrow>
   map fst cs' = map fst cs \<and> map (cnPeer \<circ> snd) cs' = map (cnPeer \<circ> snd) cs"
  by (induction lib i data cs arbitrary: cs' rule: broadcastLoop.induct)
    (auto split: option.splits dest: connSend_peer)

lemma peers_keyed: "(\<forall>(s, c) \<in> set cs. prID (cnPeer c) = s) \<longleftrightarrow> map fst cs = map prID (map (cnPeer \<circ> snd) cs)"
  by (induction cs) auto

lemma cm_inv_send: "cm_inv mx m \<Longrightarrow> cmSend lib i dp m = Some (Inr m') \<Longrightarrow> cm_inv mx m'"
proof -
  assume inv: "cm_inv mx m" and send: "cmSend lib i dp m = Some (Inr m')"
  show ?thesis
  proof (cases "pdPeer dp = []")
    case True
    with send obtain cs where cs: "broadcastLoop lib i (pdData dp) (cmConns m) = Some cs" "m' = m\<lparr>cmConns := cs\<rparr>"
      by (auto simp: cmSend_def split: if_splits)
    from broadcastLoop_inv [OF cs(1)] inv show ?thesis
      unfolding cm_inv_def peers_keyed cs(2) by (simp, metis length_map)
  next
    case False
    with send obtain c c' where c: "map_of (cmConns m) (pdPeer dp) = Some c" "connSend lib i (pdData dp) c = Some c'"
      "m' = m\<lparr>cmConns := updateConn (pdPeer dp) c' (cmConns m)\<rparr>"
      by (auto simp: cmSend_def split: if_splits option.splits)
    then show ?thesis using cm_inv_update [OF inv] cm_inv_peer [OF inv c(1)] connSend_peer by metis
  qed
qed

lemma cm_inv_add: "cm_inv mx m \<Longrightarrow> cmAdd peer c ec m = Inr m' \<Longrightarrow> cm_inv mx m'"
  by (auto simp: cmAdd_def cm_inv_def connStart_def newConn_def map_of_eq_None_iff split: if_splits)

lemma cm_inv_remove: "cm_inv mx m \<Longrightarrow> cm_inv mx (cmRemoveRound m)"
  by (auto simp: cmRemoveRound_def cm_inv_def distinct_map_filter split: list.split
      intro: le_trans [OF length_filter_le])

lemma cm_inv_stop: "cm_inv mx m \<Longrightarrow> cm_inv mx (cmStop m)"
  by (force simp: cmStop_def cm_inv_def connStop_def comp_def split_beta)

lemma connRound_peer: "connRound lib c = (ds, c') \<Longrightarrow> cnPeer c' = cnPeer c"
  by (auto simp: connRound_def Let_def split: list.splits prod.splits if_splits option.splits)

lemma connStop_peer [simp]: "cnPeer (connStop c) = cnPeer c"
  by (simp add: connStop_def)

definition node_inv :: "nat \<Rightarrow> ('key, 'priv, 'aead) node \<Rightarrow> bool" where
  "node_inv mx n \<longleftrightarrow> ndMaxPeersNum n = mx \<and> cm_inv mx (ndConnMgr n)"

lemma pushTasks_frame:
  "pushTasks ps n = Some n' \<Longrightarrow> ndMaxPeersNum n' = ndMaxPeersNum n \<and> ndConnMgr n' = ndConnMgr n"
  by (induction ps arbitrary: n) (auto split: if_splits)

lemma addConn_inv: "node_inv mx n \<Longrightarrow> node_inv mx (addConn peer c ec n)"
  by (auto simp: node_inv_def addConn_def split: sum.split dest: cm_inv_add)

lemma removeConn_inv: "removeConn s m = Some m' \<Longrightarrow> cm_inv mx m \<Longrightarrow> cm_inv mx m'"
  by (auto simp: removeConn_def cm_inv_def split: if_splits)

lemma node_step_inv:
  assumes "node_step ec Hash lib n n'" "node_inv mx n" shows "node_inv mx n'"
  using assms
proof cases
  case (find_peers ask)
  with assms(2) show ?thesis
    by (auto simp: node_inv_def getPeersToConnect_def Let_def dest: pushTasks_frame split: if_splits)
next
  case (open_conn sessionKey tcpConnect recv now p)
  with assms(2) show ?thesis
    by (auto simp: setupConn_def Let_def addConn_inv addNgBlackList_def node_inv_def
        split: if_splits option.splits prod.splits sum.splits intro: addConn_inv [unfolded node_inv_def, THEN conjunct1]
        addConn_inv [unfolded node_inv_def, THEN conjunct2])
next
  case (accept parseIP sessionKey addr acc recv c)
  with assms(2) show ?thesis
    by (auto simp: recvConn_def addConn_inv split: option.splits prod.splits sum.splits)
next
  case (send i dp)
  then obtain m where "cmSend lib i dp (ndConnMgr n) = Some (Inr m)" "n' = n\<lparr>ndConnMgr := m\<rparr>"
    by (cases "cmSend lib i dp (ndConnMgr n)") (auto simp: p2pSend_def split: sum.splits)
  with assms(2) show ?thesis by (auto simp: node_inv_def dest: cm_inv_send)
next
  case (round s c ds c')
  with assms(2) show ?thesis
    using cm_inv_peer [of mx "ndConnMgr n" s c] connRound_peer [of lib c ds c'] by (auto simp: node_inv_def intro!: cm_inv_update)
next
  case (socket s c t)
  with assms(2) show ?thesis
    using cm_inv_peer [of mx "ndConnMgr n" s c] by (auto simp: node_inv_def intro!: cm_inv_update)
next
  case (stop_conn s c)
  with assms(2) show ?thesis
    using cm_inv_peer [of mx "ndConnMgr n" s c] by (auto simp: node_inv_def intro!: cm_inv_update)
qed (auto simp: node_inv_def cleanNgBlackList_def p2pAddProtocol_def intro: removeConn_inv cm_inv_remove cm_inv_stop)

lemma pushTasks_fit:
  "length (ndConnectTask n) + length ps \<le> ndMaxPeersNum n \<Longrightarrow>
   \<exists>n'. pushTasks ps n = Some n' \<and> ndConnectTask n' = ndConnectTask n @ ps"
proof (induction ps arbitrary: n)
  case (Cons p ps)
  from Cons.prems Cons.IH [of "n\<lparr>ndConnectTask := ndConnectTask n @ [p]\<rparr>"] show ?case by simp
qed simp

context peer_provider
begin

text \<open>An idle node that asks a lawful provider never blocks on its task channel.\<close>

lemma tasks_fit:
  assumes "ok s" "ndConnectTask n = []"
  obtains n' where "getPeersToConnect (ask s) n = Some n'"
    "ndConnectTask n' = (if cmSize (ndConnMgr n) \<ge> ndMaxPeersNum n then []
       else ask s (ndMaxPeersNum n - cmSize (ndConnMgr n)) (getExcludePeers n))"
proof -
  let ?ps = "ask s (ndMaxPeersNum n - cmSize (ndConnMgr n)) (getExcludePeers n)"
  have "length ?ps \<le> ndMaxPeersNum n" using ask_bounded [OF assms(1)] by (meson diff_le_self le_trans)
  with pushTasks_fit [of n ?ps] assms(2) obtain n' where "pushTasks ?ps n = Some n'" "ndConnectTask n' = ?ps" by auto
  with assms(2) show thesis by (intro that [of "if cmSize (ndConnMgr n) \<ge> ndMaxPeersNum n then n else n'"])
    (simp_all add: getPeersToConnect_def Let_def)
qed

end

section \<open>Properties\<close>

text \<open>
  C15 The bound on the peers holds at all times: in every reachable state of a node, whatever
  arrives and in whatever order its goroutines run, the manager has at most \<open>maxPeerNum\<close>
  connections, one per peer, each under the identifier of its peer.
\<close>

theorem connections_bounded:
  assumes "newNode ec privKey chainID nodeType maxPeerNum = Some n0" and "(node_step ec Hash lib)\<^sup>*\<^sup>* n0 n"
  shows "cmSize (ndConnMgr n) \<le> maxPeerNum \<and> distinct (cmGetIDs (ndConnMgr n)) \<and>
    (\<forall>(s, c) \<in> set (cmConns (ndConnMgr n)). prID (cnPeer c) = s)"
proof -
  have "node_inv maxPeerNum n0"
    using assms(1) by (auto simp: newNode_def node_inv_def cm_inv_def newConnManager_def split: if_splits)
  with assms(2) have "node_inv maxPeerNum n" by (induction rule: rtranclp_induct) (auto dest: node_step_inv)
  then show ?thesis by (simp add: node_inv_def cm_inv_def cmSize_def cmGetIDs_def)
qed

text \<open>
  C18 What a node tries to connect to: when its task queue is empty, asking the peer table does not
  block, every task is a known available peer that is neither connected nor on the blacklist, no peer
  is asked for twice, and tasks and connections together stay within \<open>maxPeersNum\<close>.
\<close>

theorem connect_tasks_sound:
  assumes wf: "table_wf t" "ordered order (tbPeers t)" and idle: "ndConnectTask n = []"
    and room: "cmSize (ndConnMgr n) \<le> ndMaxPeersNum n"
  shows "\<exists>n'. getPeersToConnect (askTable (order, rnd, now, t)) n = Some n' \<and>
    (\<forall>p \<in> set (ndConnectTask n'). \<not> cmIsExist (prID p) (ndConnMgr n) \<and> ndBlackList n (prID p) = None \<and>
       p \<in> eligible now {} t) \<and>
    distinct (map prID (ndConnectTask n')) \<and> length (ndConnectTask n') + cmSize (ndConnMgr n) \<le> ndMaxPeersNum n"
proof -
  let ?v = "(order, rnd, now, t)"
  have ok: "viewOk ?v" using wf by (simp add: viewOk_def)
  obtain n' where run: "getPeersToConnect (askTable ?v) n = Some n'"
    and tasks: "ndConnectTask n' = (if cmSize (ndConnMgr n) \<ge> ndMaxPeersNum n then []
       else askTable ?v (ndMaxPeersNum n - cmSize (ndConnMgr n)) (getExcludePeers n))"
    by (rule table.tasks_fit [OF ok idle])
  have "\<not> cmIsExist (prID p) (ndConnMgr n) \<and> ndBlackList n (prID p) = None \<and> p \<in> eligible now {} t"
    if "p \<in> set (askTable ?v k (getExcludePeers n))" for p k
    using table.ask_not_excluded [OF ok that] subsetD [OF table.ask_pool [OF ok] that]
    by (auto simp: getExcludePeers_def cmIsExist_def cmGetIDs_def map_of_eq_None_iff viewPool_def eligible_def dom_def)
  with run tasks table.ask_distinct [OF ok] table.ask_bounded [OF ok] room show ?thesis
    by (fastforce simp: le_diff_conv2 [symmetric])
qed

definition demo_node :: "(unit, unit, bytes) node" where
  "demo_node = \<lparr>ndPrivKey = (), ndMaxPeersNum = 2, ndProtocols = Map.empty,
     ndNg = newNegotiator short_ec () 1 FullNode, ndBlackList = Map.empty, ndConnectTask = [],
     ndConnMgr = newConnManager 2\<rparr>"

lemma demo_node_new: "newNode short_ec () 1 FullNode 2 = Some demo_node"
  by (simp add: newNode_def demo_node_def)

text \<open>A node that accepts the handshake of another one has one connection.\<close>

lemma demo_node_accepts:
  obtains rq n where "recvConn short_ec mod_hash toy_lib (\<lambda>_. None) (Some ()) [] True (Some rq) newTCPConn demo_node = Some n"
    "cmSize (ndConnMgr n) = 1"
proof -
  let ?ng = "newNegotiator short_ec () 1 FullNode"
  have key: "ngPubKey ?ng = PubKeyOf short_ec (ngPrivKey ?ng)" by (simp add: newNegotiator_def)
  have "genRequest short_ec mod_hash ?ng () \<noteq> None" "genAcceptResponse short_ec mod_hash ?ng () \<noteq> None"
    by (simp_all add: genRequest_def genAcceptResponse_def RequestSign_def ResponseSign_def Let_def short_ec_def)
  then obtain rq rp where gen: "genRequest short_ec mod_hash ?ng () = Some rq"
    "genAcceptResponse short_ec mod_hash ?ng () = Some rp" by blast
  obtain c where c: "newAESGCMCodec toy_lib (PubKeyOf short_ec ()) () = Inr c"
    by (rule key_exchange.codec_made [OF toy_exchange.key_exchange_axioms])
  have "whetherRejectReq ?ng (requestOf short_ec ?ng () []) = Inr ()"
    by (simp add: whetherRejectReq_def requestOf_def NewRequestV1_def newNegotiator_def CurrentCodeVersion_def
        MinimizeVersionRequired_def FullNode_def LightNode_def)
  then obtain peer where "recvHandshake short_ec mod_hash toy_lib (\<lambda>_. None) ?ng (Some ()) [] True (Some rq) = Some ([rp], Inr (Some (peer, c)))"
    using key_exchange.responder_result [OF toy_exchange.key_exchange_axioms gen(1) key c,
        of "\<lambda>_. None" ?ng "[]" True] by (simp add: gen(2))
  then have "recvConn short_ec mod_hash toy_lib (\<lambda>_. None) (Some ()) [] True (Some rq) newTCPConn demo_node
      = Some (addConn peer (SetSplitFunc newTCPConn) c demo_node)"
    by (simp add: recvConn_def demo_node_def)
  then show thesis
    by (rule that) (simp add: demo_node_def addConn_def cmAdd_def newConnManager_def cmSize_def)
qed

theorem connections_bounded_witness:
  "\<exists>n. (node_step short_ec mod_hash toy_lib)\<^sup>*\<^sup>* demo_node n \<and> cmSize (ndConnMgr n) = 1 \<and>
    cmSize (ndConnMgr n) \<le> 2 \<and> distinct (cmGetIDs (ndConnMgr n))"
proof -
  obtain rq n where n: "recvConn short_ec mod_hash toy_lib (\<lambda>_. None) (Some ()) [] True (Some rq) newTCPConn demo_node = Some n"
    "cmSize (ndConnMgr n) = 1" by (rule demo_node_accepts)
  then have run: "(node_step short_ec mod_hash toy_lib)\<^sup>*\<^sup>* demo_node n"
    by (blast intro: node_step.accept)
  from connections_bounded [OF demo_node_new run] n(2) run show ?thesis by blast
qed

theorem connect_tasks_sound_witness:
  "\<exists>n'. getPeersToConnect (askTable ([''A''], \<lambda>_. 0, 101, demo_table)) demo_node = Some n' \<and>
    ndConnectTask n' = [demo_peer] \<and> length (ndConnectTask n') + cmSize (ndConnMgr demo_node) \<le> 2"
proof -
  have "(table_step (\<lambda>_. []))\<^sup>*\<^sup>* (newTable ''S'') demo_table"
    unfolding demo_table_def
    by (rule rtranclp.rtrancl_into_rtrancl, rule r_into_rtranclp, rule table_step.intros(1), rule table_step.intros(5))
  then have wf: "table_wf demo_table" by (rule reachable_wf(1))
  have order: "ordered [''A''] (tbPeers demo_table)" by (simp add: ordered_def demo_table_peers)
  have idle: "ndConnectTask demo_node = []" "cmSize (ndConnMgr demo_node) \<le> ndMaxPeersNum demo_node"
    by (simp_all add: demo_node_def newConnManager_def cmSize_def)
  have "getPeers [''A''] (\<lambda>_. 0) 101 2 {} demo_table = [demo_peer]"
    by (simp add: getPeers_def rangeMap_def map_filter_simps demo_table_peers isAvaible_def subTime_def
        updateActiveTime_def newPState_def peerExpiredTime_def second_def psID_def demo_peer_def)
  then have "\<exists>n'. getPeersToConnect (askTable ([''A''], \<lambda>_. 0, 101, demo_table)) demo_node = Some n' \<and> ndConnectTask n' = [demo_peer]"
    by (simp add: getPeersToConnect_def askTable_def demo_node_def newConnManager_def cmSize_def cmGetIDs_def
        getExcludePeers_def)
  with connect_tasks_sound [OF wf order idle, of "\<lambda>_. 0" 101] show ?thesis
    by (auto simp: demo_node_def)
qed

end
