(* ===== verification/Merkle.thy ===== *)
theory Merkle
  imports Utils "HOL-Library.List_Lexorder"
begin

text \<open>
  \<open>src/core/merkle/merkle.go\<close>: the Merkle root of a list of leaves, computed level by level in
  place.  \<open>hashLevel\<close> is the inner loop with its overwriting index, \<open>computeLevels\<close> the outer
  loop; \<open>pairUp\<close> and \<open>merkleRoot\<close> are the reference definition they are proved equal to.
\<close>

section \<open>The code\<close>

text \<open>
  One round of the outer loop: \<open>harray[overwriteIndex]\<close> receives the hash of the two nodes at
  \<open>i\<close> and \<open>i+1\<close>, or the node itself when it has no neighbour.  Returns the array and the final
  \<open>overwriteIndex\<close>.
\<close>

function hashLevel :: "hasher \<Rightarrow> bytes list \<Rightarrow> nat \<Rightarrow> nat \<Rightarrow> nat \<Rightarrow> bytes list \<times> nat" where
  "hashLevel Hash harray arrayLen i overwriteIndex =
     (if i < arrayLen then
        (let hashOfTwoNode =
           (if i + 1 < arrayLen then Hash (harray ! i @ harray ! (i + 1)) else harray ! i)
         in hashLevel Hash (harray[overwriteIndex := hashOfTwoNode]) arrayLen (i + 2) (overwriteIndex + 1))
      else (harray, overwriteIndex))"
  by pat_completeness auto
termination
  by (relation "measure (\<lambda>(Hash, harray, arrayLen, i, ow). arrayLen - i)") auto

declare hashLevel.simps [simp del]

section \<open>The reference definition of a level\<close>

fun pairUp :: "hasher \<Rightarrow> bytes list \<Rightarrow> bytes list" where
  "pairUp Hash [] = []"
| "pairUp Hash [x] = [x]"
| "pairUp Hash (x # y # xs) = Hash (x @ y) # pairUp Hash xs"

lemma length_pairUp: "length (pairUp Hash xs) = (length xs + 1) div 2"
  by (induction Hash xs rule: pairUp.induct) auto

lemma length_pairUp_less: "2 \<le> length xs \<Longrightarrow> length (pairUp Hash xs) < length xs"
  by (simp add: length_pairUp)

text \<open>
  The inner loop at \<open>i = 2 * overwriteIndex\<close>: the first cells hold the hashes already written,
  the cells from \<open>i\<close> on still hold the old level.
\<close>

lemma hashLevel_eq:
  assumes "fin @ mid @ rest = harray"
    and "length mid = length fin" "length harray = arrayLen"
  shows "\<exists>junk. hashLevel Hash harray arrayLen (2 * length fin) (length fin)
           = (fin @ pairUp Hash rest @ junk, length fin + length (pairUp Hash rest))"
  using assms
proof (induction "length rest" arbitrary: fin mid rest harray rule: less_induct)
  case less
  let ?k = "length fin"
  have len: "arrayLen = 2 * ?k + length rest"
    using less.prems by auto
  consider (nil) "rest = []" | (one) x where "rest = [x]" | (two) x y zs where "rest = x # y # zs"
    by (cases rest; cases "tl rest") auto
  then show ?case
  proof cases
    case nil
    then show ?thesis
      using len less.prems(1) by (subst hashLevel.simps) auto
  next
    case one
    have at: "harray ! (2 * ?k) = x"
      using less.prems(1,2) one by (auto simp: nth_append)
    have "hashLevel Hash harray arrayLen (2 * ?k) ?k = (harray[?k := x], Suc ?k)"
      using len one at by (subst hashLevel.simps) (simp add: hashLevel.simps)
    moreover have "harray[?k := x] = fin @ [x] @ tl (mid @ rest)"
      using less.prems(1) one by (cases mid) (auto simp: list_update_append)
    ultimately show ?thesis using one by auto
  next
    case two
    have at: "harray ! (2 * ?k) = x" "harray ! (2 * ?k + 1) = y"
      using less.prems(1,2) two by (auto simp: nth_append)
    let ?h = "Hash (x @ y)" and ?mid = "tl (mid @ [x, y])"
    have step: "hashLevel Hash harray arrayLen (2 * ?k) ?k
        = hashLevel Hash (harray[?k := ?h]) arrayLen (2 * length (fin @ [?h])) (length (fin @ [?h]))"
      using len two at by (subst hashLevel.simps) simp
    have upd: "(fin @ [?h]) @ ?mid @ zs = harray[?k := ?h]"
      using less.prems(1) two by (cases mid) (auto simp: list_update_append)
    have "\<exists>junk. hashLevel Hash (harray[?k := ?h]) arrayLen (2 * length (fin @ [?h])) (length (fin @ [?h]))
        = ((fin @ [?h]) @ pairUp Hash zs @ junk, length (fin @ [?h]) + length (pairUp Hash zs))"
      by (rule less.hyps [of zs _ ?mid]) (use two upd less.prems in auto)
    then show ?thesis
      unfolding step using two by auto
  qed
qed

lemma hashLevel_take:
  "take (snd (hashLevel Hash harray (length harray) 0 0)) (fst (hashLevel Hash harray (length harray) 0 0))
   = pairUp Hash harray"
  using hashLevel_eq [of "[]" "[]" harray harray "length harray" Hash] by auto

section \<open>The outer loop\<close>

function computeLevels :: "hasher \<Rightarrow> bytes list \<Rightarrow> bytes list" where
  "computeLevels Hash harray =
     (let arrayLen = length harray in
      if arrayLen \<le> 1 then harray
      else let (harray', overwriteIndex) = hashLevel Hash harray arrayLen 0 0
           in computeLevels Hash (take overwriteIndex harray'))"
  by pat_completeness auto
termination
proof (relation "measure (\<lambda>(Hash, harray). length harray)")
  fix Hash :: hasher and harray n xy x y
  assume "n = length harray" "\<not> n \<le> 1" "xy = hashLevel Hash harray n 0 0" "(x, y) = xy"
  then have "take y x = pairUp Hash harray"
    using hashLevel_take [of Hash harray] by (metis fst_conv snd_conv)
  with \<open>n = length harray\<close> \<open>\<not> n \<le> 1\<close>
  show "((Hash, take y x), Hash, harray) \<in> measure (\<lambda>(Hash, harray). length harray)"
    by (auto simp: length_pairUp_less)
qed simp

declare computeLevels.simps [simp del]

text \<open>
  The source loops until one node is left; on a non-empty array the loop above is the same, and
  the empty array is refused before it.
\<close>

datatype merkle_error = NilInput

definition ComputeRoot :: "hasher \<Rightarrow> bytes list \<Rightarrow> merkle_error + bytes" where
  "ComputeRoot Hash leafs =
     (if length leafs = 0 then Inl NilInput
      else if length leafs = 1 then Inr (leafs ! 0)
      else Inr (computeLevels Hash leafs ! 0))"

text \<open>
  \<open>sort.Sort\<close> with \<open>bytes.Compare\<close>, which is the lexicographic order on unsigned bytes; equal
  leaves are equal bytes, so it does not matter that the sort is not stable.
\<close>

definition SortByteArray :: "bytes list \<Rightarrow> bytes list" where
  "SortByteArray leafs = (if length leafs = 0 then leafs else sort leafs)"

definition SortAndComputeRoot :: "hasher \<Rightarrow> bytes list \<Rightarrow> merkle_error + bytes" where
  "SortAndComputeRoot Hash leafs = ComputeRoot Hash (SortByteArray leafs)"

section \<open>The reference definition of the root\<close>

function merkleRoot :: "hasher \<Rightarrow> bytes list \<Rightarrow> bytes" where
  "merkleRoot Hash xs = (if length xs \<le> 1 then hd xs else merkleRoot Hash (pairUp Hash xs))"
  by pat_completeness auto
termination
  by (relation "measure (\<lambda>(Hash, xs). length xs)") (auto simp: length_pairUp_less)

declare merkleRoot.simps [simp del]

lemma computeLevels_step:
  "1 < length xs \<Longrightarrow> computeLevels Hash xs = computeLevels Hash (pairUp Hash xs)"
  using hashLevel_take [of Hash xs]
  by (subst computeLevels.simps) (auto simp: Let_def split: prod.splits)

lemma computeLevels_eq: "xs \<noteq> [] \<Longrightarrow> computeLevels Hash xs = [merkleRoot Hash xs]"
proof (induction Hash xs rule: merkleRoot.induct)
  case (1 Hash xs)
  show ?case
  proof (cases "length xs \<le> 1")
    case True
    with "1.prems" show ?thesis
      by (cases xs) (auto simp: computeLevels.simps merkleRoot.simps)
  next
    case False
    moreover have "pairUp Hash xs \<noteq> []"
      using False length_pairUp [of Hash xs] by auto
    ultimately show ?thesis
      using 1 by (simp add: computeLevels_step merkleRoot.simps [of Hash xs])
  qed
qed

lemma ComputeRoot_merkleRoot: "xs \<noteq> [] \<Longrightarrow> ComputeRoot Hash xs = Inr (merkleRoot Hash xs)"
  by (cases xs) (auto simp: ComputeRoot_def computeLevels_eq merkleRoot.simps)

text \<open>The byte strings a root computation feeds to the hash function.\<close>

fun levelPairs :: "bytes list \<Rightarrow> bytes set" where
  "levelPairs (x # y # xs) = insert (x @ y) (levelPairs xs)"
| "levelPairs xs = {}"

function hashedPairs :: "hasher \<Rightarrow> bytes list \<Rightarrow> bytes set" where
  "hashedPairs Hash xs =
     (if length xs \<le> 1 then {} else levelPairs xs \<union> hashedPairs Hash (pairUp Hash xs))"
  by pat_completeness auto
termination
  by (relation "measure (\<lambda>(Hash, xs). length xs)") (auto simp: length_pairUp_less)

declare hashedPairs.simps [simp del]

lemma pairUp_lengths:
  "hash_ok Hash \<Longrightarrow> \<forall>x \<in> set xs. length x = 32 \<Longrightarrow> \<forall>x \<in> set (pairUp Hash xs). length x = 32"
  by (induction Hash xs rule: pairUp.induct) auto

lemma pairUp_inject:
  assumes "length xs = length ys" "\<forall>x \<in> set xs \<union> set ys. length x = 32"
    and "inj_on Hash (levelPairs xs \<union> levelPairs ys)" "pairUp Hash xs = pairUp Hash ys"
  shows "xs = ys"
  using assms
proof (induction xs arbitrary: ys rule: levelPairs.induct)
  case (1 x y xs)
  then obtain x' y' ys' where ys: "ys = x' # y' # ys'"
    by (metis (no_types, lifting) Suc_length_conv length_Cons)
  have inj: "inj_on Hash (levelPairs xs \<union> levelPairs ys')"
    by (rule inj_on_subset [OF "1.prems"(3)]) (auto simp: ys)
  have "Hash (x @ y) = Hash (x' @ y')" using "1.prems"(4) ys by simp
  then have "x @ y = x' @ y'"
    by (rule inj_onD [OF "1.prems"(3)]) (auto simp: ys)
  then have "x = x' \<and> y = y'" using "1.prems"(2) ys by simp
  moreover have "xs = ys'"
    by (rule "1.IH") (use "1.prems" ys inj in auto)
  ultimately show ?case using ys by simp
next
  case "2_2"
  then show ?case by (cases ys) auto
qed auto

lemma merkleRoot_binding:
  assumes "hash_ok Hash" "length xs = length ys" "xs \<noteq> []" "\<forall>x \<in> set xs \<union> set ys. length x = 32"
    and "inj_on Hash (hashedPairs Hash xs \<union> hashedPairs Hash ys)"
    and "merkleRoot Hash xs = merkleRoot Hash ys"
  shows "xs = ys"
  using assms
proof (induction Hash xs arbitrary: ys rule: merkleRoot.induct)
  case (1 Hash xs)
  show ?case
  proof (cases "length xs \<le> 1")
    case True
    then obtain x y where "xs = [x]" "ys = [y]"
      using "1.prems"(2,3) by (cases xs; cases ys) auto
    then show ?thesis using "1.prems"(6) by (simp add: merkleRoot.simps)
  next
    case False
    have pairs: "hashedPairs Hash zs = levelPairs zs \<union> hashedPairs Hash (pairUp Hash zs)"
      "merkleRoot Hash zs = merkleRoot Hash (pairUp Hash zs)" if "length zs = length xs" for zs
      using that False by (simp_all add: hashedPairs.simps [of Hash zs] merkleRoot.simps [of Hash zs])
    have "pairUp Hash xs \<noteq> []" using False length_pairUp [of Hash xs] by auto
    moreover have "\<forall>x \<in> set (pairUp Hash xs) \<union> set (pairUp Hash ys). length x = 32"
      using "1.prems"(1,4) pairUp_lengths [of Hash xs] pairUp_lengths [of Hash ys] by auto
    moreover have "inj_on Hash (hashedPairs Hash (pairUp Hash xs) \<union> hashedPairs Hash (pairUp Hash ys))"
      by (rule inj_on_subset [OF "1.prems"(5)]) (use pairs "1.prems"(2) in auto)
    moreover have "merkleRoot Hash (pairUp Hash xs) = merkleRoot Hash (pairUp Hash ys)"
      using "1.prems"(2,6) pairs(2) [of xs] pairs(2) [of ys] by simp
    ultimately have "pairUp Hash xs = pairUp Hash ys"
      by (intro "1.IH" [OF False "1.prems"(1)]) (simp_all add: length_pairUp "1.prems"(2))
    moreover have "inj_on Hash (levelPairs xs \<union> levelPairs ys)"
      by (rule inj_on_subset [OF "1.prems"(5)]) (use pairs "1.prems"(2) in auto)
    ultimately show ?thesis
      using pairUp_inject [OF "1.prems"(2,4)] by blast
  qed
qed

lemma length_pairUp_mem:
  "hash_ok Hash \<Longrightarrow> \<forall>x \<in> set xs. length x = 32 \<Longrightarrow> x \<in> set (pairUp Hash xs) \<Longrightarrow> length x = 32"
  by (induction Hash xs rule: pairUp.induct) auto

lemma length_merkleRoot:
  "hash_ok Hash \<Longrightarrow> xs \<noteq> [] \<Longrightarrow> \<forall>x \<in> set xs. length x = 32 \<Longrightarrow> length (merkleRoot Hash xs) = 32"
proof (induction Hash xs rule: merkleRoot.induct)
  case (1 Hash xs)
  show ?case
  proof (cases "length xs \<le> 1")
    case True
    then show ?thesis using 1(3,4) by (subst merkleRoot.simps) simp
  next
    case False
    moreover have "pairUp Hash xs \<noteq> []" using False length_pairUp [of Hash xs] by auto
    ultimately show ?thesis using 1(1,2,4) length_pairUp_mem by (subst merkleRoot.simps) simp
  qed
qed

section \<open>Properties\<close>

text \<open>
  C29 The in-place computation is the textbook one: on every non-empty list of leaves
  \<open>ComputeRoot\<close> returns the root obtained by hashing neighbours pairwise, level by level, with an
  odd last node carried up unchanged; the empty list is an error.
\<close>

theorem ComputeRoot_correct:
  "ComputeRoot Hash leafs = (if leafs = [] then Inl NilInput else Inr (merkleRoot Hash leafs))"
  by (simp add: ComputeRoot_merkleRoot) (simp add: ComputeRoot_def)

text \<open>
  C30 A Merkle root commits to the leaves: two lists of equally many 32-byte leaves with the same
  root are the same list, when the hash function has no collision among the pairs hashed for them.
\<close>

theorem ComputeRoot_binding:
  assumes "hash_ok Hash" and "length xs = length ys" and "xs \<noteq> []"
    and "\<forall>x \<in> set xs \<union> set ys. length x = 32"
    and "inj_on Hash (hashedPairs Hash xs \<union> hashedPairs Hash ys)"
    and "ComputeRoot Hash xs = ComputeRoot Hash ys"
  shows "xs = ys"
proof (rule merkleRoot_binding [OF assms(1-5)])
  have "ys \<noteq> []" using assms(2,3) by auto
  with assms(3,6) show "merkleRoot Hash xs = merkleRoot Hash ys"
    by (simp add: ComputeRoot_merkleRoot)
qed

theorem ComputeRoot_binding_witness:
  "ComputeRoot mod_hash [replicate 32 1, replicate 32 2] = ComputeRoot mod_hash ([replicate 32 1] @ [replicate 32 2])
   \<and> [replicate 32 (1::byte), replicate 32 2] = [replicate 32 1] @ [replicate 32 2]"
proof -
  have "inj_on mod_hash (hashedPairs mod_hash [replicate 32 1, replicate 32 2] \<union>
      hashedPairs mod_hash ([replicate 32 1] @ [replicate 32 2]))"
    by (simp add: hashedPairs.simps)
  then show ?thesis
    using ComputeRoot_binding [OF mod_hash_ok, of "[replicate 32 1, replicate 32 2]"
        "[replicate 32 1] @ [replicate 32 2]"] by simp
qed

text \<open>
  \<open>SortAndComputeRoot\<close>, with which the client hashes a directory, does not depend on the
  order in which the leaves are listed.
\<close>

lemma SortAndComputeRoot_order_independent:
  assumes "mset xs = mset ys"
  shows "SortAndComputeRoot Hash xs = SortAndComputeRoot Hash ys"
proof -
  have "sort xs = sort ys"
    using assms by (metis properties_for_sort sorted_sort mset_sort)
  moreover have "length xs = length ys"
    using assms by (metis size_mset)
  ultimately show ?thesis
    by (auto simp: SortAndComputeRoot_def SortByteArray_def)
qed

text \<open>
  The root does not commit to the number of leaves: two leaves and the single leaf that is their
  hash have the same root, since leaves and inner nodes are hashed alike.
\<close>

theorem ComputeRoot_leaf_count_ambiguous:
  "ComputeRoot Hash [a, b] = ComputeRoot Hash [Hash (a @ b)]"
  by (simp add: ComputeRoot_merkleRoot merkleRoot.simps)

end
