(* ===== verification/Difficulty.thy ===== *)
theory Difficulty
  imports Utils Complex_Main
begin

text \<open>
  \<open>src/core/blockchain/difficulty.go\<close>: the 32-bit target of a block, the 256-bit difficulty it
  stands for, and the retargeting rule.  A difficulty is a \<open>big.Int\<close>, here a natural number.
  \<open>float64\<close> and \<open>big.Float\<close> values are rationals with an explicit rounding to a precision
  (\<open>rnd\<close>), to nearest with ties to even as Go rounds; no value of \<open>CalculateTarget\<close> leaves the
  range of normal \<open>float64\<close> numbers, and fused multiply-add is not used.
\<close>

unbundle bit_operations_syntax

section \<open>Targets and difficulties\<close>

definition diffPrefixBitsLen :: u32 where "diffPrefixBitsLen = 24"
definition ReferenceBlocks :: nat where "ReferenceBlocks = 20"
definition alpha :: nat where "alpha = 8"

definition TargetToDiff :: "u32 \<Rightarrow> nat" where
  "TargetToDiff target =
     (let len = drop_bit 24 target;
          prefix = target AND 0x00FFFFFF
      in if len > diffPrefixBitsLen
         then unat prefix * 2 ^ unat (len - diffPrefixBitsLen) else unat prefix)"

text \<open>\<open>fmt.Sprintf("%b", diff)\<close>.\<close>

fun fmt_b :: "nat \<Rightarrow> string" where
  "fmt_b n = (if n = 0 then ''0'' else if n = 1 then ''1''
              else fmt_b (n div 2) @ (if even n then ''0'' else ''1''))"

declare fmt_b.simps [simp del]

definition DiffToTarget :: "nat \<Rightarrow> u32" where
  "DiffToTarget diff =
     (let binaryBits = fmt_b diff in
      if binaryBits = ''0'' then 0
      else let len = word_of_nat (length binaryBits) :: u32;
               diff' = (if len > diffPrefixBitsLen
                        then diff div 2 ^ unat (len - diffPrefixBitsLen) else diff)
           in push_bit 24 len OR word_of_nat diff')"

section \<open>Go's floating-point arithmetic\<close>

definition bitlen :: "nat \<Rightarrow> nat" where
  "bitlen n = (if n = 0 then 0 else length (fmt_b n))"

definition roundHalfEven :: "rat \<Rightarrow> int" where
  "roundHalfEven y =
     (let q = \<lfloor>y\<rfloor>; f = y - of_int q in
      if f < 1 / 2 then q else if f > 1 / 2 then q + 1 else if even q then q else q + 1)"

text \<open>The exponent of the leading bit of a positive rational.\<close>

definition ilog2 :: "rat \<Rightarrow> int" where
  "ilog2 x =
     (let (n, d) = quotient_of x; k = int (bitlen (nat n)) - int (bitlen (nat d))
      in if 2 powi k \<le> x then k else k - 1)"

text \<open>A value rounded to \<open>prec\<close> significant bits.\<close>

definition rnd :: "nat \<Rightarrow> rat \<Rightarrow> rat" where
  "rnd prec x =
     (if x = 0 then 0
      else let e = ilog2 \<bar>x\<bar> - (int prec - 1)
           in sgn x * of_int (roundHalfEven (\<bar>x\<bar> / 2 powi e)) * 2 powi e)"

definition float64 :: "int \<Rightarrow> rat" where
  "float64 i = rnd 53 (of_int i)"

section \<open>Mining parameters\<close>

record ChainConfig =
  cfgBlockTargetLimit :: u32
  cfgEvidenceTargetLimit :: u32
  cfgBlockInterval :: int
  cfgGenesis :: string

record mining_params =
  BlockTargetLimit :: u32
  EvidenceTargetLimit :: u32
  BlockDifficultyLimit :: nat
  EvidenceDifficultyLimit :: nat
  BlockInterval :: i64

text \<open>\<open>time.Second\<close> is \<open>10^9\<close>; the product is an \<open>int64\<close> multiplication.\<close>

definition initMiningParams :: "ChainConfig \<Rightarrow> mining_params" where
  "initMiningParams conf =
     \<lparr>BlockTargetLimit = cfgBlockTargetLimit conf,
      EvidenceTargetLimit = cfgEvidenceTargetLimit conf,
      BlockDifficultyLimit = TargetToDiff (cfgBlockTargetLimit conf),
      EvidenceDifficultyLimit = TargetToDiff (cfgEvidenceTargetLimit conf),
      BlockInterval = word_of_int (cfgBlockInterval conf) * 1000000000\<rparr>"

definition floatBlockInterval :: "mining_params \<Rightarrow> rat" where
  "floatBlockInterval p = float64 (sint (BlockInterval p))"

text \<open>\<open>int64\<close> division truncates towards zero.\<close>

definition quot :: "int \<Rightarrow> int \<Rightarrow> int" where
  "quot a b = sgn a * sgn b * (\<bar>a\<bar> div \<bar>b\<bar>)"

section \<open>Retargeting\<close>

text \<open>
  Durations are nanoseconds.  \<open>LastDurationWeight = 1/alpha\<close> and
  \<open>PreviousDurationWeight = 1 - 1/alpha\<close> are exact \<open>float64\<close> constants.  A \<open>big.Float\<close> result
  takes the larger precision of its operands; \<open>SetInt\<close> takes the bit length of the integer, at
  least 64.
\<close>

definition averageInterval :: "int \<Rightarrow> int \<Rightarrow> rat" where
  "averageInterval lastDuration preDuration =
     rnd 53 (rnd 53 (float64 lastDuration * (1 / 8))
           + rnd 53 (float64 (quot preDuration (int ReferenceBlocks)) * (7 / 8)))"

definition CalculateTarget :: "mining_params \<Rightarrow> u32 \<Rightarrow> int \<Rightarrow> int \<Rightarrow> u32" where
  "CalculateTarget p lastTarget lastDuration0 preDuration =
     (let lastDiff = TargetToDiff lastTarget;
          prec = max 64 (bitlen lastDiff);
          floatLastDiff = rnd prec (of_nat lastDiff);
          lastDuration = (if lastDuration0 < 1000000000 then 1000000000 else lastDuration0);
          scale = rnd 53 (averageInterval lastDuration preDuration / floatBlockInterval p);
          floatCurrDiff0 = rnd prec (floatLastDiff * scale);
          lowerBoundDiff = rnd prec (floatLastDiff * (1 / 2));
          floatCurrDiff = (if floatCurrDiff0 < lowerBoundDiff then lowerBoundDiff else floatCurrDiff0);
          intCurrDiff = nat \<lfloor>floatCurrDiff\<rfloor>
      in if intCurrDiff > BlockDifficultyLimit p then BlockTargetLimit p
         else DiffToTarget intCurrDiff)"

section \<open>Bit lengths\<close>

lemma fmt_b_ne_zero: "0 < n \<Longrightarrow> fmt_b n \<noteq> ''0''"
proof (induction n rule: fmt_b.induct)
  case (1 n)
  show ?case
  proof (cases "n = 1")
    case False
    with 1 have "fmt_b (n div 2) \<noteq> []"
      by (subst fmt_b.simps) auto
    then have "2 \<le> length (fmt_b n)"
      using 1(2) False by (subst fmt_b.simps) (cases "fmt_b (n div 2)", auto)
    then show ?thesis by auto
  qed (simp add: fmt_b.simps)
qed

lemma fmt_b_zero [simp]: "fmt_b 0 = ''0''"
  by (simp add: fmt_b.simps)

lemma length_fmt_b_half: "1 < n \<Longrightarrow> length (fmt_b n) = Suc (length (fmt_b (n div 2)))"
  by (subst fmt_b.simps) simp

lemma length_fmt_b: "0 < n \<Longrightarrow> 0 < length (fmt_b n) \<and> 2 ^ (length (fmt_b n) - 1) \<le> n \<and> n < 2 ^ length (fmt_b n)"
proof (induction n rule: fmt_b.induct)
  case (1 n)
  show ?case
  proof (cases "n = 1")
    case False
    let ?l = "length (fmt_b (n div 2))"
    have n: "1 < n" using 1(2) False by simp
    then have IH: "0 < ?l" "2 ^ (?l - 1) \<le> n div 2" "n div 2 < 2 ^ ?l"
      using 1(1) by auto
    have "2 * 2 ^ (?l - 1) = (2 :: nat) ^ ?l"
      using IH(1) by (simp flip: power_Suc)
    then have "2 ^ ?l \<le> n" "n < 2 * 2 ^ ?l"
      using IH(2,3) by linarith+
    then show ?thesis using n by (simp add: length_fmt_b_half)
  qed (simp add: fmt_b.simps)
qed

lemma bitlen_bounds: "0 < n \<Longrightarrow> 0 < bitlen n \<and> 2 ^ (bitlen n - 1) \<le> n \<and> n < 2 ^ bitlen n"
  using length_fmt_b [of n] by (simp add: bitlen_def)

lemma bitlen_le: "n < 2 ^ k \<Longrightarrow> bitlen n \<le> k"
proof (cases "n = 0")
  case False
  assume "n < 2 ^ k"
  with False have "(2::nat) ^ (bitlen n - 1) < 2 ^ k"
    using bitlen_bounds [of n] by linarith
  then have "bitlen n - 1 < k" by simp
  then show ?thesis by linarith
qed (simp add: bitlen_def)

lemma bitlen_mono: "m \<le> n \<Longrightarrow> bitlen m \<le> bitlen n"
  using bitlen_bounds [of n] by (cases "n = 0") (auto intro!: bitlen_le)

section \<open>The 24 leading bits\<close>

text \<open>What a target can express of a difficulty: its 24 leading bits.\<close>

definition trunc24 :: "nat \<Rightarrow> nat" where
  "trunc24 d = d div 2 ^ (bitlen d - 24) * 2 ^ (bitlen d - 24)"

lemma trunc24_le: "trunc24 d \<le> d"
  by (simp add: trunc24_def)

lemma prefix_less: "d div 2 ^ (bitlen d - 24) < 2 ^ 24"
proof (cases "d = 0")
  case False
  have "d < 2 ^ bitlen d" using False bitlen_bounds by simp
  also have "(2::nat) ^ bitlen d \<le> 2 ^ (24 + (bitlen d - 24))"
    by (intro power_increasing) auto
  also have "\<dots> = 2 ^ 24 * 2 ^ (bitlen d - 24)" by (rule power_add)
  finally show ?thesis by (simp add: less_mult_imp_div_less)
qed simp

lemma trunc24_exact: "m < 2 ^ 24 \<Longrightarrow> trunc24 (m * 2 ^ k) = m * 2 ^ k"
proof -
  assume m: "m < 2 ^ 24"
  have "m * 2 ^ k < 2 ^ (24 + k)" using m by (simp add: power_add)
  then have "bitlen (m * 2 ^ k) \<le> 24 + k" by (rule bitlen_le)
  then have "2 ^ (bitlen (m * 2 ^ k) - 24) dvd m * 2 ^ k"
    by (intro dvd_mult le_imp_power_dvd) simp
  then show ?thesis by (simp add: trunc24_def)
qed

lemma trunc24_idem [simp]: "trunc24 (trunc24 d) = trunc24 d"
  using trunc24_exact [OF prefix_less [of d], of "bitlen d - 24"] by (simp only: trunc24_def [of d])

lemma trunc24_mono: "a \<le> b \<Longrightarrow> trunc24 a \<le> trunc24 b"
proof (cases "bitlen a = bitlen b")
  case True
  assume "a \<le> b"
  with True show ?thesis by (simp add: trunc24_def div_le_mono)
next
  case False
  assume ab: "a \<le> b"
  then have less: "bitlen a < bitlen b" using False bitlen_mono [of a b] by simp
  then have b: "0 < b" by (cases b) (auto simp: bitlen_def)
  have "trunc24 a \<le> a" by (rule trunc24_le)
  also have "a \<le> 2 ^ (bitlen b - 1)"
  proof (cases "a = 0")
    case False
    then have "a < 2 ^ bitlen a" using bitlen_bounds by simp
    also have "(2::nat) ^ bitlen a \<le> 2 ^ (bitlen b - 1)" using less by simp
    finally show ?thesis by simp
  qed simp
  also have "(2::nat) ^ (bitlen b - 1) \<le> trunc24 b"
  proof -
    have "2 ^ (bitlen b - 24) dvd (2::nat) ^ (bitlen b - 1)" by (rule le_imp_power_dvd) simp
    then have "2 ^ (bitlen b - 1) = (2::nat) ^ (bitlen b - 1) div 2 ^ (bitlen b - 24) * 2 ^ (bitlen b - 24)"
      by simp
    also have "\<dots> \<le> trunc24 b"
      unfolding trunc24_def using bitlen_bounds [OF b] by (intro mult_right_mono div_le_mono) auto
    finally show ?thesis .
  qed
  finally show ?thesis .
qed

section \<open>The 32-bit encoding\<close>

lemma mask24: "(0x00FFFFFF :: u32) = mask 24"
  by (simp add: mask_eq_exp_minus_1)

lemma take_bit_word_of_nat: "m < 2 ^ k \<Longrightarrow> take_bit k (word_of_nat m :: 'a::len word) = word_of_nat m"
  by (metis take_bit_nat_eq_self of_nat_take_bit)

lemma unat_take_drop_target:
  assumes "l < 2 ^ 8" and "m < 2 ^ 24"
  defines "t \<equiv> push_bit 24 (word_of_nat l) OR (word_of_nat m :: u32)"
  shows "drop_bit 24 t = word_of_nat l" and "t AND 0x00FFFFFF = word_of_nat m"
proof -
  have m: "take_bit 24 (word_of_nat m :: u32) = word_of_nat m"
    using assms(2) by (rule take_bit_word_of_nat)
  have l: "take_bit 8 (word_of_nat l :: u32) = word_of_nat l"
    using assms(1) by (rule take_bit_word_of_nat)
  have "drop_bit 24 (word_of_nat m :: u32) = 0"
    using drop_bit_take_bit [of 24 24 "word_of_nat m :: u32"] m by simp
  moreover have "drop_bit 24 (push_bit 24 (word_of_nat l) :: u32) = word_of_nat l"
    by (subst l [symmetric]) (auto simp: bit_eq_iff bit_simps)
  ultimately show "drop_bit 24 t = word_of_nat l" by (simp add: t_def)
  have "take_bit 24 (push_bit 24 (word_of_nat l) :: u32) = 0"
    by (simp add: take_bit_push_bit)
  then show "t AND 0x00FFFFFF = word_of_nat m"
    using m by (simp add: t_def mask24 take_bit_or flip: take_bit_eq_mask)
qed

lemma length_fmt_b_bitlen: "0 < d \<Longrightarrow> length (fmt_b d) = bitlen d"
  by (simp add: bitlen_def)

lemma unat_bitlen:
  assumes "n < 2 ^ 8"
  shows "unat (word_of_nat n :: u32) = n"
    and "word_of_nat n > diffPrefixBitsLen \<longleftrightarrow> 24 < n"
    and "24 < n \<Longrightarrow> unat (word_of_nat n - diffPrefixBitsLen) = n - 24"
proof -
  show n: "unat (word_of_nat n :: u32) = n"
    using assms by (simp add: unat_of_nat)
  show "word_of_nat n > diffPrefixBitsLen \<longleftrightarrow> 24 < n"
    by (simp add: diffPrefixBitsLen_def word_less_nat_alt n)
  assume "24 < n"
  then show "unat (word_of_nat n - diffPrefixBitsLen) = n - 24"
    by (subst unat_sub) (simp_all add: diffPrefixBitsLen_def word_le_nat_alt n)
qed

lemma TargetToDiff_DiffToTarget:
  assumes "d < 2 ^ 255"
  shows "TargetToDiff (DiffToTarget d) = trunc24 d"
proof (cases "d = 0")
  case True
  then show ?thesis by (simp add: DiffToTarget_def TargetToDiff_def trunc24_def diffPrefixBitsLen_def)
next
  case False
  have b: "bitlen d \<le> 255" using assms by (rule bitlen_le)
  then have b8: "bitlen d < 2 ^ 8" by simp
  define m where "m = d div 2 ^ (bitlen d - 24)"
  have t: "DiffToTarget d = push_bit 24 (word_of_nat (bitlen d)) OR word_of_nat m"
    using False fmt_b_ne_zero [of d] unat_bitlen [OF b8]
    by (simp add: DiffToTarget_def Let_def length_fmt_b_bitlen m_def)
  have m24: "m < 2 ^ 24" unfolding m_def by (rule prefix_less)
  then have m_word: "unat (word_of_nat m :: u32) = m"
    by (simp only: unat_of_nat) (rule mod_less, simp)
  have "TargetToDiff (DiffToTarget d) = (if 24 < bitlen d then m * 2 ^ (bitlen d - 24) else m)"
    using unat_bitlen [OF b8] m_word unfolding TargetToDiff_def t
    by (simp only: unat_take_drop_target [OF b8 m24] Let_def) simp
  then show ?thesis by (simp add: trunc24_def m_def)
qed

text \<open>The difficulty of a target: a 24-bit prefix shifted left by at most 231 places.\<close>

lemma TargetToDiff_form:
  obtains m k where "TargetToDiff t = m * 2 ^ k" "m < 2 ^ 24" "k \<le> 231"
proof -
  have "unat (drop_bit 24 t) < 2 ^ 8"
    using unat_less [of t] by (simp add: drop_bit_eq_div unat_div less_mult_imp_div_less)
  moreover have "unat (t AND 0x00FFFFFF) < 2 ^ 24"
    using take_bit_nat_less_exp [of 24 "unat t"]
    by (simp add: mask24 unsigned_take_bit_eq flip: take_bit_eq_mask)
  moreover have "unat (drop_bit 24 t - diffPrefixBitsLen) = unat (drop_bit 24 t) - 24"
    if "diffPrefixBitsLen < drop_bit 24 t"
    using that by (subst unat_sub) (simp_all add: diffPrefixBitsLen_def)
  ultimately show thesis
    using that [of "unat (t AND 0x00FFFFFF)" 0]
      that [of "unat (t AND 0x00FFFFFF)" "unat (drop_bit 24 t - diffPrefixBitsLen)"]
    by (cases "diffPrefixBitsLen < drop_bit 24 t") (simp_all add: TargetToDiff_def Let_def)
qed

lemma TargetToDiff_less: "TargetToDiff t < 2 ^ 255"
proof (rule TargetToDiff_form [of t])
  fix m k :: nat assume t: "TargetToDiff t = m * 2 ^ k" and m: "m < 2 ^ 24" and k: "k \<le> 231"
  have "m * 2 ^ k < 2 ^ 24 * 2 ^ k" using m by simp
  also have "\<dots> \<le> 2 ^ 24 * 2 ^ 231" using k by (intro mult_left_mono power_increasing) auto
  finally show ?thesis by (simp add: t)
qed

lemma trunc24_TargetToDiff [simp]: "trunc24 (TargetToDiff t) = TargetToDiff t"
  by (rule TargetToDiff_form [of t]) (metis trunc24_exact)

lemma trunc24_half: "trunc24 (TargetToDiff t div 2) = TargetToDiff t div 2"
proof (rule TargetToDiff_form [of t])
  fix m k :: nat assume t: "TargetToDiff t = m * 2 ^ k" "m < 2 ^ 24"
  show ?thesis
  proof (cases k)
    case 0
    then show ?thesis using t trunc24_exact [of "m div 2" 0] by simp
  next
    case (Suc j)
    then have "TargetToDiff t div 2 = m * 2 ^ j" using t by simp
    then show ?thesis using t trunc24_exact [of m j] by simp
  qed
qed

section \<open>Rounding\<close>

lemma roundHalfEven_int [simp]: "roundHalfEven (of_int i) = i"
  by (simp add: roundHalfEven_def)

lemma powi_eq_div: "i = int a - int b \<Longrightarrow> (2::rat) powi i = 2 ^ a / 2 ^ b"
  by (simp add: power_int_diff)

lemma ilog2_le:
  assumes "0 < x"
  shows "2 powi ilog2 x \<le> x"
proof -
  obtain n d where q: "quotient_of x = (n, d)" by (cases "quotient_of x")
  have d: "0 < d" using quotient_of_denom_pos [OF q] .
  have x: "x = of_int n / of_int d" using quotient_of_div [OF q] .
  have n: "0 < n" using assms d by (simp add: x zero_less_divide_iff)
  let ?n = "bitlen (nat n)" and ?d = "bitlen (nat d)"
  have "rat_of_int 2 ^ (?n - 1) \<le> of_int n"
    using bitlen_bounds [of "nat n"] n
    by (metis (no_types, lifting) nat_int_comparison(3) nat_0_le of_int_le_iff of_int_power of_nat_numeral
        of_nat_power order_less_imp_le zero_less_nat_eq)
  moreover have "of_int d \<le> rat_of_int 2 ^ ?d"
    using bitlen_bounds [of "nat d"] d
    by (metis (no_types, lifting) nat_int_comparison(3) nat_0_le of_int_le_iff of_int_power of_nat_numeral
        of_nat_power order_less_imp_le zero_less_nat_eq)
  ultimately have "rat_of_int 2 ^ (?n - 1) * of_int d \<le> of_int n * rat_of_int 2 ^ ?d"
    using n d by (intro mult_mono) auto
  then have "rat_of_int 2 ^ (?n - 1) / 2 ^ ?d \<le> x"
    using d by (simp add: x field_simps)
  moreover have "2 powi (int ?n - int ?d - 1) = rat_of_int 2 ^ (?n - 1) / 2 ^ ?d"
    using powi_eq_div [of "int ?n - int ?d - 1" "?n - 1" ?d] bitlen_bounds [of "nat n"] n by simp
  ultimately show ?thesis by (simp add: ilog2_def q Let_def)
qed

lemma ilog2_less:
  assumes "0 < x" and "x < 2 powi k"
  shows "ilog2 x < k"
proof -
  have "(2::rat) powi ilog2 x < 2 powi k" using ilog2_le [OF assms(1)] assms(2) by simp
  then show ?thesis by (metis linorder_not_less numeral_le_one_iff one_le_numeral power_int_increasing)
qed

text \<open>A number of at most \<open>prec\<close> significant bits is not changed by rounding.\<close>

lemma rnd_exact:
  assumes "m < 2 ^ prec" and "0 < prec"
  shows "rnd prec (of_nat m * 2 powi k) = of_nat m * 2 powi k"
proof (cases "m = 0")
  case False
  let ?x = "rat_of_nat m * 2 powi k" and ?p = "(2::rat) powi k"
  have pos: "0 < ?x" using False by simp
  define e where "e = ilog2 ?x - (int prec - 1)"
  have "rat_of_nat m < 2 ^ prec" using assms(1) by (metis of_nat_less_iff of_nat_numeral of_nat_power)
  then have "?x < 2 ^ prec * ?p" by simp
  also have "\<dots> = 2 powi (int prec + k)" by (simp add: power_int_add)
  finally have "e \<le> k" using ilog2_less [OF pos, of "int prec + k"] by (simp add: e_def)
  then have "(2::rat) ^ nat (k - e) = 2 powi (k - e)" by (simp add: power_int_def)
  then have "?x / 2 powi e = of_int (int m * 2 ^ nat (k - e))" by (simp add: power_int_diff)
  then have "rnd prec ?x = of_int (int m * 2 ^ nat (k - e)) * 2 powi e"
    using pos by (simp only: rnd_def Let_def abs_of_pos sgn_pos e_def [symmetric] roundHalfEven_int) simp
  also have "\<dots> = of_nat m * (2 powi (k - e) * 2 powi e)"
    using \<open>e \<le> k\<close> by (simp add: power_int_def)
  also have "2 powi (k - e) * 2 powi e = ?p" by (simp flip: power_int_add)
  finally show ?thesis .
qed (simp add: rnd_def)

lemma rnd_exact_nat: "m < 2 ^ prec \<Longrightarrow> 0 < prec \<Longrightarrow> rnd prec (of_nat (m * 2 ^ k)) = of_nat (m * 2 ^ k)"
  using rnd_exact [of m prec "int k"] by simp

lemma rnd_exact_shift: "m < 2 ^ prec \<Longrightarrow> 0 < prec \<Longrightarrow> rnd prec (of_nat m * 2 ^ k / 2 ^ j) = of_nat m * 2 ^ k / 2 ^ j"
  using rnd_exact [of m prec "int k - int j"] by (simp add: power_int_diff)

lemma ilog2_upper:
  assumes "0 < x"
  shows "x < 2 powi (ilog2 x + 1)"
proof -
  obtain n d where q: "quotient_of x = (n, d)" by (cases "quotient_of x")
  have d: "0 < d" using quotient_of_denom_pos [OF q] .
  have x: "x = of_int n / of_int d" using quotient_of_div [OF q] .
  have n: "0 < n" using assms d by (simp add: x zero_less_divide_iff)
  let ?n = "bitlen (nat n)" and ?d = "bitlen (nat d)"
  have "of_int n < rat_of_int 2 ^ ?n"
    using bitlen_bounds [of "nat n"] n
    by (metis nat_0_le of_int_less_iff of_int_power of_nat_less_iff of_nat_numeral of_nat_power
        order_less_imp_le zero_less_nat_eq)
  moreover have "rat_of_int 2 ^ (?d - 1) \<le> of_int d"
    using bitlen_bounds [of "nat d"] d
    by (metis (no_types, lifting) nat_int_comparison(3) nat_0_le of_int_le_iff of_int_power of_nat_numeral
        of_nat_power order_less_imp_le zero_less_nat_eq)
  ultimately have "of_int n * rat_of_int 2 ^ (?d - 1) < 2 ^ ?n * of_int d"
    using n d by (intro mult_less_le_imp_less) auto
  then have "x < 2 ^ ?n / 2 ^ (?d - 1)" using d by (simp add: x field_simps)
  moreover have "(2::rat) ^ ?n / 2 ^ (?d - 1) = 2 powi (int ?n - int ?d + 1)"
    using powi_eq_div [of "int ?n - int ?d + 1" ?n "?d - 1"] bitlen_bounds [of "nat d"] d by simp
  ultimately show ?thesis by (auto simp: ilog2_def q Let_def add.commute)
qed

lemma ilog2_mono: "0 < x \<Longrightarrow> x \<le> y \<Longrightarrow> ilog2 x \<le> ilog2 y"
  using ilog2_less [of x "ilog2 y + 1"] ilog2_upper [of y] by simp

lemma roundHalfEven_mono: "x \<le> y \<Longrightarrow> roundHalfEven x \<le> roundHalfEven y"
proof (cases "\<lfloor>x\<rfloor> = \<lfloor>y\<rfloor>")
  case False
  assume "x \<le> y"
  with False have "\<lfloor>x\<rfloor> + 1 \<le> \<lfloor>y\<rfloor>" using floor_mono [of x y] by simp
  moreover have "roundHalfEven x \<le> \<lfloor>x\<rfloor> + 1" "\<lfloor>y\<rfloor> \<le> roundHalfEven y"
    by (simp_all add: roundHalfEven_def Let_def)
  ultimately show ?thesis by linarith
qed (auto simp: roundHalfEven_def Let_def)

lemma rnd_pos: "0 < x \<Longrightarrow> rnd prec x
    = of_int (roundHalfEven (x / 2 powi (ilog2 x - (int prec - 1)))) * 2 powi (ilog2 x - (int prec - 1))"
  by (simp add: rnd_def Let_def)

text \<open>Rounding stays between the powers of two around the value, and is monotone.\<close>

lemma rnd_between:
  assumes "0 < x" and "0 < prec"
  shows "2 powi ilog2 x \<le> rnd prec x" and "rnd prec x \<le> 2 powi (ilog2 x + 1)"
proof -
  define e where "e = ilog2 x - (int prec - 1)"
  have lo: "2 powi ilog2 x = of_int (2 ^ (prec - 1)) * (2::rat) powi e"
    using assms(2) power_int_add [of "2::rat" "int (prec - 1)" e]
    by (simp only: power_int_of_nat of_int_power of_int_numeral) (simp add: e_def)
  have hi: "2 powi (ilog2 x + 1) = of_int (2 ^ prec) * (2::rat) powi e"
    using power_int_add [of "2::rat" "int prec" e] by (simp add: e_def)
  have "of_int (2 ^ (prec - 1)) \<le> x / 2 powi e"
    using ilog2_le [OF assms(1)] by (simp only: lo pos_le_divide_eq zero_less_power_int zero_less_numeral)
  then have "2 ^ (prec - 1) \<le> roundHalfEven (x / 2 powi e)"
    using roundHalfEven_mono by (metis roundHalfEven_int)
  then show "2 powi ilog2 x \<le> rnd prec x"
    unfolding rnd_pos [OF assms(1)] lo e_def [symmetric]
    by (intro mult_right_mono) (simp_all only: of_int_le_iff, simp)
  have "x / 2 powi e \<le> of_int (2 ^ prec)"
    using ilog2_upper [OF assms(1)] by (simp only: hi pos_divide_le_eq zero_less_power_int zero_less_numeral)
  then have "roundHalfEven (x / 2 powi e) \<le> 2 ^ prec"
    using roundHalfEven_mono by (metis roundHalfEven_int)
  then show "rnd prec x \<le> 2 powi (ilog2 x + 1)"
    unfolding rnd_pos [OF assms(1)] hi e_def [symmetric]
    by (intro mult_right_mono) (simp_all only: of_int_le_iff, simp)
qed

lemma rnd_nonneg: "0 \<le> x \<Longrightarrow> 0 < prec \<Longrightarrow> 0 \<le> rnd prec x"
  using rnd_between(1) [of x prec] by (cases "x = 0") (auto simp: rnd_def intro: order_trans [rotated])

lemma rnd_mono:
  assumes "0 \<le> x" and "x \<le> y" and "0 < prec"
  shows "rnd prec x \<le> rnd prec y"
proof (cases "x = 0")
  case True
  then show ?thesis using assms rnd_nonneg [of y prec] by (simp add: rnd_def)
next
  case False
  then have pos: "0 < x" "0 < y" using assms by auto
  show ?thesis
  proof (cases "ilog2 x = ilog2 y")
    case True
    then show ?thesis
      unfolding rnd_pos [OF pos(1)] rnd_pos [OF pos(2)] True
      by (intro mult_right_mono) (simp_all add: roundHalfEven_mono divide_right_mono assms(2))
  next
    case False
    then have "ilog2 x + 1 \<le> ilog2 y" using ilog2_mono [OF pos(1) assms(2)] by simp
    then have "(2::rat) powi (ilog2 x + 1) \<le> 2 powi ilog2 y" by (intro power_int_increasing) auto
    then show ?thesis using rnd_between(2) [OF pos(1) assms(3)] rnd_between(1) [OF pos(2) assms(3)]
      by linarith
  qed
qed

section \<open>The retargeting rule\<close>

text \<open>The difficulty \<open>CalculateTarget\<close> computes before it applies the limit.\<close>

definition scaledDiff :: "mining_params \<Rightarrow> u32 \<Rightarrow> int \<Rightarrow> int \<Rightarrow> rat" where
  "scaledDiff p t ld pd =
     rnd (max 64 (bitlen (TargetToDiff t)))
       (of_nat (TargetToDiff t) * rnd 53 (averageInterval (max 1000000000 ld) pd / floatBlockInterval p))"

lemma prefix_less_prec: "m < 2 ^ 24 \<Longrightarrow> m < (2::nat) ^ max 64 b"
proof -
  assume "m < 2 ^ 24"
  also have "(2::nat) ^ 24 \<le> 2 ^ max 64 b" by (rule power_increasing) auto
  finally show ?thesis .
qed

lemma rnd_TargetToDiff:
  "rnd (max 64 b) (of_nat (TargetToDiff t)) = of_nat (TargetToDiff t)"
  "rnd (max 64 b) (of_nat (TargetToDiff t) * (1 / 2)) = of_nat (TargetToDiff t) * (1 / 2)"
proof (rule_tac [!] TargetToDiff_form [of t])
  fix m k :: nat assume t: "TargetToDiff t = m * 2 ^ k" and m: "m < 2 ^ 24"
  note m' = prefix_less_prec [OF m, of b]
  show "rnd (max 64 b) (of_nat (TargetToDiff t)) = of_nat (TargetToDiff t)"
    using rnd_exact_nat [OF m', of k] by (simp add: t)
  show "rnd (max 64 b) (of_nat (TargetToDiff t) * (1 / 2)) = of_nat (TargetToDiff t) * (1 / 2)"
    using rnd_exact_shift [OF m', of k 1] by (simp add: t)
qed

lemma CalculateTarget_alt:
  "CalculateTarget p t ld pd =
     (let d = nat \<lfloor>max (scaledDiff p t ld pd) (of_nat (TargetToDiff t) / 2)\<rfloor>
      in if d > BlockDifficultyLimit p then BlockTargetLimit p else DiffToTarget d)"
proof -
  have "(if ld < 1000000000 then 1000000000 else ld) = max 1000000000 ld" by simp
  moreover have "(if a < b then b else a) = max a b" for a b :: rat by simp
  ultimately show ?thesis
    unfolding CalculateTarget_def scaledDiff_def Let_def rnd_TargetToDiff by simp
qed

lemma TargetToDiff_CalculateTarget:
  assumes "BlockDifficultyLimit p = TargetToDiff (BlockTargetLimit p)"
  shows "TargetToDiff (CalculateTarget p t ld pd) =
    min (BlockDifficultyLimit p)
      (trunc24 (nat \<lfloor>max (scaledDiff p t ld pd) (of_nat (TargetToDiff t) / 2)\<rfloor>))"
proof -
  define d where "d = nat \<lfloor>max (scaledDiff p t ld pd) (of_nat (TargetToDiff t) / 2)\<rfloor>"
  define L where "L = BlockDifficultyLimit p"
  have L: "trunc24 L = L" "L < 2 ^ 255" unfolding L_def assms by (simp_all add: TargetToDiff_less [simplified])
  have "trunc24 d \<ge> L" if "d > L" using trunc24_mono [of L d] L that by simp
  moreover have "trunc24 d \<le> L" if "d \<le> L" using trunc24_le [of d] that by simp
  moreover have "TargetToDiff (DiffToTarget d) = trunc24 d" if "d \<le> L"
    using that L(2) by (intro TargetToDiff_DiffToTarget) simp
  ultimately show ?thesis
    unfolding CalculateTarget_alt Let_def d_def [symmetric] L_def [symmetric]
    using assms by (auto simp: L_def)
qed

lemma floor_half: "nat \<lfloor>rat_of_nat n / 2\<rfloor> = n div 2"
  using floor_divide_of_nat_eq [of n 2, where 'a=rat] by simp

text \<open>
  The 32-bit target is a lossy encoding of a difficulty with a known error: decoding the
  encoding of any difficulty below \<open>2^255\<close> gives at most that difficulty, and loses at most one
  part in \<open>2^23\<close> of it.  Difficulties that come from a target survive the round trip unchanged, so
  a target is only ever replaced by one with the same difficulty.
\<close>

theorem target_roundtrip:
  assumes "d < 2 ^ 255"
  shows "TargetToDiff (DiffToTarget d) \<le> d \<and>
         (d - TargetToDiff (DiffToTarget d)) * 2 ^ 23 \<le> d \<and>
         TargetToDiff (DiffToTarget (TargetToDiff t)) = TargetToDiff t"
proof -
  have "(d - trunc24 d) * 2 ^ 23 \<le> d"
  proof (cases "24 < bitlen d")
    case True
    let ?k = "bitlen d - 24"
    have "d - trunc24 d = d mod 2 ^ ?k" by (simp add: trunc24_def minus_div_mult_eq_mod)
    then have "(d - trunc24 d) * 2 ^ 23 \<le> 2 ^ ?k * 2 ^ 23" by simp
    also have "\<dots> = 2 ^ (bitlen d - 1)" using True by (simp only: power_add [symmetric]) simp
    also have "\<dots> \<le> d" using bitlen_bounds [of d] True by (cases "d = 0") (simp_all add: bitlen_def)
    finally show ?thesis .
  qed (simp add: trunc24_def)
  then show ?thesis
    using TargetToDiff_DiffToTarget [OF assms] TargetToDiff_DiffToTarget [OF TargetToDiff_less, of t]
    by (simp add: trunc24_le)
qed

theorem target_roundtrip_witness:
  "TargetToDiff (DiffToTarget 1000000007) \<le> 1000000007 \<and>
   (1000000007 - TargetToDiff (DiffToTarget 1000000007)) * 2 ^ 23 \<le> 1000000007 \<and>
   TargetToDiff (DiffToTarget (TargetToDiff 0xF5FFFFFF)) = TargetToDiff 0xF5FFFFFF"
  by (rule target_roundtrip) simp

lemma averageInterval_mono:
  assumes "0 \<le> l" "l \<le> l'" "0 \<le> q" "q \<le> q'"
  shows "averageInterval l q \<le> averageInterval l' q'" and "0 \<le> averageInterval l q"
proof -
  have q: "0 \<le> quot q (int ReferenceBlocks)" "quot q (int ReferenceBlocks) \<le> quot q' (int ReferenceBlocks)"
    using assms(3,4) by (auto simp: quot_def ReferenceBlocks_def sgn_if zdiv_mono1)
  have f: "0 \<le> float64 i" "i \<le> j \<Longrightarrow> float64 i \<le> float64 j" if "0 \<le> i" for i j
    using that by (auto simp: float64_def intro: rnd_mono rnd_nonneg)
  show "averageInterval l q \<le> averageInterval l' q'"
    unfolding averageInterval_def using assms q
    by (intro rnd_mono add_mono mult_right_mono add_nonneg_nonneg rnd_nonneg mult_nonneg_nonneg f) auto
  show "0 \<le> averageInterval l q"
    unfolding averageInterval_def using assms q
    by (intro rnd_nonneg add_nonneg_nonneg mult_nonneg_nonneg f) auto
qed

lemma scaledDiff_mono:
  assumes "0 < sint (BlockInterval p)" "l \<le> l'" "0 \<le> q" "q \<le> q'"
  shows "scaledDiff p t l q \<le> scaledDiff p t l' q'"
proof -
  have "0 \<le> floatBlockInterval p"
    using assms(1) unfolding floatBlockInterval_def float64_def by (intro rnd_nonneg) (simp_all only: of_int_0_le_iff)
  then show ?thesis
    unfolding scaledDiff_def using averageInterval_mono [of "max 1000000000 l" "max 1000000000 l'" q q'] assms
    by (intro rnd_mono mult_left_mono divide_right_mono mult_nonneg_nonneg divide_nonneg_nonneg rnd_nonneg) auto
qed

text \<open>
  C31 Retargeting is clamped: the new target's difficulty bound never exceeds the chain's limit, and
  unless the limit itself is returned it never drops below half of the previous one, whatever the
  measured durations are and despite all floating-point roundings.
\<close>

theorem retarget_clamped:
  assumes "0 < sint (BlockInterval p)"
    and "BlockDifficultyLimit p = TargetToDiff (BlockTargetLimit p)"
  shows "TargetToDiff (CalculateTarget p t ld pd) \<le> BlockDifficultyLimit p \<and>
         (CalculateTarget p t ld pd = BlockTargetLimit p \<or>
          TargetToDiff t div 2 \<le> TargetToDiff (CalculateTarget p t ld pd))"
proof -
  let ?d = "nat \<lfloor>max (scaledDiff p t ld pd) (of_nat (TargetToDiff t) / 2)\<rfloor>"
  have "TargetToDiff t div 2 \<le> ?d"
    unfolding floor_half [symmetric] by (intro nat_mono floor_mono) simp
  then have half: "TargetToDiff t div 2 \<le> trunc24 ?d"
    using trunc24_mono trunc24_half by metis
  moreover have "CalculateTarget p t ld pd = BlockTargetLimit p" if "BlockDifficultyLimit p < ?d"
    using that by (simp add: CalculateTarget_alt Let_def)
  moreover have "trunc24 ?d \<le> BlockDifficultyLimit p" if "?d \<le> BlockDifficultyLimit p"
    using trunc24_le [of ?d] that by linarith
  ultimately show ?thesis
    unfolding TargetToDiff_CalculateTarget [OF assms(2)] by (cases "BlockDifficultyLimit p < ?d") auto
qed

definition demo_params :: mining_params where
  "demo_params = initMiningParams \<lparr>cfgBlockTargetLimit = 0xF5FFFFFF, cfgEvidenceTargetLimit = 0xF5FFFFFF,
     cfgBlockInterval = 10, cfgGenesis = []\<rparr>"

lemma demo_params:
  "sint (BlockInterval demo_params) = 10000000000"
  "BlockDifficultyLimit demo_params = TargetToDiff (BlockTargetLimit demo_params)"
  "BlockTargetLimit demo_params = 0xF5FFFFFF"
  by (simp_all add: demo_params_def initMiningParams_def)

theorem retarget_clamped_witness:
  "TargetToDiff (CalculateTarget demo_params 0xE0FFFFFF 3000000000 90000000000)
     \<le> BlockDifficultyLimit demo_params \<and>
   (CalculateTarget demo_params 0xE0FFFFFF 3000000000 90000000000 = BlockTargetLimit demo_params \<or>
    TargetToDiff 0xE0FFFFFF div 2
      \<le> TargetToDiff (CalculateTarget demo_params 0xE0FFFFFF 3000000000 90000000000))"
  by (rule retarget_clamped) (simp_all add: demo_params)

text \<open>
  Retargeting follows the measured pace: blocks that took longer (a longer time since the last
  block, a longer time for the reference window) never give a smaller difficulty bound, that is
  never a harder puzzle.
\<close>

theorem retarget_monotone:
  assumes "0 < sint (BlockInterval p)"
    and "BlockDifficultyLimit p = TargetToDiff (BlockTargetLimit p)"
    and "ld \<le> ld'" and "0 \<le> pd" and "pd \<le> pd'"
  shows "TargetToDiff (CalculateTarget p t ld pd) \<le> TargetToDiff (CalculateTarget p t ld' pd')"
proof -
  have "nat \<lfloor>max (scaledDiff p t ld pd) (of_nat (TargetToDiff t) / 2)\<rfloor>
      \<le> nat \<lfloor>max (scaledDiff p t ld' pd') (of_nat (TargetToDiff t) / 2)\<rfloor>"
    using scaledDiff_mono [OF assms(1,3-5)] by (intro nat_mono floor_mono max.mono) auto
  then show ?thesis
    unfolding TargetToDiff_CalculateTarget [OF assms(2)] by (intro min.mono trunc24_mono) auto
qed

theorem retarget_monotone_witness:
  "TargetToDiff (CalculateTarget demo_params 0xE0FFFFFF 3000000000 90000000000)
     \<le> TargetToDiff (CalculateTarget demo_params 0xE0FFFFFF 9000000000 290000000000)"
  by (rule retarget_monotone) (simp_all add: demo_params)

lemma float64_exact: "0 \<le> i \<Longrightarrow> i < 2 ^ 53 \<Longrightarrow> float64 i = of_int i"
  using rnd_exact_nat [of "nat i" 53 0] by (simp add: float64_def nat_less_iff)

lemma averageInterval_on_schedule:
  assumes "0 \<le> i" "7 * i < 2 ^ 53"
  shows "averageInterval i (20 * i) = of_int i"
proof -
  have i: "float64 i = of_int i" using assms by (intro float64_exact) auto
  have q: "quot (20 * i) (int ReferenceBlocks) = i"
    using assms(1) by (auto simp: quot_def ReferenceBlocks_def sgn_if)
  have "rnd 53 (of_int i * (1 / 8)) = of_int i * (1 / 8)"
    using rnd_exact_shift [of "nat i" 53 0 3] assms by (simp add: nat_less_iff)
  moreover have "rnd 53 (of_int i * (7 / 8)) = of_int i * (7 / 8)"
    using rnd_exact_shift [of "nat (7 * i)" 53 0 3] assms by (simp add: nat_less_iff mult.commute)
  moreover have "rnd 53 (of_int i * (1 / 8) + of_int i * (7 / 8)) = of_int i"
    using float64_exact [of i] assms by (simp add: float64_def flip: distrib_left)
  ultimately show ?thesis by (simp only: averageInterval_def i q)
qed

text \<open>
  A chain that is exactly on schedule keeps its difficulty: when the last block took one block
  interval and the reference window took 20 of them, the new target has the same difficulty as the
  old one, with no drift from the floating-point computation.
\<close>

theorem retarget_on_schedule:
  assumes "sint (BlockInterval p) = i" and "1000000000 \<le> i" and "7 * i < 2 ^ 53"
    and "BlockDifficultyLimit p = TargetToDiff (BlockTargetLimit p)"
    and "TargetToDiff t \<le> BlockDifficultyLimit p"
  shows "TargetToDiff (CalculateTarget p t i (20 * i)) = TargetToDiff t"
proof -
  have "rnd 53 (averageInterval (max 1000000000 i) (20 * i) / floatBlockInterval p) = 1"
    using averageInterval_on_schedule [of i] float64_exact [of i] float64_exact [of 1] assms
    by (simp add: floatBlockInterval_def float64_def max_def)
  then have "scaledDiff p t i (20 * i) = of_nat (TargetToDiff t)"
    by (simp add: scaledDiff_def rnd_TargetToDiff)
  then have "nat \<lfloor>max (scaledDiff p t i (20 * i)) (of_nat (TargetToDiff t) / 2)\<rfloor> = TargetToDiff t"
    by (simp add: max_def)
  then show ?thesis using assms(5) by (simp add: TargetToDiff_CalculateTarget [OF assms(4)])
qed

theorem retarget_on_schedule_witness:
  "TargetToDiff (CalculateTarget demo_params 0xE0FFFFFF 10000000000 (20 * 10000000000)) = TargetToDiff 0xE0FFFFFF"
  by (rule retarget_on_schedule)
    (simp_all add: demo_params TargetToDiff_def diffPrefixBitsLen_def drop_bit_eq_div)

end
