(* ===== verification/Pow.thy ===== *)
theory Pow
  imports CoreProtocolFacts
begin

text \<open>
  Proof of work on evidences and block headers: \<open>src/serialize/cp/pow_cache.go\<close>, the
  \<open>NextNonce\<close> methods of \<open>src/serialize/cp/evidence.go\<close> and
  \<open>src/serialize/cp/block_header.go\<close>, and the search loop of \<open>calculateRaw\<close>
  (\<open>src/core/ev_pool.go\<close>).  The cached encoding is patched in place instead of being
  recomputed; the locale \<open>nonce_search\<close> shows once, for both message types, that the patched
  bytes are the encoding of the message with the new nonce.
\<close>

section \<open>The cache\<close>

record powCache =
  marshalCache :: bytes
  powValue :: nat
  cache :: bool

definition newPowCache :: powCache where
  "newPowCache = \<lparr>marshalCache = [], powValue = 0, cache = False\<rparr>"

definition cacheBefore :: "powCache \<Rightarrow> bool" where
  "cacheBefore p = cache p"

definition setCache :: "powCache \<Rightarrow> bytes \<Rightarrow> nat \<Rightarrow> powCache" where
  "setCache p marshal pow = p\<lparr>marshalCache := marshal, powValue := pow, cache := True\<rparr>"

text \<open>
  \<open>binary.BigEndian.PutUint32(b[index:], v)\<close>: four bytes are overwritten in place (the slice is
  always longer than \<open>index + 4\<close>).
\<close>

definition putUint32At :: "bytes \<Rightarrow> nat \<Rightarrow> u32 \<Rightarrow> bytes" where
  "putUint32At b index v = take index b @ putU32 v @ drop (index + 4) b"

definition powCacheUpdate :: "hasher \<Rightarrow> powCache \<Rightarrow> u32 \<Rightarrow> nat \<Rightarrow> nat \<times> powCache" where
  "powCacheUpdate Hash p nonce index =
     (let m = putUint32At (marshalCache p) index nonce; pow = be_nat (Hash m)
      in (pow, p\<lparr>marshalCache := m, powValue := pow\<rparr>))"

section \<open>NextNonce\<close>

text \<open>A message with its unexported field \<open>pc\<close>.\<close>

type_synonym 'm mining = "'m \<times> powCache"

definition EvidenceNextNonce :: "hasher \<Rightarrow> Evidence mining \<Rightarrow> nat \<times> Evidence mining" where
  "EvidenceNextNonce Hash = (\<lambda>(e, pc).
     if \<not> cacheBefore pc then
       (let marshal = MarshalEvidence e; pow = be_nat (Hash marshal)
        in (pow, e, setCache pc marshal pow))
     else
       (let e' = e\<lparr>eNonce := eNonce e + 1\<rparr>; (pow, pc') = powCacheUpdate Hash pc (eNonce e') 1
        in (pow, e', pc')))"

definition HeaderNextNonce :: "hasher \<Rightarrow> BlockHeader mining \<Rightarrow> nat \<times> BlockHeader mining" where
  "HeaderNextNonce Hash = (\<lambda>(b, pc).
     if \<not> cacheBefore pc then
       (let marshal = MarshalBlockHeader b; pow = be_nat (Hash marshal)
        in (pow, b, setCache pc marshal pow))
     else
       (let b' = b\<lparr>bhNonce := bhNonce b + 1\<rparr>; (pow, pc') = powCacheUpdate Hash pc (bhNonce b') (1 + 8)
        in (pow, b', pc')))"

definition HeaderShallowCopy :: "BlockHeader \<Rightarrow> BlockHeader mining" where
  "HeaderShallowCopy b =
     (\<lparr>bhVersion = bhVersion b, bhTime = bhTime b, bhNonce = bhNonce b, bhTarget = bhTarget b,
       bhLastHash = bhLastHash b, bhMiner = bhMiner b, bhEvidenceRoot = bhEvidenceRoot b\<rparr>,
      newPowCache)"

text \<open>
  The search loop of \<open>calculateRaw\<close>, which has no bound: \<open>None\<close> is a loop that never ends.
\<close>

partial_function (option) powLoop ::
  "hasher \<Rightarrow> nat \<Rightarrow> nat \<Rightarrow> Evidence mining \<Rightarrow> (nat \<times> Evidence mining) option" where
  "powLoop Hash limit weight s =
     (if weight < limit then Some (weight, s)
      else (case EvidenceNextNonce Hash s of (weight', s') \<Rightarrow> powLoop Hash limit weight' s'))"

definition mineEvidence :: "hasher \<Rightarrow> nat \<Rightarrow> Evidence \<Rightarrow> (nat \<times> Evidence mining) option" where
  "mineEvidence Hash limit e =
     (case EvidenceNextNonce Hash (e, newPowCache) of (weight, s) \<Rightarrow> powLoop Hash limit weight s)"

section \<open>Both messages as instances of one contract\<close>

text \<open>
  The cached bytes belong to the message: they are its encoding up to the nonce.
\<close>

definition coherent :: "('m \<Rightarrow> bytes) \<Rightarrow> ('m \<Rightarrow> u32 \<Rightarrow> 'm) \<Rightarrow> 'm mining \<Rightarrow> bool" where
  "coherent marshal setNonce = (\<lambda>(x, pc). cache pc \<longrightarrow> (\<exists>n. marshalCache pc = marshal (setNonce x n)))"

lemma coherent_new [simp]: "coherent marshal setNonce (x, newPowCache)"
  by (simp add: coherent_def newPowCache_def)

locale nonce_search =
  fixes marshal :: "'m \<Rightarrow> bytes" and nonce :: "'m \<Rightarrow> u32" and setNonce :: "'m \<Rightarrow> u32 \<Rightarrow> 'm"
    and nonceIndex :: nat and nextNonce :: "hasher \<Rightarrow> 'm mining \<Rightarrow> nat \<times> 'm mining"
  assumes nonce_setNonce [simp]: "nonce (setNonce x n) = n"
    and setNonce_twice [simp]: "setNonce (setNonce x m) n = setNonce x n"
    and setNonce_nonce [simp]: "setNonce x (nonce x) = x"
    and marshal_setNonce: "putUint32At (marshal x) nonceIndex n = marshal (setNonce x n)"
    and next_fresh: "\<not> cache pc \<Longrightarrow>
      nextNonce Hash (x, pc) = (be_nat (Hash (marshal x)), x, setCache pc (marshal x) (be_nat (Hash (marshal x))))"
    and next_cached: "cache pc \<Longrightarrow>
      nextNonce Hash (x, pc) = (fst (powCacheUpdate Hash pc (nonce x + 1) nonceIndex), setNonce x (nonce x + 1),
        snd (powCacheUpdate Hash pc (nonce x + 1) nonceIndex))"
begin

text \<open>One call returns the work of the message it leaves behind, as if encoded afresh.\<close>

lemma next_coherent:
  assumes "coherent marshal setNonce (x, pc)" "nextNonce Hash (x, pc) = (w, x', pc')"
  shows "w = be_nat (Hash (marshal x')) \<and> coherent marshal setNonce (x', pc') \<and> cache pc'
    \<and> x' = (if cache pc then setNonce x (nonce x + 1) else x)"
proof (cases "cache pc")
  case True
  then obtain n where "marshalCache pc = marshal (setNonce x n)"
    using assms(1) by (auto simp: coherent_def)
  then have "putUint32At (marshalCache pc) nonceIndex (nonce x + 1) = marshal (setNonce x (nonce x + 1))"
    using marshal_setNonce [of "setNonce x n"] by simp
  then show ?thesis
    using assms(2) True by (auto simp: next_cached powCacheUpdate_def coherent_def Let_def intro: exI [of _ "nonce x + 1"])
next
  case False
  then show ?thesis
    using assms(2) by (auto simp: next_fresh setCache_def coherent_def intro: exI [of _ "nonce x"])
qed

end

lemma patch_header: "putUint32At (MarshalBlockHeader b) 9 n = MarshalBlockHeader (HeaderSetNonce b n)"
  by (simp add: putUint32At_def MarshalBlockHeader_def HeaderSetNonce_def)

lemma patch_evidence: "putUint32At (MarshalEvidence e) 1 n = MarshalEvidence (EvidenceSetNonce e n)"
  by (simp add: putUint32At_def MarshalEvidence_def EvidenceSetNonce_def)

interpretation header_mining: nonce_search MarshalBlockHeader bhNonce HeaderSetNonce 9 HeaderNextNonce
  by unfold_locales
    (simp_all add: HeaderSetNonce_def HeaderNextNonce_def cacheBefore_def Let_def split_def
      patch_header [unfolded HeaderSetNonce_def])

interpretation evidence_mining: nonce_search MarshalEvidence eNonce EvidenceSetNonce 1 EvidenceNextNonce
  by unfold_locales
    (simp_all add: EvidenceSetNonce_def EvidenceNextNonce_def cacheBefore_def Let_def split_def
      patch_evidence [unfolded EvidenceSetNonce_def One_nat_def])

section \<open>The search\<close>

lemma powLoop_finds:
  assumes "coherent MarshalEvidence EvidenceSetNonce (e, pc)" "cache pc" "w = EvidenceGetPow Hash e"
    and "\<forall>j < k. limit \<le> EvidenceGetPow Hash (EvidenceSetNonce e (eNonce e + word_of_nat j))"
    and "EvidenceGetPow Hash (EvidenceSetNonce e (eNonce e + word_of_nat k)) < limit"
  shows "\<exists>pc'. powLoop Hash limit w (e, pc) =
    Some (EvidenceGetPow Hash (EvidenceSetNonce e (eNonce e + word_of_nat k)),
          EvidenceSetNonce e (eNonce e + word_of_nat k), pc')"
  using assms
proof (induction k arbitrary: e pc w)
  case 0
  then show ?case by (subst powLoop.simps) simp
next
  case (Suc k)
  obtain w' e' pc' where n: "EvidenceNextNonce Hash (e, pc) = (w', e', pc')"
    by (cases "EvidenceNextNonce Hash (e, pc)") auto
  note e' = evidence_mining.next_coherent [OF Suc.prems(1) n]
  have e'_eq: "e' = EvidenceSetNonce e (eNonce e + 1)" using e' Suc.prems(2) by simp
  have "\<not> w < limit" using Suc.prems(3) Suc.prems(4) [rule_format, of 0] by simp
  then have step: "powLoop Hash limit w (e, pc) = powLoop Hash limit w' (e', pc')"
    by (subst powLoop.simps) (simp add: n)
  have shift: "EvidenceSetNonce e' (eNonce e' + word_of_nat j)
      = EvidenceSetNonce e (eNonce e + word_of_nat (Suc j))" for j
    by (simp add: e'_eq algebra_simps)
  have "\<exists>pc''. powLoop Hash limit w' (e', pc') =
    Some (EvidenceGetPow Hash (EvidenceSetNonce e' (eNonce e' + word_of_nat k)),
          EvidenceSetNonce e' (eNonce e' + word_of_nat k), pc'')"
  proof (rule Suc.IH)
    show "\<forall>j < k. limit \<le> EvidenceGetPow Hash (EvidenceSetNonce e' (eNonce e' + word_of_nat j))"
      unfolding shift using Suc.prems(4) by blast
    show "EvidenceGetPow Hash (EvidenceSetNonce e' (eNonce e' + word_of_nat k)) < limit"
      unfolding shift by (rule Suc.prems(5))
    show "w' = EvidenceGetPow Hash e'"
      using e' by (simp only: EvidenceGetPow_def EvidenceGetSerializedHash_def)
  qed (use e' in blast)+
  then show ?case unfolding step shift .
qed

text \<open>Whatever the loop returns is a success on a message that differs in the nonce only.\<close>

definition mined :: "hasher \<Rightarrow> nat \<Rightarrow> Evidence \<Rightarrow> nat \<times> Evidence mining \<Rightarrow> bool" where
  "mined Hash limit e = (\<lambda>(w, e', pc). w < limit \<and> w = EvidenceGetPow Hash e' \<and> (\<exists>n. e' = EvidenceSetNonce e n))"

lemma powLoop_sound:
  assumes "powLoop Hash limit w s = Some r"
  shows "coherent MarshalEvidence EvidenceSetNonce s \<longrightarrow> w = EvidenceGetPow Hash (fst s) \<longrightarrow>
    mined Hash limit (fst s) r"
proof (rule powLoop.raw_induct [where P = "\<lambda>Hash limit w s r.
    coherent MarshalEvidence EvidenceSetNonce s \<longrightarrow> w = EvidenceGetPow Hash (fst s) \<longrightarrow>
    mined Hash limit (fst s) r", OF _ assms])
  fix rec Hash limit w s r
  assume IH: "\<And>Hash limit w s r. rec Hash limit w s = Some r \<Longrightarrow>
      coherent MarshalEvidence EvidenceSetNonce s \<longrightarrow> w = EvidenceGetPow Hash (fst s) \<longrightarrow>
      mined Hash limit (fst s) r"
    and eq: "(if w < limit then Some (w, s)
      else (case EvidenceNextNonce Hash s of (w', s') \<Rightarrow> rec Hash limit w' s')) = Some r"
  obtain e pc where s: "s = (e, pc)" by (cases s)
  obtain w' e' pc' where n: "EvidenceNextNonce Hash (e, pc) = (w', e', pc')"
    by (cases "EvidenceNextNonce Hash (e, pc)") auto
  show "coherent MarshalEvidence EvidenceSetNonce s \<longrightarrow> w = EvidenceGetPow Hash (fst s) \<longrightarrow>
    mined Hash limit (fst s) r"
  proof (intro impI)
    assume c: "coherent MarshalEvidence EvidenceSetNonce s" and w: "w = EvidenceGetPow Hash (fst s)"
    show "mined Hash limit (fst s) r"
    proof (cases "w < limit")
      case True
      then show ?thesis using eq w s by (auto simp: mined_def intro: exI [of _ "eNonce e"])
    next
      case False
      note e' = evidence_mining.next_coherent [OF c [unfolded s] n]
      have "rec Hash limit w' (e', pc') = Some r" using eq False n s by simp
      moreover have "w' = EvidenceGetPow Hash e'"
        using e' by (simp only: EvidenceGetPow_def EvidenceGetSerializedHash_def)
      moreover have "coherent MarshalEvidence EvidenceSetNonce (e', pc')" using e' by blast
      ultimately have m: "mined Hash limit e' r" using IH [of Hash limit w' "(e', pc')" r] by simp
      obtain k where "e' = EvidenceSetNonce e k"
        using e' by (metis evidence_mining.setNonce_nonce)
      with m show ?thesis by (auto simp: mined_def s)
    qed
  qed
qed

lemma mineEvidence_step:
  obtains w pc where "mineEvidence Hash limit e = powLoop Hash limit w (e, pc)" "cache pc"
    "coherent MarshalEvidence EvidenceSetNonce (e, pc)" "w = EvidenceGetPow Hash e"
proof -
  obtain w e1 pc where n: "EvidenceNextNonce Hash (e, newPowCache) = (w, e1, pc)"
    by (cases "EvidenceNextNonce Hash (e, newPowCache)") auto
  have e1: "e1 = e" "cache pc" "coherent MarshalEvidence EvidenceSetNonce (e, pc)" "w = EvidenceGetPow Hash e"
    using evidence_mining.next_coherent [OF coherent_new n]
    by (auto simp: newPowCache_def EvidenceGetPow_def EvidenceGetSerializedHash_def)
  have "mineEvidence Hash limit e = powLoop Hash limit w (e, pc)"
    by (simp add: mineEvidence_def n e1(1))
  with e1 that show thesis by blast
qed

lemma mineEvidence_sound:
  assumes "mineEvidence Hash limit e = Some (w, e', pc)"
  shows "w < limit \<and> w = EvidenceGetPow Hash e' \<and> (\<exists>n. e' = EvidenceSetNonce e n)"
proof (rule mineEvidence_step [of Hash limit e])
  fix w0 pc0
  assume "mineEvidence Hash limit e = powLoop Hash limit w0 (e, pc0)"
    "coherent MarshalEvidence EvidenceSetNonce (e, pc0)" "w0 = EvidenceGetPow Hash e"
  with assms powLoop_sound [of Hash limit w0 "(e, pc0)"] show ?thesis by (auto simp: mined_def)
qed

text \<open>
  C38 Mining an evidence returns exactly when some nonce meets the difficulty limit, and then with the
  first such nonce counted (with wrap-around) from the evidence's own: the result differs from the
  evidence in the nonce only, its weight is its proof of work, and every nonce tried before fails.
  The cached bytes that \<open>NextNonce\<close> patches never go stale.
\<close>

theorem mineEvidence_correct:
  "(mineEvidence Hash limit e = None \<longleftrightarrow> (\<forall>n. limit \<le> EvidenceGetPow Hash (EvidenceSetNonce e n))) \<and>
   (\<forall>w e' pc. mineEvidence Hash limit e = Some (w, e', pc) \<longrightarrow>
      w < limit \<and> w = EvidenceGetPow Hash e' \<and> e' = EvidenceSetNonce e (eNonce e') \<and>
      (\<forall>j < unat (eNonce e' - eNonce e).
         limit \<le> EvidenceGetPow Hash (EvidenceSetNonce e (eNonce e + word_of_nat j))))"
proof -
  let ?pow = "\<lambda>n. EvidenceGetPow Hash (EvidenceSetNonce e n)"
  obtain w pc where m: "mineEvidence Hash limit e = powLoop Hash limit w (e, pc)"
    and pc: "cache pc" "coherent MarshalEvidence EvidenceSetNonce (e, pc)" "w = EvidenceGetPow Hash e"
    by (rule mineEvidence_step [of Hash limit e])
  show ?thesis
  proof (cases "\<forall>n. limit \<le> ?pow n")
    case True
    have "mineEvidence Hash limit e = None"
    proof (rule ccontr)
      assume "mineEvidence Hash limit e \<noteq> None"
      then obtain w' e' pc' where "mineEvidence Hash limit e = Some (w', e', pc')" by auto
      from mineEvidence_sound [OF this] True show False by (auto simp: not_less [symmetric])
    qed
    with True show ?thesis by simp
  next
    case False
    then obtain n where "?pow n < limit" by (auto simp: not_le)
    then have ex: "?pow (eNonce e + word_of_nat (unat (n - eNonce e))) < limit" by simp
    define k where "k = (LEAST k. ?pow (eNonce e + word_of_nat k) < limit)"
    have k: "?pow (eNonce e + word_of_nat k) < limit" unfolding k_def using ex by (rule LeastI)
    have before: "\<forall>j < k. limit \<le> ?pow (eNonce e + word_of_nat j)"
      using not_less_Least unfolding k_def by (fastforce simp: not_less)
    have "k \<le> unat (n - eNonce e)" unfolding k_def using ex by (rule Least_le)
    then have "k < 2 ^ 32" using unat_less [of "n - eNonce e"] by simp
    then have uk: "unat (word_of_nat k :: u32) = k" by (simp add: unat_of_nat)
    obtain pc' where "powLoop Hash limit w (e, pc) = Some (?pow (eNonce e + word_of_nat k),
        EvidenceSetNonce e (eNonce e + word_of_nat k), pc')"
      using powLoop_finds [OF pc(2,1,3) before k] by blast
    with False k before uk show ?thesis by (simp add: m)
  qed
qed

theorem mineEvidence_correct_witness:
  "\<exists>w e' pc. mineEvidence mod_hash (2 ^ 256) toy_evidence = Some (w, e', pc) \<and>
     w < 2 ^ 256 \<and> w = EvidenceGetPow mod_hash e' \<and> e' = EvidenceSetNonce toy_evidence (eNonce e')"
proof -
  have "EvidenceGetPow mod_hash e < 2 ^ 256" for e
    using be_nat_less [of "mod_hash (MarshalEvidence e)"] hash_ok_length [OF mod_hash_ok]
    by (simp add: EvidenceGetPow_def EvidenceGetSerializedHash_def)
  then have "mineEvidence mod_hash (2 ^ 256) toy_evidence \<noteq> None"
    using mineEvidence_correct [of mod_hash "2 ^ 256" toy_evidence] by (meson not_le)
  then show ?thesis
    using mineEvidence_correct [of mod_hash "2 ^ 256" toy_evidence] by auto
qed

end
