(* ===== verification/Mine.thy ===== *)
theory Mine
  imports Pow
begin

text \<open>
  \<open>src/core/parallel_mine.go\<close>: the nonce search of a block header split over several goroutines.
  A goroutine \<open>pow\<close> is a \<open>worker\<close>; the goroutine that \<open>mine\<close> starts to collect the results is
  the coordinator.  The channels are part of the state, and one run is a sequence of
  \<open>mine_step\<close> steps in any interleaving.
\<close>

section \<open>State\<close>

record mineResult =
  mrFound :: bool
  mrNonce :: u32

text \<open>How a goroutine \<open>pow\<close> stands: its loop runs, or the return it took.\<close>

datatype worker_status = Running | FoundNonce | Exhausted | Stopped

record worker =
  wHeader :: "BlockHeader mining"
  wEnd :: u32
  wStatus :: worker_status

text \<open>
  \<open>powResult\<close> and \<open>powStop\<close> are the buffered channels (the values waiting; the number of stop
  messages waiting), \<open>jobResult\<close> what was sent on \<open>job.result\<close>.  \<open>timedOut\<close> and \<open>terminated\<close>
  record that the ticker fired or \<open>job.stop\<close> was received.
\<close>

record mine_state =
  workers :: "worker list"
  powResult :: "mineResult list"
  powStop :: nat
  finished :: nat
  coordinating :: bool
  jobResult :: "mineResult option"
  timedOut :: bool
  terminated :: bool

section \<open>Operations\<close>

definition notFound :: mineResult where
  "notFound = \<lparr>mrFound = False, mrNonce = 0\<rparr>"

definition powInit :: "BlockHeader \<Rightarrow> u32 \<Rightarrow> u32 \<Rightarrow> worker" where
  "powInit header begin end' =
     (case HeaderShallowCopy header of (copy, pc) \<Rightarrow>
        \<lparr>wHeader = (copy\<lparr>bhNonce := begin\<rparr>, pc), wEnd = end', wStatus = Running\<rparr>)"

text \<open>The loop of \<open>mine\<close> that starts the goroutines.\<close>

fun spawn :: "BlockHeader \<Rightarrow> u32 \<Rightarrow> u32 \<Rightarrow> nat \<Rightarrow> worker list" where
  "spawn header indexInterval begin 0 = []"
| "spawn header indexInterval begin (Suc n) =
     powInit header begin (begin + indexInterval)
     # spawn header indexInterval (begin + indexInterval) n"

definition indexInterval :: "nat \<Rightarrow> u32" where
  "indexInterval parallel = word_of_nat ((2 ^ 32 - 1) div parallel)"

definition mineInit :: "nat \<Rightarrow> BlockHeader \<Rightarrow> mine_state" where
  "mineInit parallel header =
     \<lparr>workers = spawn header (indexInterval parallel) 0 parallel, powResult = [], powStop = 0,
      finished = 0, coordinating = True, jobResult = None, timedOut = False, terminated = False\<rparr>"

text \<open>The \<open>default\<close> branch of the loop of \<open>pow\<close>: the goroutine and what it sends.\<close>

definition powIter :: "hasher \<Rightarrow> nat \<Rightarrow> worker \<Rightarrow> worker \<times> mineResult list" where
  "powIter Hash difficulty w =
     (if bhNonce (fst (wHeader w)) = wEnd w then (w\<lparr>wStatus := Exhausted\<rparr>, [notFound])
      else case HeaderNextNonce Hash (wHeader w) of (pv, h) \<Rightarrow>
        if pv < difficulty
        then (w\<lparr>wHeader := h, wStatus := FoundNonce\<rparr>, [\<lparr>mrFound = True, mrNonce = bhNonce (fst h)\<rparr>])
        else (w\<lparr>wHeader := h\<rparr>, []))"

text \<open>The coordinator's deferred function: one stop message per goroutine.\<close>

definition finishJob :: "mine_state \<Rightarrow> mine_state" where
  "finishJob s = s\<lparr>coordinating := False, powStop := powStop s + length (workers s)\<rparr>"

definition recvResult :: "mineResult \<Rightarrow> mine_state \<Rightarrow> mine_state" where
  "recvResult r s =
     (if mrFound r then finishJob (s\<lparr>jobResult := Some r\<rparr>)
      else let s' = s\<lparr>finished := finished s + 1\<rparr> in
        if finished s' = length (workers s') then finishJob (s'\<lparr>jobResult := Some notFound\<rparr>) else s')"

inductive mine_step :: "hasher \<Rightarrow> nat \<Rightarrow> mine_state \<Rightarrow> mine_state \<Rightarrow> bool" for Hash difficulty where
  worker_stop: "i < length (workers s) \<Longrightarrow> wStatus (workers s ! i) = Running \<Longrightarrow> 0 < powStop s \<Longrightarrow>
    mine_step Hash difficulty s
      (s\<lparr>workers := (workers s)[i := (workers s ! i)\<lparr>wStatus := Stopped\<rparr>], powStop := powStop s - 1\<rparr>)"
| worker_iter: "i < length (workers s) \<Longrightarrow> wStatus (workers s ! i) = Running \<Longrightarrow> powStop s = 0 \<Longrightarrow>
    powIter Hash difficulty (workers s ! i) = (w, rs) \<Longrightarrow>
    mine_step Hash difficulty s
      (s\<lparr>workers := (workers s)[i := w], powResult := powResult s @ rs\<rparr>)"
| recv: "coordinating s \<Longrightarrow> powResult s = r # rs \<Longrightarrow>
    mine_step Hash difficulty s (recvResult r (s\<lparr>powResult := rs\<rparr>))"
| timeout: "coordinating s \<Longrightarrow>
    mine_step Hash difficulty s (finishJob (s\<lparr>jobResult := Some notFound, timedOut := True\<rparr>))"
| job_stop: "coordinating s \<Longrightarrow>
    mine_step Hash difficulty s (finishJob (s\<lparr>terminated := True\<rparr>))"

inductive_cases mine_stepE: "mine_step Hash difficulty s s'"

section \<open>Every run ends\<close>

definition worker_fuel :: "worker \<Rightarrow> nat" where
  "worker_fuel w =
     (if wStatus w = Running
      then 2 + unat (wEnd w - bhNonce (fst (wHeader w))) + (if cache (snd (wHeader w)) then 0 else 1)
      else 0)"

definition mine_measure :: "mine_state \<Rightarrow> nat" where
  "mine_measure s =
     sum_list (map worker_fuel (workers s)) + length (powResult s) + (if coordinating s then 1 else 0)"

lemma HeaderNextNonce_fst:
  assumes "HeaderNextNonce Hash (b, pc) = (pv, b', pc')"
  shows "cache pc' \<and> b' = (if cache pc then b\<lparr>bhNonce := bhNonce b + 1\<rparr> else b)"
  using assms
  by (auto simp: HeaderNextNonce_def cacheBefore_def setCache_def powCacheUpdate_def Let_def split: if_splits)

lemma unat_sub_Suc: "n \<noteq> (m :: u32) \<Longrightarrow> unat (m - n) = Suc (unat (m - (n + 1)))"
proof -
  assume "n \<noteq> m"
  then have "m - n \<noteq> 0" by auto
  then have "unat (m - n) \<noteq> 0" "unat (m - n - 1) = unat (m - n) - 1"
    by (simp_all only: unat_eq_zero unat_minus_one not_False_eq_True)
  then show ?thesis by (simp add: diff_diff_eq)
qed

lemma powIter_fuel:
  assumes "powIter Hash difficulty w = (w', rs)" "wStatus w = Running"
  shows "worker_fuel w' + length rs < worker_fuel w"
proof -
  obtain b pc where h: "wHeader w = (b, pc)" by (cases "wHeader w")
  obtain pv b' pc' where n: "HeaderNextNonce Hash (b, pc) = (pv, b', pc')"
    by (cases "HeaderNextNonce Hash (b, pc)") auto
  show ?thesis
    using assms HeaderNextNonce_fst [OF n] unat_sub_Suc [of "bhNonce b" "wEnd w"]
    by (auto simp: powIter_def worker_fuel_def h n split: if_splits)
qed

lemma mine_step_measure: "mine_step Hash difficulty s s' \<Longrightarrow> mine_measure s' < mine_measure s"
proof (induction rule: mine_step.induct)
  case (worker_stop i s)
  then show ?case
    using sum_list_update_nat [of i "workers s" worker_fuel "(workers s ! i)\<lparr>wStatus := Stopped\<rparr>"]
    by (simp add: mine_measure_def worker_fuel_def)
next
  case (worker_iter i s w rs)
  then show ?case
    using sum_list_update_nat [of i "workers s" worker_fuel w] powIter_fuel [OF worker_iter(4,2)]
    by (simp add: mine_measure_def)
qed (auto simp: mine_measure_def recvResult_def finishJob_def Let_def)

section \<open>The invariant of a run\<close>

text \<open>The work of the header with a given nonce.\<close>

definition powOf :: "hasher \<Rightarrow> BlockHeader \<Rightarrow> u32 \<Rightarrow> nat" where
  "powOf Hash header n = HeaderGetPow Hash (HeaderSetNonce header n)"

text \<open>
  A worker that began at \<open>b\<close> has reached the nonce \<open>b + k\<close>, all nonces up to there have failed
  unless it found one, and it only reports exhaustion at its end.
\<close>

definition worker_inv :: "hasher \<Rightarrow> nat \<Rightarrow> BlockHeader \<Rightarrow> u32 \<Rightarrow> u32 \<Rightarrow> worker \<Rightarrow> bool" where
  "worker_inv Hash d header I b w \<longleftrightarrow>
     wEnd w = b + I \<and> coherent MarshalBlockHeader HeaderSetNonce (wHeader w) \<and>
     (\<exists>k \<le> unat I. fst (wHeader w) = HeaderSetNonce header (b + word_of_nat k) \<and>
        (\<not> cache (snd (wHeader w)) \<longrightarrow> k = 0) \<and>
        (cache (snd (wHeader w)) \<and> wStatus w \<noteq> FoundNonce \<longrightarrow>
           (\<forall>j \<le> k. d \<le> powOf Hash header (b + word_of_nat j))) \<and>
        (wStatus w = Exhausted \<longrightarrow> cache (snd (wHeader w)) \<and> k = unat I))"

lemma worker_inv_Stopped:
  "worker_inv Hash d header I b w \<Longrightarrow> wStatus w = Running \<Longrightarrow> worker_inv Hash d header I b (w\<lparr>wStatus := Stopped\<rparr>)"
  by (auto simp: worker_inv_def)

lemma worker_inv_Exhausted:
  "worker_inv Hash d header I b w \<Longrightarrow> wStatus w = Exhausted \<Longrightarrow> j \<le> unat I \<Longrightarrow>
   d \<le> powOf Hash header (b + word_of_nat j)"
  by (auto simp: worker_inv_def)

text \<open>What one iteration sends and how it leaves the worker.\<close>

definition sent_ok :: "hasher \<Rightarrow> nat \<Rightarrow> BlockHeader \<Rightarrow> mineResult list \<Rightarrow> bool" where
  "sent_ok Hash d header rs \<longleftrightarrow> (\<forall>r \<in> set rs. mrFound r \<longrightarrow> powOf Hash header (mrNonce r) < d)"

lemma word_of_nat_u32_inject:
  "k \<le> unat (I :: u32) \<Longrightarrow> word_of_nat k = I \<longleftrightarrow> k = unat I"
  using unat_less [of I] by (auto simp: unat_of_nat)

lemma powIter_inv:
  assumes inv: "worker_inv Hash d header I b w" and run: "wStatus w = Running" and I: "0 < unat I"
    and it: "powIter Hash d w = (w', rs)"
  shows "worker_inv Hash d header I b w'"
    and "rs = [] \<and> wStatus w' = Running
      \<or> rs = [notFound] \<and> wStatus w' = Exhausted
      \<or> (\<exists>n. rs = [\<lparr>mrFound = True, mrNonce = n\<rparr>] \<and> powOf Hash header n < d) \<and> wStatus w' = FoundNonce"
proof -
  obtain x pc where h: "wHeader w = (x, pc)" by (cases "wHeader w")
  obtain k where k: "k \<le> unat I" "x = HeaderSetNonce header (b + word_of_nat k)" "\<not> cache pc \<longrightarrow> k = 0"
    and failed: "cache pc \<longrightarrow> (\<forall>j \<le> k. d \<le> powOf Hash header (b + word_of_nat j))"
    and e: "wEnd w = b + I" and coh: "coherent MarshalBlockHeader HeaderSetNonce (x, pc)"
    using inv run by (auto simp: worker_inv_def h)
  have at_end: "bhNonce x = wEnd w \<longleftrightarrow> k = unat I"
    using k(1,2) e by (simp add: word_of_nat_u32_inject)
  obtain pv x' pc' where n: "HeaderNextNonce Hash (x, pc) = (pv, x', pc')"
    by (cases "HeaderNextNonce Hash (x, pc)") auto
  note nx = header_mining.next_coherent [OF coh n]
  define k' where "k' = (if cache pc then k + 1 else k)"
  have x': "x' = HeaderSetNonce header (b + word_of_nat k')"
    using nx by (simp add: k'_def k(2) algebra_simps)
  have pv: "pv = powOf Hash header (b + word_of_nat k')"
    using nx unfolding x' by (simp only: powOf_def HeaderGetPow_def HeaderGetSerializedHash_def)
  have before: "\<forall>j < k'. d \<le> powOf Hash header (b + word_of_nat j)"
    using failed k(3) by (auto simp: k'_def less_Suc_eq_le)
  have "worker_inv Hash d header I b w' \<and>
    (rs = [] \<and> wStatus w' = Running \<or> rs = [notFound] \<and> wStatus w' = Exhausted
      \<or> (\<exists>n. rs = [\<lparr>mrFound = True, mrNonce = n\<rparr>] \<and> powOf Hash header n < d) \<and> wStatus w' = FoundNonce)"
  proof (cases "k = unat I")
    case True
    then have "cache pc" using k(3) I by auto
    then show ?thesis
      using it at_end True k failed coh e by (auto simp: powIter_def h worker_inv_def)
  next
    case False
    then have k': "k' \<le> unat I" using k(1) by (simp add: k'_def)
    have it': "(w', rs) = (if pv < d
        then (w\<lparr>wHeader := (x', pc'), wStatus := FoundNonce\<rparr>, [\<lparr>mrFound = True, mrNonce = bhNonce x'\<rparr>])
        else (w\<lparr>wHeader := (x', pc')\<rparr>, []))"
      using it at_end False by (auto simp: powIter_def h n split: if_splits)
    have nonce: "bhNonce x' = b + word_of_nat k'" by (simp add: x')
    show ?thesis
    proof (cases "pv < d")
      case True
      then show ?thesis
        using it' nx e k' x' pv nonce by (auto simp: worker_inv_def)
    next
      case fail: False
      then have "\<forall>j \<le> k'. d \<le> powOf Hash header (b + word_of_nat j)"
        using before pv by (auto simp: le_less)
      then show ?thesis
        using fail it' nx e k' x' run by (auto simp: worker_inv_def)
    qed
  qed
  then show "worker_inv Hash d header I b w'"
    and "rs = [] \<and> wStatus w' = Running
      \<or> rs = [notFound] \<and> wStatus w' = Exhausted
      \<or> (\<exists>n. rs = [\<lparr>mrFound = True, mrNonce = n\<rparr>] \<and> powOf Hash header n < d) \<and> wStatus w' = FoundNonce"
    by blast+
qed

definition cnt :: "worker_status \<Rightarrow> worker list \<Rightarrow> nat" where
  "cnt st ws = length (filter (\<lambda>w. wStatus w = st) ws)"

lemma cnt_update:
  assumes "i < length ws" "wStatus (ws ! i) = Running" "st \<noteq> Running"
  shows "cnt st (ws[i := w]) = cnt st ws + (if wStatus w = st then 1 else 0)"
  using length_filter_update [OF assms(1), of "\<lambda>w. wStatus w = st" w] assms(2,3) by (simp add: cnt_def)

lemma cnt_pos_iff: "0 < cnt st ws \<longleftrightarrow> (\<exists>w \<in> set ws. wStatus w = st)"
  by (auto simp: cnt_def filter_empty_conv)

lemma cnt_all: "cnt Running ws + cnt FoundNonce ws + cnt Exhausted ws + cnt Stopped ws = length ws"
proof (induction ws)
  case (Cons w ws)
  then show ?case by (cases "wStatus w") (auto simp: cnt_def)
qed (simp add: cnt_def)

definition found_results :: "mine_state \<Rightarrow> nat" where
  "found_results s = length (filter mrFound (powResult s))"

definition missed_results :: "mine_state \<Rightarrow> nat" where
  "missed_results s = length (filter (\<lambda>r. \<not> mrFound r) (powResult s))"

text \<open>
  The bookkeeping of a run: every exhausted worker is accounted for by one message, received or
  waiting; while the coordinator listens no worker was stopped and every success is still waiting.
\<close>

definition books_inv :: "mine_state \<Rightarrow> bool" where
  "books_inv s \<longleftrightarrow>
     cnt Exhausted (workers s) = finished s + missed_results s \<and>
     found_results s \<le> cnt FoundNonce (workers s) \<and>
     (coordinating s \<longrightarrow> jobResult s = None \<and> powStop s = 0 \<and> finished s < length (workers s) \<and>
        cnt Stopped (workers s) = 0 \<and> found_results s = cnt FoundNonce (workers s)) \<and>
     (\<not> coordinating s \<longrightarrow> terminated s \<or> jobResult s \<noteq> None) \<and>
     (\<forall>r. jobResult s = Some r \<longrightarrow> \<not> mrFound r \<longrightarrow> timedOut s \<or> finished s = length (workers s))"

definition works_inv :: "hasher \<Rightarrow> nat \<Rightarrow> BlockHeader \<Rightarrow> u32 \<Rightarrow> mine_state \<Rightarrow> bool" where
  "works_inv Hash d header I s \<longleftrightarrow>
     (\<forall>i < length (workers s). worker_inv Hash d header I (word_of_nat i * I) (workers s ! i)) \<and>
     sent_ok Hash d header (powResult s) \<and>
     (\<forall>r. jobResult s = Some r \<longrightarrow> mrFound r \<longrightarrow> powOf Hash header (mrNonce r) < d)"

lemma works_inv_step:
  assumes "mine_step Hash d s s'" "works_inv Hash d header I s" "0 < unat I"
  shows "works_inv Hash d header I s'"
  using assms
proof (induction rule: mine_step.induct)
  case (worker_stop i s)
  then show ?case by (auto simp: works_inv_def nth_list_update intro: worker_inv_Stopped)
next
  case (worker_iter i s w rs)
  have "worker_inv Hash d header I (word_of_nat i * I) (workers s ! i)"
    using worker_iter by (simp add: works_inv_def)
  note it = powIter_inv [OF this worker_iter(2,6,4)]
  then have "sent_ok Hash d header rs" by (auto simp: sent_ok_def notFound_def)
  moreover have "worker_inv Hash d header I (word_of_nat j * I) ((workers s)[i := w] ! j)"
    if "j < length (workers s)" for j
    using that it(1) worker_iter(5) by (cases "j = i") (auto simp: works_inv_def)
  ultimately show ?case using worker_iter(5) by (auto simp: works_inv_def sent_ok_def)
qed (auto simp: works_inv_def recvResult_def finishJob_def sent_ok_def notFound_def Let_def)

lemma books_inv_step:
  assumes "mine_step Hash d s s'" "books_inv s" "works_inv Hash d header I s" "0 < unat I"
  shows "books_inv s'"
  using assms
proof (induction rule: mine_step.induct)
  case (worker_stop i s)
  then show ?case
    by (auto simp: books_inv_def cnt_update found_results_def missed_results_def)
next
  case (worker_iter i s w rs)
  have "worker_inv Hash d header I (word_of_nat i * I) (workers s ! i)"
    using worker_iter by (simp add: works_inv_def)
  note it = powIter_inv(2) [OF this worker_iter(2,7,4)]
  then show ?case
    using worker_iter by (auto simp: books_inv_def cnt_update found_results_def missed_results_def notFound_def)
next
  case (recv s r rs)
  then show ?case
    by (cases "mrFound r") (auto simp: books_inv_def recvResult_def finishJob_def found_results_def missed_results_def Let_def)
qed (auto simp: books_inv_def finishJob_def found_results_def missed_results_def)

lemma length_spawn [simp]: "length (spawn header I b n) = n"
  by (induction n arbitrary: b) auto

lemma spawn_nth: "i < n \<Longrightarrow> spawn header I b n ! i
    = powInit header (b + word_of_nat i * I) (b + word_of_nat i * I + I)"
proof (induction n arbitrary: b i)
  case (Suc n)
  then show ?case by (cases i) (auto simp: algebra_simps)
qed simp

lemma worker_inv_init: "worker_inv Hash d header I b (powInit header b (b + I))"
  by (auto simp: worker_inv_def powInit_def HeaderShallowCopy_def HeaderSetNonce_def coherent_def
      newPowCache_def)

lemma cnt_spawn: "st \<noteq> Running \<Longrightarrow> cnt st (spawn header I b n) = 0"
  by (induction n arbitrary: b) (auto simp: cnt_def powInit_def HeaderShallowCopy_def)

lemma mine_inv_init:
  assumes "0 < parallel"
  shows "works_inv Hash d header (indexInterval parallel) (mineInit parallel header)"
    and "books_inv (mineInit parallel header)"
  using assms worker_inv_init [of Hash d header "indexInterval parallel"]
  by (auto simp: works_inv_def books_inv_def mineInit_def spawn_nth sent_ok_def cnt_spawn
      found_results_def missed_results_def)

lemma mine_step_length: "mine_step Hash d s s' \<Longrightarrow> length (workers s') = length (workers s)"
  by (induction rule: mine_step.induct) (auto simp: recvResult_def finishJob_def Let_def)

lemma unat_indexInterval:
  assumes "0 < parallel"
  shows "unat (indexInterval parallel) = (2 ^ 32 - 1) div parallel"
proof -
  have "(2 ^ 32 - 1) div parallel \<le> (2 ^ 32 - 1 :: nat)" by (rule div_le_dividend)
  also have "\<dots> < 2 ^ LENGTH(32)" by simp
  finally show ?thesis by (simp only: indexInterval_def unat_of_nat mod_less)
qed

lemma mine_reachable:
  assumes "(mine_step Hash d)\<^sup>*\<^sup>* (mineInit parallel header) s" "0 < parallel" "parallel < 2 ^ 32"
  shows "works_inv Hash d header (indexInterval parallel) s \<and> books_inv s \<and> length (workers s) = parallel"
proof -
  have I: "0 < unat (indexInterval parallel)"
    using assms(2,3) by (simp add: unat_indexInterval div_greater_zero_iff)
  from assms(1) show ?thesis
  proof (induction rule: rtranclp_induct)
    case base
    show ?case using mine_inv_init [OF assms(2)] by (simp add: mineInit_def)
  next
    case (step s s')
    then show ?case
      using works_inv_step [OF step(2) _ I] books_inv_step [OF step(2) _ _ I] mine_step_length [OF step(2)] by blast
  qed
qed

text \<open>Every nonce up to \<open>parallel * indexInterval\<close> lies in the range of some worker.\<close>

lemma nonce_in_range:
  assumes "0 < unat I" "unat n \<le> parallel * unat I" "0 < parallel"
  obtains i j where "i < parallel" "j \<le> unat I" "n = word_of_nat i * I + word_of_nat j"
proof -
  let ?I = "unat I"
  have split: "n = word_of_nat i * I + word_of_nat j" if "unat n = i * ?I + j" for i j
  proof -
    have "n = word_of_nat (i * ?I + j)" by (rule word_of_nat_eqI [OF that, symmetric])
    then show ?thesis by simp
  qed
  show thesis
  proof (cases "unat n = parallel * ?I")
    case True
    then have "unat n = (parallel - 1) * ?I + ?I" using assms(3) by (cases parallel) auto
    from that [of "parallel - 1" ?I, OF _ _ split [OF this]] assms(3) show thesis by simp
  next
    case False
    then have "unat n div ?I < parallel" using assms by (simp add: less_mult_imp_div_less)
    moreover have "unat n mod ?I \<le> ?I" using assms(1) by (simp add: mod_less order_less_imp_le)
    ultimately show thesis using that [OF _ _ split [of "unat n div ?I" "unat n mod ?I"]] by simp
  qed
qed

lemma all_failed:
  assumes "works_inv Hash d header I s" "books_inv s" "0 < unat I" "finished s = length (workers s)"
    and "0 < length (workers s)" "unat n \<le> length (workers s) * unat I"
  shows "d \<le> powOf Hash header n"
proof -
  have "cnt Exhausted (workers s) \<ge> length (workers s)" using assms(2,4) by (simp add: books_inv_def)
  then have "cnt Running (workers s) = 0" "cnt FoundNonce (workers s) = 0" "cnt Stopped (workers s) = 0"
    using cnt_all [of "workers s"] by linarith+
  then have ex: "wStatus w = Exhausted" if "w \<in> set (workers s)" for w
    using that cnt_pos_iff [of _ "workers s"] by (cases "wStatus w") (metis less_not_refl)+
  obtain i j where ij: "i < length (workers s)" "j \<le> unat I" "n = word_of_nat i * I + word_of_nat j"
    using nonce_in_range [OF assms(3,6,5)] by blast
  then show ?thesis
    using assms(1) worker_inv_Exhausted [of Hash d header I "word_of_nat i * I" "workers s ! i" j] ex
    by (simp add: works_inv_def)
qed

text \<open>
  C36 The answer of a parallel nonce search is right in every interleaving of its goroutines: a
  nonce that is reported meets the difficulty for the given header, and \<open>not found\<close> without a
  timeout means that no nonce up to \<open>parallel * indexInterval\<close> does (at most the
  \<open>parallel - 1\<close> largest nonces are never tried).
\<close>

theorem mine_result_correct:
  assumes "(mine_step Hash d)\<^sup>*\<^sup>* (mineInit parallel header) s" and "0 < parallel" "parallel < 2 ^ 32"
    and "jobResult s = Some r"
  shows "if mrFound r then HeaderGetPow Hash (HeaderSetNonce header (mrNonce r)) < d
         else timedOut s \<or>
           (\<forall>n. unat n \<le> parallel * ((2 ^ 32 - 1) div parallel) \<longrightarrow> d \<le> HeaderGetPow Hash (HeaderSetNonce header n))"
proof (cases "mrFound r")
  case True
  then show ?thesis
    using mine_reachable [OF assms(1-3)] assms(4) by (auto simp: works_inv_def powOf_def)
next
  case False
  have I: "0 < unat (indexInterval parallel)"
    using assms(2,3) by (simp add: unat_indexInterval div_greater_zero_iff)
  note inv = mine_reachable [OF assms(1-3)]
  then have "timedOut s \<or> finished s = length (workers s)"
    using assms(4) False by (auto simp: books_inv_def)
  then show ?thesis
    using all_failed [OF _ _ I, of Hash d header s] inv False assms(2)
    by (auto simp: powOf_def unat_indexInterval)
qed

text \<open>
  C37 A parallel nonce search always comes to an end and leaves nothing behind: there is no infinite
  run, and when no step is possible any more the coordinator and all goroutines have returned, a
  result was delivered unless the caller terminated the job, and no channel ever held more
  messages than its buffer, so that no goroutine was blocked on a send.
\<close>

theorem mine_terminates:
  assumes "(mine_step Hash d)\<^sup>*\<^sup>* (mineInit parallel header) s" and "0 < parallel" "parallel < 2 ^ 32"
  shows "wfp (\<lambda>s' s. mine_step Hash d s s') \<and>
         length (powResult s) \<le> parallel \<and>
         ((\<nexists>s'. mine_step Hash d s s') \<longrightarrow>
            \<not> coordinating s \<and> (\<forall>w \<in> set (workers s). wStatus w \<noteq> Running) \<and>
            (terminated s \<or> jobResult s \<noteq> None))"
proof (intro conjI impI)
  note inv = mine_reachable [OF assms]
  show "wfp (\<lambda>s' s. mine_step Hash d s s')"
    by (rule wfp_if_convertible_to_nat [where f = mine_measure]) (rule mine_step_measure)
  have "length (powResult s) = found_results s + missed_results s"
    unfolding found_results_def missed_results_def using sum_length_filter_compl [of mrFound "powResult s"] by simp
  then show "length (powResult s) \<le> parallel"
    using inv cnt_all [of "workers s"] by (auto simp: books_inv_def)
  assume stuck: "\<nexists>s'. mine_step Hash d s s'"
  then show nc: "\<not> coordinating s" using mine_step.timeout by blast
  then show "terminated s \<or> jobResult s \<noteq> None" using inv by (simp add: books_inv_def)
  show "\<forall>w \<in> set (workers s). wStatus w \<noteq> Running"
  proof (rule ballI, rule notI)
    fix w assume "w \<in> set (workers s)" "wStatus w = Running"
    then obtain i where i: "i < length (workers s)" "wStatus (workers s ! i) = Running"
      by (auto simp: in_set_conv_nth)
    obtain w' rs where "powIter Hash d (workers s ! i) = (w', rs)" by (cases "powIter Hash d (workers s ! i)")
    with i stuck show False
      using mine_step.worker_stop [OF i] mine_step.worker_iter [OF i] by (cases "powStop s = 0") blast+
  qed
qed

text \<open>A search by one goroutine whose first nonce meets the difficulty.\<close>

lemma first_nonce_run:
  assumes "be_nat (Hash (MarshalBlockHeader (header\<lparr>bhNonce := 0\<rparr>))) < d"
  shows "\<exists>s r. (mine_step Hash d)\<^sup>*\<^sup>* (mineInit 1 header) s \<and> jobResult s = Some r \<and> mrFound r"
proof -
  let ?r = "\<lparr>mrFound = True, mrNonce = 0\<rparr> :: mineResult"
  define s0 where "s0 = mineInit 1 header"
  obtain b pc where w: "workers s0 = [\<lparr>wHeader = (b, pc), wEnd = indexInterval 1, wStatus = Running\<rparr>]"
    and b: "b = header\<lparr>bhNonce := 0\<rparr>" "\<not> cache pc"
    by (auto simp: s0_def mineInit_def powInit_def HeaderShallowCopy_def newPowCache_def)
  have s0: "powResult s0 = []" "powStop s0 = 0" "coordinating s0" by (simp_all add: s0_def mineInit_def)
  obtain w' where it: "powIter Hash d (workers s0 ! 0) = (w', [?r])"
    using b assms by (simp add: w powIter_def indexInterval_def header_mining.next_fresh)
  define s1 where "s1 = s0\<lparr>workers := (workers s0)[0 := w'], powResult := powResult s0 @ [?r]\<rparr>"
  have "mine_step Hash d s0 s1"
    unfolding s1_def by (rule mine_step.worker_iter [OF _ _ _ it]) (simp_all add: w s0)
  moreover have "mine_step Hash d s1 (recvResult ?r (s1\<lparr>powResult := []\<rparr>))"
    by (rule mine_step.recv) (simp_all add: s1_def s0)
  ultimately have "(mine_step Hash d)\<^sup>*\<^sup>* s0 (recvResult ?r (s1\<lparr>powResult := []\<rparr>))"
    by (rule converse_rtranclp_into_rtranclp [OF _ r_into_rtranclp])
  moreover have "jobResult (recvResult ?r (s1\<lparr>powResult := []\<rparr>)) = Some ?r" "mrFound ?r"
    by (simp_all add: recvResult_def finishJob_def)
  ultimately show ?thesis unfolding s0_def by blast
qed

definition demo_header :: BlockHeader where
  "demo_header = NewBlockHeaderV1 1570000000 (replicate 32 7) (replicate 33 2) EmptyEvidenceRoot"

lemma demo_run:
  "\<exists>s r. (mine_step mod_hash (2 ^ 256))\<^sup>*\<^sup>* (mineInit 1 demo_header) s \<and> jobResult s = Some r \<and> mrFound r"
proof (rule first_nonce_run)
  let ?x = "mod_hash (MarshalBlockHeader (demo_header\<lparr>bhNonce := 0\<rparr>))"
  show "be_nat ?x < 2 ^ 256" using be_nat_less [of ?x] hash_ok_length [OF mod_hash_ok] by simp
qed

theorem mine_result_correct_witness:
  "\<exists>s r. (mine_step mod_hash (2 ^ 256))\<^sup>*\<^sup>* (mineInit 1 demo_header) s \<and> jobResult s = Some r \<and>
     HeaderGetPow mod_hash (HeaderSetNonce demo_header (mrNonce r)) < 2 ^ 256"
proof -
  obtain s r where s: "(mine_step mod_hash (2 ^ 256))\<^sup>*\<^sup>* (mineInit 1 demo_header) s" "jobResult s = Some r" "mrFound r"
    using demo_run by blast
  from mine_result_correct [OF s(1) _ _ s(2)] s show ?thesis by auto
qed

theorem mine_terminates_witness:
  "\<exists>s. (mine_step mod_hash (2 ^ 256))\<^sup>*\<^sup>* (mineInit 1 demo_header) s \<and> jobResult s \<noteq> None \<and>
     length (powResult s) \<le> 1 \<and> wfp (\<lambda>s' s. mine_step mod_hash (2 ^ 256) s s')"
proof -
  obtain s r where s: "(mine_step mod_hash (2 ^ 256))\<^sup>*\<^sup>* (mineInit 1 demo_header) s" "jobResult s = Some r"
    using demo_run by blast
  with mine_terminates [OF s(1)] show ?thesis by auto
qed

end
