(* ===== verification/EvPool.thy ===== *)
theory EvPool
  imports Pow
begin

text \<open>
  \<open>src/core/ev_pool.go\<close>: the pool of evidences that wait for a block, ordered by weight (the
  proof of work, smallest first).  The channels \<open>raws\<close> and \<open>broadcast\<close> have room for
  \<open>evdsCacheSize\<close> elements each.
\<close>

section \<open>State\<close>

definition evdsCacheSize :: nat where "evdsCacheSize = 1024"

record RawEvidence =
  reHash :: bytes
  reDescription :: bytes

record weightedEvidence =
  weEvidence :: Evidence
  weWeight :: nat

record 'priv evidencePool =
  epKey :: 'priv
  epRaws :: "RawEvidence list"
  epEvds :: "weightedEvidence list"
  epBroadcast :: "Evidence list list"

definition newEvidencePool :: "'priv \<Rightarrow> 'priv evidencePool" where
  "newEvidencePool key = \<lparr>epKey = key, epRaws = [], epEvds = [], epBroadcast = []\<rparr>"

section \<open>Operations\<close>

text \<open>A send with a \<open>default\<close> branch: dropped when the channel is full.\<close>

definition trySend :: "'a \<Rightarrow> 'a list \<Rightarrow> 'a list" where
  "trySend x c = (if length c < evdsCacheSize then c @ [x] else c)"

definition addRawEvidence :: "RawEvidence list \<Rightarrow> 'priv evidencePool \<Rightarrow> 'priv evidencePool" where
  "addRawEvidence evds e = e\<lparr>epRaws := foldl (\<lambda>c evd. trySend evd c) (epRaws e) evds\<rparr>"

text \<open>
  The loop of \<open>binarySearchInsertIndex\<close>, which tests its condition at the end; returns the final
  \<open>begin\<close> and \<open>end\<close>.  \<open>None\<close> is a loop that never ends.
\<close>

partial_function (option) searchLoop :: "weightedEvidence list \<Rightarrow> nat \<Rightarrow> nat \<Rightarrow> nat \<Rightarrow> (nat \<times> nat) option" where
  "searchLoop es target b e =
     (let mid = (b + e) div 2;
          (b', e') = (if weWeight (es ! mid) \<ge> target then (b, mid) else (mid + 1, e))
      in if b' = e' then Some (b', e') else searchLoop es target b' e')"

definition binarySearchInsertIndex :: "weightedEvidence list \<Rightarrow> nat \<Rightarrow> int option" where
  "binarySearchInsertIndex es target =
     (if length es = 0 then Some 0
      else case searchLoop es target 0 (length es) of
        None \<Rightarrow> None
      | Some (b, e) \<Rightarrow>
          Some (if e = 0 then 0
                else if b = length es then - 1
                else if weWeight (es ! b) > target then int b else int b + 1))"

text \<open>
  \<open>insert\<close>: the slice grows by one, the elements from \<open>i\<close> on move one place up, and the slice
  is cut to \<open>evdsCacheSize\<close> (after an insertion at the end it is not).
\<close>

definition poolInsert :: "weightedEvidence \<Rightarrow> weightedEvidence list \<Rightarrow> weightedEvidence list option" where
  "poolInsert we es =
     (case binarySearchInsertIndex es (weWeight we) of
        None \<Rightarrow> None
      | Some i \<Rightarrow>
          if i = - 1 then Some (es @ [we])
          else let es' = take (nat i) es @ [we] @ drop (nat i) es
               in Some (if length es' > evdsCacheSize then take evdsCacheSize es' else es'))"

fun insertAll :: "hasher \<Rightarrow> Evidence list \<Rightarrow> weightedEvidence list \<Rightarrow> weightedEvidence list option" where
  "insertAll Hash [] es = Some es"
| "insertAll Hash (evd # evds) es =
     (case poolInsert \<lparr>weEvidence = evd, weWeight = EvidenceGetPow Hash evd\<rparr> es of
        None \<Rightarrow> None
      | Some es' \<Rightarrow> insertAll Hash evds es')"

text \<open>
  \<open>addEvidence\<close> sends without a \<open>default\<close> branch; with a full channel the call blocks until the
  network loop takes an element, and the result is \<open>None\<close>.
\<close>

definition addEvidence :: "hasher \<Rightarrow> Evidence list \<Rightarrow> bool \<Rightarrow> 'priv evidencePool \<Rightarrow> 'priv evidencePool option" where
  "addEvidence Hash evds fromBroadcast e =
     (case insertAll Hash evds (epEvds e) of
        None \<Rightarrow> None
      | Some es \<Rightarrow>
          if fromBroadcast then Some (e\<lparr>epEvds := es\<rparr>)
          else if length (epBroadcast e) < evdsCacheSize
            then Some (e\<lparr>epEvds := es, epBroadcast := epBroadcast e @ [evds]\<rparr>)
          else None)"

definition nextEvidence :: "'priv evidencePool \<Rightarrow> Evidence option \<times> 'priv evidencePool" where
  "nextEvidence e =
     (case epEvds e of
        [] \<Rightarrow> (None, e)
      | result # rest \<Rightarrow> (Some (weEvidence result), e\<lparr>epEvds := rest\<rparr>))"

text \<open>\<open>limit\<close> is \<open>EvidenceDifficultyLimit\<close>; \<open>None\<close> means that no nonce exists and the loop goes on.\<close>

definition calculateRaw ::
  "('sig, 'key, 'priv) btcec \<Rightarrow> hasher \<Rightarrow> nat \<Rightarrow> RawEvidence \<Rightarrow> 'priv evidencePool \<Rightarrow> 'priv evidencePool option" where
  "calculateRaw ec Hash limit raw e =
     (let pubKey = PubKeyOf ec (epKey e);
          evd0 = NewEvidenceV1 (reHash raw) (reDescription raw) (SerializeCompressed ec pubKey)
      in case EvidenceSign ec Hash evd0 (epKey e) of
           None \<Rightarrow> Some e
         | Some evd1 \<Rightarrow>
             (case mineEvidence Hash limit evd1 of
                None \<Rightarrow> None
              | Some (weight, evd, pc) \<Rightarrow>
                  (case poolInsert \<lparr>weEvidence = evd, weWeight = weight\<rparr> (epEvds e) of
                     None \<Rightarrow> None
                   | Some es \<Rightarrow> Some (e\<lparr>epEvds := es, epBroadcast := trySend [evd] (epBroadcast e)\<rparr>))))"

section \<open>The search\<close>

lemma searchLoop_correct:
  assumes "sorted (map weWeight es)" "b < e" "e \<le> length es"
    and "\<forall>i < b. weWeight (es ! i) < target" and "\<forall>i. e \<le> i \<longrightarrow> i < length es \<longrightarrow> target \<le> weWeight (es ! i)"
  shows "\<exists>p \<le> length es. searchLoop es target b e = Some (p, p) \<and>
    (\<forall>i < p. weWeight (es ! i) < target) \<and> (\<forall>i. p \<le> i \<longrightarrow> i < length es \<longrightarrow> target \<le> weWeight (es ! i))"
  using assms(2-)
proof (induction "e - b" arbitrary: b e rule: less_induct)
  case less
  define mid where "mid = (b + e) div 2"
  have step: "searchLoop es target b e =
      (if target \<le> weWeight (es ! mid) then if b = mid then Some (b, mid) else searchLoop es target b mid
       else if Suc mid = e then Some (Suc mid, e) else searchLoop es target (Suc mid) e)"
    by (subst searchLoop.simps) (simp add: mid_def Let_def)
  have mid: "b \<le> mid" "mid < e" using less.prems(1) by (auto simp: mid_def)
  have mono: "weWeight (es ! i) \<le> weWeight (es ! j)" if "i \<le> j" "j < length es" for i j
    using sorted_nth_mono [OF assms(1)] that by simp
  show ?case
  proof (cases "target \<le> weWeight (es ! mid)")
    case True
    have hi: "\<forall>i. mid \<le> i \<longrightarrow> i < length es \<longrightarrow> target \<le> weWeight (es ! i)"
      using True mono order_trans by blast
    show ?thesis
    proof (cases "b = mid")
      case True
      then have "searchLoop es target b e = Some (mid, mid)"
        using \<open>target \<le> weWeight (es ! mid)\<close> step by simp
      then show ?thesis using hi less.prems True mid by (intro exI [of _ mid]) auto
    next
      case False
      then have "searchLoop es target b e = searchLoop es target b mid"
        using True step by simp
      then show ?thesis using less.hyps [of mid b] less.prems mid hi False by auto
    qed
  next
    case False
    then have lo: "\<forall>i < Suc mid. weWeight (es ! i) < target"
      using mono mid less.prems(2) by (meson less_Suc_eq_le le_less_trans less_le_trans not_le)
    show ?thesis
    proof (cases "Suc mid = e")
      case True
      then have "searchLoop es target b e = Some (e, e)"
        using False step by simp
      then show ?thesis using lo less.prems True by (intro exI [of _ e]) auto
    next
      case ne: False
      then have "searchLoop es target b e = searchLoop es target (Suc mid) e"
        using False step by simp
      then show ?thesis using less.hyps [of e "Suc mid"] less.prems mid lo ne by auto
    qed
  qed
qed

lemma sorted_insert_at:
  assumes "sorted (map f es)" "\<forall>x \<in> set (take i es). f x \<le> f y" "\<forall>x \<in> set (drop i es). f y \<le> f x"
  shows "sorted (map f (take i es @ [y] @ drop i es))"
proof -
  have "sorted (map f (take i es @ drop i es))" using assms(1) by simp
  then show ?thesis using assms(2,3) by (auto simp: sorted_append simp del: append_take_drop_id)
qed

lemma mset_insert_at: "mset (take i es @ [y] @ drop i es) = add_mset y (mset es)"
  by (metis (no_types) append_take_drop_id mset_append union_mset_add_mset_right mset.simps(2)
      append_Cons append_Nil)

lemma set_take_nth: "x \<in> set (take i es) \<Longrightarrow> \<exists>j < i. j < length es \<and> x = es ! j"
  by (auto simp: in_set_conv_nth)

lemma set_drop_nth: "x \<in> set (drop i es) \<Longrightarrow> \<exists>j. i \<le> j \<and> j < length es \<and> x = es ! j"
proof -
  assume "x \<in> set (drop i es)"
  then obtain k where "k < length es - i" "x = es ! (i + k)" by (auto simp: in_set_conv_nth)
  then show ?thesis by (intro exI [of _ "i + k"]) auto
qed

lemma cut_eq_take: "(if c < length xs then take c xs else xs) = take c xs"
  by simp

text \<open>The index found splits the pool; \<open>-1\<close> is returned exactly for a weight above all others.\<close>

lemma binarySearchInsertIndex_correct:
  assumes "sorted (map weWeight es)"
  obtains "es \<noteq> []" "\<forall>x \<in> set es. weWeight x < target" "binarySearchInsertIndex es target = Some (- 1)"
  | i where "i \<le> length es" "binarySearchInsertIndex es target = Some (int i)"
      "es = [] \<or> (\<exists>x \<in> set es. target \<le> weWeight x)"
      "\<forall>x \<in> set (take i es). weWeight x \<le> target" "\<forall>x \<in> set (drop i es). target \<le> weWeight x"
proof (cases "es = []")
  case True
  then show thesis using that(2) [of 0] by (simp add: binarySearchInsertIndex_def)
next
  case False
  then obtain p where p: "p \<le> length es" "searchLoop es target 0 (length es) = Some (p, p)"
    "\<forall>i < p. weWeight (es ! i) < target" "\<forall>i. p \<le> i \<longrightarrow> i < length es \<longrightarrow> target \<le> weWeight (es ! i)"
    using searchLoop_correct [OF assms, of 0 "length es" target] by auto
  show thesis
  proof (cases "p = length es")
    case True
    then have "\<forall>x \<in> set es. weWeight x < target" using p(3) by (metis in_set_conv_nth)
    then show thesis using that(1) False p(2) True by (simp add: binarySearchInsertIndex_def)
  next
    case ne: False
    then have ex: "\<exists>x \<in> set es. target \<le> weWeight x" using p(1,4) by (auto intro!: bexI [of _ "es ! p"])
    define i where "i = (if p = 0 \<or> target < weWeight (es ! p) then p else Suc p)"
    have "binarySearchInsertIndex es target = Some (int i)"
      using False ne p(2) by (simp add: binarySearchInsertIndex_def i_def)
    moreover have "\<forall>x \<in> set (take i es). weWeight x \<le> target"
    proof
      fix x assume "x \<in> set (take i es)"
      from set_take_nth [OF this] obtain j where "j < i" "x = es ! j" by blast
      moreover have "j < p \<or> j = p \<and> \<not> target < weWeight (es ! p)"
        using \<open>j < i\<close> by (cases "p = 0 \<or> target < weWeight (es ! p)") (auto simp: i_def)
      ultimately show "weWeight x \<le> target" using p(3) by auto
    qed
    moreover have "\<forall>x \<in> set (drop i es). target \<le> weWeight x"
    proof
      fix x assume "x \<in> set (drop i es)"
      from set_drop_nth [OF this] obtain j where "i \<le> j" "j < length es" "x = es ! j" by blast
      moreover have "p \<le> i" by (simp add: i_def)
      ultimately show "target \<le> weWeight x" using p(4) by auto
    qed
    ultimately show thesis using that(2) [of i] ex ne p(1) by (auto simp: i_def)
  qed
qed

lemma poolInsert_correct:
  assumes "sorted (map weWeight es)"
  shows "\<exists>full. sorted (map weWeight full) \<and> mset full = add_mset we (mset es) \<and>
    poolInsert we es = Some (if es \<noteq> [] \<and> (\<forall>x \<in> set es. weWeight x < weWeight we) then full
                             else take evdsCacheSize full)"
proof (rule binarySearchInsertIndex_correct [OF assms, of "weWeight we"])
  assume "es \<noteq> []" "\<forall>x \<in> set es. weWeight x < weWeight we" "binarySearchInsertIndex es (weWeight we) = Some (- 1)"
  then show ?thesis
    using assms by (intro exI [of _ "es @ [we]"]) (auto simp: poolInsert_def sorted_append)
next
  fix i assume i: "binarySearchInsertIndex es (weWeight we) = Some (int i)"
    "es = [] \<or> (\<exists>x \<in> set es. weWeight we \<le> weWeight x)"
    "\<forall>x \<in> set (take i es). weWeight x \<le> weWeight we" "\<forall>x \<in> set (drop i es). weWeight we \<le> weWeight x"
  let ?full = "take i es @ [we] @ drop i es"
  have "poolInsert we es = Some (take evdsCacheSize ?full)"
    using i(1) by (simp only: poolInsert_def Let_def option.case cut_eq_take) simp
  then show ?thesis
    using sorted_insert_at [OF assms i(3,4)] mset_insert_at [of i es we] i(2)
    by (intro exI [of _ ?full]) (auto simp: not_less [symmetric])
qed

lemma poolInsert_room:
  assumes "sorted (map weWeight es)" "length es < evdsCacheSize"
  obtains full where "poolInsert we es = Some full" "mset full = add_mset we (mset es)"
proof -
  obtain full where full: "mset full = add_mset we (mset es)"
      "poolInsert we es = Some (if es \<noteq> [] \<and> (\<forall>x \<in> set es. weWeight x < weWeight we) then full else take evdsCacheSize full)"
    using poolInsert_correct [OF assms(1)] by blast
  have "length full = Suc (length es)" using full(1) by (metis size_add_mset size_mset)
  then show thesis using full assms(2) by (intro that [of full]) simp_all
qed

text \<open>What does not fit any more is heavier than everything that stays.\<close>

lemma poolInsert_loses:
  assumes "sorted (map weWeight es)"
  obtains es' lost where "poolInsert we es = Some es'" "mset es' + lost = add_mset we (mset es)"
    "length es < evdsCacheSize \<Longrightarrow> lost = {#}" "\<forall>x \<in># lost. \<forall>y \<in> set es'. weWeight y \<le> weWeight x"
proof -
  obtain full where full: "sorted (map weWeight full)" "mset full = add_mset we (mset es)"
      "poolInsert we es = Some (if es \<noteq> [] \<and> (\<forall>x \<in> set es. weWeight x < weWeight we) then full else take evdsCacheSize full)"
    using poolInsert_correct [OF assms] by blast
  have len: "length full = Suc (length es)" using full(2) by (metis size_add_mset size_mset)
  have split: "mset (take evdsCacheSize full) + mset (drop evdsCacheSize full) = mset full"
    by (simp flip: mset_append)
  have "sorted (map weWeight (take evdsCacheSize full) @ map weWeight (drop evdsCacheSize full))"
    using full(1) by (simp flip: map_append)
  then have "\<forall>x \<in> set (drop evdsCacheSize full). \<forall>y \<in> set (take evdsCacheSize full). weWeight y \<le> weWeight x"
    by (auto simp: sorted_append)
  then show thesis
    using full(2,3) len split that(1) [of full "{#}"] that(1) [of "take evdsCacheSize full" "mset (drop evdsCacheSize full)"]
    by (cases "es \<noteq> [] \<and> (\<forall>x \<in> set es. weWeight x < weWeight we)") auto
qed

section \<open>The pool as a whole\<close>

definition pool_inv :: "hasher \<Rightarrow> weightedEvidence list \<Rightarrow> bool" where
  "pool_inv Hash es \<longleftrightarrow>
     sorted (map weWeight es) \<and> (\<forall>x \<in> set es. weWeight x = EvidenceGetPow Hash (weEvidence x))"

lemma poolInsert_inv:
  assumes "pool_inv Hash es" "weWeight we = EvidenceGetPow Hash (weEvidence we)"
  shows "\<exists>es'. poolInsert we es = Some es' \<and> pool_inv Hash es'"
proof -
  obtain full where full: "sorted (map weWeight full)" "mset full = add_mset we (mset es)"
    "poolInsert we es = Some (if es \<noteq> [] \<and> (\<forall>x \<in> set es. weWeight x < weWeight we) then full
                              else take evdsCacheSize full)"
    using poolInsert_correct assms(1) by (force simp: pool_inv_def)
  have "set full = insert we (set es)" using full(2) by (metis set_mset_add_mset_insert set_mset_mset)
  then have "pool_inv Hash full" using full(1) assms by (simp add: pool_inv_def)
  then have "pool_inv Hash (take evdsCacheSize full)"
    by (auto simp: pool_inv_def take_map [symmetric] sorted_wrt_take dest: in_set_takeD)
  with full(3) \<open>pool_inv Hash full\<close> show ?thesis by auto
qed

lemma insertAll_inv: "pool_inv Hash es \<Longrightarrow> \<exists>es'. insertAll Hash evds es = Some es' \<and> pool_inv Hash es'"
proof (induction evds arbitrary: es)
  case (Cons evd evds)
  then show ?case
    using poolInsert_inv [of Hash es "\<lparr>weEvidence = evd, weWeight = EvidenceGetPow Hash evd\<rparr>"] by auto
qed simp

text \<open>
  The goroutines that use the pool, each call atomic under \<open>evdsMutex\<close> or on a channel.
\<close>

inductive pool_step ::
  "('sig, 'key, 'priv) btcec \<Rightarrow> hasher \<Rightarrow> nat \<Rightarrow> 'priv evidencePool \<Rightarrow> 'priv evidencePool \<Rightarrow> bool"
  for ec Hash limit where
  step_add: "addEvidence Hash evds fromBroadcast e = Some e' \<Longrightarrow> pool_step ec Hash limit e e'"
| step_add_raw: "pool_step ec Hash limit e (addRawEvidence raws e)"
| step_raw: "epRaws e = raw # raws \<Longrightarrow> calculateRaw ec Hash limit raw (e\<lparr>epRaws := raws\<rparr>) = Some e' \<Longrightarrow>
    pool_step ec Hash limit e e'"
| step_next: "nextEvidence e = (x, e') \<Longrightarrow> pool_step ec Hash limit e e'"
| step_broadcast: "epBroadcast e = b # bs \<Longrightarrow> pool_step ec Hash limit e (e\<lparr>epBroadcast := bs\<rparr>)"

lemma calculateRaw_inv:
  assumes "calculateRaw ec Hash limit raw e = Some e'" "pool_inv Hash (epEvds e)"
  shows "pool_inv Hash (epEvds e')"
proof -
  let ?evd0 = "NewEvidenceV1 (reHash raw) (reDescription raw) (SerializeCompressed ec (PubKeyOf ec (epKey e)))"
  show ?thesis
  proof (cases "EvidenceSign ec Hash ?evd0 (epKey e)")
    case None
    then show ?thesis using assms by (simp add: calculateRaw_def Let_def)
  next
    case (Some evd1)
    then obtain w evd pc es where m: "mineEvidence Hash limit evd1 = Some (w, evd, pc)"
      and es: "poolInsert \<lparr>weEvidence = evd, weWeight = w\<rparr> (epEvds e) = Some es" and e': "epEvds e' = es"
      using assms(1) by (auto simp: calculateRaw_def Let_def split: option.splits)
    have "w = EvidenceGetPow Hash evd" using mineEvidence_sound [OF m] by blast
    then show ?thesis
      using poolInsert_inv [OF assms(2), of "\<lparr>weEvidence = evd, weWeight = w\<rparr>"] es e' by auto
  qed
qed

lemma pool_step_inv: "pool_step ec Hash limit e e' \<Longrightarrow> pool_inv Hash (epEvds e) \<Longrightarrow> pool_inv Hash (epEvds e')"
proof (induction rule: pool_step.induct)
  case (step_add evds fromBroadcast e e')
  then show ?case
    using insertAll_inv [OF step_add(2), of evds] by (auto simp: addEvidence_def split: if_splits)
next
  case (step_raw e raw raws e')
  then show ?case using calculateRaw_inv by fastforce
next
  case (step_next e x e')
  then show ?case by (auto simp: nextEvidence_def pool_inv_def split: list.splits)
qed (auto simp: addRawEvidence_def)

lemma pool_reachable_inv:
  "(pool_step ec Hash limit)\<^sup>*\<^sup>* (newEvidencePool key) e \<Longrightarrow> pool_inv Hash (epEvds e)"
proof (induction rule: rtranclp_induct)
  case base
  show ?case by (simp add: newEvidencePool_def pool_inv_def)
qed (rule pool_step_inv)

text \<open>
  C39 However the goroutines use the pool (evidences from the network or from clients, raw evidences
  signed and mined, evidences taken out), it stays in ascending order of weight and every weight is
  the proof of work of its evidence.  So \<open>nextEvidence\<close> always hands out an evidence with the
  most work in the pool, and nothing exactly when the pool is empty.
\<close>

theorem pool_ordered:
  assumes "(pool_step ec Hash limit)\<^sup>*\<^sup>* (newEvidencePool key) e" and "nextEvidence e = (r, e')"
  shows "(case r of
            None \<Rightarrow> epEvds e = [] \<and> e' = e
          | Some x \<Rightarrow>
              (\<exists>we \<in> set (epEvds e). weEvidence we = x) \<and>
              (\<forall>we \<in> set (epEvds e). EvidenceGetPow Hash x \<le> EvidenceGetPow Hash (weEvidence we)) \<and>
              length (epEvds e') = length (epEvds e) - 1)"
proof -
  have "pool_inv Hash (epEvds e)" by (rule pool_reachable_inv [OF assms(1)])
  then show ?thesis
    using assms(2) by (auto simp: nextEvidence_def pool_inv_def split: list.splits)
qed

text \<open>A small hash with visible work, for examples.\<close>

definition demo_evidence :: "byte \<Rightarrow> Evidence" where
  "demo_evidence d = NewEvidenceV1 (replicate 32 d) [] []"

theorem pool_ordered_witness:
  "\<exists>e e' x. (pool_step toy_ec mod_hash 0)\<^sup>*\<^sup>* (newEvidencePool ()) e \<and> nextEvidence e = (Some x, e') \<and>
     (\<forall>we \<in> set (epEvds e). EvidenceGetPow mod_hash x \<le> EvidenceGetPow mod_hash (weEvidence we))"
proof -
  let ?start = "newEvidencePool () :: unit evidencePool"
  have "pool_inv mod_hash (epEvds ?start)" by (simp add: newEvidencePool_def pool_inv_def)
  then obtain es where es: "insertAll mod_hash [demo_evidence 1] (epEvds ?start) = Some es"
    using insertAll_inv by blast
  then have ne: "es \<noteq> []"
    by (auto simp: newEvidencePool_def poolInsert_def binarySearchInsertIndex_def evdsCacheSize_def)
  let ?e = "?start\<lparr>epEvds := es\<rparr>"
  have "addEvidence mod_hash [demo_evidence 1] True ?start = Some ?e" using es by (simp add: addEvidence_def)
  then have reach: "(pool_step toy_ec mod_hash 0)\<^sup>*\<^sup>* ?start ?e" by (blast intro: pool_step.intros)
  obtain x e' where nx: "nextEvidence ?e = (Some x, e')"
    using ne by (cases es) (auto simp: nextEvidence_def)
  show ?thesis using pool_ordered [OF reach nx] reach nx by auto
qed

text \<open>
  The size limit of the pool is only enforced on insertions before the end: an evidence that is
  heavier than all others is appended even to a full pool, so the pool can exceed
  \<open>evdsCacheSize\<close>.
\<close>

theorem pool_limit_exceeded:
  assumes "sorted (map weWeight es)" and "evdsCacheSize \<le> length es" and "\<forall>x \<in> set es. weWeight x < weWeight we"
  shows "\<exists>es'. poolInsert we es = Some es' \<and> evdsCacheSize < length es'"
proof -
  obtain full where "mset full = add_mset we (mset es)" and r: "poolInsert we es
      = Some (if es \<noteq> [] \<and> (\<forall>x \<in> set es. weWeight x < weWeight we) then full else take evdsCacheSize full)"
    using poolInsert_correct [OF assms(1)] by blast
  then have "length full = Suc (length es)" by (metis size_add_mset size_mset)
  moreover have "es \<noteq> []" using assms(2) by (auto simp: evdsCacheSize_def)
  ultimately show ?thesis using r assms(2,3) by auto
qed

theorem pool_limit_exceeded_witness:
  "\<exists>es'. poolInsert \<lparr>weEvidence = demo_evidence 2, weWeight = 9\<rparr>
      (replicate 1024 \<lparr>weEvidence = demo_evidence 1, weWeight = 5\<rparr>) = Some es' \<and> evdsCacheSize < length es'"
  by (rule pool_limit_exceeded) (simp_all add: evdsCacheSize_def)

end
