(* ===== verification/Database.thy ===== *)
theory Database
  imports StorageFormat
begin

text \<open>
  The block database: the key schema of \<open>src/db/schema.go\<close> and the operations of
  \<open>src/db/badger.go\<close> (the functions of \<open>src/db/db.go\<close> only forward to them).  The key-value
  store underneath is the third-party package \<open>badger\<close>: it is the argument \<open>bdg\<close>, a record
  of its operations on a state of type \<open>'s\<close>, and the locale \<open>kv_store\<close> states the laws the code
  relies on.
\<close>

section \<open>Keys (schema.go)\<close>

definition headerPrefix :: bytes where "headerPrefix = [104]"
definition hashSuffix :: bytes where "hashSuffix = [110]"
definition headerHeightPrefix :: bytes where "headerHeightPrefix = [72]"
definition blockPrefix :: bytes where "blockPrefix = [98]"
definition evidencePrefix :: bytes where "evidencePrefix = [101]"
definition evidenceHeightPrefix :: bytes where "evidenceHeightPrefix = [69]"
definition scoreSuffix :: bytes where "scoreSuffix = [83, 99, 111, 114, 101]"
definition evidenceSuffix :: bytes where "evidenceSuffix = [101]"
definition mLatestHeight :: bytes where
  "mLatestHeight = [109, 76, 97, 116, 101, 115, 116, 72, 101, 105, 103, 104]"
definition mGenesis :: bytes where "mGenesis = [109, 71, 101, 110, 101, 115, 105, 115]"
definition placeHolder :: bytes where "placeHolder = [48]"

definition hbyte :: "u64 \<Rightarrow> bytes" where
  "hbyte height = putU64 height"

text \<open>The error of \<open>binary.Read\<close> is dropped; the result then stays 0.\<close>

definition byteh :: "bytes \<Rightarrow> u64" where
  "byteh data = (case readU64 data of Inl _ \<Rightarrow> 0 | Inr (v, _) \<Rightarrow> v)"

definition getHeaderKey :: "u64 \<Rightarrow> bytes \<Rightarrow> bytes" where
  "getHeaderKey height hash = headerPrefix @ hbyte height @ hash"

definition getHashKey :: "u64 \<Rightarrow> bytes" where
  "getHashKey height = headerPrefix @ hbyte height @ hashSuffix"

definition getHeaderHeightKey :: "bytes \<Rightarrow> bytes" where
  "getHeaderHeightKey hash = headerHeightPrefix @ hash"

definition getBlockKey :: "u64 \<Rightarrow> bytes \<Rightarrow> bytes" where
  "getBlockKey height hash = blockPrefix @ hbyte height @ hash"

definition getEvidenceKey :: "u64 \<Rightarrow> bytes \<Rightarrow> bytes" where
  "getEvidenceKey height hash = evidencePrefix @ hbyte height @ hash"

definition getEvidenceHeightKey :: "bytes \<Rightarrow> bytes" where
  "getEvidenceHeightKey hash = evidenceHeightPrefix @ hash"

definition getScoreKey :: "bytes \<Rightarrow> bytes" where
  "getScoreKey key = key @ scoreSuffix"

definition getAccountEvidenceKeyPrefix :: "bytes \<Rightarrow> bytes" where
  "getAccountEvidenceKeyPrefix key = key @ evidenceSuffix"

section \<open>The store underneath\<close>

datatype badger_error = ErrKeyNotFound | ErrBadger string

text \<open>
  \<open>txGet\<close> and \<open>txSet\<close> are \<open>Txn.Get\<close> with \<open>Item.Value\<close> and \<open>Txn.Set\<close> inside a transaction,
  \<open>txScan\<close> the entries an iterator visits from \<open>Seek(prefix)\<close> while \<open>ValidForPrefix(prefix)\<close>,
  \<open>commit\<close> the end of \<open>DB.Update\<close>, which may refuse the transaction.
\<close>

record 's badger =
  txGet :: "bytes \<Rightarrow> 's \<Rightarrow> badger_error + bytes"
  txSet :: "bytes \<Rightarrow> bytes \<Rightarrow> 's \<Rightarrow> badger_error + 's"
  txScan :: "bytes \<Rightarrow> 's \<Rightarrow> badger_error + (bytes \<times> bytes) list"
  commit :: "'s \<Rightarrow> badger_error + 's"

locale kv_store =
  fixes bdg :: "'s badger" and view :: "'s \<Rightarrow> bytes \<rightharpoonup> bytes"
  assumes get_view: "txGet bdg k s = (case view s k of None \<Rightarrow> Inl ErrKeyNotFound | Some v \<Rightarrow> Inr v)"
    and set_view: "txSet bdg k v s = Inr s' \<Longrightarrow> view s' = (view s)(k \<mapsto> v)"
    and commit_view: "commit bdg s = Inr s' \<Longrightarrow> view s' = view s"
    and scan_view: "txScan bdg p s = Inr kvs \<Longrightarrow>
      set kvs = {(k, v). take (length p) k = p \<and> view s k = Some v} \<and> distinct (map fst kvs)"

section \<open>Errors\<close>

datatype db_error = ErrNotFound | ErrInternal | ErrInvalidHeight u64 u64

text \<open>An error inside a transaction: one of badger's, or of a decoder.\<close>

datatype tx_error = Badger badger_error | Decode io_error

definition wrapError :: "tx_error + 'a \<Rightarrow> db_error + 'a" where
  "wrapError m = (case m of
     Inr x \<Rightarrow> Inr x
   | Inl (Badger ErrKeyNotFound) \<Rightarrow> Inl ErrNotFound
   | Inl _ \<Rightarrow> Inl ErrInternal)"

abbreviation tget :: "'s badger \<Rightarrow> bytes \<Rightarrow> 's \<Rightarrow> tx_error + bytes" where
  "tget bdg k s \<equiv> wrapErr Badger (txGet bdg k s)"

abbreviation tset :: "'s badger \<Rightarrow> bytes \<Rightarrow> bytes \<Rightarrow> 's \<Rightarrow> tx_error + 's" where
  "tset bdg k v s \<equiv> wrapErr Badger (txSet bdg k v s)"

text \<open>A decoder run on a whole stored value.\<close>

definition decodeValue :: "'a reader \<Rightarrow> bytes \<Rightarrow> tx_error + 'a" where
  "decodeValue dec val = (case dec val of Inl e \<Rightarrow> Inl (Decode e) | Inr (x, _) \<Rightarrow> Inr x)"

text \<open>\<open>update\<close>: the function runs in a transaction; its writes are kept only if it and the commit succeed.\<close>

definition dbUpdate :: "'s badger \<Rightarrow> ('s \<Rightarrow> tx_error + 's) \<Rightarrow> 's \<Rightarrow> db_error + 's" where
  "dbUpdate bdg fn s = wrapError (attempt (fn s) (\<lambda>s'. wrapErr Badger (commit bdg s')))"

section \<open>Writing\<close>

definition updateAccountEvidenceTX :: "'s badger \<Rightarrow> Evidence \<Rightarrow> u64 \<Rightarrow> 's \<Rightarrow> tx_error + 's" where
  "updateAccountEvidenceTX bdg evd height tx =
     tset bdg (getAccountEvidenceKeyPrefix (ePubKey evd) @ eHash evd) (hbyte height) tx"

definition updateLatestHeightTX :: "'s badger \<Rightarrow> u64 \<Rightarrow> 's \<Rightarrow> tx_error + 's" where
  "updateLatestHeightTX bdg height tx = tset bdg mLatestHeight (hbyte height) tx"

definition updateScoreTX :: "'s badger \<Rightarrow> bytes \<Rightarrow> 's \<Rightarrow> tx_error + 's" where
  "updateScoreTX bdg pubKey tx =
     (let scoreKey = getScoreKey pubKey in
      case txGet bdg scoreKey tx of
        Inl ErrKeyNotFound \<Rightarrow> tset bdg scoreKey (hbyte (0 + 1)) tx
      | Inl err \<Rightarrow> Inl (Badger err)
      | Inr val \<Rightarrow> tset bdg scoreKey (hbyte (byteh val + 1)) tx)"

fun putEvds :: "'s badger \<Rightarrow> Evidence list \<Rightarrow> u64 \<Rightarrow> 's \<Rightarrow> tx_error + 's" where
  "putEvds bdg [] height tx = Inr tx"
| "putEvds bdg (e # evds) height tx =
     attempt (tset bdg (getEvidenceKey height (eHash e)) (MarshalEvidence e) tx) (\<lambda>tx1.
     attempt (tset bdg (getEvidenceHeightKey (eHash e)) (hbyte height) tx1) (\<lambda>tx2.
     attempt (updateAccountEvidenceTX bdg e height tx2) (\<lambda>tx3.
     putEvds bdg evds height tx3)))"

definition putEvidenceTX :: "'s badger \<Rightarrow> bytes \<Rightarrow> Evidence list \<Rightarrow> u64 \<Rightarrow> 's \<Rightarrow> tx_error + 's" where
  "putEvidenceTX bdg hash evds height tx =
     attempt (putEvds bdg evds height tx) (\<lambda>tx1.
     tset bdg (getBlockKey height hash) (StorageMarshalBlock (StorageNewBlock (map eHash evds))) tx1)"

definition putBlockTX :: "'s badger \<Rightarrow> hasher \<Rightarrow> Block \<Rightarrow> u64 \<Rightarrow> 's \<Rightarrow> tx_error + 's" where
  "putBlockTX bdg Hash block height tx =
     (let hash = BlockHash Hash block;
          header = StorageNewBlockHeader (bHeader block) height
      in attempt
           (if \<not> IsEmptyEvidenceRoot (bHeader block)
            then attempt (putEvidenceTX bdg hash (bEvds block) height tx) (\<lambda>tx1. Inr (header, tx1))
            else Inr (header\<lparr>shHeader := SetEmptyEvdsRoot (shHeader header)\<rparr>, tx))
           (\<lambda>(header', tx1).
         attempt (tset bdg (getHeaderKey height hash) (StorageMarshalBlockHeader header') tx1) (\<lambda>tx2.
         attempt (tset bdg (getHashKey height) hash tx2) (\<lambda>tx3.
         attempt (tset bdg (getHeaderHeightKey hash) (hbyte height) tx3) (\<lambda>tx4.
         updateScoreTX bdg (bhMiner (bHeader block)) tx4)))))"

definition PutGenesis :: "'s badger \<Rightarrow> hasher \<Rightarrow> Block \<Rightarrow> 's \<Rightarrow> db_error + 's" where
  "PutGenesis bdg Hash block s =
     dbUpdate bdg (\<lambda>tx.
       attempt (tset bdg mGenesis placeHolder tx) (\<lambda>tx1.
       attempt (putBlockTX bdg Hash block 1 tx1) (\<lambda>tx2.
       updateLatestHeightTX bdg 1 tx2))) s"

section \<open>Reading\<close>

text \<open>A transaction that reads one value: \<open>b.view\<close> around \<open>tx.Get\<close> and \<open>item.Value\<close>.\<close>

definition viewValue :: "'s badger \<Rightarrow> bytes \<Rightarrow> (bytes \<Rightarrow> tx_error + 'a) \<Rightarrow> 's \<Rightarrow> db_error + 'a" where
  "viewValue bdg key f s = wrapError (attempt (tget bdg key s) f)"

text \<open>\<open>HasGenesis\<close> ends the program on an error of the store: \<open>None\<close>.\<close>

definition HasGenesis :: "'s badger \<Rightarrow> 's \<Rightarrow> bool option" where
  "HasGenesis bdg s = (case txGet bdg mGenesis s of
     Inr _ \<Rightarrow> Some True | Inl ErrKeyNotFound \<Rightarrow> Some False | Inl _ \<Rightarrow> None)"

definition GetLatestHeight :: "'s badger \<Rightarrow> 's \<Rightarrow> db_error + u64" where
  "GetLatestHeight bdg s = viewValue bdg mLatestHeight (\<lambda>val. Inr (byteh val)) s"

definition PutBlock :: "'s badger \<Rightarrow> hasher \<Rightarrow> Block \<Rightarrow> u64 \<Rightarrow> 's \<Rightarrow> db_error + 's" where
  "PutBlock bdg Hash block height s =
     attempt (GetLatestHeight bdg s) (\<lambda>latestHeight.
     let expectHeight = latestHeight + 1 in
     if height \<noteq> expectHeight then Inl (ErrInvalidHeight height expectHeight)
     else dbUpdate bdg (\<lambda>tx.
            attempt (putBlockTX bdg Hash block height tx) (\<lambda>tx1.
            updateLatestHeightTX bdg height tx1)) s)"

definition GetHash :: "'s badger \<Rightarrow> u64 \<Rightarrow> 's \<Rightarrow> db_error + bytes" where
  "GetHash bdg height s = viewValue bdg (getHashKey height) Inr s"

definition getHeaderHeight :: "'s badger \<Rightarrow> bytes \<Rightarrow> 's \<Rightarrow> db_error + u64" where
  "getHeaderHeight bdg hash s = viewValue bdg (getHeaderHeightKey hash) (\<lambda>val. Inr (byteh val)) s"

definition getEvidenceHeight :: "'s badger \<Rightarrow> bytes \<Rightarrow> 's \<Rightarrow> db_error + u64" where
  "getEvidenceHeight bdg hash s = viewValue bdg (getEvidenceHeightKey hash) (\<lambda>val. Inr (byteh val)) s"

definition getHeader :: "'s badger \<Rightarrow> u64 \<Rightarrow> bytes \<Rightarrow> 's \<Rightarrow> db_error + StoredHeader" where
  "getHeader bdg height hash s =
     viewValue bdg (getHeaderKey height hash) (decodeValue StorageUnmarshalBlockHeader) s"

definition getBlock :: "'s badger \<Rightarrow> u64 \<Rightarrow> bytes \<Rightarrow> 's \<Rightarrow> db_error + StoredBlock" where
  "getBlock bdg height hash s =
     viewValue bdg (getBlockKey height hash) (decodeValue StorageUnmarshalBlock) s"

definition getEvidence :: "'s badger \<Rightarrow> u64 \<Rightarrow> bytes \<Rightarrow> 's \<Rightarrow> db_error + Evidence" where
  "getEvidence bdg height hash s =
     viewValue bdg (getEvidenceKey height hash) (decodeValue StorageUnmarshalEvidence) s"

fun getEvds :: "'s badger \<Rightarrow> u64 \<Rightarrow> bytes list \<Rightarrow> 's \<Rightarrow> db_error + Evidence list" where
  "getEvds bdg height [] s = Inr []"
| "getEvds bdg height (evdHash # hs) s =
     attempt (getEvidence bdg height evdHash s) (\<lambda>evd.
     attempt (getEvds bdg height hs s) (\<lambda>evds. Inr (evd # evds)))"

definition getCPBlock :: "'s badger \<Rightarrow> u64 \<Rightarrow> bytes \<Rightarrow> 's \<Rightarrow> db_error + Block" where
  "getCPBlock bdg height hash s =
     attempt (getHeader bdg height hash s) (\<lambda>header.
     attempt
       (if \<not> IsEmptyEvidenceRoot (shHeader header)
        then attempt (getBlock bdg height hash s) (\<lambda>storageBlock. getEvds bdg height storageBlock s)
        else Inr [])
       (\<lambda>evds. Inr \<lparr>bHeader = shHeader header, bEvds = evds\<rparr>))"

definition GetHeaderViaHeight :: "'s badger \<Rightarrow> u64 \<Rightarrow> 's \<Rightarrow> db_error + BlockHeader \<times> bytes" where
  "GetHeaderViaHeight bdg height s =
     attempt (GetHash bdg height s) (\<lambda>hash.
     attempt (getHeader bdg height hash s) (\<lambda>header. Inr (shHeader header, hash)))"

definition GetHeaderViaHash :: "'s badger \<Rightarrow> bytes \<Rightarrow> 's \<Rightarrow> db_error + BlockHeader \<times> u64" where
  "GetHeaderViaHash bdg h s =
     attempt (getHeaderHeight bdg h s) (\<lambda>height.
     attempt (getHeader bdg height h s) (\<lambda>header. Inr (shHeader header, height)))"

definition GetBlockViaHeight :: "'s badger \<Rightarrow> u64 \<Rightarrow> 's \<Rightarrow> db_error + Block \<times> bytes" where
  "GetBlockViaHeight bdg height s =
     attempt (GetHash bdg height s) (\<lambda>hash.
     attempt (getCPBlock bdg height hash s) (\<lambda>result. Inr (result, hash)))"

definition GetBlockViaHash :: "'s badger \<Rightarrow> bytes \<Rightarrow> 's \<Rightarrow> db_error + Block \<times> u64" where
  "GetBlockViaHash bdg h s =
     attempt (getHeaderHeight bdg h s) (\<lambda>height.
     attempt (getCPBlock bdg height h s) (\<lambda>result. Inr (result, height)))"

definition GetEvidenceViaHash :: "'s badger \<Rightarrow> bytes \<Rightarrow> 's \<Rightarrow> db_error + Evidence \<times> u64" where
  "GetEvidenceViaHash bdg h s =
     attempt (getEvidenceHeight bdg h s) (\<lambda>height.
     attempt (getEvidence bdg height h s) (\<lambda>evd. Inr (evd, height)))"

definition GetEvidenceViaKey :: "'s badger \<Rightarrow> bytes \<Rightarrow> 's \<Rightarrow> db_error + bytes list \<times> u64 list" where
  "GetEvidenceViaKey bdg pubKey s =
     (let prefix = getAccountEvidenceKeyPrefix pubKey in
      wrapError (attempt (wrapErr Badger (txScan bdg prefix s)) (\<lambda>items.
        Inr (map (\<lambda>(k, v). drop (length prefix) k) items, map (\<lambda>(k, v). byteh v) items))))"

text \<open>An error of the store other than a missing key counts as present.\<close>

definition HasEvidence :: "'s badger \<Rightarrow> bytes \<Rightarrow> 's \<Rightarrow> bool" where
  "HasEvidence bdg h s = (case txGet bdg (getEvidenceHeightKey h) s of
     Inr _ \<Rightarrow> True | Inl ErrKeyNotFound \<Rightarrow> False | Inl _ \<Rightarrow> True)"

definition GetScoreViaKey :: "'s badger \<Rightarrow> bytes \<Rightarrow> 's \<Rightarrow> db_error + u64" where
  "GetScoreViaKey bdg pubKey s = (case txGet bdg (getScoreKey pubKey) s of
     Inr val \<Rightarrow> Inr (byteh val)
   | Inl ErrKeyNotFound \<Rightarrow> Inr 0
   | Inl err \<Rightarrow> wrapError (Inl (Badger err)))"

definition GetLatestHeader :: "'s badger \<Rightarrow> 's \<Rightarrow> db_error + BlockHeader \<times> u64 \<times> bytes" where
  "GetLatestHeader bdg s =
     attempt (GetLatestHeight bdg s) (\<lambda>lastHeight.
     attempt (GetHeaderViaHeight bdg lastHeight s) (\<lambda>(header, hash). Inr (header, lastHeight, hash)))"

end
