(* ===== verification/DatabaseFacts.thy ===== *)
theory DatabaseFacts
  imports Database
begin

text \<open>
  The database refines an append-only list of blocks: a state \<open>represents\<close> a list when every
  record of every block is found under its key, and \<open>PutGenesis\<close> and \<open>PutBlock\<close> extend the list
  by one block while all reads answer from it.  Keys of different records never collide.
\<close>

section \<open>Records and their keys\<close>

text \<open>The logical name of a record; \<open>enc\<close> is its key.\<close>

datatype dbkey =
    KHeader u64 bytes | KHash u64 | KHeaderHeight bytes | KBlock u64 bytes | KEvidence u64 bytes
  | KEvidenceHeight bytes | KScore bytes | KAccount bytes bytes | KLatest | KGenesis

fun enc :: "dbkey \<Rightarrow> bytes" where
  "enc (KHeader h x) = getHeaderKey h x"
| "enc (KHash h) = getHashKey h"
| "enc (KHeaderHeight x) = getHeaderHeightKey x"
| "enc (KBlock h x) = getBlockKey h x"
| "enc (KEvidence h x) = getEvidenceKey h x"
| "enc (KEvidenceHeight x) = getEvidenceHeightKey x"
| "enc (KScore p) = getScoreKey p"
| "enc (KAccount p x) = getAccountEvidenceKeyPrefix p @ x"
| "enc KLatest = mLatestHeight"
| "enc KGenesis = mGenesis"

text \<open>Hashes have 32 bytes and compressed public keys 33.\<close>

fun wf_key :: "dbkey \<Rightarrow> bool" where
  "wf_key (KHeader h x) \<longleftrightarrow> length x = 32"
| "wf_key (KHash h) \<longleftrightarrow> True"
| "wf_key (KHeaderHeight x) \<longleftrightarrow> length x = 32"
| "wf_key (KBlock h x) \<longleftrightarrow> length x = 32"
| "wf_key (KEvidence h x) \<longleftrightarrow> length x = 32"
| "wf_key (KEvidenceHeight x) \<longleftrightarrow> length x = 32"
| "wf_key (KScore p) \<longleftrightarrow> length p = 33"
| "wf_key (KAccount p x) \<longleftrightarrow> length p = 33 \<and> length x = 32"
| "wf_key KLatest \<longleftrightarrow> True"
| "wf_key KGenesis \<longleftrightarrow> True"

lemmas key_defs = getHeaderKey_def getHashKey_def getHeaderHeightKey_def getBlockKey_def
  getEvidenceKey_def getEvidenceHeightKey_def getScoreKey_def getAccountEvidenceKeyPrefix_def
  headerPrefix_def hashSuffix_def headerHeightPrefix_def blockPrefix_def evidencePrefix_def
  evidenceHeightPrefix_def scoreSuffix_def evidenceSuffix_def mLatestHeight_def mGenesis_def

lemma length_hbyte [simp]: "length (hbyte h) = 8"
  by (simp add: hbyte_def)

lemma hbyte_inject [simp]: "hbyte a = hbyte b \<longleftrightarrow> a = b"
  unfolding hbyte_def by (rule u64.enc_inject) simp_all

lemma byteh_hbyte [simp]: "byteh (hbyte h) = h"
  by (simp add: byteh_def hbyte_def u64.dec_enc_whole)

lemma length_enc:
  "wf_key k \<Longrightarrow> length (enc k) = (case k of
     KHeader _ _ \<Rightarrow> 41 | KHash _ \<Rightarrow> 10 | KHeaderHeight _ \<Rightarrow> 33 | KBlock _ _ \<Rightarrow> 41 | KEvidence _ _ \<Rightarrow> 41
   | KEvidenceHeight _ \<Rightarrow> 33 | KScore _ \<Rightarrow> 38 | KAccount _ _ \<Rightarrow> 66 | KLatest \<Rightarrow> 12 | KGenesis \<Rightarrow> 8)"
  by (cases k) (simp_all add: key_defs)

lemma key_inject: "wf_key k \<Longrightarrow> wf_key k' \<Longrightarrow> enc k = enc k' \<longleftrightarrow> k = k'"
proof
  assume wf: "wf_key k" "wf_key k'" and eq: "enc k = enc k'"
  then have "length (enc k) = length (enc k')" by simp
  with wf eq show "k = k'"
    unfolding length_enc [OF wf(1)] length_enc [OF wf(2)]
    by (cases k; cases k') (simp_all add: key_defs)
qed simp

declare enc.simps [simp del]

section \<open>What one block writes\<close>

definition evdWrites :: "u64 \<Rightarrow> Evidence \<Rightarrow> (dbkey \<times> bytes) list" where
  "evdWrites h e =
     [(KEvidence h (eHash e), MarshalEvidence e), (KEvidenceHeight (eHash e), hbyte h),
      (KAccount (ePubKey e) (eHash e), hbyte h)]"

definition applyWrites :: "(dbkey \<times> bytes) list \<Rightarrow> (bytes \<rightharpoonup> bytes) \<Rightarrow> (bytes \<rightharpoonup> bytes)" where
  "applyWrites ws m = foldl (\<lambda>m (k, v). m(enc k \<mapsto> v)) m ws"

lemma applyWrites_simps [simp]:
  "applyWrites [] m = m"
  "applyWrites ((k, v) # ws) m = applyWrites ws (m(enc k \<mapsto> v))"
  "applyWrites (ws @ ws') m = applyWrites ws' (applyWrites ws m)"
  by (simp_all add: applyWrites_def)

text \<open>Reading a record after a list of writes: the last write to it, or what was there.\<close>

lemma applyWrites_lookup:
  assumes "\<forall>(k, v) \<in> set ws. wf_key k" "wf_key k"
  shows "applyWrites ws m (enc k) = (case map_of (rev ws) k of None \<Rightarrow> m (enc k) | Some v \<Rightarrow> Some v)"
  using assms(1)
proof (induction ws arbitrary: m)
  case (Cons w ws)
  obtain k' v where w: "w = (k', v)" by (cases w)
  with Cons show ?case
    using assms(2) by (auto simp: key_inject map_add_def split: option.splits)
qed simp

lemma lookup_written:
  assumes "\<forall>(k, v) \<in> set ws. wf_key k" "(k, v) \<in> set ws" "\<And>v'. (k, v') \<in> set ws \<Longrightarrow> v' = v"
  shows "applyWrites ws m (enc k) = Some v"
proof -
  have k: "wf_key k" using assms(1,2) by auto
  have "k \<in> fst ` set ws" using assms(2) by (metis fst_conv imageI)
  then have "map_of (rev ws) k \<noteq> None" by (simp add: map_of_eq_None_iff)
  then obtain v' where v': "map_of (rev ws) k = Some v'" by auto
  then have "(k, v') \<in> set ws" using map_of_SomeD by fastforce
  then show ?thesis using v' assms(3) by (simp add: applyWrites_lookup [OF assms(1) k])
qed

lemma lookup_other:
  assumes "\<forall>(k, v) \<in> set ws. wf_key k" "wf_key k" "k \<notin> fst ` set ws"
  shows "applyWrites ws m (enc k) = m (enc k)"
proof -
  have "map_of (rev ws) k = None" using assms(3) by (simp add: map_of_eq_None_iff)
  then show ?thesis by (simp add: applyWrites_lookup [OF assms(1,2)])
qed

definition scoreOf :: "(bytes \<rightharpoonup> bytes) \<Rightarrow> bytes \<Rightarrow> u64" where
  "scoreOf m p = (case m (enc (KScore p)) of None \<Rightarrow> 0 | Some v \<Rightarrow> byteh v)"

definition bodyWrites :: "hasher \<Rightarrow> Block \<Rightarrow> u64 \<Rightarrow> (dbkey \<times> bytes) list" where
  "bodyWrites Hash b h =
     (if IsEmptyEvidenceRoot (bHeader b) then []
      else concat (map (evdWrites h) (bEvds b)) @
        [(KBlock h (BlockHash Hash b), StorageMarshalBlock (map eHash (bEvds b)))])"

definition headWrites :: "hasher \<Rightarrow> Block \<Rightarrow> u64 \<Rightarrow> (dbkey \<times> bytes) list" where
  "headWrites Hash b h =
     [(KHeader h (BlockHash Hash b), StorageMarshalBlockHeader \<lparr>shHeader = bHeader b, shHeight = h\<rparr>),
      (KHash h, BlockHash Hash b), (KHeaderHeight (BlockHash Hash b), hbyte h)]"

definition blockWrites :: "hasher \<Rightarrow> Block \<Rightarrow> u64 \<Rightarrow> u64 \<Rightarrow> (dbkey \<times> bytes) list" where
  "blockWrites Hash b h score =
     bodyWrites Hash b h @ headWrites Hash b h @ [(KScore (bhMiner (bHeader b)), hbyte score)]"

text \<open>
  A block the schema can hold: its fields fit and have the lengths \<open>Verify\<close> checks, and no two of
  its evidences have the same hash.
\<close>

definition storable :: "Block \<Rightarrow> bool" where
  "storable b \<longleftrightarrow>
     header_fits (bHeader b) \<and> length (bhMiner (bHeader b)) = 33 \<and>
     (IsEmptyEvidenceRoot (bHeader b) \<longleftrightarrow> bEvds b = []) \<and> length (bEvds b) < 65536 \<and>
     (\<forall>e \<in> set (bEvds b). length (eHash e) = 32 \<and> length (ePubKey e) = 33 \<and> evidence_fits e) \<and>
     distinct (map eHash (bEvds b))"

lemma length_BlockHash: "hash_ok Hash \<Longrightarrow> length (BlockHash Hash b) = 32"
  by (simp add: BlockHash_def HeaderGetSerializedHash_def hash_ok_length)

lemma set_bodyWrites:
  "storable b \<Longrightarrow> set (bodyWrites Hash b h) =
     (if bEvds b = [] then {} else
      insert (KBlock h (BlockHash Hash b), StorageMarshalBlock (map eHash (bEvds b)))
        (\<Union>e \<in> set (bEvds b). set (evdWrites h e)))"
  by (auto simp: bodyWrites_def storable_def)

lemma wf_blockWrites:
  assumes "hash_ok Hash" "storable b"
  shows "\<forall>(k, v) \<in> set (bodyWrites Hash b h). wf_key k"
    and "\<forall>(k, v) \<in> set (headWrites Hash b h). wf_key k"
    and "\<forall>(k, v) \<in> set (blockWrites Hash b h sc). wf_key k"
proof -
  show *: "\<forall>(k, v) \<in> set (bodyWrites Hash b h). wf_key k"
    using assms by (auto simp: set_bodyWrites evdWrites_def length_BlockHash storable_def)
  show "\<forall>(k, v) \<in> set (headWrites Hash b h). wf_key k"
    using assms by (auto simp: headWrites_def length_BlockHash)
  with * show "\<forall>(k, v) \<in> set (blockWrites Hash b h sc). wf_key k"
    using assms(2) by (auto simp: blockWrites_def storable_def)
qed

section \<open>The transactions perform these writes\<close>

context kv_store
begin

lemma tset_view: "tset bdg k v s = Inr s' \<Longrightarrow> view s' = (view s)(k \<mapsto> v)"
  by (simp add: set_view)

lemma putEvds_view:
  "putEvds bdg evds h s = Inr s' \<Longrightarrow> view s' = applyWrites (concat (map (evdWrites h) evds)) (view s)"
proof (induction evds arbitrary: s)
  case (Cons e evds)
  from Cons.prems obtain s1 s2 s3 where
    "txSet bdg (getEvidenceKey h (eHash e)) (MarshalEvidence e) s = Inr s1"
    "txSet bdg (getEvidenceHeightKey (eHash e)) (hbyte h) s1 = Inr s2"
    "txSet bdg (getAccountEvidenceKeyPrefix (ePubKey e) @ eHash e) (hbyte h) s2 = Inr s3"
    and rest: "putEvds bdg evds h s3 = Inr s'"
    by (auto simp: attempt_eq_Inr updateAccountEvidenceTX_def)
  then have "view s3 = applyWrites (evdWrites h e) (view s)"
    by (simp add: evdWrites_def set_view enc.simps)
  then show ?case using Cons.IH [OF rest] by simp
qed simp

lemma updateScoreTX_view:
  "updateScoreTX bdg p s = Inr s' \<Longrightarrow> view s' = (view s)(enc (KScore p) \<mapsto> hbyte (scoreOf (view s) p + 1))"
  by (auto simp: updateScoreTX_def Let_def get_view scoreOf_def enc.simps split: option.splits dest!: set_view)

lemma putBlockTX_view:
  assumes "putBlockTX bdg Hash b h s = Inr s'" "hash_ok Hash" "storable b"
  shows "view s' = applyWrites (blockWrites Hash b h (scoreOf (view s) (bhMiner (bHeader b)) + 1)) (view s)"
proof -
  let ?p = "bhMiner (bHeader b)" and ?ws = "bodyWrites Hash b h @ headWrites Hash b h"
  have empty: "SetEmptyEvdsRoot (bHeader b) = bHeader b" if "IsEmptyEvidenceRoot (bHeader b)"
    using that by (simp add: SetEmptyEvdsRoot_def IsEmptyEvidenceRoot_def)
  obtain s1 where s1: "view s1 = applyWrites ?ws (view s)" and sc: "updateScoreTX bdg ?p s1 = Inr s'"
    using assms(1) empty
    by (auto simp: putBlockTX_def Let_def attempt_eq_Inr putEvidenceTX_def StorageNewBlock_def
        StorageNewBlockHeader_def bodyWrites_def headWrites_def enc.simps split: if_splits
        dest!: set_view putEvds_view)
  have "applyWrites ?ws (view s) (enc (KScore ?p)) = view s (enc (KScore ?p))"
    by (rule lookup_other)
      (use wf_blockWrites [OF assms(2,3), of h] assms(3) in
        \<open>auto simp: set_bodyWrites headWrites_def evdWrites_def storable_def\<close>)
  then have "scoreOf (view s1) ?p = scoreOf (view s) ?p" by (simp add: scoreOf_def s1)
  then show ?thesis using updateScoreTX_view [OF sc] s1 by (simp add: blockWrites_def)
qed

lemma dbUpdate_Inr: "dbUpdate bdg fn s = Inr s' \<Longrightarrow> \<exists>s1. fn s = Inr s1 \<and> view s' = view s1"
  by (auto simp: dbUpdate_def wrapError_def attempt_eq_Inr dest!: commit_view
      split: sum.splits tx_error.splits badger_error.splits)

lemma viewValue_Some: "view s k = Some v \<Longrightarrow> viewValue bdg k f s = wrapError (f v)"
  by (simp add: viewValue_def get_view)

lemma viewValue_None: "view s k = None \<Longrightarrow> viewValue bdg k f s = Inl ErrNotFound"
  by (simp add: viewValue_def get_view wrapError_def)

end

section \<open>The list of blocks a state represents\<close>

definition has_evidence :: "(bytes \<rightharpoonup> bytes) \<Rightarrow> u64 \<Rightarrow> Evidence \<Rightarrow> bool" where
  "has_evidence m h e \<longleftrightarrow>
     m (enc (KEvidence h (eHash e))) = Some (MarshalEvidence e) \<and>
     m (enc (KEvidenceHeight (eHash e))) = Some (hbyte h) \<and>
     m (enc (KAccount (ePubKey e) (eHash e))) = Some (hbyte h)"

definition has_block :: "hasher \<Rightarrow> (bytes \<rightharpoonup> bytes) \<Rightarrow> u64 \<Rightarrow> Block \<Rightarrow> bool" where
  "has_block Hash m h b \<longleftrightarrow>
     m (enc (KHash h)) = Some (BlockHash Hash b) \<and>
     m (enc (KHeader h (BlockHash Hash b)))
       = Some (StorageMarshalBlockHeader \<lparr>shHeader = bHeader b, shHeight = h\<rparr>) \<and>
     m (enc (KHeaderHeight (BlockHash Hash b))) = Some (hbyte h) \<and>
     (bEvds b \<noteq> [] \<longrightarrow> m (enc (KBlock h (BlockHash Hash b))) = Some (StorageMarshalBlock (map eHash (bEvds b)))) \<and>
     (\<forall>e \<in> set (bEvds b). has_evidence m h e)"

definition evdHashes :: "Block \<Rightarrow> bytes list" where
  "evdHashes b = map eHash (bEvds b)"

definition heightAt :: "nat \<Rightarrow> u64" where
  "heightAt i = word_of_nat (Suc i)"

text \<open>
  The state holds exactly the blocks \<open>bs\<close>, the first at height 1: all their records are found, no
  others are, the latest height is their number, and a miner's score is the number of its blocks.
\<close>

definition represents :: "hasher \<Rightarrow> (bytes \<rightharpoonup> bytes) \<Rightarrow> Block list \<Rightarrow> bool" where
  "represents Hash m bs \<longleftrightarrow>
     length bs < 2 ^ 64 \<and>
     (\<forall>b \<in> set bs. storable b) \<and>
     distinct (map (BlockHash Hash) bs) \<and> distinct (concat (map evdHashes bs)) \<and>
     (\<forall>i < length bs. has_block Hash m (heightAt i) (bs ! i)) \<and>
     (\<forall>h. h \<notin> heightAt ` {..<length bs} \<longrightarrow> m (enc (KHash h)) = None) \<and>
     (\<forall>x. length x = 32 \<longrightarrow> x \<notin> BlockHash Hash ` set bs \<longrightarrow> m (enc (KHeaderHeight x)) = None) \<and>
     (\<forall>x. length x = 32 \<longrightarrow> x \<notin> set (concat (map evdHashes bs)) \<longrightarrow> m (enc (KEvidenceHeight x)) = None) \<and>
     (\<forall>p. length p = 33 \<longrightarrow> scoreOf m p = word_of_nat (length (filter (\<lambda>b. bhMiner (bHeader b) = p) bs)))"

text \<open>The next block may follow: it is storable, and its hash and its evidences are new.\<close>

definition may_follow :: "hasher \<Rightarrow> Block list \<Rightarrow> Block \<Rightarrow> bool" where
  "may_follow Hash bs b \<longleftrightarrow>
     storable b \<and> BlockHash Hash b \<notin> BlockHash Hash ` set bs \<and>
     set (evdHashes b) \<inter> set (concat (map evdHashes bs)) = {} \<and> Suc (length bs) < 2 ^ 64"

lemma unat_heightAt: "Suc i < 2 ^ 64 \<Longrightarrow> unat (heightAt i) = Suc i"
  unfolding heightAt_def unat_of_nat by (rule mod_less) simp

lemma heightAt_inject: "Suc i < 2 ^ 64 \<Longrightarrow> Suc j < 2 ^ 64 \<Longrightarrow> heightAt i = heightAt j \<longleftrightarrow> i = j"
  by (metis unat_heightAt Suc_inject)

text \<open>After the writes of a block: its own records, and every other record as before.\<close>

lemma mem_evdWrites:
  "(k, v) \<in> set (evdWrites h e) \<longleftrightarrow>
     k = KEvidence h (eHash e) \<and> v = MarshalEvidence e \<or> k = KEvidenceHeight (eHash e) \<and> v = hbyte h
     \<or> k = KAccount (ePubKey e) (eHash e) \<and> v = hbyte h"
  by (auto simp: evdWrites_def)

lemma mem_blockWrites:
  assumes "storable b"
  shows "(k, v) \<in> set (blockWrites Hash b h sc) \<longleftrightarrow>
     (\<exists>e \<in> set (bEvds b). (k, v) \<in> set (evdWrites h e))
     \<or> bEvds b \<noteq> [] \<and> k = KBlock h (BlockHash Hash b) \<and> v = StorageMarshalBlock (map eHash (bEvds b))
     \<or> k = KHeader h (BlockHash Hash b) \<and> v = StorageMarshalBlockHeader \<lparr>shHeader = bHeader b, shHeight = h\<rparr>
     \<or> k = KHash h \<and> v = BlockHash Hash b \<or> k = KHeaderHeight (BlockHash Hash b) \<and> v = hbyte h
     \<or> k = KScore (bhMiner (bHeader b)) \<and> v = hbyte sc"
  by (cases "bEvds b = []")
    (auto simp only: blockWrites_def set_append Un_iff set_bodyWrites [OF assms] headWrites_def if_True if_False
      set_simps insert_iff empty_iff UN_iff prod.inject simp_thms)

lemma blockWrites_has_block:
  assumes "hash_ok Hash" "storable b"
  shows "has_block Hash (applyWrites (blockWrites Hash b h sc) m) h b"
proof -
  note w = lookup_written [OF wf_blockWrites(3) [OF assms]]
  have evd: "e' = e" if "e \<in> set (bEvds b)" "e' \<in> set (bEvds b)" "eHash e = eHash e'" for e e'
    using assms(2) that by (auto simp: storable_def distinct_map dest: inj_onD)
  show ?thesis
    unfolding has_block_def has_evidence_def
    by (intro conjI ballI impI w) (auto simp: mem_blockWrites [OF assms(2)] mem_evdWrites dest: evd)
qed

lemma blockWrites_other:
  assumes "hash_ok Hash" "storable b" "wf_key k"
    and "case k of
        KHeader h' x \<Rightarrow> h' \<noteq> h | KHash h' \<Rightarrow> h' \<noteq> h | KBlock h' x \<Rightarrow> h' \<noteq> h | KEvidence h' x \<Rightarrow> h' \<noteq> h
      | KHeaderHeight x \<Rightarrow> x \<noteq> BlockHash Hash b
      | KEvidenceHeight x \<Rightarrow> x \<notin> set (evdHashes b) | KAccount p x \<Rightarrow> x \<notin> set (evdHashes b)
      | KScore p \<Rightarrow> p \<noteq> bhMiner (bHeader b) | _ \<Rightarrow> True"
  shows "applyWrites (blockWrites Hash b h sc) m (enc k) = m (enc k)"
proof (rule lookup_other [OF wf_blockWrites(3) [OF assms(1,2)] assms(3)])
  show "k \<notin> fst ` set (blockWrites Hash b h sc)"
  proof
    assume "k \<in> fst ` set (blockWrites Hash b h sc)"
    then obtain v where "(k, v) \<in> set (blockWrites Hash b h sc)" by (metis imageE prod.collapse)
    then show False
      using assms(4) by (auto simp: mem_blockWrites [OF assms(2)] mem_evdWrites evdHashes_def)
  qed
qed

lemma has_block_cong:
  assumes "hash_ok Hash" "storable b" "has_block Hash m h b"
    and "\<And>k. wf_key k \<Longrightarrow> k \<in> {KHash h, KHeader h (BlockHash Hash b), KHeaderHeight (BlockHash Hash b),
           KBlock h (BlockHash Hash b)} \<union> (\<Union>e \<in> set (bEvds b). fst ` set (evdWrites h e)) \<Longrightarrow> m' (enc k) = m (enc k)"
  shows "has_block Hash m' h b"
proof -
  have "length (BlockHash Hash b) = 32" "\<forall>e \<in> set (bEvds b). length (eHash e) = 32 \<and> length (ePubKey e) = 33"
    using assms(1,2) by (simp_all add: length_BlockHash storable_def)
  then have eq: "m' (enc k) = m (enc k)" if "k \<in> {KHash h, KHeader h (BlockHash Hash b),
      KHeaderHeight (BlockHash Hash b), KBlock h (BlockHash Hash b)}
      \<union> (\<Union>e \<in> set (bEvds b). {KEvidence h (eHash e), KEvidenceHeight (eHash e), KAccount (ePubKey e) (eHash e)})" for k
    using that by (intro assms(4)) (auto simp: evdWrites_def)
  have "has_evidence m' h e" if "e \<in> set (bEvds b)" for e
  proof -
    have "has_evidence m h e" using assms(3) that by (simp add: has_block_def)
    moreover have "m' (enc (KEvidence h (eHash e))) = m (enc (KEvidence h (eHash e)))"
      "m' (enc (KEvidenceHeight (eHash e))) = m (enc (KEvidenceHeight (eHash e)))"
      "m' (enc (KAccount (ePubKey e) (eHash e))) = m (enc (KAccount (ePubKey e) (eHash e)))"
      using that by (auto intro!: eq)
    ultimately show ?thesis by (simp add: has_evidence_def)
  qed
  then show ?thesis using assms(3) by (simp add: has_block_def eq)
qed

lemma represents_cong:
  assumes "represents Hash m bs" "hash_ok Hash"
    and "\<And>k. wf_key k \<Longrightarrow> k \<noteq> KLatest \<Longrightarrow> k \<noteq> KGenesis \<Longrightarrow> m' (enc k) = m (enc k)"
  shows "represents Hash m' bs"
proof -
  have "has_block Hash m' (heightAt i) (bs ! i)" if "i < length bs" for i
  proof (rule has_block_cong [OF assms(2)])
    show "storable (bs ! i)" "has_block Hash m (heightAt i) (bs ! i)"
      using assms(1) that by (auto simp: represents_def)
  qed (auto simp: evdWrites_def intro!: assms(3))
  moreover have "scoreOf m' p = scoreOf m p" if "length p = 33" for p
    using assms(3) [of "KScore p"] that by (simp only: scoreOf_def) simp
  ultimately show ?thesis
    using assms(1) assms(3) [of "KHash _"] assms(3) [of "KHeaderHeight _"] assms(3) [of "KEvidenceHeight _"]
    by (simp only: represents_def) simp
qed

lemma evdHashes_snoc: "set (concat (map evdHashes (bs @ [b]))) = set (concat (map evdHashes bs)) \<union> set (evdHashes b)"
  by simp

lemma heights_snoc:
  assumes "Suc (length bs) < 2 ^ 64" "h \<notin> heightAt ` {..<length (bs @ [b])}"
  shows "h \<noteq> heightAt (length bs)" and "h \<notin> heightAt ` {..<length bs}"
  using assms by auto

lemma represents_step:
  assumes rep: "represents Hash m bs" and Hash: "hash_ok Hash" and fol: "may_follow Hash bs b"
  defines "h \<equiv> heightAt (length bs)"
  defines "m' \<equiv> applyWrites (blockWrites Hash b h (scoreOf m (bhMiner (bHeader b)) + 1)) m"
  shows "represents Hash m' (bs @ [b])"
proof -
  have st: "storable b" and len: "Suc (length bs) < 2 ^ 64" and fresh: "BlockHash Hash b \<notin> BlockHash Hash ` set bs"
    and evds: "set (evdHashes b) \<inter> set (concat (map evdHashes bs)) = {}"
    using fol by (auto simp: may_follow_def)
  note other = blockWrites_other [OF Hash st, of _ h "scoreOf m (bhMiner (bHeader b)) + 1" m, folded m'_def]
  have old: "has_block Hash m' (heightAt i) (bs ! i)" if i: "i < length bs" for i
  proof (rule has_block_cong [OF Hash])
    have "heightAt i \<noteq> h" using heightAt_inject [of i "length bs"] i len by (simp add: h_def)
    moreover have "BlockHash Hash (bs ! i) \<noteq> BlockHash Hash b" using fresh i by (metis imageI nth_mem)
    moreover have "eHash e \<notin> set (evdHashes b)" if "e \<in> set (bEvds (bs ! i))" for e
    proof -
      have "eHash e \<in> set (concat (map evdHashes bs))"
        using i that by (auto simp: evdHashes_def intro!: bexI [of _ "bs ! i"])
      then show ?thesis using evds by blast
    qed
    ultimately show "m' (enc k) = m (enc k)" if "wf_key k" "k \<in> {KHash (heightAt i), KHeader (heightAt i) (BlockHash Hash (bs ! i)),
          KHeaderHeight (BlockHash Hash (bs ! i)), KBlock (heightAt i) (BlockHash Hash (bs ! i))}
          \<union> (\<Union>e \<in> set (bEvds (bs ! i)). fst ` set (evdWrites (heightAt i) e))" for k
      using that by (intro other) (auto simp: evdWrites_def)
  qed (use rep i in \<open>auto simp: represents_def\<close>)
  have new: "has_block Hash m' h b"
    unfolding m'_def by (rule blockWrites_has_block [OF Hash st])
  have score: "scoreOf m' p = word_of_nat (length (filter (\<lambda>b. bhMiner (bHeader b) = p) (bs @ [b])))"
    if p: "length p = 33" for p
  proof (cases "p = bhMiner (bHeader b)")
    case True
    have "m' (enc (KScore p)) = Some (hbyte (scoreOf m p + 1))"
      unfolding m'_def True by (rule lookup_written [OF wf_blockWrites(3) [OF Hash st]])
        (auto simp: mem_blockWrites [OF st] mem_evdWrites)
    then have "scoreOf m' p = scoreOf m p + 1" by (simp only: scoreOf_def) simp
    then show ?thesis using rep p True by (simp add: represents_def add.commute)
  next
    case False
    then have "scoreOf m' p = scoreOf m p" using other [of "KScore p"] p by (simp only: scoreOf_def) simp
    then show ?thesis using rep p False by (auto simp: represents_def)
  qed
  have blocks: "\<forall>i < length (bs @ [b]). has_block Hash m' (heightAt i) ((bs @ [b]) ! i)"
    using old new by (auto simp: nth_append less_Suc_eq h_def)
  have none1: "m' (enc (KHash x)) = None" if "x \<notin> heightAt ` {..<length (bs @ [b])}" for x
    using heights_snoc [OF len that] other [of "KHash x"] rep by (simp add: represents_def h_def)
  have none2: "m' (enc (KHeaderHeight x)) = None"
    if "length x = 32" "x \<notin> BlockHash Hash ` set (bs @ [b])" for x
    using that other [of "KHeaderHeight x"] rep by (auto simp: represents_def)
  have none3: "m' (enc (KEvidenceHeight x)) = None"
    if "length x = 32" "x \<notin> set (concat (map evdHashes (bs @ [b])))" for x
    using that other [of "KEvidenceHeight x"] rep by (auto simp: represents_def)
  have dist: "distinct (map (BlockHash Hash) (bs @ [b]))" "distinct (concat (map evdHashes (bs @ [b])))"
    using rep fresh evds st by (auto simp: represents_def storable_def evdHashes_def)
  show ?thesis
    unfolding represents_def using blocks none1 none2 none3 dist score rep st len
    by (auto simp: represents_def)
qed

section \<open>The operations on represented states\<close>

definition holds :: "hasher \<Rightarrow> (bytes \<rightharpoonup> bytes) \<Rightarrow> Block list \<Rightarrow> bool" where
  "holds Hash m bs \<longleftrightarrow>
     represents Hash m bs \<and> bs \<noteq> [] \<and> m (enc KGenesis) = Some placeHolder \<and>
     m (enc KLatest) = Some (hbyte (word_of_nat (length bs)))"

lemma represents_meta:
  assumes "represents Hash m bs" "hash_ok Hash" "k \<in> {KLatest, KGenesis}"
  shows "represents Hash (m(enc k \<mapsto> v)) bs"
proof (rule represents_cong [OF assms(1,2)])
  fix k' assume k': "wf_key k'" "k' \<noteq> KLatest" "k' \<noteq> KGenesis"
  have "wf_key k" using assms(3) by auto
  then have "enc k' \<noteq> enc k" using k' assms(3) by (auto simp: key_inject)
  then show "(m(enc k \<mapsto> v)) (enc k') = m (enc k')" by simp
qed

lemma enc_meta [simp]: "enc KGenesis \<noteq> enc KLatest" "enc KLatest \<noteq> enc KGenesis"
  by (simp_all add: key_inject)

lemma wrapError_Inr [simp]: "wrapError (Inr x) = Inr x"
  by (simp add: wrapError_def)

lemma heightAt_0: "heightAt 0 = 1"
  by (simp add: heightAt_def)

lemma heightAt_plus: "word_of_nat n + 1 = heightAt n"
  by (simp add: heightAt_def)

context kv_store
begin

lemma PutGenesis_holds:
  assumes put: "PutGenesis bdg Hash b s = Inr s'" and Hash: "hash_ok Hash"
    and empty: "\<And>k. wf_key k \<Longrightarrow> view s (enc k) = None" and fol: "may_follow Hash [] b"
  shows "holds Hash (view s') [b]"
proof -
  have st: "storable b" using fol by (simp add: may_follow_def)
  obtain s1 s2 s3 where s1: "view s1 = (view s)(enc KGenesis \<mapsto> placeHolder)"
    and s2: "putBlockTX bdg Hash b 1 s1 = Inr s2"
    and s3: "view s3 = (view s2)(enc KLatest \<mapsto> hbyte 1)" and s': "view s' = view s3"
    using dbUpdate_Inr [OF put [unfolded PutGenesis_def]]
    by (auto simp: attempt_eq_Inr updateLatestHeightTX_def enc.simps dest!: set_view)
  have "represents Hash (view s1) []"
    using empty by (auto simp: represents_def s1 key_inject scoreOf_def)
  from represents_step [OF this Hash fol] putBlockTX_view [OF s2 Hash st]
  have rep: "represents Hash (view s2) [b]" by (simp add: heightAt_0)
  have "view s2 (enc KGenesis) = Some placeHolder"
    unfolding putBlockTX_view [OF s2 Hash st]
    by (subst blockWrites_other [OF Hash st]) (simp_all add: s1)
  then show ?thesis
    using represents_meta [OF rep Hash, of KLatest] by (simp add: holds_def s' s3)
qed

lemma GetLatestHeight_holds: "holds Hash (view s) bs \<Longrightarrow> GetLatestHeight bdg s = Inr (word_of_nat (length bs))"
  by (simp add: GetLatestHeight_def holds_def enc.simps viewValue_Some)

lemma PutBlock_holds:
  assumes put: "PutBlock bdg Hash b h s = Inr s'" and Hash: "hash_ok Hash"
    and holds: "holds Hash (view s) bs" and fol: "may_follow Hash bs b"
  shows "h = heightAt (length bs) \<and> holds Hash (view s') (bs @ [b])"
proof -
  have st: "storable b" using fol by (simp add: may_follow_def)
  have h: "h = heightAt (length bs)"
    and upd: "dbUpdate bdg (\<lambda>tx. attempt (putBlockTX bdg Hash b h tx) (\<lambda>tx1. updateLatestHeightTX bdg h tx1)) s = Inr s'"
    using put GetLatestHeight_holds [OF holds]
    by (auto simp: PutBlock_def Let_def heightAt_plus split: if_splits)
  obtain s2 s3 where s2: "putBlockTX bdg Hash b h s = Inr s2"
    and s3: "view s3 = (view s2)(enc KLatest \<mapsto> hbyte h)" and s': "view s' = view s3"
    using dbUpdate_Inr [OF upd] by (auto simp: attempt_eq_Inr updateLatestHeightTX_def enc.simps dest!: set_view)
  have rep: "represents Hash (view s2) (bs @ [b])"
    using represents_step [OF _ Hash fol] holds unfolding putBlockTX_view [OF s2 Hash st] h holds_def by blast
  have "view s2 (enc KGenesis) = Some placeHolder"
    unfolding putBlockTX_view [OF s2 Hash st]
    by (subst blockWrites_other [OF Hash st]) (use holds in \<open>simp_all add: holds_def\<close>)
  then show ?thesis
    using represents_meta [OF rep Hash, of KLatest] by (simp add: holds_def s' s3 h heightAt_def)
qed

lemma PutBlock_wrong_height:
  assumes "holds Hash (view s) bs" "h \<noteq> heightAt (length bs)"
  shows "PutBlock bdg Hash b h s = Inl (ErrInvalidHeight h (heightAt (length bs)))"
  using GetLatestHeight_holds [OF assms(1)] assms(2) by (simp add: PutBlock_def Let_def heightAt_plus)

lemma getEvds_eq:
  "\<forall>e \<in> set evds. evidence_fits e \<and> view s (enc (KEvidence h (eHash e))) = Some (MarshalEvidence e) \<Longrightarrow>
   getEvds bdg h (map eHash evds) s = Inr evds"
  by (induction evds)
    (simp_all add: getEvidence_def enc.simps viewValue_Some decodeValue_def stored_evidence.dec_enc_whole)

lemma getHeader_eq:
  assumes "has_block Hash (view s) h b" "storable b"
  shows "getHeader bdg h (BlockHash Hash b) s = Inr \<lparr>shHeader = bHeader b, shHeight = h\<rparr>"
  using assms by (simp add: getHeader_def has_block_def enc.simps viewValue_Some decodeValue_def
      stored_header.dec_enc_whole storable_def)

lemma getCPBlock_eq:
  assumes "has_block Hash (view s) h b" "storable b"
  shows "getCPBlock bdg h (BlockHash Hash b) s = Inr b"
proof (cases "bEvds b = []")
  case True
  then show ?thesis
    using assms by (cases b) (simp add: getCPBlock_def getHeader_eq storable_def)
next
  case False
  then have "getBlock bdg h (BlockHash Hash b) s = Inr (map eHash (bEvds b))"
    using assms by (auto simp: getBlock_def has_block_def enc.simps viewValue_Some decodeValue_def
        stored_block.dec_enc_whole wfSeq16_def storable_def)
  moreover have "getEvds bdg h (map eHash (bEvds b)) s = Inr (bEvds b)"
    using assms by (intro getEvds_eq) (simp add: has_block_def has_evidence_def storable_def)
  ultimately show ?thesis
    using assms False by (cases b) (simp add: getCPBlock_def getHeader_eq storable_def)
qed

end

context kv_store
begin

lemma holds_block:
  assumes "holds Hash (view s) bs" "i < length bs"
  shows "has_block Hash (view s) (heightAt i) (bs ! i)" and "storable (bs ! i)"
  using assms by (auto simp: holds_def represents_def)

lemma block_reads:
  assumes "holds Hash (view s) bs" "i < length bs"
  shows "GetBlockViaHeight bdg (heightAt i) s = Inr (bs ! i, BlockHash Hash (bs ! i))"
    and "GetBlockViaHash bdg (BlockHash Hash (bs ! i)) s = Inr (bs ! i, heightAt i)"
    and "GetHeaderViaHash bdg (BlockHash Hash (bs ! i)) s = Inr (bHeader (bs ! i), heightAt i)"
    and "GetHeaderViaHeight bdg (heightAt i) s = Inr (bHeader (bs ! i), BlockHash Hash (bs ! i))"
    and "GetHash bdg (heightAt i) s = Inr (BlockHash Hash (bs ! i))"
proof -
  note blk = holds_block [OF assms]
  have "GetHash bdg (heightAt i) s = Inr (BlockHash Hash (bs ! i))"
    "getHeaderHeight bdg (BlockHash Hash (bs ! i)) s = Inr (heightAt i)"
    using blk(1) by (simp_all add: GetHash_def getHeaderHeight_def has_block_def enc.simps viewValue_Some)
  then show "GetBlockViaHeight bdg (heightAt i) s = Inr (bs ! i, BlockHash Hash (bs ! i))"
    "GetBlockViaHash bdg (BlockHash Hash (bs ! i)) s = Inr (bs ! i, heightAt i)"
    "GetHeaderViaHash bdg (BlockHash Hash (bs ! i)) s = Inr (bHeader (bs ! i), heightAt i)"
    "GetHeaderViaHeight bdg (heightAt i) s = Inr (bHeader (bs ! i), BlockHash Hash (bs ! i))"
    "GetHash bdg (heightAt i) s = Inr (BlockHash Hash (bs ! i))"
    using getCPBlock_eq [OF blk] getHeader_eq [OF blk]
    by (simp_all add: GetBlockViaHeight_def GetBlockViaHash_def GetHeaderViaHash_def GetHeaderViaHeight_def)
qed

lemma evidence_reads:
  assumes "holds Hash (view s) bs" "i < length bs" "e \<in> set (bEvds (bs ! i))"
  shows "GetEvidenceViaHash bdg (eHash e) s = Inr (e, heightAt i)" and "HasEvidence bdg (eHash e) s"
proof -
  have "has_evidence (view s) (heightAt i) e" "evidence_fits e"
    using holds_block [OF assms(1,2)] assms(3) by (auto simp: has_block_def storable_def)
  then show "GetEvidenceViaHash bdg (eHash e) s = Inr (e, heightAt i)" "HasEvidence bdg (eHash e) s"
    by (simp_all add: has_evidence_def GetEvidenceViaHash_def getEvidenceHeight_def getEvidence_def enc.simps
        viewValue_Some decodeValue_def stored_evidence.dec_enc_whole HasEvidence_def get_view)
qed

lemma HasEvidence_iff:
  assumes "holds Hash (view s) bs" "length x = 32"
  shows "HasEvidence bdg x s \<longleftrightarrow> x \<in> set (concat (map evdHashes bs))"
proof (cases "x \<in> set (concat (map evdHashes bs))")
  case True
  then obtain b e where b: "b \<in> set bs" and e: "e \<in> set (bEvds b)" "x = eHash e"
    by (auto simp: evdHashes_def)
  from b obtain i where "i < length bs" "b = bs ! i" by (auto simp: in_set_conv_nth)
  then show ?thesis using evidence_reads(2) [OF assms(1)] e True by auto
next
  case False
  then have "view s (enc (KEvidenceHeight x)) = None" using assms by (simp add: holds_def represents_def)
  then show ?thesis using False by (simp add: HasEvidence_def get_view enc.simps)
qed

lemma missing_reads:
  assumes "holds Hash (view s) bs"
  shows "h \<notin> heightAt ` {..<length bs} \<Longrightarrow> GetBlockViaHeight bdg h s = Inl ErrNotFound"
    and "length x = 32 \<Longrightarrow> x \<notin> BlockHash Hash ` set bs \<Longrightarrow> GetBlockViaHash bdg x s = Inl ErrNotFound"
    and "length x = 32 \<Longrightarrow> x \<notin> BlockHash Hash ` set bs \<Longrightarrow> GetHeaderViaHash bdg x s = Inl ErrNotFound"
proof -
  show "GetBlockViaHeight bdg h s = Inl ErrNotFound" if "h \<notin> heightAt ` {..<length bs}"
  proof -
    have "view s (enc (KHash h)) = None" using assms that by (simp add: holds_def represents_def)
    then show ?thesis by (simp add: GetBlockViaHeight_def GetHash_def enc.simps viewValue_None)
  qed
  have "getHeaderHeight bdg x s = Inl ErrNotFound" if "length x = 32" "x \<notin> BlockHash Hash ` set bs"
  proof -
    have "view s (enc (KHeaderHeight x)) = None" using assms that by (simp add: holds_def represents_def)
    then show ?thesis by (simp add: getHeaderHeight_def enc.simps viewValue_None)
  qed
  then show "length x = 32 \<Longrightarrow> x \<notin> BlockHash Hash ` set bs \<Longrightarrow> GetBlockViaHash bdg x s = Inl ErrNotFound"
    "length x = 32 \<Longrightarrow> x \<notin> BlockHash Hash ` set bs \<Longrightarrow> GetHeaderViaHash bdg x s = Inl ErrNotFound"
    by (simp_all add: GetBlockViaHash_def GetHeaderViaHash_def)
qed

lemma GetScore_holds:
  assumes "holds Hash (view s) bs" "length p = 33"
  shows "GetScoreViaKey bdg p s = Inr (word_of_nat (length (filter (\<lambda>b. bhMiner (bHeader b) = p) bs)))"
proof -
  have "GetScoreViaKey bdg p s = Inr (scoreOf (view s) p)"
    by (simp add: GetScoreViaKey_def get_view scoreOf_def enc.simps split: option.split)
  then show ?thesis using assms by (simp add: holds_def represents_def)
qed

end

section \<open>A store in memory\<close>

text \<open>The laws of the store can hold: an association list, the newest entry of a key in front.\<close>

definition mem_badger :: "(bytes \<times> bytes) list badger" where
  "mem_badger =
     \<lparr>txGet = (\<lambda>k s. case map_of s k of None \<Rightarrow> Inl ErrKeyNotFound | Some v \<Rightarrow> Inr v),
      txSet = (\<lambda>k v s. Inr ((k, v) # s)),
      txScan = (\<lambda>p s. Inr (filter (\<lambda>(k, v). take (length p) k = p) (AList.clearjunk s))),
      commit = Inr\<rparr>"

interpretation mem: kv_store mem_badger map_of
proof unfold_locales
  fix p :: bytes and s kvs :: "(bytes \<times> bytes) list"
  assume "txScan mem_badger p s = Inr kvs"
  then have kvs: "kvs = filter (\<lambda>(k, v). take (length p) k = p) (AList.clearjunk s)"
    by (simp add: mem_badger_def)
  have "set (AList.clearjunk s) = {(k, v). map_of s k = Some v}"
    using distinct_clearjunk [of s] by (auto simp flip: map_of_clearjunk [of s])
  then show "set kvs = {(k, v). take (length p) k = p \<and> map_of s k = Some v} \<and> distinct (map fst kvs)"
    using distinct_clearjunk [of s] by (auto simp: kvs distinct_map inj_on_filter_key_eq intro: inj_on_subset)
qed (simp_all add: mem_badger_def)

definition demo_block :: Block where
  "demo_block = NewBlock (NewBlockHeaderV1 1570000000 (replicate 32 7) (replicate 33 2) EmptyEvidenceRoot) []"

lemma demo_block_follows: "may_follow mod_hash [] demo_block"
  by (simp add: may_follow_def storable_def demo_block_def NewBlock_def NewBlockHeaderV1_def header_fits_def
      EmptyEvidenceRoot_def IsEmptyEvidenceRoot_def evdHashes_def)

lemma demo_block_put: "\<exists>s. PutGenesis mem_badger mod_hash demo_block [] = Inr s"
  by (simp add: PutGenesis_def dbUpdate_def putBlockTX_def Let_def mem_badger_def demo_block_def NewBlock_def
      NewBlockHeaderV1_def IsEmptyEvidenceRoot_def updateScoreTX_def updateLatestHeightTX_def
      split: option.split)

section \<open>Properties\<close>

text \<open>
  The keys of the database never collide: two records of different kind, height, hash or account
  have different keys, for 32-byte hashes and 33-byte public keys.
\<close>

theorem schema_injective:
  assumes "length x = 32" "length y = 32" "length p = 33" "length q = 33"
  shows "distinct [getHeaderKey h x, getHashKey h, getHeaderHeightKey x, getBlockKey h x, getEvidenceKey h x,
           getEvidenceHeightKey x, getScoreKey p, getAccountEvidenceKeyPrefix p @ x, mLatestHeight, mGenesis] \<and>
         (getHeaderKey h x = getHeaderKey h' y \<longleftrightarrow> h = h' \<and> x = y) \<and>
         (getHashKey h = getHashKey h' \<longleftrightarrow> h = h') \<and>
         (getBlockKey h x = getBlockKey h' y \<longleftrightarrow> h = h' \<and> x = y) \<and>
         (getEvidenceKey h x = getEvidenceKey h' y \<longleftrightarrow> h = h' \<and> x = y) \<and>
         (getScoreKey p = getScoreKey q \<longleftrightarrow> p = q) \<and>
         (getAccountEvidenceKeyPrefix p @ x = getAccountEvidenceKeyPrefix q @ y \<longleftrightarrow> p = q \<and> x = y)"
proof -
  let ?ks = "[KHeader h x, KHash h, KHeaderHeight x, KBlock h x, KEvidence h x,
      KEvidenceHeight x, KScore p, KAccount p x, KLatest, KGenesis]"
  have "inj_on enc (set ?ks)" using assms by (intro inj_onI) (subst (asm) key_inject, auto)
  then have "distinct (map enc ?ks)" by (simp only: distinct_map) simp
  then have dist: "distinct [getHeaderKey h x, getHashKey h, getHeaderHeightKey x, getBlockKey h x, getEvidenceKey h x,
           getEvidenceHeightKey x, getScoreKey p, getAccountEvidenceKeyPrefix p @ x, mLatestHeight, mGenesis]"
    by (simp only: list.map enc.simps)
  note inj = key_inject [of "KHeader h x" "KHeader h' y"] key_inject [of "KHash h" "KHash h'"]
    key_inject [of "KBlock h x" "KBlock h' y"] key_inject [of "KEvidence h x" "KEvidence h' y"]
    key_inject [of "KScore p" "KScore q"] key_inject [of "KAccount p x" "KAccount q y"]
  show ?thesis
    by (intro conjI dist) (use assms inj in \<open>simp_all only: enc.simps wf_key.simps dbkey.inject simp_thms\<close>)
qed

theorem schema_injective_witness:
  "getHeaderKey 1 (replicate 32 7) \<noteq> getBlockKey 1 (replicate 32 7) \<and>
   getScoreKey (replicate 33 2) \<noteq> getScoreKey (replicate 33 3)"
proof -
  have "(2 :: byte) \<noteq> 3" by simp
  then have "replicate 33 (2 :: byte) \<noteq> replicate 33 3" by (simp add: replicate_eq_replicate)
  then show ?thesis
    using schema_injective [of "replicate 32 7" "replicate 32 7" "replicate 33 2" "replicate 33 3" 1 1] by auto
qed

text \<open>
  C34 Storing refines appending to a list of blocks, for a block that may follow the stored ones
  (\<open>may_follow\<close>): its lengths fit the storage format, its evidences have different hashes, and neither
  its hash nor the hash of one of its evidences is stored yet.  \<open>PutGenesis\<close> of such a block on an
  empty store gives the one-block list; on a store that holds \<open>bs\<close>, \<open>PutBlock\<close> of such a block succeeds
  only at the next height and then gives \<open>bs @ [b]\<close>.  Any other height is refused, for every block,
  with the height that was expected.
\<close>

theorem db_refines_list:
  assumes "kv_store bdg view" and "hash_ok Hash"
  shows "((\<forall>k. wf_key k \<longrightarrow> view s (enc k) = None) \<longrightarrow> may_follow Hash [] b \<longrightarrow>
            PutGenesis bdg Hash b s = Inr s' \<longrightarrow> holds Hash (view s') [b]) \<and>
         (holds Hash (view s) bs \<longrightarrow> may_follow Hash bs b \<longrightarrow>
            PutBlock bdg Hash b h s = Inr s' \<longrightarrow> h = heightAt (length bs) \<and> holds Hash (view s') (bs @ [b])) \<and>
         (holds Hash (view s) bs \<longrightarrow> h \<noteq> heightAt (length bs) \<longrightarrow>
            PutBlock bdg Hash b h s = Inl (ErrInvalidHeight h (heightAt (length bs))))"
  using kv_store.PutGenesis_holds [OF assms(1) _ assms(2)] kv_store.PutBlock_holds [OF assms(1) _ assms(2)]
    kv_store.PutBlock_wrong_height [OF assms(1)]
  by blast

theorem db_refines_list_witness:
  "\<exists>s. PutGenesis mem_badger mod_hash demo_block [] = Inr s \<and> holds mod_hash (map_of s) [demo_block] \<and>
     PutBlock mem_badger mod_hash demo_block 7 s = Inl (ErrInvalidHeight 7 2)"
proof -
  obtain s where s: "PutGenesis mem_badger mod_hash demo_block [] = Inr s" using demo_block_put by blast
  have h: "holds mod_hash (map_of s) [demo_block]"
    using db_refines_list [OF mem.kv_store_axioms mod_hash_ok, of "[]" demo_block s "[]" 0] s demo_block_follows
    by simp
  have two: "heightAt (length [demo_block]) = 2" by (simp add: heightAt_def)
  then have "PutBlock mem_badger mod_hash demo_block 7 s = Inl (ErrInvalidHeight 7 (heightAt (length [demo_block])))"
    using db_refines_list [OF mem.kv_store_axioms mod_hash_ok, of s demo_block s "[demo_block]" 7] h by simp
  with s h two show ?thesis by auto
qed

text \<open>
  C35 Every read answers from the list of stored blocks: by height and by hash the block itself with
  its evidences in order, its hash and its height; not found for anything else; whether and at
  which height an evidence is stored; and a miner's score is the number of blocks it mined.
\<close>

theorem db_reads:
  assumes kv: "kv_store bdg view" and Hash: "hash_ok Hash" and holds: "holds Hash (view s) bs"
  shows "GetLatestHeight bdg s = Inr (word_of_nat (length bs)) \<and>
    (\<forall>i < length bs.
       GetBlockViaHeight bdg (heightAt i) s = Inr (bs ! i, BlockHash Hash (bs ! i)) \<and>
       GetBlockViaHash bdg (BlockHash Hash (bs ! i)) s = Inr (bs ! i, heightAt i) \<and>
       GetHeaderViaHash bdg (BlockHash Hash (bs ! i)) s = Inr (bHeader (bs ! i), heightAt i) \<and>
       (\<forall>e \<in> set (bEvds (bs ! i)). GetEvidenceViaHash bdg (eHash e) s = Inr (e, heightAt i))) \<and>
    (\<forall>h. h \<notin> heightAt ` {..<length bs} \<longrightarrow> GetBlockViaHeight bdg h s = Inl ErrNotFound) \<and>
    (\<forall>x. length x = 32 \<longrightarrow>
       (HasEvidence bdg x s \<longleftrightarrow> x \<in> set (concat (map evdHashes bs))) \<and>
       (x \<notin> BlockHash Hash ` set bs \<longrightarrow> GetBlockViaHash bdg x s = Inl ErrNotFound)) \<and>
    (\<forall>p. length p = 33 \<longrightarrow>
       GetScoreViaKey bdg p s = Inr (word_of_nat (length (filter (\<lambda>b. bhMiner (bHeader b) = p) bs))))"
  using kv_store.GetLatestHeight_holds [OF kv holds] kv_store.block_reads [OF kv holds]
    kv_store.evidence_reads [OF kv holds] kv_store.missing_reads [OF kv holds]
    kv_store.HasEvidence_iff [OF kv holds] kv_store.GetScore_holds [OF kv holds]
  by blast

theorem db_reads_witness:
  "\<exists>s. holds mod_hash (map_of s) [demo_block] \<and>
     GetBlockViaHeight mem_badger 1 s = Inr (demo_block, BlockHash mod_hash demo_block) \<and>
     GetScoreViaKey mem_badger (replicate 33 2) s = Inr 1"
proof -
  obtain s where s: "PutGenesis mem_badger mod_hash demo_block [] = Inr s" using demo_block_put by blast
  have h: "holds mod_hash (map_of s) [demo_block]"
    using mem.PutGenesis_holds [OF s mod_hash_ok _ demo_block_follows] by simp
  have "bhMiner (bHeader demo_block) = replicate 33 2" by (simp add: demo_block_def NewBlock_def NewBlockHeaderV1_def)
  then show ?thesis
    using db_reads [OF mem.kv_store_axioms mod_hash_ok h] h heightAt_0 by auto
qed

end
