(* ===== verification/Branch.thy ===== *)
theory Branch
  imports DatabaseFacts Difficulty Merkle "HOL-Library.Monad_Syntax"
begin

text \<open>
  \<open>src/core/blockchain/block.go\<close> and \<open>src/core/blockchain/branch.go\<close>.  Blocks in memory are
  linked by pointers in both directions and shared between branches, so they live in a store: a
  list in which a pointer is an index and a new block is put at the end.  A function that returns
  an option gives \<open>None\<close> when the program ends there: a nil pointer is followed, \<open>logger.Fatal\<close>
  ends the process, or a loop does not stop.
\<close>

section \<open>Parameters\<close>

text \<open>The third-party code, the hash, and the mining parameters the package keeps in variables.\<close>

record ('sig, 'key, 'priv, 's) chain_env =
  envEc :: "('sig, 'key, 'priv) btcec"
  envHash :: hasher
  envBdg :: "'s badger"
  envParams :: mining_params

section \<open>Blocks (block.go)\<close>

type_synonym addr = nat

record blk =
  bkBlock :: Block
  bkHash :: bytes
  bkHeight :: u64
  bkStored :: bool
  bkBackward :: "addr option"
  bkFordward :: "(string \<times> addr) list"

type_synonym heap = "blk list"

definition newBlk :: "hasher \<Rightarrow> Block \<Rightarrow> u64 \<Rightarrow> bool \<Rightarrow> blk" where
  "newBlk Hash b height stored =
     \<lparr>bkBlock = b, bkHash = BlockHash Hash b, bkHeight = height, bkStored = stored,
      bkBackward = None, bkFordward = []\<rparr>"

definition bkTarget :: "blk \<Rightarrow> u32" where
  "bkTarget b = bhTarget (bHeader (bkBlock b))"

definition bkTime :: "blk \<Rightarrow> i64" where
  "bkTime b = bhTime (bHeader (bkBlock b))"

definition isStored :: "blk \<Rightarrow> bool" where
  "isStored b = bkStored b"

definition setBackward :: "addr \<Rightarrow> addr \<Rightarrow> heap \<Rightarrow> heap" where
  "setBackward b back h = h[b := (h ! b)\<lparr>bkBackward := Some back\<rparr>]"

definition removeBackward :: "addr \<Rightarrow> heap \<Rightarrow> heap" where
  "removeBackward b h = h[b := (h ! b)\<lparr>bkBackward := None\<rparr>]"

definition addFordward :: "addr \<Rightarrow> addr \<Rightarrow> heap \<Rightarrow> heap" where
  "addFordward b forward h =
     h[b := (h ! b)\<lparr>bkFordward := AList.update (ToHex (bkHash (h ! forward))) forward (bkFordward (h ! b))\<rparr>]"

definition removeForward :: "addr \<Rightarrow> addr \<Rightarrow> heap \<Rightarrow> heap" where
  "removeForward b forward h =
     h[b := (h ! b)\<lparr>bkFordward := AList.delete (ToHex (bkHash (h ! forward))) (bkFordward (h ! b))\<rparr>]"

definition isBackwardOf :: "hasher \<Rightarrow> heap \<Rightarrow> addr \<Rightarrow> Block \<Rightarrow> bool" where
  "isBackwardOf Hash h b cb = (map_of (bkFordward (h ! b)) (ToHex (BlockHash Hash cb)) \<noteq> None)"

definition forwardNum :: "heap \<Rightarrow> addr \<Rightarrow> nat" where
  "forwardNum h b = length (bkFordward (h ! b))"

text \<open>
  \<open>remove\<close> returns an error (\<open>Inl\<close>) when the block has children, otherwise the parent; a block
  without parent makes it follow a nil pointer.
\<close>

definition removeBlk :: "addr \<Rightarrow> heap \<Rightarrow> ((unit + addr) \<times> heap) option" where
  "removeBlk b h =
     (if forwardNum h b \<noteq> 0 then Some (Inl (), h)
      else case bkBackward (h ! b) of
        None \<Rightarrow> None
      | Some backward \<Rightarrow> Some (Inr backward, removeBackward b (removeForward backward b h)))"

section \<open>Branches (branch.go)\<close>

record branch =
  brHead :: addr
  brTail :: addr
  brEvds :: "(string \<times> Evidence) list"
  brBlocks :: "(string \<times> addr) list"

definition storeEvds :: "Evidence list \<Rightarrow> branch \<Rightarrow> branch" where
  "storeEvds evds br =
     br\<lparr>brEvds := foldl (\<lambda>c e. AList.update (ToHex (eHash e)) e c) (brEvds br) evds\<rparr>"

definition storeBlk :: "heap \<Rightarrow> addr \<Rightarrow> branch \<Rightarrow> branch" where
  "storeBlk h a br = br\<lparr>brBlocks := AList.update (ToHex (bkHash (h ! a))) a (brBlocks br)\<rparr>"

partial_function (option) newBranchLoop :: "heap \<Rightarrow> addr \<Rightarrow> branch \<Rightarrow> branch option" where
  "newBranchLoop h iter result =
     (let result' = storeEvds (bEvds (bkBlock (h ! iter))) (storeBlk h iter result)
      in case bkBackward (h ! iter) of None \<Rightarrow> Some result' | Some back \<Rightarrow> newBranchLoop h back result')"

definition newBranch :: "heap \<Rightarrow> addr \<Rightarrow> branch option" where
  "newBranch h begin =
     newBranchLoop h begin \<lparr>brHead = begin, brTail = begin, brEvds = [], brBlocks = []\<rparr>"

partial_function (option) removeLoop :: "addr \<Rightarrow> heap \<Rightarrow> heap option" where
  "removeLoop iter h =
     (case removeBlk iter h of
        None \<Rightarrow> None
      | Some (r, h') \<Rightarrow> (case r of Inl _ \<Rightarrow> Some h' | Inr iter' \<Rightarrow> removeLoop iter' h'))"

definition branchRemove :: "branch \<Rightarrow> heap \<Rightarrow> heap option" where
  "branchRemove b h = removeLoop (brHead b) h"

text \<open>\<open>add\<close> with the allocation of the new block.\<close>

definition branchAdd :: "blk \<Rightarrow> heap \<Rightarrow> branch \<Rightarrow> heap \<times> branch" where
  "branchAdd newBlock h b =
     (let a = length h;
          h1 = h @ [newBlock];
          h2 = addFordward (brHead b) a h1;
          h3 = setBackward a (brHead b) h2;
          b1 = storeBlk h3 a (b\<lparr>brHead := a\<rparr>)
      in (h3, storeEvds (bEvds (bkBlock newBlock)) b1))"

definition branchHash :: "heap \<Rightarrow> branch \<Rightarrow> bytes" where
  "branchHash h b = bkHash (h ! brHead b)"

definition branchHeight :: "heap \<Rightarrow> branch \<Rightarrow> u64" where
  "branchHeight h b = bkHeight (h ! brHead b)"

text \<open>
  \<open>time.Unix(s, ns)\<close> counts its seconds from year 1 in an \<open>int64\<close>; \<open>Sub\<close> saturates when the
  difference in nanoseconds does not fit a \<open>Duration\<close>.
\<close>

definition internalSec :: "i64 \<Rightarrow> int" where
  "internalSec s = sint (s + 62135596800)"

definition timeBefore :: "i64 \<times> int \<Rightarrow> i64 \<times> int \<Rightarrow> bool" where
  "timeBefore t u \<longleftrightarrow>
     internalSec (fst t) < internalSec (fst u) \<or> internalSec (fst t) = internalSec (fst u) \<and> snd t < snd u"

definition timeSub :: "i64 \<times> int \<Rightarrow> i64 \<times> int \<Rightarrow> int" where
  "timeSub t u =
     (let d = sint (fst t - fst u) * 1000000000 + (snd t - snd u)
      in if - (2 ^ 63) \<le> d \<and> d < 2 ^ 63 then d
         else if timeBefore t u then - (2 ^ 63) else 2 ^ 63 - 1)"

text \<open>The loop that goes back \<open>ReferenceBlocks\<close> blocks; a missing one is fatal.\<close>

fun goBack :: "heap \<Rightarrow> nat \<Rightarrow> addr \<Rightarrow> addr option" where
  "goBack h 0 preBlock = Some preBlock"
| "goBack h (Suc n) preBlock =
     (case bkBackward (h ! preBlock) of None \<Rightarrow> None | Some back \<Rightarrow> goBack h n back)"

definition nextBlockTarget :: "mining_params \<Rightarrow> heap \<Rightarrow> branch \<Rightarrow> i64 \<Rightarrow> u32 option" where
  "nextBlockTarget p h b newBlockTime =
     (let head = h ! brHead b in
      if bkHeight head \<le> word_of_nat ReferenceBlocks + 1 then Some (BlockTargetLimit p)
      else do {
        preBlock \<leftarrow> goBack h ReferenceBlocks (brHead b);
        let newTime = (newBlockTime, 0);
        let headTime = (bkTime head, 0);
        let tailBlockTime = (bkTime (h ! preBlock), 0);
        Some (CalculateTarget p (bkTarget head) (timeSub newTime headTime) (timeSub headTime tailBlockTime))
      })"

definition branchGetBlock :: "branch \<Rightarrow> bytes \<Rightarrow> addr option" where
  "branchGetBlock b hash = map_of (brBlocks b) (ToHex hash)"

definition branchGetEvidence :: "branch \<Rightarrow> bytes \<Rightarrow> Evidence option" where
  "branchGetEvidence b hash = map_of (brEvds b) (ToHex hash)"

datatype chain_error =
    StructVerify cp_error | FutureTime | PastTime | MismatchTarget u32 u32 | MismatchLastHash
  | PowCheckFailed | EvidenceVerifyFailed cp_error | EvidencePowFailed bytes
  | ErrEvidenceAlreadyExist bytes | MismatchMerkleRoot
  | BlockTooOld u64 u64 | DuplicatedNewBlock | NotFoundBranch bytes
  | ErrAlreadyUpToDate bytes | ErrFlushingCache bytes | ErrHashNotFound bytes
  | ErrInvalidBlockRange u64 u64 | ErrDb db_error | ErrHex hex_error | ErrUnmarshal io_error
  | BrokenDbData u64

definition powCheck :: "nat \<Rightarrow> nat \<Rightarrow> bool" where
  "powCheck limit pow \<longleftrightarrow> pow < limit"

definition verifyEvidence ::
  "('sig, 'key, 'priv, 's) chain_env \<Rightarrow> 's \<Rightarrow> branch \<Rightarrow> Evidence \<Rightarrow> chain_error + unit" where
  "verifyEvidence env db b e =
     attempt (wrapErr EvidenceVerifyFailed (EvidenceVerify (envEc env) (envHash env) e)) (\<lambda>_.
     if \<not> powCheck (EvidenceDifficultyLimit (envParams env)) (EvidenceGetPow (envHash env) e)
       then Inl (EvidencePowFailed (eHash e))
     else if branchGetEvidence b (eHash e) \<noteq> None then Inl (ErrEvidenceAlreadyExist (eHash e))
     else if HasEvidence (envBdg env) (eHash e) db then Inl (ErrEvidenceAlreadyExist (eHash e))
     else Inr ())"

text \<open>
  \<open>now\<close> is \<open>time.Now()\<close>.  The error of \<open>ComputeRoot\<close> is dropped; a root that could not be
  computed is nil, which equals no root of the header but an empty one.
\<close>

definition verifyBlock ::
  "('sig, 'key, 'priv, 's) chain_env \<Rightarrow> i64 \<times> int \<Rightarrow> 's \<Rightarrow> heap \<Rightarrow> branch \<Rightarrow> Block \<Rightarrow> (chain_error + unit) option" where
  "verifyBlock env now db h b cb =
     (case wrapErr StructVerify (BlockVerify (envEc env) (envHash env) cb) of
        Inl err \<Rightarrow> Some (Inl err)
      | Inr _ \<Rightarrow>
        (let hdr = bHeader cb; t = (bhTime hdr, 0) in
         if timeSub t now > 3 * 1000000000 then Some (Inl FutureTime)
         else if timeBefore t (bkTime (h ! brHead b), 0) then Some (Inl PastTime)
         else do {
           expectedTarget \<leftarrow> nextBlockTarget (envParams env) h b (bhTime hdr);
           Some (
             if bhTarget hdr \<noteq> expectedTarget then Inl (MismatchTarget (bhTarget hdr) expectedTarget)
             else if branchHash h b \<noteq> bhLastHash hdr then Inl MismatchLastHash
             else if \<not> powCheck (TargetToDiff expectedTarget) (HeaderGetPow (envHash env) hdr)
               then Inl PowCheckFailed
             else if IsEmptyEvidenceRoot hdr then Inr ()
             else attempt (checkAll (verifyEvidence env db b) (bEvds cb)) (\<lambda>_.
               let root = (case ComputeRoot (envHash env)
                     (map (EvidenceGetSerializedHash (envHash env)) (bEvds cb)) of
                     Inl _ \<Rightarrow> [] | Inr r \<Rightarrow> r)
               in if root \<noteq> bhEvidenceRoot hdr then Inl MismatchMerkleRoot else Inr ()))
         }))"

definition removeFromCache :: "heap \<Rightarrow> addr \<Rightarrow> branch \<Rightarrow> branch" where
  "removeFromCache h rmBlock b =
     b\<lparr>brBlocks := AList.delete (ToHex (bkHash (h ! rmBlock))) (brBlocks b),
       brEvds := foldl (\<lambda>c evd. AList.delete (ToHex (eHash evd)) c) (brEvds b) (bEvds (bkBlock (h ! rmBlock)))\<rparr>"

end
