(* ===== verification/Chain.thy ===== *)
theory Chain
  imports Branch
begin

text \<open>
  \<open>src/core/blockchain/chain.go\<close>: the tree of recent blocks with its branches, fork choice,
  synchronisation answers, and the flushing of old blocks to the database.  Branches are shared
  through pointers (\<open>longestBranch\<close> is one of \<open>branches\<close>), so they live in a store of their own
  and are named by their index in it.  As in theory \<open>Branch\<close>, \<open>None\<close> is the end of the program.
\<close>

section \<open>State\<close>

definition syncMaxBlocks :: u64 where "syncMaxBlocks = 128"

record 's chain =
  cHeap :: heap
  cStore :: "branch list"
  cBranches :: "nat list"
  cLongest :: nat
  cOldest :: addr
  cLastHeight :: u64
  cDb :: 's
  cNotify :: bool
  cPending :: "Block list list"

abbreviation br :: "'s chain \<Rightarrow> nat \<Rightarrow> branch" where
  "br c i \<equiv> cStore c ! i"

abbreviation longest :: "'s chain \<Rightarrow> branch" where
  "longest c \<equiv> br c (cLongest c)"

definition heightOf :: "'s chain \<Rightarrow> nat \<Rightarrow> u64" where
  "heightOf c i = branchHeight (cHeap c) (br c i)"

section \<open>Initialisation\<close>

text \<open>\<open>NewChain\<close>: no branch yet; \<open>longestBranch\<close> and \<open>oldestBlock\<close> are nil until \<open>initFirstBranch\<close>.\<close>

definition NewChain :: "'s \<Rightarrow> 's chain" where
  "NewChain db =
     \<lparr>cHeap = [], cStore = [], cBranches = [], cLongest = 0, cOldest = 0, cLastHeight = 0,
      cDb = db, cNotify = False, cPending = []\<rparr>"

definition initFirstBranch :: "blk \<Rightarrow> 's chain \<Rightarrow> (nat \<times> 's chain) option" where
  "initFirstBranch b c = do {
     let a = length (cHeap c);
     let h = cHeap c @ [b];
     bc \<leftarrow> newBranch h a;
     let i = length (cStore c);
     Some (i, c\<lparr>cHeap := h, cStore := cStore c @ [bc], cOldest := a, cBranches := cBranches c @ [i],
       cLongest := i, cLastHeight := branchHeight h bc\<rparr>)
   }"

definition initGenesis ::
  "('sig, 'key, 'priv, 's) chain_env \<Rightarrow> string \<Rightarrow> 's chain \<Rightarrow> (chain_error + 's chain) option" where
  "initGenesis env genesis c =
     (case FromHex genesis of
        Inl err \<Rightarrow> Some (Inl (ErrHex err))
      | Inr genesisB \<Rightarrow>
        (case UnmarshalBlock genesisB of
           Inl err \<Rightarrow> Some (Inl (ErrUnmarshal err))
         | Inr (cb, _) \<Rightarrow>
           (case PutGenesis (envBdg env) (envHash env) cb (cDb c) of
              Inl err \<Rightarrow> Some (Inl (ErrDb err))
            | Inr db \<Rightarrow> do {
                (_, c') \<leftarrow> initFirstBranch (newBlk (envHash env) cb 1 True) (c\<lparr>cDb := db\<rparr>);
                Some (Inr c')
              })))"

text \<open>The loop \<open>for height := beginHeight; height <= lastHeight; height++\<close> over the database.\<close>

partial_function (option) loadLoop ::
  "('sig, 'key, 'priv, 's) chain_env \<Rightarrow> 's \<Rightarrow> u64 \<Rightarrow> u64 \<Rightarrow> blk list \<Rightarrow> (chain_error + blk list) option" where
  "loadLoop env db height lastHeight blocks =
     (if height \<le> lastHeight then
        (case GetBlockViaHeight (envBdg env) height db of
           Inl _ \<Rightarrow> Some (Inl (BrokenDbData height))
         | Inr (cb, _) \<Rightarrow>
             loadLoop env db (height + 1) lastHeight (blocks @ [newBlk (envHash env) cb height True]))
      else Some (Inr blocks))"

definition addTo :: "nat \<Rightarrow> blk \<Rightarrow> 's chain \<Rightarrow> 's chain" where
  "addTo i b c =
     (case branchAdd b (cHeap c) (br c i) of (h, bc) \<Rightarrow> c\<lparr>cHeap := h, cStore := (cStore c)[i := bc]\<rparr>)"

definition initFromDB :: "('sig, 'key, 'priv, 's) chain_env \<Rightarrow> 's chain \<Rightarrow> (chain_error + 's chain) option" where
  "initFromDB env c =
     (case GetLatestHeight (envBdg env) (cDb c) of
        Inl err \<Rightarrow> Some (Inl (ErrDb err))
      | Inr lastHeight \<Rightarrow>
        (let beginHeight = (if lastHeight > word_of_nat ReferenceBlocks
               then lastHeight - word_of_nat ReferenceBlocks else 1)
         in do {
           r \<leftarrow> loadLoop env (cDb c) beginHeight lastHeight [];
           (case r of
              Inl err \<Rightarrow> Some (Inl err)
            | Inr [] \<Rightarrow> None
            | Inr (b # blocks) \<Rightarrow> do {
                (i, c') \<leftarrow> initFirstBranch b c;
                Some (Inr (fold (addTo i) blocks c'))
              })
         }))"

text \<open>\<open>initMiningParams\<close> sets the parameters of the environment.\<close>

definition Init ::
  "('sig, 'key, 'priv, 's) chain_env \<Rightarrow> ChainConfig \<Rightarrow> 's chain \<Rightarrow>
   (('sig, 'key, 'priv, 's) chain_env \<times> (chain_error + 's chain)) option" where
  "Init env0 conf c =
     (let env = env0\<lparr>envParams := initMiningParams conf\<rparr> in do {
        has \<leftarrow> HasGenesis (envBdg env) (cDb c);
        r \<leftarrow> (if \<not> has then initGenesis env (cfgGenesis conf) c else initFromDB env c);
        Some (env, r)
      })"

section \<open>Adding blocks\<close>

definition getBranch :: "'s chain \<Rightarrow> bytes \<Rightarrow> nat option" where
  "getBranch c hash = find (\<lambda>i. branchHash (cHeap c) (br c i) = hash) (cBranches c)"

fun createBranchLoop ::
  "hasher \<Rightarrow> Block \<Rightarrow> nat list \<Rightarrow> 's chain \<Rightarrow> (chain_error + (nat \<times> 's chain)) option" where
  "createBranchLoop Hash newBlock [] c = Some (Inl (NotFoundBranch (bhLastHash (bHeader newBlock))))"
| "createBranchLoop Hash newBlock (i # is) c =
     (case branchGetBlock (br c i) (bhLastHash (bHeader newBlock)) of
        None \<Rightarrow> createBranchLoop Hash newBlock is c
      | Some matchBlock \<Rightarrow>
          if heightOf c i - bkHeight (cHeap c ! matchBlock) > word_of_nat alpha
            then Some (Inl (BlockTooOld (heightOf c i) (bkHeight (cHeap c ! matchBlock))))
          else if isBackwardOf Hash (cHeap c) matchBlock newBlock then Some (Inl DuplicatedNewBlock)
          else do {
            result \<leftarrow> newBranch (cHeap c) matchBlock;
            let j = length (cStore c);
            Some (Inr (j, c\<lparr>cStore := cStore c @ [result], cBranches := cBranches c @ [j]\<rparr>))
          })"

definition createBranch :: "hasher \<Rightarrow> Block \<Rightarrow> 's chain \<Rightarrow> (chain_error + (nat \<times> 's chain)) option" where
  "createBranch Hash newBlock c = createBranchLoop Hash newBlock (cBranches c) c"

text \<open>
  \<open>coin k\<close> is the outcome of \<open>time.Now().Unix() % 2 == 0\<close> if it is read for the \<open>k\<close>-th branch.
\<close>

fun longestLoop :: "'s chain \<Rightarrow> (nat \<Rightarrow> bool) \<Rightarrow> nat list \<Rightarrow> nat option \<Rightarrow> u64 \<Rightarrow> nat option" where
  "longestLoop c coin [] best height = best"
| "longestLoop c coin (i # is) best height =
     (if heightOf c i > height then longestLoop c (\<lambda>k. coin (Suc k)) is (Some i) (heightOf c i)
      else if heightOf c i = height
        then longestLoop c (\<lambda>k. coin (Suc k)) is (if coin 0 then Some i else best) height
      else longestLoop c (\<lambda>k. coin (Suc k)) is best height)"

definition getLongestBranch :: "(nat \<Rightarrow> bool) \<Rightarrow> 's chain \<Rightarrow> nat option" where
  "getLongestBranch coin c = longestLoop c coin (cBranches c) None 0"

text \<open>\<open>PassiveChangeNotify\<close> has room for one element; the send has a \<open>default\<close> branch.\<close>

definition notifyCheck :: "(nat \<Rightarrow> bool) \<Rightarrow> 's chain \<Rightarrow> 's chain option" where
  "notifyCheck coin c = do {
     i \<leftarrow> getLongestBranch coin c;
     Some (if heightOf c i > cLastHeight c
           then c\<lparr>cLongest := i, cLastHeight := heightOf c i, cNotify := True\<rparr> else c)
   }"

text \<open>
  The loop of \<open>addBlocks\<close>; \<open>clock k\<close> is the time read for the \<open>k\<close>-th block.  The flag tells
  whether the loop ran to its end.
\<close>

fun addLoop ::
  "('sig, 'key, 'priv, 's) chain_env \<Rightarrow> (nat \<Rightarrow> i64 \<times> int) \<Rightarrow> nat \<Rightarrow> Block list \<Rightarrow> 's chain \<Rightarrow> (bool \<times> 's chain) option" where
  "addLoop env clock i [] c = Some (True, c)"
| "addLoop env clock i (cb # blocks) c =
     (case verifyBlock env (clock 0) (cDb c) (cHeap c) (br c i) cb of
        None \<Rightarrow> None
      | Some (Inl _) \<Rightarrow> Some (False, c)
      | Some (Inr _) \<Rightarrow>
          addLoop env (\<lambda>k. clock (Suc k)) i blocks (addTo i (newBlk (envHash env) cb (heightOf c i + 1) False) c))"

definition addBlocks ::
  "('sig, 'key, 'priv, 's) chain_env \<Rightarrow> (nat \<Rightarrow> i64 \<times> int) \<Rightarrow> (nat \<Rightarrow> bool) \<Rightarrow> Block list \<Rightarrow> bool \<Rightarrow> 's chain \<Rightarrow> 's chain option" where
  "addBlocks env clock coin blocks local c =
     (case blocks of
        [] \<Rightarrow> Some c
      | b0 # _ \<Rightarrow> do {
          found \<leftarrow> (case getBranch c (bhLastHash (bHeader b0)) of
             Some i \<Rightarrow> Some (Inr (i, c))
           | None \<Rightarrow> createBranch (envHash env) b0 c);
          (case found of
             Inl _ \<Rightarrow> Some c
           | Inr (i, c1) \<Rightarrow> do {
               (ok, c2) \<leftarrow> addLoop env clock i blocks c1;
               (if ok \<and> \<not> local then notifyCheck coin c2 else Some c2)
             })
        })"

text \<open>\<open>AddBlocks\<close>: blocks of the network wait in a channel of 16 places; a full channel blocks the caller.\<close>

definition AddBlocks ::
  "('sig, 'key, 'priv, 's) chain_env \<Rightarrow> (nat \<Rightarrow> i64 \<times> int) \<Rightarrow> (nat \<Rightarrow> bool) \<Rightarrow> Block list \<Rightarrow> bool \<Rightarrow> 's chain \<Rightarrow> 's chain option" where
  "AddBlocks env clock coin blocks local c =
     (if local then addBlocks env clock coin blocks local c
      else if length (cPending c) < 16 then Some (c\<lparr>cPending := cPending c @ [blocks]\<rparr>) else None)"

section \<open>Queries\<close>

definition NextBlockTarget :: "('sig, 'key, 'priv, 's) chain_env \<Rightarrow> 's chain \<Rightarrow> i64 \<Rightarrow> u32 option" where
  "NextBlockTarget env c newBlockTime = nextBlockTarget (envParams env) (cHeap c) (longest c) newBlockTime"

definition LatestBlockHash :: "'s chain \<Rightarrow> bytes" where
  "LatestBlockHash c = branchHash (cHeap c) (longest c)"

partial_function (option) syncHashLoop :: "heap \<Rightarrow> bytes \<Rightarrow> addr option \<Rightarrow> u32 \<Rightarrow> (chain_error + u32) option" where
  "syncHashLoop h base b hdiff =
     (case b of
        None \<Rightarrow> Some (Inl (ErrFlushingCache base))
      | Some a \<Rightarrow>
          if bkHash (h ! a) = base then Some (Inr hdiff)
          else syncHashLoop h base (bkBackward (h ! a)) (hdiff + 1))"

definition GetSyncHash ::
  "('sig, 'key, 'priv, 's) chain_env \<Rightarrow> 's chain \<Rightarrow> bytes \<Rightarrow> (chain_error + bytes \<times> u32) option" where
  "GetSyncHash env c base =
     (case branchGetBlock (longest c) base of
        Some _ \<Rightarrow>
          (if LatestBlockHash c = base then Some (Inl (ErrAlreadyUpToDate base))
           else do {
             r \<leftarrow> syncHashLoop (cHeap c) base (Some (brHead (longest c))) 0;
             Some (attempt r (\<lambda>hdiff. Inr (LatestBlockHash c, hdiff)))
           })
      | None \<Rightarrow> Some (
          case GetHeaderViaHash (envBdg env) base (cDb c) of
            Inl _ \<Rightarrow> Inl (ErrHashNotFound base)
          | Inr (_, baseHeight) \<Rightarrow>
              attempt (wrapErr ErrDb (GetLatestHeader (envBdg env) (cDb c))) (\<lambda>(_, dbLatestHeight, dbLatestHash).
                if dbLatestHeight - baseHeight \<ge> syncMaxBlocks
                then Inr (case GetHash (envBdg env) (baseHeight + syncMaxBlocks) (cDb c) of
                            Inl _ \<Rightarrow> [] | Inr respHash \<Rightarrow> respHash, ucast syncMaxBlocks)
                else Inr (dbLatestHash, ucast (dbLatestHeight - baseHeight)))))"

text \<open>The height of \<open>iter\<close> is read before \<open>iter\<close> is compared with nil.\<close>

partial_function (option) syncBlocksLoop :: "heap \<Rightarrow> bool \<Rightarrow> u64 \<Rightarrow> addr option \<Rightarrow> Block list \<Rightarrow> Block list option" where
  "syncBlocksLoop h onlyHeader baseHeight iter result =
     (case iter of
        None \<Rightarrow> None
      | Some a \<Rightarrow>
          if bkHeight (h ! a) = baseHeight then Some result
          else syncBlocksLoop h onlyHeader baseHeight (bkBackward (h ! a))
                 (BlockShallowCopy (bkBlock (h ! a)) onlyHeader # result))"

partial_function (option) dbBlocksLoop ::
  "'s badger \<Rightarrow> bool \<Rightarrow> u64 \<Rightarrow> u64 \<Rightarrow> 's \<Rightarrow> Block list \<Rightarrow> Block list option" where
  "dbBlocksLoop bdg onlyHeader i endHeight db result =
     (if i \<le> endHeight then
        (case GetBlockViaHeight bdg i db of
           Inl _ \<Rightarrow> None
         | Inr (sBlock, _) \<Rightarrow>
             dbBlocksLoop bdg onlyHeader (i + 1) endHeight db (result @ [BlockShallowCopy sBlock onlyHeader]))
      else Some result)"

definition getSyncBlocksDb ::
  "('sig, 'key, 'priv, 's) chain_env \<Rightarrow> 's chain \<Rightarrow> bytes \<Rightarrow> bytes \<Rightarrow> bool \<Rightarrow> (chain_error + Block list) option" where
  "getSyncBlocksDb env c base end' onlyHeader =
     (let sBase = GetBlockViaHash (envBdg env) base (cDb c); sEnd = GetBlockViaHash (envBdg env) end' (cDb c) in
      case (sBase, sEnd) of
        (Inr (_, baseHeight), Inr (_, endHeight)) \<Rightarrow>
          if baseHeight < endHeight
          then map_option Inr (dbBlocksLoop (envBdg env) onlyHeader (baseHeight + 1) endHeight (cDb c) [])
          else if branchGetBlock (longest c) end' \<noteq> None then Some (Inl (ErrFlushingCache base))
          else Some (Inl (ErrHashNotFound base))
      | (Inr _, Inl _) \<Rightarrow>
          if branchGetBlock (longest c) end' \<noteq> None then Some (Inl (ErrFlushingCache base))
          else Some (Inl (ErrHashNotFound base))
      | (Inl _, _) \<Rightarrow> Some (Inl (ErrHashNotFound base)))"

definition GetSyncBlocks ::
  "('sig, 'key, 'priv, 's) chain_env \<Rightarrow> 's chain \<Rightarrow> bytes \<Rightarrow> bytes \<Rightarrow> bool \<Rightarrow> (chain_error + Block list) option" where
  "GetSyncBlocks env c base end' onlyHeader =
     (let h = cHeap c in
      case (branchGetBlock (longest c) base, branchGetBlock (longest c) end') of
        (Some baseBlock, Some endBlock) \<Rightarrow>
          if bkHeight (h ! baseBlock) < bkHeight (h ! endBlock)
          then map_option Inr (syncBlocksLoop h onlyHeader (bkHeight (h ! baseBlock)) (Some endBlock) [])
          else Some (Inl (ErrInvalidBlockRange (bkHeight (h ! baseBlock)) (bkHeight (h ! endBlock))))
      | _ \<Rightarrow> getSyncBlocksDb env c base end' onlyHeader)"

definition GetSyncBlockHash :: "'s chain \<Rightarrow> bytes list" where
  "GetSyncBlockHash c = map (\<lambda>i. branchHash (cHeap c) (br c i)) (cBranches c)"

definition VerifyEvidence :: "('sig, 'key, 'priv, 's) chain_env \<Rightarrow> 's chain \<Rightarrow> Evidence \<Rightarrow> chain_error + unit" where
  "VerifyEvidence env c e = verifyEvidence env (cDb c) (longest c) e"

partial_function (option) unstoredLoop :: "heap \<Rightarrow> addr option \<Rightarrow> (Block \<times> u64) list \<Rightarrow> (Block \<times> u64) list option" where
  "unstoredLoop h iter blocks =
     (case iter of
        None \<Rightarrow> Some blocks
      | Some a \<Rightarrow>
          if isStored (h ! a) then Some blocks
          else unstoredLoop h (bkBackward (h ! a)) (blocks @ [(bkBlock (h ! a), bkHeight (h ! a))]))"

definition GetUnstoredBlocks :: "'s chain \<Rightarrow> (Block \<times> u64) list option" where
  "GetUnstoredBlocks c = unstoredLoop (cHeap c) (Some (brHead (longest c))) []"

section \<open>Maintenance\<close>

fun pruneLoop :: "nat list \<Rightarrow> 's chain \<Rightarrow> nat list \<Rightarrow> (nat list \<times> 's chain) option" where
  "pruneLoop [] c reserved = Some (reserved, c)"
| "pruneLoop (i # is) c reserved =
     (if heightOf c (cLongest c) - heightOf c i > word_of_nat alpha
      then do {
        h \<leftarrow> branchRemove (br c i) (cHeap c);
        pruneLoop is (c\<lparr>cHeap := h\<rparr>) reserved
      }
      else pruneLoop is c (reserved @ [i]))"

definition storeOld :: "('sig, 'key, 'priv, 's) chain_env \<Rightarrow> addr \<Rightarrow> 's chain \<Rightarrow> 's chain option" where
  "storeOld env a c =
     (let b = cHeap c ! a in
      if isStored b then Some c
      else case PutBlock (envBdg env) (envHash env) (bkBlock b) (bkHeight b) (cDb c) of
        Inl _ \<Rightarrow> None
      | Inr db \<Rightarrow> Some (c\<lparr>cDb := db, cHeap := (cHeap c)[a := b\<lparr>bkStored := True\<rparr>]\<rparr>))"

definition disconnect :: "addr \<Rightarrow> addr \<Rightarrow> 's chain \<Rightarrow> 's chain" where
  "disconnect removing iter c =
     (let h = removeBackward iter (removeForward removing iter (cHeap c))
      in c\<lparr>cHeap := h,
           cStore := foldl (\<lambda>st i. st[i := removeFromCache h removing (st ! i)]) (cStore c) (cBranches c),
           cOldest := iter\<rparr>)"

partial_function (option) flushLoop :: "('sig, 'key, 'priv, 's) chain_env \<Rightarrow> addr \<Rightarrow> 's chain \<Rightarrow> 's chain option" where
  "flushLoop env iter c =
     (if forwardNum (cHeap c) iter \<noteq> 1 then Some c
      else if heightOf c (cLongest c) - bkHeight (cHeap c ! iter) > word_of_nat alpha
      then do {
        c1 \<leftarrow> storeOld env iter c;
        let next = snd (last (bkFordward (cHeap c1 ! iter)));
        let c2 = (if heightOf c1 (cLongest c1) - bkHeight (cHeap c1 ! next) > syncMaxBlocks
                  then disconnect iter next c1 else c1);
        flushLoop env next c2
      }
      else Some c)"

definition maintain :: "('sig, 'key, 'priv, 's) chain_env \<Rightarrow> 's chain \<Rightarrow> 's chain option" where
  "maintain env c = do {
     (reserved, c1) \<leftarrow> pruneLoop (cBranches c) c [];
     let c2 = c1\<lparr>cBranches := reserved\<rparr>;
     flushLoop env (cOldest c2) c2
   }"

text \<open>One turn of \<open>loop\<close>: the maintenance ticker, or blocks from the channel.\<close>

inductive chain_step :: "('sig, 'key, 'priv, 's) chain_env \<Rightarrow> 's chain \<Rightarrow> 's chain option \<Rightarrow> bool" for env where
  step_maintain: "chain_step env c (maintain env c)"
| step_pending: "cPending c = blocks # rest \<Longrightarrow>
    chain_step env c (addBlocks env clock coin blocks False (c\<lparr>cPending := rest\<rparr>))"
| step_add: "chain_step env c (AddBlocks env clock coin blocks local c)"
| step_notified: "chain_step env c (Some (c\<lparr>cNotify := False\<rparr>))"

end
