(* ===== verification/ChainFacts.thy ===== *)
theory ChainFacts
  imports Chain
begin

text \<open>
  The chain in memory: which links between blocks can exist, that no evidence is recorded twice
  along a branch, fork choice, and the answers to synchronising peers.  The invariants hold in
  every state the program reaches from its start, whatever blocks arrive and whenever maintenance
  runs.
\<close>

section \<open>What the chain relies on in the database\<close>

locale evidence_index =
  fixes bdg :: "'s badger"
  assumes put_keeps: "PutBlock bdg Hash b h s = Inr s' \<Longrightarrow> HasEvidence bdg x s \<Longrightarrow> HasEvidence bdg x s'"
    and put_indexes: "PutBlock bdg Hash b h s = Inr s' \<Longrightarrow> \<not> IsEmptyEvidenceRoot (bHeader b) \<Longrightarrow>
      e \<in> set (bEvds b) \<Longrightarrow> HasEvidence bdg (eHash e) s'"
    and genesis_indexes: "PutGenesis bdg Hash b s = Inr s' \<Longrightarrow> \<not> IsEmptyEvidenceRoot (bHeader b) \<Longrightarrow>
      e \<in> set (bEvds b) \<Longrightarrow> HasEvidence bdg (eHash e) s'"

definition keys_grow :: "('k \<rightharpoonup> 'v) \<Rightarrow> ('k \<rightharpoonup> 'v) \<Rightarrow> bool" where
  "keys_grow m m' \<longleftrightarrow> (\<forall>k. m k \<noteq> None \<longrightarrow> m' k \<noteq> None)"

lemma keys_grow_refl: "keys_grow m m"
  by (simp add: keys_grow_def)

lemma keys_grow_trans: "keys_grow m m' \<Longrightarrow> keys_grow m' m'' \<Longrightarrow> keys_grow m m''"
  by (simp add: keys_grow_def)

lemma keys_growD: "keys_grow m m' \<Longrightarrow> m k \<noteq> None \<Longrightarrow> m' k \<noteq> None"
  by (simp add: keys_grow_def)

definition indexed :: "(bytes \<rightharpoonup> bytes) \<Rightarrow> Evidence list \<Rightarrow> bool" where
  "indexed m evds \<longleftrightarrow> (\<forall>e \<in> set evds. m (getEvidenceHeightKey (eHash e)) \<noteq> None)"

lemma indexed_grow: "indexed m evds \<Longrightarrow> keys_grow m m' \<Longrightarrow> indexed m' evds"
  by (simp add: indexed_def keys_grow_def)

context kv_store
begin

lemma HasEvidence_key: "HasEvidence bdg x s \<longleftrightarrow> view s (getEvidenceHeightKey x) \<noteq> None"
  by (auto simp: HasEvidence_def get_view split: option.splits)

lemma set_grow: "txSet bdg k v s = Inr s' \<Longrightarrow> keys_grow (view s) (view s')"
  by (simp add: set_view keys_grow_def)

lemma set_key: "txSet bdg k v s = Inr s' \<Longrightarrow> view s' k \<noteq> None"
  by (simp add: set_view)

lemma putEvds_grow:
  assumes "putEvds bdg evds h s = Inr s'"
  shows "keys_grow (view s) (view s') \<and> indexed (view s') evds"
  using assms
proof (induction evds arbitrary: s)
  case (Cons e evds)
  from Cons.prems obtain s1 s2 s3 where
    "txSet bdg (getEvidenceKey h (eHash e)) (MarshalEvidence e) s = Inr s1"
    and idx: "txSet bdg (getEvidenceHeightKey (eHash e)) (hbyte h) s1 = Inr s2"
    and "txSet bdg (getAccountEvidenceKeyPrefix (ePubKey e) @ eHash e) (hbyte h) s2 = Inr s3"
    and rest: "putEvds bdg evds h s3 = Inr s'"
    by (auto simp: attempt_eq_Inr updateAccountEvidenceTX_def)
  then have g: "keys_grow (view s) (view s1)" "keys_grow (view s1) (view s2)" "keys_grow (view s2) (view s3)"
    using set_grow by blast+
  have IH: "keys_grow (view s3) (view s')" "indexed (view s') evds" using Cons.IH [OF rest] by auto
  have "view s' (getEvidenceHeightKey (eHash e)) \<noteq> None"
    using keys_growD [OF keys_grow_trans [OF g(3) IH(1)] set_key [OF idx]] .
  moreover have "keys_grow (view s) (view s')" using g IH(1) by (meson keys_grow_trans)
  ultimately show ?case using IH(2) by (simp add: indexed_def)
qed (simp add: keys_grow_refl indexed_def)

lemma updateScoreTX_grow: "updateScoreTX bdg p s = Inr s' \<Longrightarrow> keys_grow (view s) (view s')"
  by (drule updateScoreTX_view) (simp add: keys_grow_def)

lemma putBlockTX_grow:
  assumes "putBlockTX bdg Hash b h s = Inr s'"
  shows "keys_grow (view s) (view s') \<and> (IsEmptyEvidenceRoot (bHeader b) \<or> indexed (view s') (bEvds b))"
proof -
  from assms obtain s1 hdr s2 s3 s4 where
    body: "(if \<not> IsEmptyEvidenceRoot (bHeader b) then putEvidenceTX bdg (BlockHash Hash b) (bEvds b) h s = Inr s1 else s1 = s)"
    and "txSet bdg (getHeaderKey h (BlockHash Hash b)) (StorageMarshalBlockHeader hdr) s1 = Inr s2"
      "txSet bdg (getHashKey h) (BlockHash Hash b) s2 = Inr s3"
      "txSet bdg (getHeaderHeightKey (BlockHash Hash b)) (hbyte h) s3 = Inr s4"
      "updateScoreTX bdg (bhMiner (bHeader b)) s4 = Inr s'"
    by (auto simp: putBlockTX_def Let_def attempt_eq_Inr split: if_splits)
  then have g: "keys_grow (view s1) (view s')"
    by (meson keys_grow_trans set_grow updateScoreTX_grow)
  show ?thesis
  proof (cases "IsEmptyEvidenceRoot (bHeader b)")
    case False
    with body obtain t where t: "putEvds bdg (bEvds b) h s = Inr t" and "keys_grow (view t) (view s1)"
      by (auto simp: putEvidenceTX_def attempt_eq_Inr intro: set_grow)
    with g have "keys_grow (view t) (view s')" by (meson keys_grow_trans)
    with putEvds_grow [OF t] show ?thesis by (meson keys_grow_trans indexed_grow)
  qed (use body g in simp)
qed

lemma put_grow:
  assumes "putBlockTX bdg Hash b h s = Inr s1" "updateLatestHeightTX bdg h s1 = Inr s2" "view s' = view s2"
  shows "keys_grow (view s) (view s')" and "IsEmptyEvidenceRoot (bHeader b) \<or> indexed (view s') (bEvds b)"
proof -
  have "keys_grow (view s1) (view s')" using assms(2,3) set_grow by (auto simp: updateLatestHeightTX_def)
  with putBlockTX_grow [OF assms(1)] show "keys_grow (view s) (view s')"
    "IsEmptyEvidenceRoot (bHeader b) \<or> indexed (view s') (bEvds b)"
    by (meson keys_grow_trans indexed_grow)+
qed

end

text \<open>A key-value store with the laws of theory \<open>Database\<close> is such an index.\<close>

sublocale kv_store \<subseteq> index: evidence_index bdg
proof
  fix Hash b h x s s' and e :: Evidence
  assume "PutBlock bdg Hash b h s = Inr s'"
  then have "dbUpdate bdg (\<lambda>tx. attempt (putBlockTX bdg Hash b h tx) (updateLatestHeightTX bdg h)) s = Inr s'"
    by (auto simp: PutBlock_def attempt_eq_Inr Let_def split: if_splits)
  from dbUpdate_Inr [OF this] obtain s1 s2 where
    put: "putBlockTX bdg Hash b h s = Inr s1" "updateLatestHeightTX bdg h s1 = Inr s2" "view s' = view s2"
    by (auto simp: attempt_eq_Inr)
  show "HasEvidence bdg x s \<Longrightarrow> HasEvidence bdg x s'"
    using put_grow(1) [OF put] by (simp add: HasEvidence_key keys_growD)
  show "\<not> IsEmptyEvidenceRoot (bHeader b) \<Longrightarrow> e \<in> set (bEvds b) \<Longrightarrow> HasEvidence bdg (eHash e) s'"
    using put_grow(2) [OF put] by (simp add: HasEvidence_key indexed_def)
next
  fix Hash b s s' and e :: Evidence
  assume put: "PutGenesis bdg Hash b s = Inr s'" and e: "\<not> IsEmptyEvidenceRoot (bHeader b)" "e \<in> set (bEvds b)"
  from dbUpdate_Inr [OF put [unfolded PutGenesis_def]] obtain s1 s2 s3 where
    put: "putBlockTX bdg Hash b 1 s1 = Inr s2" "updateLatestHeightTX bdg 1 s2 = Inr s3" "view s' = view s3"
    by (auto simp: attempt_eq_Inr)
  then show "HasEvidence bdg (eHash e) s'"
    using put_grow(2) [OF put] e by (simp add: HasEvidence_key indexed_def)
qed

section \<open>Blocks in memory and their ancestors\<close>

text \<open>A block and its ancestors, the block first.\<close>

function lineage :: "heap \<Rightarrow> addr \<Rightarrow> addr list" where
  "lineage h a = a # (case bkBackward (h ! a) of None \<Rightarrow> [] | Some b \<Rightarrow> if b < a then lineage h b else [])"
  by pat_completeness auto
termination
  by (relation "measure snd") auto

declare lineage.simps [simp del]

text \<open>Blocks are linked to older ones only: the tree has no cycle.\<close>

definition downward :: "heap \<Rightarrow> bool" where
  "downward h \<longleftrightarrow> (\<forall>a < length h. \<forall>b. bkBackward (h ! a) = Some b \<longrightarrow> b < a)"

lemma downwardD: "downward h \<Longrightarrow> a < length h \<Longrightarrow> bkBackward (h ! a) = Some b \<Longrightarrow> b < a"
  by (simp add: downward_def)

lemma lineage_unfold:
  "downward h \<Longrightarrow> a < length h \<Longrightarrow>
     lineage h a = a # (case bkBackward (h ! a) of None \<Rightarrow> [] | Some b \<Rightarrow> lineage h b)"
  by (subst lineage.simps) (auto split: option.splits dest: downwardD)

lemma self_in_lineage [simp]: "a \<in> set (lineage h a)"
  by (subst lineage.simps) simp

lemma lineage_le: "b \<in> set (lineage h a) \<Longrightarrow> b \<le> a"
proof (induction h a rule: lineage.induct)
  case (1 h a)
  then show ?case
    by (subst (asm) (2) lineage.simps) (force split: option.splits if_splits)
qed

lemma lineage_parent:
  "downward h \<Longrightarrow> a < length h \<Longrightarrow> bkBackward (h ! a) = Some b \<Longrightarrow> lineage h a = a # lineage h b"
  by (simp add: lineage_unfold)

text \<open>
  \<open>shrunk h h'\<close>: the blocks are the same, but links to parents may have been cut, children
  forgotten and blocks marked as stored.
\<close>

definition shrunk :: "heap \<Rightarrow> heap \<Rightarrow> bool" where
  "shrunk h h' \<longleftrightarrow> length h' = length h \<and>
     (\<forall>a < length h. bkBlock (h' ! a) = bkBlock (h ! a) \<and> bkHash (h' ! a) = bkHash (h ! a) \<and>
        bkHeight (h' ! a) = bkHeight (h ! a) \<and>
        (bkBackward (h' ! a) = None \<or> bkBackward (h' ! a) = bkBackward (h ! a)))"

lemma shrunk_refl [simp]: "shrunk h h"
  by (simp add: shrunk_def)

lemma shrunk_trans: "shrunk h h' \<Longrightarrow> shrunk h' h'' \<Longrightarrow> shrunk h h''"
  unfolding shrunk_def by (metis (full_types))

lemma shrunk_length: "shrunk h h' \<Longrightarrow> length h' = length h"
  by (simp add: shrunk_def)

lemma shrunk_update:
  "bkBlock b = bkBlock (h ! a) \<Longrightarrow> bkHash b = bkHash (h ! a) \<Longrightarrow> bkHeight b = bkHeight (h ! a) \<Longrightarrow>
   bkBackward b = None \<or> bkBackward b = bkBackward (h ! a) \<Longrightarrow> shrunk h (h[a := b])"
  by (cases "a < length h") (auto simp: shrunk_def nth_list_update list_update_beyond)

lemma shrunk_ops [simp]:
  "shrunk h (removeBackward a h)" "shrunk h (removeForward a f h)" "shrunk h (addFordward a f h)"
  "shrunk h (h[a := (h ! a)\<lparr>bkStored := st\<rparr>])"
  unfolding removeBackward_def removeForward_def addFordward_def by (rule shrunk_update; simp)+

lemma shrunk_downward: "shrunk h h' \<Longrightarrow> downward h \<Longrightarrow> downward h'"
  unfolding shrunk_def downward_def by (metis option.distinct(1))

lemma shrunk_lineage: "shrunk h h' \<Longrightarrow> downward h \<Longrightarrow> a < length h \<Longrightarrow> set (lineage h' a) \<subseteq> set (lineage h a)"
proof (induction a rule: less_induct)
  case (less a)
  note d = shrunk_downward [OF less.prems(1,2)]
  have sub: "set (lineage h' b) \<subseteq> set (lineage h b)" if "bkBackward (h ! a) = Some b" for b
    using less downwardD [OF less.prems(2,3) that] by simp
  show ?case
  proof (cases "bkBackward (h' ! a)")
    case None
    then show ?thesis using less.prems shrunk_length [OF less.prems(1)] by (simp add: lineage_unfold [OF d])
  next
    case (Some b)
    then have "bkBackward (h ! a) = Some b" using less.prems(1,3) unfolding shrunk_def by (metis option.distinct(1))
    then show ?thesis using sub Some less.prems shrunk_length [OF less.prems(1)]
      by (auto simp: lineage_parent [OF d] lineage_parent)
  qed
qed

lemma shrunk_goBack:
  "shrunk h h' \<Longrightarrow> downward h \<Longrightarrow> a < length h \<Longrightarrow> goBack h' n a = Some x \<Longrightarrow> goBack h n a = Some x \<and> x < length h"
proof (induction n arbitrary: a)
  case (Suc n)
  then obtain b where b: "bkBackward (h' ! a) = Some b" "goBack h' n b = Some x" by (auto split: option.splits)
  then have "bkBackward (h ! a) = Some b" using Suc.prems unfolding shrunk_def by (metis option.distinct(1))
  then show ?case using Suc.IH [of b] Suc.prems b downwardD [OF Suc.prems(2,3)] by fastforce
qed simp

subsection \<open>A new block\<close>

text \<open>\<open>extended h n p h'\<close>: block \<open>n\<close> was put at the end with parent \<open>p\<close>; the others are as before.\<close>

definition extended :: "heap \<Rightarrow> blk \<Rightarrow> addr \<Rightarrow> heap \<Rightarrow> bool" where
  "extended h n p h' \<longleftrightarrow> length h' = Suc (length h) \<and>
     (\<forall>a < length h. bkBlock (h' ! a) = bkBlock (h ! a) \<and> bkHash (h' ! a) = bkHash (h ! a) \<and>
        bkHeight (h' ! a) = bkHeight (h ! a) \<and> bkStored (h' ! a) = bkStored (h ! a) \<and>
        bkBackward (h' ! a) = bkBackward (h ! a)) \<and>
     h' ! length h = n\<lparr>bkBackward := Some p\<rparr>"

lemma branchAdd_extended:
  "brHead b < length h \<Longrightarrow> branchAdd n h b = (h', b') \<Longrightarrow> extended h n (brHead b) h'"
  by (auto simp: branchAdd_def Let_def extended_def setBackward_def addFordward_def nth_append nth_list_update
      split: if_splits)

lemma branchAdd_branch:
  assumes "brHead b < length h" "branchAdd n h b = (h', b')"
  shows "brHead b' = length h"
    and "brBlocks b' = AList.update (ToHex (bkHash n)) (length h) (brBlocks b)"
    and "branchGetEvidence b' x \<noteq> None \<longleftrightarrow> branchGetEvidence b x \<noteq> None \<or> x \<in> eHash ` set (bEvds (bkBlock n))"
proof -
  have store: "map_of (foldl (\<lambda>c e. AList.update (ToHex (eHash e)) e c) al es) (ToHex x) \<noteq> None \<longleftrightarrow>
      map_of al (ToHex x) \<noteq> None \<or> x \<in> eHash ` set es" for al es
    by (induction es arbitrary: al) auto
  show "brHead b' = length h" "brBlocks b' = AList.update (ToHex (bkHash n)) (length h) (brBlocks b)"
    using assms by (auto simp: branchAdd_def Let_def storeEvds_def storeBlk_def setBackward_def addFordward_def
        nth_append nth_list_update)
  show "branchGetEvidence b' x \<noteq> None \<longleftrightarrow> branchGetEvidence b x \<noteq> None \<or> x \<in> eHash ` set (bEvds (bkBlock n))"
  proof -
    have "brEvds b' = foldl (\<lambda>c e. AList.update (ToHex (eHash e)) e c) (brEvds b) (bEvds (bkBlock n))"
      using assms by (auto simp: branchAdd_def Let_def storeEvds_def storeBlk_def)
    then show ?thesis using store by (simp add: branchGetEvidence_def)
  qed
qed

section \<open>What an accepted block satisfies\<close>

definition branchAt :: "addr \<Rightarrow> branch" where
  "branchAt p = \<lparr>brHead = p, brTail = p, brEvds = [], brBlocks = []\<rparr>"

text \<open>
  \<open>accepted env h p cb\<close>: the block may follow block \<open>p\<close>.  The target is compared with the one
  prescribed after \<open>p\<close> while the blocks it is computed from are still linked.
\<close>

definition accepted :: "('sig, 'key, 'priv, 's) chain_env \<Rightarrow> heap \<Rightarrow> addr \<Rightarrow> Block \<Rightarrow> bool" where
  "accepted env h p cb \<longleftrightarrow>
     BlockVerify (envEc env) (envHash env) cb = Inr () \<and>
     bhLastHash (bHeader cb) = bkHash (h ! p) \<and>
     \<not> timeBefore (bhTime (bHeader cb), 0) (bkTime (h ! p), 0) \<and>
     HeaderGetPow (envHash env) (bHeader cb) < TargetToDiff (bhTarget (bHeader cb)) \<and>
     (\<forall>t. nextBlockTarget (envParams env) h (branchAt p) (bhTime (bHeader cb)) = Some t \<longrightarrow> bhTarget (bHeader cb) = t) \<and>
     (\<forall>e \<in> set (bEvds cb). EvidenceVerify (envEc env) (envHash env) e = Inr () \<and>
        EvidenceGetPow (envHash env) e < EvidenceDifficultyLimit (envParams env)) \<and>
     (bEvds cb \<noteq> [] \<longrightarrow>
        ComputeRoot (envHash env) (map (EvidenceGetSerializedHash (envHash env)) (bEvds cb)) =
          Inr (bhEvidenceRoot (bHeader cb)))"

lemma nextBlockTarget_head: "nextBlockTarget p h b t = nextBlockTarget p h (branchAt (brHead b)) t"
  by (simp add: nextBlockTarget_def branchAt_def Let_def)

lemma BlockVerify_root:
  "BlockVerify ec Hash cb = Inr () \<Longrightarrow> bhEvidenceRoot (bHeader cb) \<noteq> [] \<and> (IsEmptyEvidenceRoot (bHeader cb) \<longleftrightarrow> bEvds cb = [])"
  by (auto simp: BlockVerify_def BlockHeaderVerify_def attempt_eq_Inr split: if_splits)

lemma verifyEvidence_Inr:
  "verifyEvidence env db b e = Inr () \<longleftrightarrow>
     EvidenceVerify (envEc env) (envHash env) e = Inr () \<and>
     EvidenceGetPow (envHash env) e < EvidenceDifficultyLimit (envParams env) \<and>
     branchGetEvidence b (eHash e) = None \<and> \<not> HasEvidence (envBdg env) (eHash e) db"
  by (auto simp: verifyEvidence_def attempt_eq_Inr powCheck_def)

lemma verifyBlock_accepted:
  assumes "verifyBlock env now db h b cb = Some (Inr ())"
  shows "accepted env h (brHead b) cb"
    and "\<And>e. e \<in> set (bEvds cb) \<Longrightarrow> branchGetEvidence b (eHash e) = None \<and> \<not> HasEvidence (envBdg env) (eHash e) db"
    and "timeSub (bhTime (bHeader cb), 0) now \<le> 3 * 1000000000"
proof -
  let ?t = "bhTime (bHeader cb)"
  obtain target where v: "BlockVerify (envEc env) (envHash env) cb = Inr ()"
    and "timeSub (?t, 0) now \<le> 3 * 1000000000" and past: "\<not> timeBefore (?t, 0) (bkTime (h ! brHead b), 0)"
    and target: "nextBlockTarget (envParams env) h b ?t = Some target" "bhTarget (bHeader cb) = target"
    and last: "branchHash h b = bhLastHash (bHeader cb)"
    and pow: "powCheck (TargetToDiff target) (HeaderGetPow (envHash env) (bHeader cb))"
    and evds: "\<not> IsEmptyEvidenceRoot (bHeader cb) \<Longrightarrow>
      (\<forall>e \<in> set (bEvds cb). verifyEvidence env db b e = Inr ()) \<and>
      (case ComputeRoot (envHash env) (map (EvidenceGetSerializedHash (envHash env)) (bEvds cb)) of
         Inl _ \<Rightarrow> [] | Inr r \<Rightarrow> r) = bhEvidenceRoot (bHeader cb)"
    using assms
    by (auto simp: verifyBlock_def Let_def attempt_eq_Inr wrapErr_def split: if_splits sum.splits bind_splits)
  note root = BlockVerify_root [OF v]
  show "timeSub (?t, 0) now \<le> 3 * 1000000000" by fact
  show "branchGetEvidence b (eHash e) = None \<and> \<not> HasEvidence (envBdg env) (eHash e) db" if "e \<in> set (bEvds cb)" for e
    using that evds root by (auto simp: verifyEvidence_Inr)
  have "ComputeRoot (envHash env) (map (EvidenceGetSerializedHash (envHash env)) (bEvds cb)) =
      Inr (bhEvidenceRoot (bHeader cb))" if "bEvds cb \<noteq> []"
    using that evds root by (auto split: sum.splits)
  then show "accepted env h (brHead b) cb"
    using v past target last pow evds root nextBlockTarget_head [of "envParams env" h b ?t]
    by (auto simp: accepted_def branchHash_def powCheck_def verifyEvidence_Inr)
qed

text \<open>Acceptance does not depend on what maintenance changes nor on blocks that come later.\<close>

lemma shrunk_target:
  assumes "shrunk h h'" "downward h" "p < length h" "nextBlockTarget mp h' (branchAt p) t = Some x"
  shows "nextBlockTarget mp h (branchAt p) t = Some x"
proof -
  have same: "bkHeight (h' ! a) = bkHeight (h ! a)" "bkTime (h' ! a) = bkTime (h ! a)"
    "bkTarget (h' ! a) = bkTarget (h ! a)" if "a < length h" for a
    using assms(1) that by (simp_all add: shrunk_def bkTime_def bkTarget_def)
  show ?thesis
    using assms(4) shrunk_goBack [OF assms(1-3)] same assms(3)
    by (auto simp: nextBlockTarget_def branchAt_def Let_def split: if_splits bind_splits)
qed

lemma shrunk_accepted:
  "shrunk h h' \<Longrightarrow> downward h \<Longrightarrow> p < length h \<Longrightarrow> accepted env h p cb \<Longrightarrow> accepted env h' p cb"
  using shrunk_target [of h h' p] unfolding accepted_def by (auto simp: shrunk_def bkTime_def)

lemma extended_shrunk: "extended h n p h' \<Longrightarrow> shrunk h (take (length h) h') \<and> shrunk (take (length h) h') h"
  by (auto simp: extended_def shrunk_def)

lemma take_downward: "downward h \<Longrightarrow> downward (take n h)"
  by (simp add: downward_def)

lemma goBack_take:
  "downward h \<Longrightarrow> a < n \<Longrightarrow> n \<le> length h \<Longrightarrow> goBack (take n h) k a = goBack h k a \<and> (\<forall>x. goBack h k a = Some x \<longrightarrow> x < n)"
proof (induction k arbitrary: a)
  case (Suc k)
  show ?case
  proof (cases "bkBackward (h ! a)")
    case (Some b)
    then have "b < n" using downwardD [OF Suc.prems(1) _ Some] Suc.prems by simp
    then show ?thesis using Suc.IH [of b] Suc.prems Some by simp
  qed (use Suc.prems in simp)
qed simp

lemma target_take:
  "downward h \<Longrightarrow> p < n \<Longrightarrow> n \<le> length h \<Longrightarrow>
     nextBlockTarget mp (take n h) (branchAt p) t = nextBlockTarget mp h (branchAt p) t"
  using goBack_take [of h p n ReferenceBlocks]
  by (auto simp: nextBlockTarget_def branchAt_def Let_def bkTime_def bkTarget_def split: Option.bind_split)

lemma accepted_take:
  "downward h \<Longrightarrow> p < n \<Longrightarrow> n \<le> length h \<Longrightarrow> accepted env (take n h) p cb \<longleftrightarrow> accepted env h p cb"
  by (simp add: accepted_def target_take bkTime_def)

lemma lineage_take:
  "downward h \<Longrightarrow> a < n \<Longrightarrow> n \<le> length h \<Longrightarrow> lineage (take n h) a = lineage h a"
proof (induction a rule: less_induct)
  case (less a)
  then show ?case
    using downwardD [OF less.prems(1), of a]
    by (subst (1 2) lineage.simps) (auto split: option.splits)
qed

lemma extended_downward: "extended h n p h' \<Longrightarrow> downward h \<Longrightarrow> p < length h \<Longrightarrow> downward h'"
  unfolding extended_def downward_def by (auto simp: less_Suc_eq)

lemma extended_accepted:
  assumes "extended h n p h'" "downward h" "p < length h" "q < length h" "accepted env h q cb"
  shows "accepted env h' q cb"
proof -
  have "accepted env (take (length h) h') q cb"
    using shrunk_accepted [of h "take (length h) h'"] extended_shrunk [OF assms(1)] assms by blast
  then show ?thesis
    using accepted_take [OF extended_downward [OF assms(1-3)], of q "length h" env cb] assms by (simp add: extended_def)
qed

lemma extended_lineage:
  assumes "extended h n p h'" "downward h" "p < length h"
  shows "a < length h \<Longrightarrow> set (lineage h' a) = set (lineage h a)"
    and "set (lineage h' (length h)) = insert (length h) (set (lineage h p))"
proof -
  note d = extended_downward [OF assms]
  show *: "set (lineage h' a) = set (lineage h a)" if "a < length h" for a
  proof -
    have "set (lineage (take (length h) h') a) = set (lineage h a)"
      using extended_shrunk [OF assms(1)] shrunk_lineage [of h "take (length h) h'" a]
        shrunk_lineage [of "take (length h) h'" h a] assms(1,2) d that take_downward
      by (auto simp: extended_def)
    then show ?thesis using lineage_take [OF d that] assms(1) by (simp add: extended_def)
  qed
  have "lineage h' (length h) = length h # lineage h' p"
    using lineage_parent [OF d, of "length h" p] assms(1) by (simp add: extended_def)
  then show "set (lineage h' (length h)) = insert (length h) (set (lineage h p))" using * assms(3) by simp
qed

section \<open>The invariant\<close>

text \<open>Blocks carry their hash, and every link to a parent is one an accepted block made.\<close>

definition links_ok :: "('sig, 'key, 'priv, 's) chain_env \<Rightarrow> heap \<Rightarrow> bool" where
  "links_ok env h \<longleftrightarrow> downward h \<and>
     (\<forall>a < length h. bkHash (h ! a) = BlockHash (envHash env) (bkBlock (h ! a)) \<and>
        (IsEmptyEvidenceRoot (bHeader (bkBlock (h ! a))) \<longrightarrow> bEvds (bkBlock (h ! a)) = []) \<and>
        (\<forall>p. bkBackward (h ! a) = Some p \<longrightarrow>
           bkHeight (h ! a) = bkHeight (h ! p) + 1 \<and> accepted env h p (bkBlock (h ! a))))"

definition evds_at :: "heap \<Rightarrow> addr \<Rightarrow> bytes set" where
  "evds_at h a = eHash ` set (bEvds (bkBlock (h ! a)))"

text \<open>No evidence of a block is in one of its ancestors.\<close>

definition apart :: "heap \<Rightarrow> bool" where
  "apart h \<longleftrightarrow> (\<forall>a < length h. \<forall>p \<in> set (lineage h a). p \<noteq> a \<longrightarrow> evds_at h a \<inter> evds_at h p = {})"

definition forwards_in :: "heap \<Rightarrow> bool" where
  "forwards_in h \<longleftrightarrow> (\<forall>a < length h. snd ` set (bkFordward (h ! a)) \<subseteq> {..<length h})"

definition branch_in :: "heap \<Rightarrow> branch \<Rightarrow> bool" where
  "branch_in h b \<longleftrightarrow> brHead b < length h \<and> snd ` set (brBlocks b) \<subseteq> {..<length h}"

text \<open>Every evidence of a branch is found, in its cache or in the database.\<close>

definition knows :: "'s badger \<Rightarrow> 's \<Rightarrow> heap \<Rightarrow> branch \<Rightarrow> bool" where
  "knows bdg db h b \<longleftrightarrow> (\<forall>a \<in> set (lineage h (brHead b)). \<forall>x \<in> evds_at h a.
     branchGetEvidence b x \<noteq> None \<or> HasEvidence bdg x db)"

definition stored_ok :: "'s badger \<Rightarrow> 's \<Rightarrow> heap \<Rightarrow> bool" where
  "stored_ok bdg db h \<longleftrightarrow> (\<forall>a < length h. bkStored (h ! a) \<longrightarrow> (\<forall>x \<in> evds_at h a. HasEvidence bdg x db))"

definition shape :: "'s chain \<Rightarrow> bool" where
  "shape c \<longleftrightarrow> (\<forall>b \<in> set (cStore c). branch_in (cHeap c) b) \<and> set (cBranches c) \<subseteq> {..<length (cStore c)} \<and>
     cLongest c \<in> set (cBranches c) \<and> cOldest c < length (cHeap c) \<and> forwards_in (cHeap c)"

definition chain_inv :: "('sig, 'key, 'priv, 's) chain_env \<Rightarrow> 's chain \<Rightarrow> bool" where
  "chain_inv env c \<longleftrightarrow> shape c \<and> links_ok env (cHeap c) \<and> apart (cHeap c) \<and>
     (\<forall>i \<in> set (cBranches c). knows (envBdg env) (cDb c) (cHeap c) (br c i)) \<and>
     stored_ok (envBdg env) (cDb c) (cHeap c)"

lemma links_downward: "links_ok env h \<Longrightarrow> downward h"
  by (simp add: links_ok_def)

lemma shape_branch: "shape c \<Longrightarrow> i \<in> set (cBranches c) \<Longrightarrow> i < length (cStore c) \<and> branch_in (cHeap c) (br c i)"
  by (auto simp: shape_def)

subsection \<open>Shrinking\<close>

lemma shrunk_links: "shrunk h h' \<Longrightarrow> links_ok env h \<Longrightarrow> links_ok env h'"
proof -
  assume s: "shrunk h h'" and l: "links_ok env h"
  note d = links_downward [OF l]
  have "bkHeight (h' ! a) = bkHeight (h' ! p) + 1 \<and> accepted env h' p (bkBlock (h' ! a))"
    if a: "a < length h" and p: "bkBackward (h' ! a) = Some p" for a p
  proof -
    have p': "bkBackward (h ! a) = Some p" using s a p unfolding shrunk_def by (metis option.distinct(1))
    then have "p < length h" using downwardD [OF d a] a by simp
    then show ?thesis
      using s l a p' shrunk_accepted [OF s d, of p env "bkBlock (h ! a)"] by (simp add: shrunk_def links_ok_def)
  qed
  then show ?thesis
    using s l shrunk_downward [OF s d] by (simp add: links_ok_def shrunk_def)
qed

lemma shrunk_evds: "shrunk h h' \<Longrightarrow> a < length h \<Longrightarrow> evds_at h' a = evds_at h a"
  by (simp add: shrunk_def evds_at_def)

lemma lineage_bound: "a < length h \<Longrightarrow> p \<in> set (lineage h a) \<Longrightarrow> p < length h"
  using lineage_le by fastforce

lemma shrunk_apart: "shrunk h h' \<Longrightarrow> downward h \<Longrightarrow> apart h \<Longrightarrow> apart h'"
  unfolding apart_def using shrunk_lineage [of h h'] shrunk_evds [of h h'] lineage_bound [of _ h] shrunk_length [of h h']
  by (smt (verit, best) subsetD)

lemma shrunk_knows:
  assumes "shrunk h h'" "downward h" "brHead b < length h" "knows bdg db h b"
  shows "knows bdg db h' b"
  using assms(4) shrunk_lineage [OF assms(1-3)] shrunk_evds [OF assms(1)] lineage_bound [OF assms(3)]
  unfolding knows_def by blast

lemma shrunk_branch_in: "shrunk h h' \<Longrightarrow> branch_in h b \<Longrightarrow> branch_in h' b"
  by (simp add: branch_in_def shrunk_length)

lemma forwards_in_update:
  "forwards_in h \<Longrightarrow> set (bkFordward b) \<subseteq> set (bkFordward (h ! a)) \<Longrightarrow> forwards_in (h[a := b])"
  unfolding forwards_in_def
  by (cases "a < length h")
    (simp_all add: nth_list_update list_update_beyond image_mono [THEN subset_trans])

lemma forwards_in_ops:
  assumes "forwards_in h"
  shows "forwards_in (removeBackward a h)" "forwards_in (removeForward a f h)"
    "forwards_in (h[a := (h ! a)\<lparr>bkStored := st\<rparr>])"
  unfolding removeBackward_def removeForward_def
  by (rule forwards_in_update [OF assms]; auto simp: AList.delete_eq)+

subsection \<open>Adding a block\<close>

lemma extended_evds: "extended h n p h' \<Longrightarrow> a < length h \<Longrightarrow> evds_at h' a = evds_at h a"
  "extended h n p h' \<Longrightarrow> evds_at h' (length h) = eHash ` set (bEvds (bkBlock n))"
  by (simp_all add: extended_def evds_at_def)

lemma extended_links:
  assumes e: "extended h n p h'" and l: "links_ok env h" and p: "p < length h"
    and n: "bkHash n = BlockHash (envHash env) (bkBlock n)" "bkHeight n = bkHeight (h ! p) + 1"
      "accepted env h p (bkBlock n)"
  shows "links_ok env h'"
proof -
  note d = links_downward [OF l]
  have acc: "accepted env h' q cb" if "q < length h" "accepted env h q cb" for q cb
    using extended_accepted [OF e d p that] .
  have "bkHash (h' ! a) = BlockHash (envHash env) (bkBlock (h' ! a)) \<and>
        (IsEmptyEvidenceRoot (bHeader (bkBlock (h' ! a))) \<longrightarrow> bEvds (bkBlock (h' ! a)) = []) \<and>
        (\<forall>q. bkBackward (h' ! a) = Some q \<longrightarrow>
           bkHeight (h' ! a) = bkHeight (h' ! q) + 1 \<and> accepted env h' q (bkBlock (h' ! a)))"
    if "a < Suc (length h)" for a
  proof (cases "a = length h")
    case True
    have "BlockVerify (envEc env) (envHash env) (bkBlock n) = Inr ()" using n(3) by (simp add: accepted_def)
    then show ?thesis using True e n p acc [OF p] BlockVerify_root by (auto simp: extended_def)
  next
    case False
    with that have a: "a < length h" by simp
    then have "q < length h" if "bkBackward (h ! a) = Some q" for q using downwardD [OF d a that] by simp
    then show ?thesis using e l a acc by (simp add: extended_def links_ok_def)
  qed
  then show ?thesis using extended_downward [OF e d p] e by (simp add: links_ok_def extended_def)
qed

lemma extended_apart:
  assumes e: "extended h n p h'" and d: "downward h" and p: "p < length h" and ap: "apart h"
    and fresh: "\<And>q. q \<in> set (lineage h p) \<Longrightarrow> eHash ` set (bEvds (bkBlock n)) \<inter> evds_at h q = {}"
  shows "apart h'"
  unfolding apart_def
proof (intro allI impI ballI)
  fix a q assume a: "a < length h'" and q: "q \<in> set (lineage h' a)" "q \<noteq> a"
  show "evds_at h' a \<inter> evds_at h' q = {}"
  proof (cases "a = length h")
    case True
    then have "q \<in> set (lineage h p)" using q extended_lineage(2) [OF e d p] by simp
    then show ?thesis using fresh True extended_evds [OF e] lineage_bound [OF p] by simp
  next
    case False
    then have a: "a < length h" using a e by (simp add: extended_def)
    then have "q \<in> set (lineage h a)" using q extended_lineage(1) [OF e d p] by simp
    then show ?thesis using a q ap extended_evds(1) [OF e] lineage_bound [OF a] by (simp add: apart_def)
  qed
qed

lemma extended_knows:
  assumes "extended h n p h'" "downward h" "p < length h" "brHead b < length h" "knows bdg db h b"
  shows "knows bdg db h' b"
  using assms(5) extended_lineage(1) [OF assms(1-4)] extended_evds(1) [OF assms(1)] lineage_bound [OF assms(4)]
  unfolding knows_def by blast

lemma snd_update: "snd ` set (AList.update k v al) \<subseteq> insert v (snd ` set al)"
  by (induction al) auto

lemma branchAdd_forwards:
  assumes "branchAdd n h b = (h', b')" "brHead b < length h" "forwards_in h" "bkFordward n = []"
  shows "forwards_in h'"
proof -
  have "snd ` set (bkFordward (h' ! a)) \<subseteq> {..<Suc (length h)}" if "a < Suc (length h)" for a
    using that assms snd_update [of "ToHex (bkHash n)" "length h" "bkFordward (h ! brHead b)"]
    unfolding forwards_in_def
    by (fastforce simp: branchAdd_def Let_def setBackward_def addFordward_def nth_append nth_list_update
        less_Suc_eq split: if_splits)
  then show ?thesis using branchAdd_extended [OF assms(2,1)] by (simp add: forwards_in_def extended_def)
qed

lemma shape_update_branch: "shape c \<Longrightarrow> i \<in> set (cBranches c) \<Longrightarrow> brHead (br c i) < length (cHeap c)"
  using shape_branch by (fastforce simp: branch_in_def)

lemma addTo_inv:
  assumes inv: "chain_inv env c" and i: "i \<in> set (cBranches c)"
    and v: "verifyBlock env now (cDb c) (cHeap c) (br c i) cb = Some (Inr ())"
  shows "chain_inv env (addTo i (newBlk (envHash env) cb (heightOf c i + 1) False) c)"
proof -
  let ?n = "newBlk (envHash env) cb (heightOf c i + 1) False" and ?h = "cHeap c" and ?b = "br c i"
  obtain h' b' where add: "branchAdd ?n ?h ?b = (h', b')" by (cases "branchAdd ?n ?h ?b")
  have sh: "shape c" and l: "links_ok env ?h" using inv by (auto simp: chain_inv_def)
  note d = links_downward [OF l] and hd = shape_update_branch [OF sh i]
  note e = branchAdd_extended [OF hd add] and b' = branchAdd_branch [OF hd add]
  note acc = verifyBlock_accepted [OF v]
  have il: "i < length (cStore c)" using shape_branch [OF sh i] by simp
  have fresh: "eHash ` set (bEvds cb) \<inter> evds_at ?h q = {}" if "q \<in> set (lineage ?h (brHead ?b))" for q
    using inv i that acc(2) unfolding chain_inv_def knows_def by blast
  have links: "links_ok env h'"
    by (rule extended_links [OF e l hd]) (simp_all add: newBlk_def acc(1) heightOf_def branchHeight_def)
  have ap: "apart h'"
    by (rule extended_apart [OF e d hd]) (use inv fresh in \<open>auto simp: chain_inv_def newBlk_def\<close>)
  have in': "branch_in h' b" if "branch_in ?h b" for b
    using that e by (auto simp: branch_in_def extended_def)
  have b'_in: "branch_in h' b'"
    using b' e shape_branch [OF sh i] snd_update [of "ToHex (bkHash ?n)" "length ?h" "brBlocks ?b"]
    by (fastforce simp: branch_in_def extended_def)
  have forw: "forwards_in h'"
    by (rule branchAdd_forwards [OF add hd]) (use sh in \<open>auto simp: shape_def newBlk_def\<close>)
  have "shape (addTo i ?n c)"
    using sh in' b'_in forw e set_update_subset_insert [of "cStore c" i b']
    by (auto simp: shape_def addTo_def add extended_def)
  moreover have "knows (envBdg env) (cDb c) h' ((cStore c)[i := b'] ! j)" if j: "j \<in> set (cBranches c)" for j
  proof (cases "j = i")
    case True
    have "branchGetEvidence b' x \<noteq> None \<or> HasEvidence (envBdg env) x (cDb c)"
      if "a \<in> set (lineage h' (length ?h))" "x \<in> evds_at h' a" for a x
    proof (cases "a = length ?h")
      case True
      then show ?thesis using that(2) extended_evds(2) [OF e] b'(3) [of x] by simp
    next
      case False
      then have a: "a \<in> set (lineage ?h (brHead ?b))" using that(1) extended_lineage(2) [OF e d hd] by simp
      then have "x \<in> evds_at ?h a" using that(2) extended_evds(1) [OF e] lineage_bound [OF hd] by blast
      then show ?thesis using inv i a b'(3) [of x] unfolding chain_inv_def knows_def by blast
    qed
    then show ?thesis using True il b'(1) by (simp add: knows_def)
  next
    case False
    then show ?thesis
      using inv j extended_knows [OF e d hd shape_update_branch [OF sh j], of "envBdg env" "cDb c"]
      by (simp add: chain_inv_def)
  qed
  moreover have "stored_ok (envBdg env) (cDb c) h'"
    using inv e extended_evds(1) [OF e]
    by (auto simp: chain_inv_def stored_ok_def extended_def less_Suc_eq newBlk_def)
  ultimately show ?thesis using links ap by (simp add: chain_inv_def addTo_def add)
qed

lemma addTo_simps [frame_simps]:
  "cBranches (addTo i n c) = cBranches c" "cDb (addTo i n c) = cDb c" "cLongest (addTo i n c) = cLongest c"
  "cLastHeight (addTo i n c) = cLastHeight c"
  by (simp_all add: addTo_def split: prod.splits)

lemma addLoop_inv:
  "chain_inv env c \<Longrightarrow> i \<in> set (cBranches c) \<Longrightarrow> addLoop env clock i blocks c = Some (ok, c') \<Longrightarrow>
     chain_inv env c' \<and> cBranches c' = cBranches c"
proof (induction env clock i blocks c rule: addLoop.induct)
  case (2 env clock i cb blocks c)
  show ?case
  proof (cases "verifyBlock env (clock 0) (cDb c) (cHeap c) (br c i) cb = Some (Inr ())")
    case True
    then show ?thesis using 2 addTo_inv [OF 2(2,3) True] by (simp add: frame_simps)
  next
    case False
    then show ?thesis using 2(2,4) by (auto split: option.splits sum.splits)
  qed
qed simp

subsection \<open>A new branch\<close>

lemma storeEvds_known:
  "branchGetEvidence (storeEvds es b) x \<noteq> None \<longleftrightarrow> branchGetEvidence b x \<noteq> None \<or> x \<in> eHash ` set es"
proof -
  have "map_of (foldl (\<lambda>c e. AList.update (ToHex (eHash e)) e c) al es) (ToHex x) \<noteq> None \<longleftrightarrow>
      map_of al (ToHex x) \<noteq> None \<or> x \<in> eHash ` set es" for al
    by (induction es arbitrary: al) auto
  then show ?thesis by (simp add: branchGetEvidence_def storeEvds_def)
qed

text \<open>The loop over the ancestors ends, and leaves every one of them and their evidences in the caches.\<close>

lemma newBranchLoop_spec:
  assumes "downward h" "a < length h"
  shows "\<exists>b. newBranchLoop h a r = Some b \<and> brHead b = brHead r \<and>
     snd ` set (brBlocks b) \<subseteq> snd ` set (brBlocks r) \<union> set (lineage h a) \<and>
     (\<forall>x. branchGetEvidence r x \<noteq> None \<or> (\<exists>q \<in> set (lineage h a). x \<in> evds_at h q) \<longrightarrow> branchGetEvidence b x \<noteq> None)"
  using assms(2)
proof (induction a arbitrary: r rule: less_induct)
  case (less a)
  let ?r = "storeEvds (bEvds (bkBlock (h ! a))) (storeBlk h a r)"
  have r: "brHead ?r = brHead r" "snd ` set (brBlocks ?r) \<subseteq> insert a (snd ` set (brBlocks r))"
    using snd_update by (simp_all add: storeEvds_def storeBlk_def)
  have rx: "branchGetEvidence ?r x \<noteq> None \<longleftrightarrow> branchGetEvidence r x \<noteq> None \<or> x \<in> evds_at h a" for x
    unfolding storeEvds_known evds_at_def by (simp add: storeBlk_def branchGetEvidence_def)
  show ?case
  proof (cases "bkBackward (h ! a)")
    case None
    then show ?thesis using r rx
      by (subst newBranchLoop.simps) (auto simp: Let_def lineage_unfold [OF assms(1) less.prems])
  next
    case (Some p)
    then have p: "p < a" using downwardD [OF assms(1) less.prems] by simp
    then obtain b where b: "newBranchLoop h p ?r = Some b" "brHead b = brHead ?r"
      "snd ` set (brBlocks b) \<subseteq> snd ` set (brBlocks ?r) \<union> set (lineage h p)"
      "\<forall>x. branchGetEvidence ?r x \<noteq> None \<or> (\<exists>q \<in> set (lineage h p). x \<in> evds_at h q) \<longrightarrow> branchGetEvidence b x \<noteq> None"
      using less.IH [of p ?r] less.prems by auto
    have "newBranchLoop h a r = Some b" using Some b(1) by (subst newBranchLoop.simps) (simp add: Let_def)
    moreover have "snd ` set (brBlocks b) \<subseteq> snd ` set (brBlocks r) \<union> set (lineage h a)"
      using b(3) r(2) lineage_parent [OF assms(1) less.prems Some] by auto
    ultimately show ?thesis
      using b(2,4) r(1) rx lineage_parent [OF assms(1) less.prems Some] by (metis (no_types, lifting) set_ConsD)
  qed
qed

lemma newBranch_spec:
  assumes "downward h" "a < length h"
  shows "\<exists>b. newBranch h a = Some b \<and> brHead b = a \<and> branch_in h b \<and> knows bdg db h b"
proof -
  from newBranchLoop_spec [OF assms, of "\<lparr>brHead = a, brTail = a, brEvds = [], brBlocks = []\<rparr>"]
  obtain b where "newBranch h a = Some b" "brHead b = a" "snd ` set (brBlocks b) \<subseteq> set (lineage h a)"
    "\<forall>x. (\<exists>q \<in> set (lineage h a). x \<in> evds_at h q) \<longrightarrow> branchGetEvidence b x \<noteq> None"
    by (auto simp: newBranch_def)
  then show ?thesis using assms(2) lineage_bound [OF assms(2)] unfolding branch_in_def knows_def by fastforce
qed

lemma createBranchLoop_inv:
  assumes inv: "chain_inv env c"
  shows "set is \<subseteq> set (cBranches c) \<Longrightarrow>
    \<exists>r. createBranchLoop Hash b0 is c = Some r \<and>
      (\<forall>j c'. r = Inr (j, c') \<longrightarrow> chain_inv env c' \<and> j \<in> set (cBranches c'))"
proof (induction "is")
  case (Cons i "is")
  have sh: "shape c" and l: "links_ok env (cHeap c)" using inv by (auto simp: chain_inv_def)
  show ?case
  proof (cases "branchGetBlock (br c i) (bhLastHash (bHeader b0))")
    case None
    then show ?thesis using Cons by simp
  next
    case (Some m)
    then have "(ToHex (bhLastHash (bHeader b0)), m) \<in> set (brBlocks (br c i))"
      by (auto simp: branchGetBlock_def dest: map_of_SomeD)
    then have "m \<in> snd ` set (brBlocks (br c i))" by (metis imageI snd_conv)
    then have m: "m < length (cHeap c)"
      using shape_branch [OF sh, of i] Cons.prems by (auto simp: branch_in_def)
    from newBranch_spec [OF links_downward [OF l] m, of "envBdg env" "cDb c"] obtain nb where
      nb: "newBranch (cHeap c) m = Some nb" "branch_in (cHeap c) nb"
        "knows (envBdg env) (cDb c) (cHeap c) nb" by auto
    let ?j = "length (cStore c)"
    let ?c = "c\<lparr>cStore := cStore c @ [nb], cBranches := cBranches c @ [?j]\<rparr>"
    have "shape ?c" using sh nb(2) by (auto simp: shape_def)
    moreover have "\<forall>k \<in> set (cBranches ?c). knows (envBdg env) (cDb c) (cHeap c) (br ?c k)"
      using inv nb(3) shape_branch [OF sh] by (auto simp: chain_inv_def nth_append)
    ultimately have "chain_inv env ?c" using inv by (simp add: chain_inv_def)
    then show ?thesis using Some nb(1) by (simp add: Let_def)
  qed
qed simp

subsection \<open>Fork choice\<close>

lemma longestLoop_in: "longestLoop c coin is best h = Some i \<Longrightarrow> i \<in> set is \<or> best = Some i"
  by (induction c coin "is" best h rule: longestLoop.induct) (auto split: if_splits)

lemma notifyCheck_inv: "chain_inv env c \<Longrightarrow> notifyCheck coin c = Some c' \<Longrightarrow> chain_inv env c'"
  using longestLoop_in [of c coin "cBranches c" None 0]
  by (auto simp: notifyCheck_def getLongestBranch_def chain_inv_def shape_def split: bind_splits if_splits)

lemma addBlocks_inv:
  assumes inv: "chain_inv env c" and add: "addBlocks env clock coin blocks local c = Some c'"
  shows "chain_inv env c'"
proof (cases blocks)
  case (Cons b0 bs)
  let ?found = "case getBranch c (bhLastHash (bHeader b0)) of
      Some i \<Rightarrow> Some (Inr (i, c)) | None \<Rightarrow> createBranch (envHash env) b0 c"
  from add Cons obtain f where f: "?found = Some f" by (auto simp: addBlocks_def split: bind_splits)
  show ?thesis
  proof (cases f)
    case (Inl err)
    then show ?thesis using add Cons f inv by (simp add: addBlocks_def)
  next
    case (Inr ic)
    obtain i c1 where ic: "ic = (i, c1)" by (cases ic)
    have c1: "chain_inv env c1" "i \<in> set (cBranches c1)"
      using f Inr ic inv createBranchLoop_inv [OF inv, of "cBranches c" "envHash env" b0]
      by (auto simp: createBranch_def getBranch_def find_Some_iff split: option.splits)
    obtain ok c2 where c2: "addLoop env clock i blocks c1 = Some (ok, c2)"
      and c': "(if ok \<and> \<not> local then notifyCheck coin c2 else Some c2) = Some c'"
      using add Cons f Inr ic by (auto simp: addBlocks_def split: bind_splits)
    then show ?thesis using addLoop_inv [OF c1 c2] notifyCheck_inv [of env c2 coin c'] by (auto split: if_splits)
  qed
qed (use inv add in \<open>simp add: addBlocks_def\<close>)

subsection \<open>Maintenance\<close>

lemma stored_update: "bkStored b = bkStored (h ! a) \<Longrightarrow> map bkStored (h[a := b]) = map bkStored h"
  by (cases "a < length h") (simp_all add: map_update list_update_beyond, metis list_update_id nth_map)

lemma stored_ops [simp]:
  "map bkStored (removeBackward a h) = map bkStored h" "map bkStored (removeForward a f h) = map bkStored h"
  unfolding removeBackward_def removeForward_def by (rule stored_update; simp)+

definition pruned :: "heap \<Rightarrow> heap \<Rightarrow> bool" where
  "pruned h h' \<longleftrightarrow> (forwards_in h \<longrightarrow> forwards_in h') \<and> shrunk h h' \<and> map bkStored h' = map bkStored h"

lemma pruned_refl: "pruned h h"
  by (simp add: pruned_def)

lemma pruned_trans: "pruned h h' \<Longrightarrow> pruned h' h'' \<Longrightarrow> pruned h h''"
  unfolding pruned_def using shrunk_trans by metis

lemma pruned_ops: "pruned h (removeBackward a h)" "pruned h (removeForward a f h)"
  using forwards_in_ops by (auto simp: pruned_def)

lemma removeBlk_pruned: "removeBlk a h = Some (r, h') \<Longrightarrow> pruned h h'"
  unfolding removeBlk_def
  by (auto split: if_splits option.splits intro: pruned_refl pruned_trans [OF pruned_ops(2) pruned_ops(1)])

lemma removeLoop_pruned: "removeLoop a h = Some h' \<Longrightarrow> pruned h h'"
proof (induction rule: removeLoop.raw_induct [rotated, consumes 1])
  case (1 removeLoop a h h')
  then show ?case
    by (auto split: option.splits prod.splits sum.splits dest!: removeBlk_pruned intro: pruned_trans)
qed

lemma pruned_stored: "pruned h h' \<Longrightarrow> stored_ok bdg db h \<Longrightarrow> stored_ok bdg db h'"
proof -
  assume p: "pruned h h'" and st: "stored_ok bdg db h"
  then have s: "shrunk h h'" and eq: "map bkStored h' = map bkStored h" by (simp_all add: pruned_def)
  have "bkStored (h' ! a) = bkStored (h ! a)" if "a < length h" for a
    using that shrunk_length [OF s] arg_cong [OF eq, of "\<lambda>xs. xs ! a"] by simp
  then show ?thesis using st shrunk_evds [OF s] shrunk_length [OF s] by (simp add: stored_ok_def)
qed

lemma shrunk_inv:
  assumes inv: "chain_inv env c" and s: "shrunk (cHeap c) h" and f: "forwards_in h"
    and st: "stored_ok (envBdg env) (cDb c) h"
  shows "chain_inv env (c\<lparr>cHeap := h\<rparr>)"
proof -
  have sh: "shape c" and l: "links_ok env (cHeap c)" using inv by (auto simp: chain_inv_def)
  have "shape (c\<lparr>cHeap := h\<rparr>)"
    using sh shrunk_branch_in [OF s] f shrunk_length [OF s] by (simp add: shape_def)
  moreover have "knows (envBdg env) (cDb c) h (br c i)" if "i \<in> set (cBranches c)" for i
    using inv that shrunk_knows [OF s links_downward [OF l] shape_update_branch [OF sh that], of "envBdg env" "cDb c"]
    by (auto simp: chain_inv_def)
  ultimately show ?thesis
    using inv shrunk_links [OF s l] shrunk_apart [OF s links_downward [OF l]] st by (simp add: chain_inv_def)
qed

lemma pruned_inv: "chain_inv env c \<Longrightarrow> pruned (cHeap c) h \<Longrightarrow> chain_inv env (c\<lparr>cHeap := h\<rparr>)"
  using shrunk_inv [of env c h] pruned_stored [of "cHeap c" h "envBdg env" "cDb c"]
  by (auto simp: pruned_def chain_inv_def shape_def)

lemma pruneLoop_inv:
  "chain_inv env c \<Longrightarrow> set is \<subseteq> set (cBranches c) \<Longrightarrow> set res \<subseteq> set (cBranches c) \<Longrightarrow>
   cLongest c \<in> set is \<union> set res \<Longrightarrow> pruneLoop is c res = Some (reserved, c') \<Longrightarrow>
     chain_inv env c' \<and> set reserved \<subseteq> set (cBranches c') \<and> cLongest c' \<in> set reserved"
proof (induction "is" c res rule: pruneLoop.induct)
  case (2 i "is" c res)
  show ?case
  proof (cases "heightOf c (cLongest c) - heightOf c i > word_of_nat alpha")
    case True
    then obtain h where h: "branchRemove (br c i) (cHeap c) = Some h"
      and rest: "pruneLoop is (c\<lparr>cHeap := h\<rparr>) res = Some (reserved, c')"
      using "2.prems" by (auto split: bind_splits)
    have "cLongest c \<noteq> i" using True by auto
    then show ?thesis
      using "2.IH"(1) [OF True h pruned_inv [OF "2.prems"(1)]] rest "2.prems" removeLoop_pruned h
      by (auto simp: branchRemove_def)
  next
    case False
    then show ?thesis using "2.IH"(2) [OF False] "2.prems" by auto
  qed
qed auto

text \<open>Removing a block from the caches of a branch loses at most the evidences of that block.\<close>

definition trimmed :: "bytes set \<Rightarrow> branch \<Rightarrow> branch \<Rightarrow> bool" where
  "trimmed X b b' \<longleftrightarrow> brHead b' = brHead b \<and> set (brBlocks b') \<subseteq> set (brBlocks b) \<and>
     (\<forall>x. x \<notin> X \<longrightarrow> branchGetEvidence b' x = branchGetEvidence b x)"

lemma trimmed_refl [simp]: "trimmed X b b"
  by (simp add: trimmed_def)

lemma trimmed_trans: "trimmed X b b' \<Longrightarrow> trimmed X b' b'' \<Longrightarrow> trimmed X b b''"
  by (auto simp: trimmed_def)

lemma removeFromCache_trimmed: "trimmed (evds_at h a) b (removeFromCache h a b)"
proof -
  have "map_of (foldl (\<lambda>c evd. AList.delete (ToHex (eHash evd)) c) al es) (ToHex x) = map_of al (ToHex x)"
    if "x \<notin> eHash ` set es" for x al es
    using that by (induction es arbitrary: al) auto
  then show ?thesis
    by (auto simp: trimmed_def removeFromCache_def branchGetEvidence_def evds_at_def AList.delete_eq)
qed

lemma trim_all:
  assumes "\<And>b. trimmed X b (f b)"
  shows "length (foldl (\<lambda>st i. st[i := f (st ! i)]) st is) = length st \<and>
    (\<forall>j < length st. trimmed X (st ! j) (foldl (\<lambda>st i. st[i := f (st ! i)]) st is ! j))"
proof (induction "is" arbitrary: st)
  case (Cons i "is")
  have "trimmed X (st ! j) (st[i := f (st ! i)] ! j)" if "j < length st" for j
    using assms that by (cases "j = i") simp_all
  then show ?case using Cons [of "st[i := f (st ! i)]"] trimmed_trans by (auto, blast)
qed simp

lemma trimmed_knows:
  "trimmed X b b' \<Longrightarrow> knows bdg db h b \<Longrightarrow> \<forall>x \<in> X. HasEvidence bdg x db \<Longrightarrow> knows bdg db h b'"
  unfolding trimmed_def knows_def by metis

lemma trimmed_branch_in: "trimmed X b b' \<Longrightarrow> branch_in h b \<Longrightarrow> branch_in h b'"
  unfolding trimmed_def branch_in_def by (metis image_mono subset_trans)

lemma disconnect_inv:
  assumes inv: "chain_inv env c" and a: "a < length (cHeap c)" "bkStored (cHeap c ! a)" and n: "n < length (cHeap c)"
  shows "chain_inv env (disconnect a n c)"
proof -
  let ?h = "removeBackward n (removeForward a n (cHeap c))"
  let ?st = "foldl (\<lambda>st i. st[i := removeFromCache ?h a (st ! i)]) (cStore c) (cBranches c)"
  have p: "pruned (cHeap c) ?h" using pruned_trans [OF pruned_ops(2) pruned_ops(1)] .
  then have s: "shrunk (cHeap c) ?h" by (simp add: pruned_def)
  have inv1: "chain_inv env (c\<lparr>cHeap := ?h\<rparr>)" by (rule pruned_inv [OF inv p])
  then have sh: "shape (c\<lparr>cHeap := ?h\<rparr>)" by (simp add: chain_inv_def)
  note trim = trim_all [of "evds_at ?h a", OF removeFromCache_trimmed, of "cStore c" "cBranches c"]
  have known: "\<forall>x \<in> evds_at ?h a. HasEvidence (envBdg env) x (cDb c)"
    using inv a shrunk_evds [OF s a(1)] by (simp add: chain_inv_def stored_ok_def)
  have "branch_in ?h b" if "b \<in> set ?st" for b
  proof -
    from that obtain j where "j < length (cStore c)" "b = ?st ! j" using trim by (auto simp: in_set_conv_nth)
    then show ?thesis using trim trimmed_branch_in sh by (auto simp: shape_def)
  qed
  then have "shape (disconnect a n c)"
    using sh n trim shrunk_length [OF s] by (simp add: shape_def disconnect_def Let_def)
  moreover have "knows (envBdg env) (cDb c) ?h (?st ! j)" if "j \<in> set (cBranches c)" for j
  proof (rule trimmed_knows [OF _ _ known])
    show "trimmed (evds_at ?h a) (br c j) (?st ! j)" using trim shape_branch [OF sh] that by simp
    show "knows (envBdg env) (cDb c) ?h (br c j)" using inv1 that by (simp add: chain_inv_def)
  qed
  ultimately show ?thesis using inv1 by (simp add: chain_inv_def disconnect_def Let_def)
qed

context evidence_index
begin

lemma storeOld_inv:
  assumes env: "envBdg env = bdg" and inv: "chain_inv env c" and a: "a < length (cHeap c)"
    and st: "storeOld env a c = Some c'"
  shows "chain_inv env c' \<and> bkStored (cHeap c' ! a) \<and> length (cHeap c') = length (cHeap c) \<and>
    bkFordward (cHeap c' ! a) = bkFordward (cHeap c ! a)"
proof (cases "bkStored (cHeap c ! a)")
  case True
  then show ?thesis using st inv by (simp add: storeOld_def isStored_def)
next
  case False
  let ?b = "bkBlock (cHeap c ! a)" and ?h = "(cHeap c)[a := (cHeap c ! a)\<lparr>bkStored := True\<rparr>]"
  obtain db where put: "PutBlock bdg (envHash env) ?b (bkHeight (cHeap c ! a)) (cDb c) = Inr db"
    and c': "c' = c\<lparr>cDb := db, cHeap := ?h\<rparr>"
    using st False env by (auto simp: storeOld_def isStored_def Let_def split: sum.splits)
  have ev: "HasEvidence bdg x db" if "x \<in> evds_at (cHeap c) a" for x
  proof -
    from that obtain e where e: "e \<in> set (bEvds ?b)" "x = eHash e" by (auto simp: evds_at_def)
    then have "\<not> IsEmptyEvidenceRoot (bHeader ?b)" using inv a by (auto simp: chain_inv_def links_ok_def)
    then show ?thesis using put_indexes [OF put] e by simp
  qed
  have grow: "HasEvidence bdg x db" if "HasEvidence bdg x (cDb c)" for x using put_keeps [OF put that] .
  have st1: "stored_ok bdg db ?h"
    unfolding stored_ok_def
  proof (intro allI impI ballI)
    fix k x assume k: "k < length ?h" "bkStored (?h ! k)" and x: "x \<in> evds_at ?h k"
    have "evds_at ?h k = evds_at (cHeap c) k" by (rule shrunk_evds [OF shrunk_ops(4)]) (use k in simp)
    then show "HasEvidence bdg x db"
      using k x ev grow inv env by (cases "k = a") (auto simp: chain_inv_def stored_ok_def)
  qed
  have "chain_inv env (c\<lparr>cDb := db\<rparr>)"
    using inv grow env unfolding chain_inv_def shape_def knows_def stored_ok_def by (simp, blast)
  from shrunk_inv [OF this, of ?h] st1 env inv have "chain_inv env c'"
    by (simp add: c' chain_inv_def shape_def forwards_in_ops)
  then show ?thesis using a by (simp add: c')
qed

end

context evidence_index
begin

text \<open>One turn of the flushing loop that goes on to the next block.\<close>

lemma flush_step_inv:
  assumes env: "envBdg env = bdg" and inv: "chain_inv env c" and a: "a < length (cHeap c)"
    and one: "forwardNum (cHeap c) a = 1" and c1: "storeOld env a c = Some c1"
    and n: "n = snd (last (bkFordward (cHeap c1 ! a)))"
    and c2: "c2 = (if heightOf c1 (cLongest c1) - bkHeight (cHeap c1 ! n) > syncMaxBlocks then disconnect a n c1 else c1)"
  shows "chain_inv env c1" "chain_inv env c2" "n < length (cHeap c2)" "length (cHeap c1) = length (cHeap c)"
    "bkFordward (cHeap c1 ! a) = [last (bkFordward (cHeap c1 ! a))]"
proof -
  note st = storeOld_inv [OF env inv a c1]
  show "chain_inv env c1" "length (cHeap c1) = length (cHeap c)" using st by simp_all
  have "length (bkFordward (cHeap c1 ! a)) = 1" using st one by (simp add: forwardNum_def)
  then show fo: "bkFordward (cHeap c1 ! a) = [last (bkFordward (cHeap c1 ! a))]"
    by (cases "bkFordward (cHeap c1 ! a)") simp_all
  then have "n \<in> snd ` set (bkFordward (cHeap c1 ! a))" unfolding n by (metis image_eqI list.set_intros(1))
  then have n1: "n < length (cHeap c1)"
    using st a unfolding chain_inv_def shape_def forwards_in_def by (metis lessThan_iff subsetD)
  then show "chain_inv env c2" using disconnect_inv [of env c1 a n] st a c2 by simp
  show "n < length (cHeap c2)" using n1 by (simp add: c2 disconnect_def Let_def removeBackward_def removeForward_def)
qed

lemma flushLoop_inv:
  "flushLoop env a c = Some c' \<Longrightarrow> envBdg env = bdg \<longrightarrow> chain_inv env c \<longrightarrow> a < length (cHeap c) \<longrightarrow> chain_inv env c'"
proof (induction rule: flushLoop.raw_induct [rotated, consumes 1])
  case (1 flushLoop env a c c')
  show ?case
  proof (intro impI)
    assume env: "envBdg env = bdg" and inv: "chain_inv env c" and a: "a < length (cHeap c)"
    show "chain_inv env c'"
    proof (cases "forwardNum (cHeap c) a = 1 \<and> heightOf c (cLongest c) - bkHeight (cHeap c ! a) > word_of_nat alpha")
      case False
      then show ?thesis using 1(2) inv by (auto split: if_splits)
    next
      case True
      then obtain c1 where c1: "storeOld env a c = Some c1" using 1(2) by (auto split: bind_splits)
      note step = flush_step_inv [OF env inv a conjunct1 [OF True] c1 refl refl]
      show ?thesis using 1(1) [of env] 1(2) True c1 step(2,3) env by (simp add: Let_def)
    qed
  qed
qed

lemma maintain_inv:
  assumes "envBdg env = bdg" "chain_inv env c" "maintain env c = Some c'"
  shows "chain_inv env c'"
proof -
  obtain res c1 where c1: "pruneLoop (cBranches c) c [] = Some (res, c1)"
    and fl: "flushLoop env (cOldest c1) (c1\<lparr>cBranches := res\<rparr>) = Some c'"
    using assms(3) by (auto simp: maintain_def Let_def split: bind_splits)
  have "chain_inv env c1 \<and> set res \<subseteq> set (cBranches c1) \<and> cLongest c1 \<in> set res"
    using pruneLoop_inv [OF assms(2) _ _ _ c1] assms(2) by (simp add: chain_inv_def shape_def)
  then have "chain_inv env (c1\<lparr>cBranches := res\<rparr>)" by (auto simp: chain_inv_def shape_def)
  then show ?thesis using flushLoop_inv [OF fl] assms(1) by (auto simp: chain_inv_def shape_def)
qed

lemma chain_step_inv:
  assumes "envBdg env = bdg" "chain_inv env c" "chain_step env c r"
  shows "r = Some c' \<Longrightarrow> chain_inv env c'"
  using assms(3)
proof cases
  case step_maintain
  then show "r = Some c' \<Longrightarrow> chain_inv env c'" using maintain_inv [OF assms(1,2)] by simp
next
  case (step_pending blocks rest clock coin)
  have "chain_inv env (c\<lparr>cPending := rest\<rparr>)" using assms(2) by (simp add: chain_inv_def shape_def)
  then show "r = Some c' \<Longrightarrow> chain_inv env c'" using addBlocks_inv step_pending by metis
next
  case (step_add clock coin blocks local)
  have "chain_inv env (c\<lparr>cPending := cPending c @ [blocks]\<rparr>)" using assms(2) by (simp add: chain_inv_def shape_def)
  then show "r = Some c' \<Longrightarrow> chain_inv env c'"
    using step_add addBlocks_inv [OF assms(2), of clock coin blocks local c'] by (auto simp: AddBlocks_def split: if_splits)
next
  case step_notified
  then show "r = Some c' \<Longrightarrow> chain_inv env c'" using assms(2) by (auto simp: chain_inv_def shape_def)
qed

end

section \<open>Runs\<close>

text \<open>States the program passes through after \<open>c0\<close> without ending.\<close>

inductive runs :: "('sig, 'key, 'priv, 's) chain_env \<Rightarrow> 's chain \<Rightarrow> 's chain \<Rightarrow> bool" for env c0 where
  runs_start: "runs env c0 c0"
| runs_step: "runs env c0 c \<Longrightarrow> chain_step env c (Some c') \<Longrightarrow> runs env c0 c'"

lemma newBranchLoop_one:
  "bkBackward (h ! a) = None \<Longrightarrow> newBranchLoop h a r = Some (storeEvds (bEvds (bkBlock (h ! a))) (storeBlk h a r))"
  by (subst newBranchLoop.simps) (simp add: Let_def)

lemma lineage_root: "bkBackward (h ! a) = None \<Longrightarrow> lineage h a = [a]"
  by (subst lineage.simps) simp

text \<open>A chain that starts from a configured genesis block on an empty database.\<close>

definition starts :: "('sig, 'key, 'priv, 's) chain_env \<Rightarrow> string \<Rightarrow> 's \<Rightarrow> 's chain \<Rightarrow> bool" where
  "starts env genesis db c \<longleftrightarrow>
     initGenesis env genesis (NewChain db) = Some (Inr c) \<and>
     (\<exists>gb g rest. FromHex genesis = Inr gb \<and> UnmarshalBlock gb = Inr (g, rest) \<and>
        (IsEmptyEvidenceRoot (bHeader g) \<longrightarrow> bEvds g = []))"

context evidence_index
begin

lemma starts_inv:
  assumes env: "envBdg env = bdg" and st: "starts env genesis db c"
  shows "chain_inv env c"
proof -
  obtain gb g rest where g: "FromHex genesis = Inr gb" "UnmarshalBlock gb = Inr (g, rest)"
    "IsEmptyEvidenceRoot (bHeader g) \<longrightarrow> bEvds g = []"
    and init: "initGenesis env genesis (NewChain db) = Some (Inr c)" using st by (auto simp: starts_def)
  let ?b = "newBlk (envHash env) g 1 True"
  let ?br = "storeEvds (bEvds g) (storeBlk [?b] 0 \<lparr>brHead = 0, brTail = 0, brEvds = [], brBlocks = []\<rparr>)"
  obtain db' where put: "PutGenesis bdg (envHash env) g db = Inr db'"
    using init g env by (auto simp: initGenesis_def NewChain_def split: sum.splits)
  have b: "bkBackward ?b = None" "bkFordward ?b = []" "bkBlock ?b = g" "bkHash ?b = BlockHash (envHash env) g"
    by (simp_all add: newBlk_def)
  have "newBranch [?b] 0 = Some ?br"
    unfolding newBranch_def by (subst newBranchLoop_one) (simp_all add: b)
  then have c: "cHeap c = [?b]" "cStore c = [?br]" "cBranches c = [0]" "cLongest c = 0" "cOldest c = 0" "cDb c = db'"
    using init g put env by (auto simp: initGenesis_def NewChain_def initFirstBranch_def Let_def)
  have "HasEvidence bdg x db'" if "x \<in> evds_at [?b] 0" for x
    using that genesis_indexes [OF put] g(3) b by (auto simp: evds_at_def)
  then have "stored_ok bdg db' [?b]" "knows bdg db' [?b] ?br"
    by (auto simp: stored_ok_def knows_def lineage_root b storeEvds_def storeBlk_def)
  moreover have "shape c"
    using c b by (auto simp: shape_def branch_in_def forwards_in_def storeEvds_def storeBlk_def)
  moreover have "links_ok env [?b]" "apart [?b]"
    using g b by (auto simp: links_ok_def downward_def apart_def lineage_root)
  ultimately show ?thesis using c env by (simp add: chain_inv_def)
qed

lemma runs_inv:
  assumes "envBdg env = bdg" "chain_inv env c0" "runs env c0 c"
  shows "chain_inv env c"
  using assms(3) by induction (use assms chain_step_inv in blast)+

end

context kv_store
begin

lemma reachable_inv: "envBdg env = bdg \<Longrightarrow> starts env genesis db c0 \<Longrightarrow> runs env c0 c \<Longrightarrow> chain_inv env c"
  using index.runs_inv index.starts_inv by blast

end

end
