(* ===== verification/ChainDemo.thy ===== *)
theory ChainDemo
  imports ChainFacts
begin

text \<open>
  When a block is accepted, and a concrete environment in which chains can be run: a store in
  memory, the easiest targets, and a hash that keeps the first bytes of its input.
\<close>

section \<open>When a block is accepted\<close>

lemma verifyBlock_complete:
  assumes "BlockVerify (envEc env) (envHash env) cb = Inr ()"
    and "timeSub (bhTime (bHeader cb), 0) now \<le> 3 * 1000000000"
    and "\<not> timeBefore (bhTime (bHeader cb), 0) (bkTime (h ! brHead b), 0)"
    and "nextBlockTarget (envParams env) h b (bhTime (bHeader cb)) = Some (bhTarget (bHeader cb))"
    and "bhLastHash (bHeader cb) = branchHash h b"
    and "HeaderGetPow (envHash env) (bHeader cb) < TargetToDiff (bhTarget (bHeader cb))"
    and "\<And>e. e \<in> set (bEvds cb) \<Longrightarrow> verifyEvidence env db b e = Inr ()"
    and "bEvds cb \<noteq> [] \<Longrightarrow> ComputeRoot (envHash env) (map (EvidenceGetSerializedHash (envHash env)) (bEvds cb)) =
      Inr (bhEvidenceRoot (bHeader cb))"
  shows "verifyBlock env now db h b cb = Some (Inr ())"
proof (cases "bEvds cb = []")
  case True
  then have "IsEmptyEvidenceRoot (bHeader cb)" using BlockVerify_root [OF assms(1)] by simp
  then show ?thesis using assms(1-6) by (simp add: verifyBlock_def Let_def powCheck_def)
next
  case False
  have "checkAll (verifyEvidence env db b) (bEvds cb) = Inr ()" using assms(7) by simp
  then show ?thesis using assms(1-6) assms(8) [OF False]
    by (simp add: verifyBlock_def Let_def powCheck_def del: checkAll_Inr_iff)
qed

section \<open>A concrete environment\<close>

definition pad_hash :: hasher where
  "pad_hash x = take 32 (x @ replicate 32 0)"

lemma pad_hash_ok: "hash_ok pad_hash"
  by (simp add: hash_ok_def pad_hash_def HashLength_def del: take_append)

definition demo_conf :: ChainConfig where
  "demo_conf = \<lparr>cfgBlockTargetLimit = 0xFFFFFFFF, cfgEvidenceTargetLimit = 0xFFFFFFFF,
     cfgBlockInterval = 10, cfgGenesis = []\<rparr>"

definition demo_env :: "(bytes, unit, unit, (bytes \<times> bytes) list) chain_env" where
  "demo_env = \<lparr>envEc = toy_ec, envHash = pad_hash, envBdg = mem_badger, envParams = initMiningParams demo_conf\<rparr>"

lemma demo_env_simps [simp]:
  "envEc demo_env = toy_ec" "envHash demo_env = pad_hash" "envBdg demo_env = mem_badger"
  "BlockTargetLimit (envParams demo_env) = 0xFFFFFFFF"
  "EvidenceDifficultyLimit (envParams demo_env) = TargetToDiff 0xFFFFFFFF"
  by (simp_all add: demo_env_def initMiningParams_def demo_conf_def)

text \<open>Blocks made at second \<open>t\<close> after \<open>lastHash\<close>.\<close>

definition mk :: "bytes \<Rightarrow> nat \<Rightarrow> Evidence list \<Rightarrow> Block" where
  "mk lastHash t evds = NewBlock ((NewBlockHeaderV1 (word_of_nat t) lastHash (replicate 33 2)
     (if evds = [] then EmptyEvidenceRoot else merkleRoot pad_hash (map (EvidenceGetSerializedHash pad_hash) evds)))
     \<lparr>bhTarget := 0xFFFFFFFF\<rparr>) evds"

lemma mk_simps [simp]:
  "bEvds (mk l t evds) = evds" "bhTime (bHeader (mk l t evds)) = word_of_nat t"
  "bhLastHash (bHeader (mk l t evds)) = l" "bhTarget (bHeader (mk l t evds)) = 0xFFFFFFFF"
  by (simp_all add: mk_def NewBlock_def NewBlockHeaderV1_def)

lemma easiest_target: "TargetToDiff 0xFFFFFFFF = 0xFFFFFF * 2 ^ 231"
  by (simp add: TargetToDiff_def Let_def diffPrefixBitsLen_def)

lemma be_nat_pad: "be_nat (pad_hash (1 # xs)) < TargetToDiff 0xFFFFFFFF"
proof -
  have p: "pad_hash (1 # xs) = 1 # take 31 (xs @ replicate 32 0)" by (simp add: pad_hash_def)
  have "be_nat (take 31 (xs @ replicate 32 0)) < 256 ^ 31"
    using be_nat_less [of "take 31 (xs @ replicate 32 0)"] by (simp del: take_append)
  then have "be_nat (pad_hash (1 # xs)) < 2 * 256 ^ 31" by (simp add: p del: take_append)
  also have "2 * 256 ^ 31 < TargetToDiff 0xFFFFFFFF" by (simp add: easiest_target)
  finally show ?thesis .
qed

lemma mk_pow: "HeaderGetPow pad_hash (bHeader (mk l t evds)) < TargetToDiff 0xFFFFFFFF"
  using be_nat_pad
  by (simp add: HeaderGetPow_def HeaderGetSerializedHash_def MarshalBlockHeader_def mk_def NewBlock_def
      NewBlockHeaderV1_def CoreProtocolV1_def putU8_def)

lemma putU64_inject: "putU64 a = putU64 b \<longleftrightarrow> a = b"
  by (rule u64.enc_inject) simp_all

text \<open>Blocks of different seconds have different hashes.\<close>

lemma mk_hash_time:
  assumes "t < 2 ^ 64" "t' < 2 ^ 64" "BlockHash pad_hash (mk l t evds) = BlockHash pad_hash (mk l' t' evds')"
  shows "t = t'"
proof -
  have "take 9 (BlockHash pad_hash (mk l t evds)) = putU8 1 @ putU64 (word_of_nat t)" for l t evds
    by (simp add: BlockHash_def HeaderGetSerializedHash_def MarshalBlockHeader_def mk_def NewBlock_def
      NewBlockHeaderV1_def CoreProtocolV1_def pad_hash_def)
  then have "putU64 (word_of_nat t) = putU64 (word_of_nat t')" using arg_cong [OF assms(3), of "take 9"] by simp
  then have "(word_of_nat t :: u64) = word_of_nat t'" by (simp add: putU64_inject)
  then have "unat (word_of_nat t :: u64) = unat (word_of_nat t' :: u64)" by simp
  then show ?thesis using assms(1,2) by (simp add: unat_of_nat)
qed

lemma mk_verifies:
  assumes "length l = 32" "\<And>e. e \<in> set evds \<Longrightarrow> EvidenceVerify toy_ec pad_hash e = Inr ()"
  shows "BlockVerify toy_ec pad_hash (mk l t evds) = Inr ()"
proof (cases "evds = []")
  case True
  then show ?thesis using assms(1)
    by (simp add: BlockVerify_def BlockHeaderVerify_def mk_def NewBlock_def NewBlockHeaderV1_def HashLength_def
        PubKeyBytesLenCompressed_def IsEmptyEvidenceRoot_def EmptyEvidenceRoot_def)
next
  case False
  let ?r = "merkleRoot pad_hash (map (EvidenceGetSerializedHash pad_hash) evds)"
  have len: "length ?r = 32"
    using False by (intro length_merkleRoot) (auto simp: pad_hash_ok EvidenceGetSerializedHash_def)
  then have r: "?r \<noteq> EmptyEvidenceRoot" "?r \<noteq> []" by (auto simp: EmptyEvidenceRoot_def)
  have "BlockHeaderVerify (bHeader (mk l t evds)) = Inr ()"
    using False assms(1) len r
    by (simp add: BlockHeaderVerify_def mk_def NewBlock_def NewBlockHeaderV1_def HashLength_def
        PubKeyBytesLenCompressed_def)
  moreover have "\<not> IsEmptyEvidenceRoot (bHeader (mk l t evds))"
    using False r by (simp add: IsEmptyEvidenceRoot_def mk_def NewBlock_def NewBlockHeaderV1_def)
  ultimately show ?thesis using False assms(2) by (simp add: BlockVerify_def)
qed

lemma sint_seconds: "k < 2 ^ 63 \<Longrightarrow> sint (word_of_nat k :: i64) = int k"
  by (simp add: signed_of_nat signed_take_bit_int_eq_self)

lemma timeBefore_seconds:
  assumes "t < 2 ^ 60" "u < 2 ^ 60"
  shows "timeBefore (word_of_nat t, 0) (word_of_nat u, 0) \<longleftrightarrow> t < u"
proof -
  have "internalSec (word_of_nat k) = int k + 62135596800" if "k < 2 ^ 60" for k
    using sint_seconds [of "k + 62135596800"] that by (simp add: internalSec_def)
  then show ?thesis using assms by (simp add: timeBefore_def)
qed

lemma timeSub_self: "timeSub t t = 0"
  by (simp add: timeSub_def)

section \<open>A chain of blocks\<close>

fun dblk :: "nat \<Rightarrow> Block" where
  "dblk 0 = mk (replicate 32 7) 0 []"
| "dblk (Suc k) = mk (BlockHash pad_hash (dblk k)) (Suc k) []"

definition dh :: "nat \<Rightarrow> bytes" where
  "dh k = BlockHash pad_hash (dblk k)"

lemma dh_length [simp]: "length (dh k) = 32"
  by (simp add: dh_def length_BlockHash pad_hash_ok)

lemma dh_inject [simp]: "k < 2 ^ 60 \<Longrightarrow> j < 2 ^ 60 \<Longrightarrow> dh k = dh j \<longleftrightarrow> k = j"
  unfolding dh_def by (cases k; cases j) (auto dest!: mk_hash_time [rotated 2])

definition demo_genesis :: string where
  "demo_genesis = ToHex (MarshalBlock (dblk 0))"

definition demo_blk :: "nat \<Rightarrow> blk" where
  "demo_blk k = newBlk pad_hash (dblk k) (word_of_nat (Suc k)) False"

definition demo_branch :: branch where
  "demo_branch = \<lparr>brHead = 0, brTail = 0, brEvds = [], brBlocks = [(ToHex (dh 0), 0)]\<rparr>"

definition demo_c0 :: "(bytes \<times> bytes) list \<Rightarrow> (bytes \<times> bytes) list chain" where
  "demo_c0 s = \<lparr>cHeap = [newBlk pad_hash (dblk 0) 1 True], cStore = [demo_branch], cBranches = [0],
     cLongest = 0, cOldest = 0, cLastHeight = 1, cDb = s, cNotify = False, cPending = []\<rparr>"

lemma genesis_decodes: "UnmarshalBlock (MarshalBlock (dblk 0)) = Inr (dblk 0, [])"
  by (rule block.dec_enc_whole)
    (simp add: mk_def NewBlock_def NewBlockHeaderV1_def EmptyEvidenceRoot_def block_fits_def header_fits_def wfSeq16_def)

lemma demo_starts:
  "\<exists>s. starts demo_env demo_genesis [] (demo_c0 s) \<and> (\<forall>x. length x = 32 \<longrightarrow> \<not> HasEvidence mem_badger x s)"
proof -
  have "\<exists>s. PutGenesis mem_badger pad_hash (dblk 0) [] = Inr s"
    by (simp add: PutGenesis_def dbUpdate_def putBlockTX_def Let_def mem_badger_def mk_def NewBlock_def
      NewBlockHeaderV1_def IsEmptyEvidenceRoot_def updateScoreTX_def updateLatestHeightTX_def
      split: option.split)
  then obtain s where s: "PutGenesis mem_badger pad_hash (dblk 0) [] = Inr s" ..
  have "newBranch [newBlk pad_hash (dblk 0) 1 True] 0 = Some demo_branch"
    unfolding newBranch_def
    by (subst newBranchLoop_one) (simp_all add: newBlk_def demo_branch_def storeEvds_def storeBlk_def dh_def)
  then have "initGenesis demo_env demo_genesis (NewChain []) = Some (Inr (demo_c0 s))"
    using genesis_decodes s
    by (simp add: initGenesis_def demo_genesis_def initFirstBranch_def NewChain_def Let_def demo_c0_def
        branchHeight_def) (simp add: demo_branch_def newBlk_def)
  then have "starts demo_env demo_genesis [] (demo_c0 s)"
    using genesis_decodes by (auto simp: starts_def demo_genesis_def)
  moreover have "may_follow pad_hash [] (dblk 0)"
    by (simp add: may_follow_def storable_def mk_def NewBlock_def NewBlockHeaderV1_def header_fits_def
      EmptyEvidenceRoot_def IsEmptyEvidenceRoot_def evdHashes_def)
  then have "holds pad_hash (map_of s) [dblk 0]" using mem.PutGenesis_holds [OF s pad_hash_ok] by simp
  then have "\<forall>x. length x = 32 \<longrightarrow> \<not> HasEvidence mem_badger x s"
    using mem.HasEvidence_iff by (simp add: evdHashes_def)
  ultimately show ?thesis by blast
qed

text \<open>Verification of a demo block on a branch of at most 21 blocks.\<close>

lemma demo_verify:
  assumes "bkHash (h ! brHead b) = l" "length l = 32" "bkTime (h ! brHead b) = word_of_nat u" "u \<le> t" "t < 2 ^ 60"
    and "bkHeight (h ! brHead b) \<le> 21"
    and "\<And>e. e \<in> set evds \<Longrightarrow> verifyEvidence demo_env db b e = Inr ()"
  shows "verifyBlock demo_env (word_of_nat t, 0) db h b (mk l t evds) = Some (Inr ())"
proof (rule verifyBlock_complete)
  show "BlockVerify (envEc demo_env) (envHash demo_env) (mk l t evds) = Inr ()"
    using mk_verifies [OF assms(2), of evds t] assms(7) by (simp add: verifyEvidence_Inr)
  show "HeaderGetPow (envHash demo_env) (bHeader (mk l t evds)) < TargetToDiff (bhTarget (bHeader (mk l t evds)))"
    using mk_pow by simp
  show "nextBlockTarget (envParams demo_env) h b (bhTime (bHeader (mk l t evds))) = Some (bhTarget (bHeader (mk l t evds)))"
    using assms(6) by (simp add: nextBlockTarget_def Let_def ReferenceBlocks_def)
  show "ComputeRoot (envHash demo_env) (map (EvidenceGetSerializedHash (envHash demo_env)) (bEvds (mk l t evds))) =
      Inr (bhEvidenceRoot (bHeader (mk l t evds)))" if "bEvds (mk l t evds) \<noteq> []"
    using that by (simp add: ComputeRoot_merkleRoot) (simp add: mk_def NewBlock_def NewBlockHeaderV1_def)
qed (use assms in \<open>simp_all add: timeSub_self timeBefore_seconds branchHash_def\<close>)

section \<open>A block with an evidence\<close>

definition demo_evd :: Evidence where
  "demo_evd = \<lparr>eVersion = 1, eNonce = 0, eHash = replicate 32 5, eDescription = [104, 105],
     ePubKey = replicate 33 2, eSig = pad_hash ([104, 105] @ replicate 32 5)\<rparr>"

lemma demo_evd_verifies: "EvidenceVerify toy_ec pad_hash demo_evd = Inr ()"
proof -
  have "getSignContentHash pad_hash demo_evd = eSig demo_evd"
    by (simp add: getSignContentHash_def demo_evd_def)
  then show ?thesis by (simp add: EvidenceVerify_ok toy_ec_def)
      (simp add: demo_evd_def RuneCountInString_ascii CoreProtocolV1_def)
qed

lemma demo_evd_pow: "EvidenceGetPow pad_hash demo_evd < TargetToDiff 0xFFFFFFFF"
  using be_nat_pad
  by (simp add: EvidenceGetPow_def EvidenceGetSerializedHash_def MarshalEvidence_def demo_evd_def putU8_def)

definition demo_evd_block :: Block where
  "demo_evd_block = mk (dh 0) 1 [demo_evd]"

text \<open>The chain after that block.\<close>

definition demo_c1 :: "(bytes \<times> bytes) list \<Rightarrow> (bytes \<times> bytes) list chain" where
  "demo_c1 s = addTo 0 (newBlk pad_hash demo_evd_block 2 False) (demo_c0 s)"

lemma demo_c1_add:
  assumes "\<not> HasEvidence mem_badger (replicate 32 5) s"
  shows "addBlocks demo_env (\<lambda>_. (1, 0)) coin [demo_evd_block] True (demo_c0 s) = Some (demo_c1 s)"
proof -
  have "verifyEvidence demo_env s demo_branch demo_evd = Inr ()"
    using demo_evd_verifies demo_evd_pow assms
    by (simp add: verifyEvidence_Inr) (simp add: demo_evd_def demo_branch_def branchGetEvidence_def)
  moreover have "bkHash (newBlk pad_hash (dblk 0) 1 True) = dh 0" "bkTime (newBlk pad_hash (dblk 0) 1 True) = word_of_nat 0"
    by (simp_all add: newBlk_def dh_def bkTime_def)
  ultimately have "verifyBlock demo_env (word_of_nat 1, 0) s (cHeap (demo_c0 s)) demo_branch demo_evd_block = Some (Inr ())"
    unfolding demo_evd_block_def
    by (intro demo_verify [where u = 0]) (simp_all add: demo_c0_def demo_branch_def, simp add: newBlk_def)
  then have v: "verifyBlock demo_env (1, 0) s (cHeap (demo_c0 s)) demo_branch demo_evd_block = Some (Inr ())" by simp
  have g: "getBranch (demo_c0 s) (dh 0) = Some 0"
    by (simp add: getBranch_def demo_c0_def branchHash_def demo_branch_def newBlk_def dh_def)
  have h: "heightOf (demo_c0 s) 0 = 1"
    by (simp add: heightOf_def demo_c0_def branchHeight_def demo_branch_def newBlk_def)
  have c: "cDb (demo_c0 s) = s" "br (demo_c0 s) 0 = demo_branch" by (simp_all add: demo_c0_def)
  have "bhLastHash (bHeader demo_evd_block) = dh 0" by (simp add: demo_evd_block_def)
  with g h v c show ?thesis by (simp add: addBlocks_def demo_c1_def)
qed

lemma demo_c1_runs:
  assumes "\<not> HasEvidence mem_badger (replicate 32 5) s"
  shows "runs demo_env (demo_c0 s) (demo_c1 s)"
proof (rule runs_step [OF runs_start])
  show "chain_step demo_env (demo_c0 s) (Some (demo_c1 s))"
    using step_add [of demo_env "demo_c0 s" "\<lambda>_. (1, 0)" "\<lambda>_. True" "[demo_evd_block]" True]
      demo_c1_add [OF assms] by (simp add: AddBlocks_def)
qed

lemma demo_c1_simps:
  "cBranches (demo_c1 s) = [0]" "length (cHeap (demo_c1 s)) = 2" "brHead (br (demo_c1 s) 0) = Suc 0"
  "bkBackward (cHeap (demo_c1 s) ! Suc 0) = Some 0" "bkBackward (cHeap (demo_c1 s) ! 0) = None"
  "bkBlock (cHeap (demo_c1 s) ! Suc 0) = demo_evd_block" "bkHeight (cHeap (demo_c1 s) ! Suc 0) = 2"
  "bkBlock (cHeap (demo_c1 s) ! 0) = dblk 0"
  by (simp_all add: demo_c1_def addTo_def demo_c0_def branchAdd_def Let_def setBackward_def addFordward_def
      newBlk_def storeEvds_def storeBlk_def)
    (simp_all add: demo_branch_def)

end
