(* ===== verification/ChainProperties.thy ===== *)
theory ChainProperties
  imports ChainDemo
begin

text \<open>
  The properties of the chain, from a fresh start on any store that behaves as theory \<open>Database\<close>
  describes, for every sequence of additions and maintenance rounds.
\<close>

section \<open>Along a branch\<close>

lemma lineage_step:
  assumes "a \<in> set (lineage h x)" "a \<noteq> x"
  shows "\<exists>p. bkBackward (h ! x) = Some p \<and> p < x \<and> a \<in> set (lineage h p)"
proof (cases "bkBackward (h ! x)")
  case None
  then show ?thesis using assms by (simp add: lineage_root)
next
  case (Some p)
  have "set (lineage h x) = insert x (if p < x then set (lineage h p) else {})"
    by (subst lineage.simps, subst Some, cases "p < x") simp_all
  then show ?thesis using Some assms by (intro exI [of _ p], cases "p < x") simp_all
qed

lemma lineage_chain:
  "a \<in> set (lineage h x) \<Longrightarrow> b \<in> set (lineage h x) \<Longrightarrow> b \<le> a \<Longrightarrow> b \<in> set (lineage h a)"
proof (induction h x rule: lineage.induct)
  case (1 h x)
  show ?case
  proof (cases "a = x")
    case False
    then obtain p where p: "bkBackward (h ! x) = Some p" "p < x" and a: "a \<in> set (lineage h p)"
      using lineage_step [OF 1(2)] by blast
    then have "b \<noteq> x" using lineage_le [OF a] 1(4) by linarith
    then have "b \<in> set (lineage h p)" using lineage_step [OF 1(3)] p by auto
    then show ?thesis using 1(1) p a 1(4) by blast
  qed (use 1 in simp)
qed

lemma apart_lineage:
  assumes "apart h" "x < length h" "a \<in> set (lineage h x)" "b \<in> set (lineage h x)" "a \<noteq> b"
  shows "evds_at h a \<inter> evds_at h b = {}"
proof -
  have "a \<in> set (lineage h b) \<or> b \<in> set (lineage h a)"
    using lineage_chain [OF assms(3,4)] lineage_chain [OF assms(4,3)] by linarith
  then show ?thesis
  proof
    assume "a \<in> set (lineage h b)"
    then have "evds_at h b \<inter> evds_at h a = {}" using assms(1,5) lineage_bound [OF assms(2,4)] by (simp add: apart_def)
    then show ?thesis by (simp add: Int_commute)
  qed (use assms(1,5) lineage_bound [OF assms(2,3)] in \<open>simp add: apart_def\<close>)
qed

section \<open>Properties\<close>

text \<open>
  C2 Consensus rules hold in every reachable state: a block in memory that has a parent is one
  higher, names the parent's hash, is not earlier than the parent, meets its own target with its
  proof of work, has the target prescribed after the parent as long as the blocks that prescribe
  it are linked, and passes \<open>Verify\<close>, and each of its evidences is verified and meets the evidence
  difficulty; with evidences, its header carries their Merkle root.
\<close>

theorem chain_blocks_valid:
  assumes "kv_store (envBdg env) view" "starts env genesis db c0" "runs env c0 c"
    and "a < length (cHeap c)" "bkBackward (cHeap c ! a) = Some p"
  shows "let h = cHeap c; b = bkBlock (h ! a); hdr = bHeader b; Hash = envHash env in
     p < a \<and> bkHeight (h ! a) = bkHeight (h ! p) + 1 \<and>
     bkHash (h ! a) = BlockHash Hash b \<and> bhLastHash hdr = BlockHash Hash (bkBlock (h ! p)) \<and>
     \<not> timeBefore (bhTime hdr, 0) (bkTime (h ! p), 0) \<and>
     HeaderGetPow Hash hdr < TargetToDiff (bhTarget hdr) \<and>
     (\<forall>t. nextBlockTarget (envParams env) h (branchAt p) (bhTime hdr) = Some t \<longrightarrow> bhTarget hdr = t) \<and>
     BlockVerify (envEc env) Hash b = Inr () \<and>
     (\<forall>e \<in> set (bEvds b). EvidenceVerify (envEc env) Hash e = Inr () \<and>
        EvidenceGetPow Hash e < EvidenceDifficultyLimit (envParams env)) \<and>
     (bEvds b \<noteq> [] \<longrightarrow> ComputeRoot Hash (map (EvidenceGetSerializedHash Hash) (bEvds b)) = Inr (bhEvidenceRoot hdr))"
proof -
  have inv: "chain_inv env c"
    by (rule kv_store.reachable_inv [OF assms(1) refl assms(2,3)])
  then have l: "links_ok env (cHeap c)" by (simp add: chain_inv_def)
  have "p < a" using downwardD [OF links_downward [OF l] assms(4,5)] .
  then show ?thesis using l assms(4,5) by (simp add: links_ok_def accepted_def Let_def)
qed

theorem chain_blocks_valid_witness:
  "\<exists>s. runs demo_env (demo_c0 s) (demo_c1 s) \<and>
     bhLastHash (bHeader demo_evd_block) = BlockHash pad_hash (dblk 0) \<and>
     EvidenceGetPow pad_hash demo_evd < EvidenceDifficultyLimit (envParams demo_env)"
proof -
  obtain s where s: "starts demo_env demo_genesis [] (demo_c0 s)" "\<forall>x. length x = 32 \<longrightarrow> \<not> HasEvidence mem_badger x s"
    using demo_starts by blast
  then have r: "runs demo_env (demo_c0 s) (demo_c1 s)" by (simp add: demo_c1_runs)
  have e: "demo_evd \<in> set (bEvds demo_evd_block)" by (simp add: demo_evd_block_def)
  have kv: "kv_store (envBdg demo_env) map_of" using mem.kv_store_axioms by simp
  show ?thesis
    using chain_blocks_valid [OF kv s(1) r, of 1 0] r e by (auto simp: demo_c1_simps Let_def)
qed

text \<open>
  C1 No evidence is recorded twice: along every branch, evidences of different blocks have
  different hashes, and a block that a branch accepts next has no evidence that is in one of the
  branch's blocks or in the database.
\<close>

theorem evidence_once:
  assumes "kv_store (envBdg env) view" "starts env genesis db c0" "runs env c0 c" "i \<in> set (cBranches c)"
  shows "(\<forall>a \<in> set (lineage (cHeap c) (brHead (br c i))). \<forall>b \<in> set (lineage (cHeap c) (brHead (br c i))).
            a \<noteq> b \<longrightarrow> evds_at (cHeap c) a \<inter> evds_at (cHeap c) b = {}) \<and>
         (verifyBlock env now (cDb c) (cHeap c) (br c i) cb = Some (Inr ()) \<longrightarrow>
            (\<forall>e \<in> set (bEvds cb). \<not> HasEvidence (envBdg env) (eHash e) (cDb c) \<and>
               (\<forall>a \<in> set (lineage (cHeap c) (brHead (br c i))). eHash e \<notin> evds_at (cHeap c) a)))"
proof -
  have inv: "chain_inv env c" by (rule kv_store.reachable_inv [OF assms(1) refl assms(2,3)])
  then have ap: "apart (cHeap c)" and sh: "shape c" and k: "knows (envBdg env) (cDb c) (cHeap c) (br c i)"
    using assms(4) by (auto simp: chain_inv_def)
  have "\<not> HasEvidence (envBdg env) (eHash e) (cDb c) \<and>
      (\<forall>a \<in> set (lineage (cHeap c) (brHead (br c i))). eHash e \<notin> evds_at (cHeap c) a)"
    if "verifyBlock env now (cDb c) (cHeap c) (br c i) cb = Some (Inr ())" "e \<in> set (bEvds cb)" for e
    using verifyBlock_accepted(2) [OF that] k unfolding knows_def by blast
  then show ?thesis using apart_lineage [OF ap shape_update_branch [OF sh assms(4)]] by blast
qed

theorem evidence_once_witness:
  "\<exists>s. runs demo_env (demo_c0 s) (demo_c1 s) \<and>
     verifyBlock demo_env (2, 0) s (cHeap (demo_c1 s)) (br (demo_c1 s) 0) (mk (dh 0) 2 [demo_evd]) \<noteq> Some (Inr ())"
proof -
  obtain s where s: "starts demo_env demo_genesis [] (demo_c0 s)" "\<forall>x. length x = 32 \<longrightarrow> \<not> HasEvidence mem_badger x s"
    using demo_starts by blast
  then have r: "runs demo_env (demo_c0 s) (demo_c1 s)" by (simp add: demo_c1_runs)
  have kv: "kv_store (envBdg demo_env) map_of" using mem.kv_store_axioms by simp
  have db: "cDb (demo_c1 s) = s" by (simp add: demo_c1_def frame_simps) (simp add: demo_c0_def)
  have "eHash demo_evd \<in> evds_at (cHeap (demo_c1 s)) 1" by (simp add: evds_at_def demo_c1_simps demo_evd_block_def)
  moreover have "1 \<in> set (lineage (cHeap (demo_c1 s)) 1)" by simp
  ultimately show ?thesis
    using evidence_once [OF kv s(1) r, of 0 "(2, 0)" "mk (dh 0) 2 [demo_evd]"] r
    by (intro exI [of _ s]) (auto simp: demo_c1_simps db)
qed

end
