(* ===== verification/ForkChoice.thy ===== *)
theory ForkChoice
  imports ChainProperties
begin

text \<open>
  Heights and fork choice: heights do not wrap while fewer than \<open>2^64\<close> blocks were ever added,
  and \<open>notifyCheck\<close> makes a highest branch the longest one.
\<close>

section \<open>Heights\<close>

text \<open>A block is at most as high as the number of blocks made up to it.\<close>

definition low :: "heap \<Rightarrow> bool" where
  "low h \<longleftrightarrow> (\<forall>a < length h. unat (bkHeight (h ! a)) \<le> Suc a \<and> (length h < 2 ^ 64 \<longrightarrow> 1 \<le> bkHeight (h ! a)))"

definition height_inv :: "'s chain \<Rightarrow> bool" where
  "height_inv c \<longleftrightarrow> low (cHeap c) \<and> (length (cHeap c) < 2 ^ 64 \<longrightarrow> cLastHeight c \<le> heightOf c (cLongest c))"

lemma unat_Suc_le: "unat (w + 1 :: u64) \<le> Suc (unat w)"
  by (simp add: unat_word_ariths)

lemma next_height: "unat (w :: u64) \<le> n \<Longrightarrow> Suc n < 2 ^ 64 \<Longrightarrow> w < w + 1"
  by (simp add: word_less_nat_alt unat_word_ariths)

lemma extended_low:
  assumes e: "extended h n p h'" and low: "low h" and p: "p < length h" and n: "bkHeight n = bkHeight (h ! p) + 1"
  shows "low h'"
proof -
  have hp: "unat (bkHeight (h ! p)) \<le> Suc p" using low p by (simp add: low_def)
  then have "unat (bkHeight n) \<le> Suc (length h)" using unat_Suc_le [of "bkHeight (h ! p)"] n p by simp
  moreover have "1 \<le> bkHeight n" if "Suc (length h) < 2 ^ 64"
  proof -
    have "bkHeight (h ! p) < bkHeight (h ! p) + 1" by (rule next_height [of _ "length h"]) (use hp p that in auto)
    moreover have "1 \<le> bkHeight (h ! p)" using low p that by (simp add: low_def)
    ultimately show ?thesis using n by simp
  qed
  ultimately show ?thesis using e low by (auto simp: low_def extended_def less_Suc_eq)
qed

lemma shrunk_low: "shrunk h h' \<Longrightarrow> low h \<Longrightarrow> low h'"
  by (simp add: low_def shrunk_def)

lemma addTo_height:
  assumes inv: "chain_inv env c" and hi: "height_inv c" and i: "i \<in> set (cBranches c)"
  shows "height_inv (addTo i (newBlk Hash cb (heightOf c i + 1) False) c)"
proof -
  let ?n = "newBlk Hash cb (heightOf c i + 1) False"
  have sh: "shape c" using inv by (simp add: chain_inv_def)
  obtain h' b' where add: "branchAdd ?n (cHeap c) (br c i) = (h', b')" by (cases "branchAdd ?n (cHeap c) (br c i)")
  note hd = shape_update_branch [OF sh i]
  note e = branchAdd_extended [OF hd add] and b' = branchAdd_branch(1) [OF hd add]
  have il: "i < length (cStore c)" using shape_branch [OF sh i] by simp
  have n: "bkHeight ?n = bkHeight (cHeap c ! brHead (br c i)) + 1"
    by (simp add: newBlk_def heightOf_def branchHeight_def)
  have low: "low h'" using extended_low [OF e _ hd n] hi by (simp add: height_inv_def)
  have "cLastHeight c \<le> branchHeight h' ((cStore c)[i := b'] ! cLongest c)" if len: "length h' < 2 ^ 64"
  proof -
    have last: "cLastHeight c \<le> heightOf c (cLongest c)" using hi len e by (simp add: height_inv_def extended_def)
    show ?thesis
    proof (cases "cLongest c = i")
      case True
      have "unat (heightOf c i) \<le> length (cHeap c)"
        using hi hd by (auto simp: height_inv_def low_def heightOf_def branchHeight_def intro: order.trans)
      then have "heightOf c i < heightOf c i + 1"
        by (rule next_height) (use len e in \<open>simp add: extended_def\<close>)
      then show ?thesis using True last il b' e by (simp add: branchHeight_def extended_def newBlk_def)
    next
      case False
      have "brHead (longest c) < length (cHeap c)" using sh shape_update_branch [OF sh] by (simp add: shape_def)
      then show ?thesis using False last e by (simp add: branchHeight_def heightOf_def extended_def)
    qed
  qed
  moreover have "addTo i ?n c = c\<lparr>cHeap := h', cStore := (cStore c)[i := b']\<rparr>" by (simp add: addTo_def add)
  ultimately show ?thesis using low by (simp add: height_inv_def heightOf_def [of "c\<lparr>cHeap := h', cStore := (cStore c)[i := b']\<rparr>"])
qed

lemma addLoop_height:
  "chain_inv env c \<Longrightarrow> height_inv c \<Longrightarrow> i \<in> set (cBranches c) \<Longrightarrow> addLoop env clock i blocks c = Some (ok, c') \<Longrightarrow> height_inv c'"
proof (induction env clock i blocks c rule: addLoop.induct)
  case (2 env clock i cb blocks c)
  show ?case
  proof (cases "verifyBlock env (clock 0) (cDb c) (cHeap c) (br c i) cb = Some (Inr ())")
    case True
    then show ?thesis using 2 addTo_inv [OF 2(2,4) True] addTo_height [OF 2(2-4)] by (simp add: frame_simps)
  next
    case False
    then show ?thesis using 2(3,5) by (auto split: option.splits sum.splits)
  qed
qed simp

section \<open>Choosing the longest branch\<close>

lemma longestLoop_max:
  "longestLoop c coin ks best h = r \<Longrightarrow> (\<forall>b. best = Some b \<longrightarrow> heightOf c b = h) \<Longrightarrow> (best = None \<longrightarrow> h = 0) \<Longrightarrow>
   (\<forall>i \<in> set ks. 1 \<le> heightOf c i) \<Longrightarrow> best \<noteq> None \<or> ks \<noteq> [] \<Longrightarrow>
   \<exists>b. r = Some b \<and> h \<le> heightOf c b \<and> (\<forall>i \<in> set ks. heightOf c i \<le> heightOf c b)"
proof (induction c coin ks best h rule: longestLoop.induct)
  case (2 c coin i ks best height)
  let ?coin = "\<lambda>k. coin (Suc k)"
  consider (up) "heightOf c i > height" | (eq) "heightOf c i = height" | (low) "heightOf c i < height" by force
  then show ?case
  proof cases
    case up
    have "longestLoop c ?coin ks (Some i) (heightOf c i) = r" using "2.prems"(1) up by simp
    from "2.IH"(1) [OF up this] "2.prems"(4) obtain b where
      "r = Some b" "heightOf c i \<le> heightOf c b" "\<forall>j \<in> set ks. heightOf c j \<le> heightOf c b" by auto
    then show ?thesis using up by (intro exI [of _ b]) auto
  next
    case eq
    then have nn: "best \<noteq> None" using "2.prems" by auto
    have not: "\<not> heightOf c i > height" using eq by simp
    have "longestLoop c ?coin ks (if coin 0 then Some i else best) height = r" using "2.prems"(1) eq by simp
    from "2.IH"(2) [OF not eq this] nn eq "2.prems"(2-4) obtain b where
      "r = Some b" "height \<le> heightOf c b" "\<forall>j \<in> set ks. heightOf c j \<le> heightOf c b"
      by (cases "coin 0") auto
    then show ?thesis using eq by (intro exI [of _ b]) auto
  next
    case low
    then have nn: "best \<noteq> None" using "2.prems" by auto
    have not: "\<not> heightOf c i > height" "heightOf c i \<noteq> height" using low by auto
    have "longestLoop c ?coin ks best height = r" using "2.prems"(1) not by simp
    from "2.IH"(3) [OF not this] nn "2.prems"(2-4) obtain b where
      "r = Some b" "height \<le> heightOf c b" "\<forall>j \<in> set ks. heightOf c j \<le> heightOf c b" by auto
    then show ?thesis using low by (intro exI [of _ b]) auto
  qed
qed auto

lemma branch_heights:
  assumes "shape c" "low (cHeap c)" "length (cHeap c) < 2 ^ 64" "i \<in> set (cBranches c)"
  shows "1 \<le> heightOf c i"
  using assms shape_update_branch [OF assms(1,4)] by (simp add: low_def heightOf_def branchHeight_def)

lemma getLongestBranch_max:
  assumes inv: "chain_inv env c" and hi: "height_inv c" and len: "length (cHeap c) < 2 ^ 64"
  obtains b where "getLongestBranch coin c = Some b" "b \<in> set (cBranches c)"
    "\<forall>i \<in> set (cBranches c). heightOf c i \<le> heightOf c b"
proof -
  have sh: "shape c" and low: "low (cHeap c)" using inv hi by (auto simp: chain_inv_def height_inv_def)
  have ne: "cBranches c \<noteq> []" using sh by (auto simp: shape_def)
  from longestLoop_max [OF refl, where c = c and coin = coin and best = None and h = 0 and ks = "cBranches c"] obtain b where
    b: "getLongestBranch coin c = Some b" "\<forall>i \<in> set (cBranches c). heightOf c i \<le> heightOf c b"
    using branch_heights [OF sh low len] ne by (auto simp: getLongestBranch_def)
  then have "b \<in> set (cBranches c)"
    using longestLoop_in [of c coin "cBranches c" None 0 b] by (simp add: getLongestBranch_def)
  with b show thesis by (intro that [of b])
qed

text \<open>\<open>notifyCheck\<close> changes the chain exactly when a branch is higher than the last announced height.\<close>

lemma notifyCheck_cases:
  assumes inv: "chain_inv env c" and hi: "height_inv c" and len: "length (cHeap c) < 2 ^ 64"
  obtains b where "b \<in> set (cBranches c)" "\<forall>i \<in> set (cBranches c). heightOf c i \<le> heightOf c b"
      "cLastHeight c < heightOf c b"
      "notifyCheck coin c = Some (c\<lparr>cLongest := b, cLastHeight := heightOf c b, cNotify := True\<rparr>)"
  | "\<forall>i \<in> set (cBranches c). heightOf c i \<le> cLastHeight c" "notifyCheck coin c = Some c"
proof -
  obtain b where b: "getLongestBranch coin c = Some b" "b \<in> set (cBranches c)"
      "\<forall>i \<in> set (cBranches c). heightOf c i \<le> heightOf c b"
    by (rule getLongestBranch_max [OF assms])
  show thesis
  proof (cases "cLastHeight c < heightOf c b")
    case True
    then show thesis using b by (intro that(1) [of b]) (simp_all add: notifyCheck_def)
  next
    case False
    then show thesis using b by (intro that(2)) (auto simp: notifyCheck_def)
  qed
qed

lemma notifyCheck_spec:
  assumes inv: "chain_inv env c" and hi: "height_inv c" and len: "length (cHeap c) < 2 ^ 64"
  shows "\<exists>c'. notifyCheck coin c = Some c' \<and> cBranches c' = cBranches c \<and>
     cLongest c' \<in> set (cBranches c') \<and> (\<forall>i \<in> set (cBranches c'). heightOf c' i \<le> heightOf c' (cLongest c')) \<and>
     (c' \<noteq> c \<longrightarrow> cLastHeight c < heightOf c' (cLongest c') \<and> cNotify c') \<and> height_inv c'"
proof (rule notifyCheck_cases [OF assms])
  fix b
  assume "b \<in> set (cBranches c)" "\<forall>i \<in> set (cBranches c). heightOf c i \<le> heightOf c b" "cLastHeight c < heightOf c b"
    "notifyCheck coin c = Some (c\<lparr>cLongest := b, cLastHeight := heightOf c b, cNotify := True\<rparr>)"
  then show ?thesis using hi by (simp add: heightOf_def height_inv_def)
next
  assume quiet: "\<forall>i \<in> set (cBranches c). heightOf c i \<le> cLastHeight c" "notifyCheck coin c = Some c"
  have "cLongest c \<in> set (cBranches c)" using inv by (simp add: chain_inv_def shape_def)
  moreover have "cLastHeight c \<le> heightOf c (cLongest c)" using hi len by (simp add: height_inv_def)
  ultimately show ?thesis using quiet hi by (auto intro: order_trans)
qed

lemma notifyCheck_announces:
  assumes inv: "chain_inv env c" and hi: "height_inv c" and len: "length (cHeap c) < 2 ^ 64"
    and check: "notifyCheck coin c = Some c'"
  shows "if \<exists>i \<in> set (cBranches c). cLastHeight c < heightOf c i
      then cNotify c' \<and> cLastHeight c < cLastHeight c' \<and> cLastHeight c' = heightOf c' (cLongest c') else c' = c"
    and "notifyCheck coin' (c'\<lparr>cNotify := False\<rparr>) = Some (c'\<lparr>cNotify := False\<rparr>)"
proof -
  let ?c = "c'\<lparr>cNotify := False\<rparr>"
  have *: "(if \<exists>i \<in> set (cBranches c). cLastHeight c < heightOf c i
      then cNotify c' \<and> cLastHeight c < cLastHeight c' \<and> cLastHeight c' = heightOf c' (cLongest c') else c' = c) \<and>
      (\<forall>i \<in> set (cBranches c'). heightOf c' i \<le> cLastHeight c') \<and> length (cHeap c') = length (cHeap c)"
  proof (rule notifyCheck_cases [OF inv hi len, of coin])
    fix b
    assume b: "b \<in> set (cBranches c)" "\<forall>i \<in> set (cBranches c). heightOf c i \<le> heightOf c b" "cLastHeight c < heightOf c b"
      "notifyCheck coin c = Some (c\<lparr>cLongest := b, cLastHeight := heightOf c b, cNotify := True\<rparr>)"
    then have "c' = c\<lparr>cLongest := b, cLastHeight := heightOf c b, cNotify := True\<rparr>" using check by simp
    then show ?thesis using b(1-3) by (auto simp: heightOf_def)
  next
    assume "\<forall>i \<in> set (cBranches c). heightOf c i \<le> cLastHeight c" "notifyCheck coin c = Some c"
    then show ?thesis using check by (simp add: linorder_not_less [symmetric])
  qed
  then show "if \<exists>i \<in> set (cBranches c). cLastHeight c < heightOf c i
      then cNotify c' \<and> cLastHeight c < cLastHeight c' \<and> cLastHeight c' = heightOf c' (cLongest c') else c' = c" by blast
  have "chain_inv env c'" "height_inv c'"
    using notifyCheck_inv [OF inv check] notifyCheck_spec [OF inv hi len, of coin] check by auto
  then have c: "chain_inv env ?c" "height_inv ?c"
    by (simp_all add: chain_inv_def shape_def height_inv_def heightOf_def)
  have top: "\<forall>i \<in> set (cBranches ?c). heightOf ?c i \<le> cLastHeight ?c" "length (cHeap ?c) < 2 ^ 64"
    using * len by (simp_all add: heightOf_def)
  show "notifyCheck coin' ?c = Some ?c"
  proof (rule notifyCheck_cases [OF c top(2), of coin'])
    fix b
    assume "b \<in> set (cBranches ?c)" "cLastHeight ?c < heightOf ?c b"
    then show ?thesis using top(1) by (meson linorder_not_less)
  qed
qed

section \<open>Every step keeps the heights\<close>

text \<open>\<open>calm c c'\<close>: the blocks, the heads of the branches and the choice of the longest are as before.\<close>

definition calm :: "'s chain \<Rightarrow> 's chain \<Rightarrow> bool" where
  "calm c c' \<longleftrightarrow> shrunk (cHeap c) (cHeap c') \<and> cLongest c' = cLongest c \<and> cLastHeight c' = cLastHeight c \<and>
     map brHead (cStore c') = map brHead (cStore c)"

lemma calm_refl: "calm c c"
  by (simp add: calm_def)

lemma calm_trans: "calm c c' \<Longrightarrow> calm c' c'' \<Longrightarrow> calm c c''"
  unfolding calm_def using shrunk_trans by auto

lemma calm_head: "calm c c' \<Longrightarrow> i < length (cStore c) \<Longrightarrow> i < length (cStore c') \<and> brHead (br c' i) = brHead (br c i)"
  unfolding calm_def by (metis length_map nth_map)

lemma calm_height:
  assumes "calm c c'" "shape c" "height_inv c"
  shows "height_inv c'"
proof -
  have s: "shrunk (cHeap c) (cHeap c')" using assms(1) by (simp add: calm_def)
  have l: "cLongest c \<in> set (cBranches c)" using assms(2) by (simp add: shape_def)
  then have "brHead (br c' (cLongest c)) = brHead (longest c)"
    using calm_head [OF assms(1)] shape_branch [OF assms(2) l] by simp
  then have "heightOf c' (cLongest c') = heightOf c (cLongest c)"
    using assms(1) s shape_update_branch [OF assms(2) l] by (simp add: calm_def heightOf_def branchHeight_def shrunk_def)
  then show ?thesis
    using assms(1,3) shrunk_low [OF s] shrunk_length [OF s] by (simp add: height_inv_def calm_def)
qed

lemma pruneLoop_calm: "pruneLoop ks c res = Some (reserved, c') \<Longrightarrow> calm c c'"
proof (induction ks c res rule: pruneLoop.induct)
  case (2 i ks c res)
  show ?case
  proof (cases "heightOf c (cLongest c) - heightOf c i > word_of_nat alpha")
    case True
    then obtain h where h: "branchRemove (br c i) (cHeap c) = Some h"
      and rest: "pruneLoop ks (c\<lparr>cHeap := h\<rparr>) res = Some (reserved, c')"
      using "2.prems" by (auto split: bind_splits)
    have "calm c (c\<lparr>cHeap := h\<rparr>)"
      using removeLoop_pruned [OF h [unfolded branchRemove_def]] by (simp add: calm_def pruned_def)
    then show ?thesis using "2.IH"(1) [OF True h rest] calm_trans by blast
  next
    case False
    then show ?thesis using "2.IH"(2) [OF False] "2.prems" by simp
  qed
qed (simp add: calm_refl)

lemma storeOld_calm: "storeOld env a c = Some c' \<Longrightarrow> calm c c'"
  by (auto simp: storeOld_def calm_def Let_def split: if_splits sum.splits)

lemma disconnect_calm: "calm c (disconnect a n c)"
proof -
  let ?h = "removeBackward n (removeForward a n (cHeap c))"
  let ?st = "foldl (\<lambda>st i. st[i := removeFromCache ?h a (st ! i)]) (cStore c) (cBranches c)"
  have "length ?st = length (cStore c) \<and> (\<forall>j < length (cStore c). trimmed (evds_at ?h a) (br c j) (?st ! j))"
    by (rule trim_all) (rule removeFromCache_trimmed)
  then have "map brHead ?st = map brHead (cStore c)"
    by (intro nth_equalityI) (auto simp: trimmed_def)
  then show ?thesis
    using shrunk_trans [OF shrunk_ops(2) shrunk_ops(1)] by (simp add: calm_def disconnect_def Let_def)
qed

lemma flushLoop_calm: "flushLoop env a c = Some c' \<Longrightarrow> calm c c'"
proof (induction rule: flushLoop.raw_induct [rotated, consumes 1])
  case (1 flushLoop env a c c')
  show ?case
  proof (cases "forwardNum (cHeap c) a = 1 \<and> heightOf c (cLongest c) - bkHeight (cHeap c ! a) > word_of_nat alpha")
    case False
    then show ?thesis using 1(2) by (auto split: if_splits simp: calm_refl)
  next
    case True
    then obtain c1 where c1: "storeOld env a c = Some c1" using 1(2) by (auto split: bind_splits)
    let ?n = "snd (last (bkFordward (cHeap c1 ! a)))"
    let ?c2 = "if heightOf c1 (cLongest c1) - bkHeight (cHeap c1 ! ?n) > syncMaxBlocks then disconnect a ?n c1 else c1"
    have "flushLoop env ?n ?c2 = Some c'" using 1(2) True c1 by (simp add: Let_def)
    then have "calm ?c2 c'" by (rule 1(1))
    moreover have "calm c1 ?c2" by (simp add: calm_refl disconnect_calm)
    ultimately show ?thesis using storeOld_calm [OF c1] calm_trans by blast
  qed
qed

lemma maintain_calm: "maintain env c = Some c' \<Longrightarrow> calm c c'"
proof -
  assume "maintain env c = Some c'"
  then obtain res c1 where c1: "pruneLoop (cBranches c) c [] = Some (res, c1)"
    and fl: "flushLoop env (cOldest c1) (c1\<lparr>cBranches := res\<rparr>) = Some c'"
    by (auto simp: maintain_def Let_def split: bind_splits)
  have "calm c1 (c1\<lparr>cBranches := res\<rparr>)" by (simp add: calm_def)
  then show ?thesis using pruneLoop_calm [OF c1] flushLoop_calm [OF fl] calm_trans by blast
qed

lemma createBranchLoop_height:
  "shape c \<Longrightarrow> height_inv c \<Longrightarrow> createBranchLoop Hash b0 ks c = Some (Inr (j, c')) \<Longrightarrow> height_inv c'"
proof (induction ks)
  case (Cons i ks)
  have "cLongest c < length (cStore c)" using Cons.prems(1) by (auto simp: shape_def)
  then show ?case
    using Cons by (auto split: option.splits if_splits bind_splits simp: height_inv_def heightOf_def nth_append Let_def)
qed simp

lemma addBlocks_height:
  assumes inv: "chain_inv env c" and hi: "height_inv c" and add: "addBlocks env clock coin blocks local c = Some c'"
  shows "height_inv c'"
proof (cases blocks)
  case (Cons b0 bs)
  let ?found = "case getBranch c (bhLastHash (bHeader b0)) of
      Some i \<Rightarrow> Some (Inr (i, c)) | None \<Rightarrow> createBranch (envHash env) b0 c"
  have sh: "shape c" using inv by (simp add: chain_inv_def)
  from add Cons obtain f where f: "?found = Some f" by (auto simp: addBlocks_def split: bind_splits)
  show ?thesis
  proof (cases f)
    case (Inl err)
    then show ?thesis using add Cons f hi by (simp add: addBlocks_def)
  next
    case (Inr ic)
    obtain i c1 where ic: "ic = (i, c1)" by (cases ic)
    have c1: "chain_inv env c1" "height_inv c1" "i \<in> set (cBranches c1)"
      using f Inr ic inv hi createBranchLoop_inv [OF inv, of "cBranches c" "envHash env" b0]
        createBranchLoop_height [OF sh hi, of "envHash env" b0 "cBranches c" i c1]
      by (auto simp: createBranch_def getBranch_def find_Some_iff split: option.splits)
    obtain ok c2 where c2: "addLoop env clock i blocks c1 = Some (ok, c2)"
      and c': "(if ok \<and> \<not> local then notifyCheck coin c2 else Some c2) = Some c'"
      using add Cons f Inr ic by (auto simp: addBlocks_def split: bind_splits)
    have "height_inv c2" by (rule addLoop_height [OF c1 c2])
    then show ?thesis
      using c' by (auto simp: notifyCheck_def height_inv_def heightOf_def split: if_splits bind_splits)
  qed
qed (use hi add in \<open>simp add: addBlocks_def\<close>)

lemma chain_step_height:
  assumes inv: "chain_inv env c" and hi: "height_inv c" and "chain_step env c (Some c')"
  shows "height_inv c'"
  using assms(3)
proof cases
  case step_maintain
  then show ?thesis using calm_height [OF maintain_calm] inv hi by (metis chain_inv_def)
next
  case (step_pending blocks rest clock coin)
  have "chain_inv env (c\<lparr>cPending := rest\<rparr>)" "height_inv (c\<lparr>cPending := rest\<rparr>)"
    using inv hi by (simp_all add: chain_inv_def shape_def height_inv_def heightOf_def)
  then show ?thesis using addBlocks_height step_pending by metis
next
  case (step_add clock coin blocks local)
  have "height_inv (c\<lparr>cPending := cPending c @ [blocks]\<rparr>)" using hi by (simp add: height_inv_def heightOf_def)
  then show ?thesis
    using step_add addBlocks_height [OF inv hi, of clock coin blocks local c'] by (auto simp: AddBlocks_def split: if_splits)
next
  case step_notified
  then show ?thesis using hi by (simp add: height_inv_def heightOf_def)
qed

lemma starts_height: "starts env genesis db c \<Longrightarrow> height_inv c"
proof -
  assume "starts env genesis db c"
  then obtain g db' i where
    "initFirstBranch (newBlk (envHash env) g 1 True) ((NewChain db)\<lparr>cDb := db'\<rparr>) = Some (i, c)"
    by (auto simp: starts_def initGenesis_def split: sum.splits bind_splits)
  then show ?thesis
    by (auto simp: initFirstBranch_def NewChain_def newBranch_def newBranchLoop_one newBlk_def Let_def height_inv_def
        low_def heightOf_def branchHeight_def storeEvds_def storeBlk_def split: bind_splits)
qed

context kv_store
begin

lemma reachable_height:
  assumes env: "envBdg env = bdg" and st: "starts env genesis db c0" and "runs env c0 c"
  shows "height_inv c"
  using assms(3)
proof induction
  case (runs_step c c')
  then show ?case using chain_step_height reachable_inv [OF env st] by blast
qed (rule starts_height [OF st])

end

section \<open>Property\<close>

text \<open>
  C3 Fork choice: in every reachable state, as long as fewer than \<open>2^64\<close> blocks were added,
  \<open>notifyCheck\<close> does not fail and afterwards the longest branch is one of the branches and as
  high as any of them.  A change is announced exactly when some branch is higher than the last
  announced height; the height of the new longest branch is then the announced one, so that the
  same branch is not announced again: once the announcement was taken, a further \<open>notifyCheck\<close>
  changes nothing.
\<close>

theorem fork_choice:
  assumes "kv_store (envBdg env) view" "starts env genesis db c0" "runs env c0 c" "length (cHeap c) < 2 ^ 64"
  shows "\<exists>c'. notifyCheck coin c = Some c' \<and> cBranches c' = cBranches c \<and>
     cLongest c' \<in> set (cBranches c') \<and> (\<forall>i \<in> set (cBranches c'). heightOf c' i \<le> heightOf c' (cLongest c')) \<and>
     (c' \<noteq> c \<longrightarrow> cLastHeight c < heightOf c' (cLongest c') \<and> cNotify c') \<and>
     (if \<exists>i \<in> set (cBranches c). cLastHeight c < heightOf c i
      then cNotify c' \<and> cLastHeight c < cLastHeight c' \<and> cLastHeight c' = heightOf c' (cLongest c') else c' = c) \<and>
     notifyCheck coin' (c'\<lparr>cNotify := False\<rparr>) = Some (c'\<lparr>cNotify := False\<rparr>)"
proof -
  note reach = kv_store.reachable_inv [OF assms(1) refl assms(2,3)] kv_store.reachable_height [OF assms(1) refl assms(2,3)] assms(4)
  show ?thesis using notifyCheck_spec [OF reach, of coin] notifyCheck_announces [OF reach, of coin] by blast
qed

theorem fork_choice_witness:
  "\<exists>s c'. runs demo_env (demo_c0 s) (demo_c1 s) \<and> notifyCheck (\<lambda>_. True) (demo_c1 s) = Some c' \<and>
     cLongest c' \<in> set (cBranches (demo_c1 s))"
proof -
  obtain s where s: "starts demo_env demo_genesis [] (demo_c0 s)" "\<forall>x. length x = 32 \<longrightarrow> \<not> HasEvidence mem_badger x s"
    using demo_starts by blast
  then have r: "runs demo_env (demo_c0 s) (demo_c1 s)" by (simp add: demo_c1_runs)
  have kv: "kv_store (envBdg demo_env) map_of" using mem.kv_store_axioms by simp
  show ?thesis
    using fork_choice [OF kv s(1) r, of "\<lambda>_. True" "\<lambda>_. True"] r by (force simp: demo_c1_simps)
qed

end
