(* ===== verification/BranchCache.thy ===== *)
theory BranchCache
  imports ForkChoice
begin

text \<open>
  The cache of blocks of a branch: in every reachable state a block of a branch is found in its
  cache under its hash, and a block knows its children, as long as no two blocks that were ever added
  have the same hash.
\<close>

section \<open>The invariant\<close>

text \<open>No two blocks have the same hash: no collision, and no block was added twice.\<close>

definition distinct_hashes :: "heap \<Rightarrow> bool" where
  "distinct_hashes h \<longleftrightarrow> distinct (map bkHash h)"

text \<open>A block with a parent is among the children of the parent.\<close>

definition linked :: "heap \<Rightarrow> bool" where
  "linked h \<longleftrightarrow> (\<forall>a < length h. \<forall>p. bkBackward (h ! a) = Some p \<longrightarrow>
     map_of (bkFordward (h ! p)) (ToHex (bkHash (h ! a))) = Some a)"

definition covers :: "heap \<Rightarrow> branch \<Rightarrow> bool" where
  "covers h b \<longleftrightarrow> (\<forall>a \<in> set (lineage h (brHead b)). branchGetBlock b (bkHash (h ! a)) = Some a)"

definition cache_inv :: "'s chain \<Rightarrow> bool" where
  "cache_inv c \<longleftrightarrow> (distinct_hashes (cHeap c) \<longrightarrow>
     linked (cHeap c) \<and> (\<forall>i \<in> set (cBranches c). covers (cHeap c) (br c i)))"

lemma distinct_hashesD:
  "distinct_hashes h \<Longrightarrow> a < length h \<Longrightarrow> b < length h \<Longrightarrow> bkHash (h ! a) = bkHash (h ! b) \<longleftrightarrow> a = b"
  using nth_eq_iff_index_eq [of "map bkHash h" a b] by (simp add: distinct_hashes_def)

lemma shrunk_hashes: "shrunk h h' \<Longrightarrow> map bkHash h' = map bkHash h"
  by (rule nth_equalityI) (simp_all add: shrunk_def)

lemma shrunk_distinct: "shrunk h h' \<Longrightarrow> distinct_hashes h' = distinct_hashes h"
  by (simp add: distinct_hashes_def shrunk_hashes)

lemma extended_distinct:
  assumes "extended h n p h'" "distinct_hashes h'"
  shows "distinct_hashes h" "a < length h \<Longrightarrow> bkHash (h ! a) \<noteq> bkHash n"
proof -
  have "map bkHash h' = map bkHash h @ [bkHash n]"
    by (rule nth_equalityI) (use assms(1) in \<open>auto simp: extended_def nth_append less_Suc_eq\<close>)
  then have "distinct (map bkHash h @ [bkHash n])" using assms(2) by (simp add: distinct_hashes_def)
  then show "distinct_hashes h" "a < length h \<Longrightarrow> bkHash (h ! a) \<noteq> bkHash n"
    by (simp_all add: distinct_hashes_def) (metis image_eqI nth_mem)
qed

lemma covers_inj: "covers h b \<Longrightarrow> inj_on (\<lambda>y. bkHash (h ! y)) (set (lineage h (brHead b)))"
  by (rule inj_onI) (metis covers_def option.inject)

section \<open>Links that are cut\<close>

lemma shrunk_covers:
  assumes "shrunk h h'" "downward h" "brHead b < length h" "covers h b"
  shows "covers h' b"
  unfolding covers_def
proof
  fix a assume "a \<in> set (lineage h' (brHead b))"
  then have a: "a \<in> set (lineage h (brHead b))" using shrunk_lineage [OF assms(1-3)] by blast
  then have "bkHash (h' ! a) = bkHash (h ! a)" using assms(1) lineage_bound [OF assms(3)] by (simp add: shrunk_def)
  then show "branchGetBlock b (bkHash (h' ! a)) = Some a" using assms(4) a by (simp add: covers_def)
qed

text \<open>\<open>n\<close> forgets its parent and \<open>p\<close> its child \<open>n\<close>.\<close>

definition cut :: "addr \<Rightarrow> addr \<Rightarrow> heap \<Rightarrow> heap" where
  "cut p n h = removeBackward n (removeForward p n h)"

lemma cut_shrunk: "shrunk h (cut p n h)"
  unfolding cut_def using shrunk_trans [OF shrunk_ops(2) shrunk_ops(1)] .

lemma cut_backward: "a < length h \<Longrightarrow> bkBackward (cut p n h ! a) = (if a = n then None else bkBackward (h ! a))"
  by (cases "p = a"; cases "n = a") (simp_all add: cut_def removeBackward_def removeForward_def)

lemma cut_children:
  assumes "q < length h" "x \<noteq> bkHash (h ! n)" "map_of (bkFordward (h ! q)) (ToHex x) = r"
  shows "map_of (bkFordward (cut p n h ! q)) (ToHex x) = r"
proof -
  have "map_of (AList.delete (ToHex (bkHash (h ! n))) al) (ToHex x) = map_of al (ToHex x)" for al :: "(string \<times> addr) list"
    using assms(2) by (simp add: delete_conv)
  then show ?thesis
    using assms(1,3) by (cases "p = q"; cases "n = q") (simp_all add: cut_def removeBackward_def removeForward_def)
qed

lemma cut_linked:
  assumes "distinct_hashes h" "downward h" "n < length h" "linked h"
  shows "linked (cut p n h)"
  unfolding linked_def
proof (intro allI impI)
  fix a q assume a: "a < length (cut p n h)" and q: "bkBackward (cut p n h ! a) = Some q"
  have al: "a < length h" using a shrunk_length [OF cut_shrunk [where h = h and p = p and n = n]] by simp
  then have ne: "a \<noteq> n" and q': "bkBackward (h ! a) = Some q" using q cut_backward [OF al] by (auto split: if_splits)
  have ql: "q < length h" using downwardD [OF assms(2) al q'] al by simp
  have "bkHash (h ! a) \<noteq> bkHash (h ! n)" using distinct_hashesD [OF assms(1) al assms(3)] ne by simp
  moreover have "bkHash (cut p n h ! a) = bkHash (h ! a)" using cut_shrunk [where h = h and p = p and n = n] al by (simp add: shrunk_def)
  ultimately show "map_of (bkFordward (cut p n h ! q)) (ToHex (bkHash (cut p n h ! a))) = Some a"
    using assms(4) al q' ql by (simp add: cut_children linked_def)
qed

lemma removeLoop_linked:
  "removeLoop a h = Some h' \<Longrightarrow> a < length h \<longrightarrow> downward h \<longrightarrow> distinct_hashes h \<longrightarrow> linked h \<longrightarrow> linked h'"
proof (induction rule: removeLoop.raw_induct [rotated, consumes 1])
  case (1 removeLoop a h h')
  show ?case
  proof (intro impI)
    assume a: "a < length h" and d: "downward h" and dist: "distinct_hashes h" and l: "linked h"
    show "linked h'"
    proof (cases "forwardNum h a = 0")
      case False
      then show ?thesis using 1(2) l by (simp add: removeBlk_def)
    next
      case True
      then obtain p where p: "bkBackward (h ! a) = Some p" "removeLoop p (cut p a h) = Some h'"
        using 1(2) by (auto simp: removeBlk_def cut_def split: option.splits)
      have "p < length (cut p a h)" using downwardD [OF d a p(1)] a shrunk_length [OF cut_shrunk [where h = h and p = p and n = a]] by simp
      then show ?thesis
        using 1(1) [OF p(2)] shrunk_downward [OF cut_shrunk d] cut_linked [OF dist d a l] dist
        by (simp add: shrunk_distinct [OF cut_shrunk])
    qed
  qed
qed

section \<open>Adding blocks\<close>

lemma branchAdd_children:
  assumes "branchAdd n h b = (h', b')" "brHead b < length h" "q < length h"
  shows "map_of (bkFordward (h' ! q)) =
    (if q = brHead b then (map_of (bkFordward (h ! q)))(ToHex (bkHash n) \<mapsto> length h) else map_of (bkFordward (h ! q)))"
  using assms
  by (auto simp: branchAdd_def Let_def setBackward_def addFordward_def nth_append nth_list_update update_conv')

lemma branchAdd_linked:
  assumes add: "branchAdd n h b = (h', b')" and hd: "brHead b < length h" and d: "downward h"
    and dist: "distinct_hashes h'" and l: "linked h"
  shows "linked h'"
  unfolding linked_def
proof (intro allI impI)
  note e = branchAdd_extended [OF hd add]
  fix a p assume a: "a < length h'" and p: "bkBackward (h' ! a) = Some p"
  show "map_of (bkFordward (h' ! p)) (ToHex (bkHash (h' ! a))) = Some a"
  proof (cases "a = length h")
    case True
    then have "p = brHead b" "bkHash (h' ! a) = bkHash n" using e p by (simp_all add: extended_def)
    then show ?thesis using branchAdd_children [OF add hd hd] True by simp
  next
    case False
    then have al: "a < length h" using a e by (simp add: extended_def)
    then have same: "bkHash (h' ! a) = bkHash (h ! a)" "bkBackward (h ! a) = Some p" using e p by (simp_all add: extended_def)
    then have pl: "p < length h" using downwardD [OF d al] al by fastforce
    show ?thesis
      using branchAdd_children [OF add hd pl] extended_distinct(2) [OF e dist al] l al same by (simp add: linked_def)
  qed
qed

lemma extended_covers:
  assumes e: "extended h n p h'" and d: "downward h" and p: "p < length h" and b: "brHead b < length h" "covers h b"
  shows "covers h' b"
  using b extended_lineage(1) [OF e d p] lineage_bound [of _ h] e by (auto simp: covers_def extended_def)

lemma branchAdd_covers:
  assumes add: "branchAdd n h b = (h', b')" and hd: "brHead b < length h" and d: "downward h"
    and dist: "distinct_hashes h'" and c: "covers h b"
  shows "covers h' b'"
  unfolding covers_def
proof
  note e = branchAdd_extended [OF hd add] and b' = branchAdd_branch [OF hd add]
  fix a assume "a \<in> set (lineage h' (brHead b'))"
  then consider "a = length h" | "a \<in> set (lineage h (brHead b))"
    using extended_lineage(2) [OF e d hd] by (auto simp: b'(1))
  then show "branchGetBlock b' (bkHash (h' ! a)) = Some a"
  proof cases
    case 1
    then show ?thesis using e by (simp add: branchGetBlock_def b'(2) extended_def)
  next
    case 2
    then have al: "a < length h" by (rule lineage_bound [OF hd])
    then have "bkHash (h' ! a) = bkHash (h ! a)" using e by (simp add: extended_def)
    then show ?thesis
      using c 2 extended_distinct(2) [OF e dist al] by (simp add: branchGetBlock_def b'(2) covers_def update_conv')
  qed
qed

lemma addTo_cache:
  assumes inv: "chain_inv env c" and i: "i \<in> set (cBranches c)" and cache: "cache_inv c"
  shows "cache_inv (addTo i n c)"
proof -
  obtain h' b' where add: "branchAdd n (cHeap c) (br c i) = (h', b')" by (cases "branchAdd n (cHeap c) (br c i)")
  have sh: "shape c" and d: "downward (cHeap c)" using inv by (auto simp: chain_inv_def links_ok_def)
  note hd = shape_update_branch [OF sh i] and il = conjunct1 [OF shape_branch [OF sh i]]
  note e = branchAdd_extended [OF hd add]
  have "linked h' \<and> (\<forall>j \<in> set (cBranches c). covers h' ((cStore c)[i := b'] ! j))" if dist: "distinct_hashes h'"
  proof -
    have old: "linked (cHeap c)" "\<forall>j \<in> set (cBranches c). covers (cHeap c) (br c j)"
      using cache extended_distinct(1) [OF e dist] by (auto simp: cache_inv_def)
    have "covers h' ((cStore c)[i := b'] ! j)" if j: "j \<in> set (cBranches c)" for j
      using branchAdd_covers [OF add hd d dist] extended_covers [OF e d hd shape_update_branch [OF sh j]] old(2) i j il
      by (cases "j = i") auto
    then show ?thesis using branchAdd_linked [OF add hd d dist old(1)] by blast
  qed
  then show ?thesis by (simp add: cache_inv_def addTo_def add)
qed

lemma addLoop_cache:
  "chain_inv env c \<Longrightarrow> cache_inv c \<Longrightarrow> i \<in> set (cBranches c) \<Longrightarrow> addLoop env clock i blocks c = Some (ok, c') \<Longrightarrow> cache_inv c'"
proof (induction env clock i blocks c rule: addLoop.induct)
  case (2 env clock i cb blocks c)
  show ?case
  proof (cases "verifyBlock env (clock 0) (cDb c) (cHeap c) (br c i) cb = Some (Inr ())")
    case True
    then show ?thesis using 2 addTo_inv [OF 2(2,4) True] addTo_cache [OF 2(2,4,3)] by (simp add: frame_simps)
  next
    case False
    then show ?thesis using 2(3,5) by (auto split: option.splits sum.splits)
  qed
qed simp

section \<open>A new branch\<close>

lemma newBranchLoop_cache:
  assumes d: "downward h" and dist: "distinct_hashes h"
  shows "a < length h \<Longrightarrow> newBranchLoop h a r = Some b \<Longrightarrow>
    (\<forall>q < length h. branchGetBlock b (bkHash (h ! q)) =
       (if q \<in> set (lineage h a) then Some q else branchGetBlock r (bkHash (h ! q)))) \<and> brHead b = brHead r"
proof (induction a arbitrary: r rule: less_induct)
  case (less a)
  let ?r = "storeEvds (bEvds (bkBlock (h ! a))) (storeBlk h a r)"
  have r: "branchGetBlock ?r (bkHash (h ! q)) = (if q = a then Some a else branchGetBlock r (bkHash (h ! q)))"
    if "q < length h" for q
    using distinct_hashesD [OF dist that less.prems(1)]
    by (simp add: storeEvds_def storeBlk_def branchGetBlock_def update_conv')
  have hd: "brHead ?r = brHead r" by (simp add: storeEvds_def storeBlk_def)
  show ?case
  proof (cases "bkBackward (h ! a)")
    case None
    then have "b = ?r" using less.prems(2) newBranchLoop_one by fastforce
    then show ?thesis using r hd None by (simp add: lineage_root)
  next
    case (Some p)
    then have p: "p < a" using downwardD [OF d less.prems(1)] by simp
    have "newBranchLoop h p ?r = Some b" using less.prems(2) Some by (subst (asm) newBranchLoop.simps) (simp add: Let_def)
    with less.IH [OF p, of ?r] less.prems(1) p
    have "\<forall>q < length h. branchGetBlock b (bkHash (h ! q)) =
        (if q \<in> set (lineage h p) then Some q else branchGetBlock ?r (bkHash (h ! q)))" "brHead b = brHead ?r" by auto
    then show ?thesis using r hd lineage_parent [OF d less.prems(1) Some] by simp
  qed
qed

lemma newBranch_covers:
  assumes "downward h" "distinct_hashes h" "a < length h" "newBranch h a = Some b"
  shows "covers h b"
proof -
  have "branchGetBlock b (bkHash (h ! q)) = Some q" if "q \<in> set (lineage h a)" for q
    using newBranchLoop_cache [OF assms(1,2,3) assms(4) [unfolded newBranch_def]] that lineage_bound [OF assms(3) that] by simp
  moreover have "brHead b = a" using newBranchLoop_cache [OF assms(1,2,3) assms(4) [unfolded newBranch_def]] by simp
  ultimately show ?thesis by (simp add: covers_def)
qed

lemma createBranchLoop_cache:
  assumes inv: "chain_inv env c" and cache: "cache_inv c"
  shows "set ks \<subseteq> set (cBranches c) \<Longrightarrow> createBranchLoop Hash b0 ks c = Some (Inr (j, c')) \<Longrightarrow> cache_inv c'"
proof (induction ks)
  case (Cons i ks)
  have sh: "shape c" and d: "downward (cHeap c)" using inv by (auto simp: chain_inv_def links_ok_def)
  show ?case
  proof (cases "branchGetBlock (br c i) (bhLastHash (bHeader b0))")
    case None
    then show ?thesis using Cons by simp
  next
    case (Some m)
    then have "m \<in> snd ` set (brBlocks (br c i))" by (auto simp: branchGetBlock_def dest!: map_of_SomeD intro: image_eqI [rotated])
    then have m: "m < length (cHeap c)" using shape_branch [OF sh, of i] Cons.prems by (auto simp: branch_in_def)
    obtain nb where nb: "newBranch (cHeap c) m = Some nb"
      "c' = c\<lparr>cStore := cStore c @ [nb], cBranches := cBranches c @ [length (cStore c)]\<rparr>"
      using Cons.prems(2) Some by (auto split: if_splits bind_splits simp: Let_def)
    then show ?thesis
      using cache newBranch_covers [OF d _ m nb(1)] shape_branch [OF sh] by (auto simp: cache_inv_def nth_append)
  qed
qed simp

lemma notifyCheck_cache: "notifyCheck coin c = Some c' \<Longrightarrow> cache_inv c \<Longrightarrow> cache_inv c'"
  by (auto simp: notifyCheck_def cache_inv_def split: bind_splits if_splits)

lemma addBlocks_cache:
  assumes inv: "chain_inv env c" and cache: "cache_inv c" and add: "addBlocks env clock coin blocks local c = Some c'"
  shows "cache_inv c'"
proof (cases blocks)
  case (Cons b0 bs)
  let ?found = "case getBranch c (bhLastHash (bHeader b0)) of
      Some i \<Rightarrow> Some (Inr (i, c)) | None \<Rightarrow> createBranch (envHash env) b0 c"
  from add Cons obtain f where f: "?found = Some f" by (auto simp: addBlocks_def split: bind_splits)
  show ?thesis
  proof (cases f)
    case (Inl err)
    then show ?thesis using add Cons f cache by (simp add: addBlocks_def)
  next
    case (Inr ic)
    obtain i c1 where ic: "ic = (i, c1)" by (cases ic)
    have c1: "chain_inv env c1" "cache_inv c1" "i \<in> set (cBranches c1)"
      using f Inr ic inv cache createBranchLoop_inv [OF inv, of "cBranches c" "envHash env" b0]
        createBranchLoop_cache [OF inv cache subset_refl, of "envHash env" b0 i c1]
      by (auto simp: createBranch_def getBranch_def find_Some_iff split: option.splits)
    obtain ok c2 where c2: "addLoop env clock i blocks c1 = Some (ok, c2)"
      and c': "(if ok \<and> \<not> local then notifyCheck coin c2 else Some c2) = Some c'"
      using add Cons f Inr ic by (auto simp: addBlocks_def split: bind_splits)
    then show ?thesis using addLoop_cache [OF c1 c2] notifyCheck_cache [of coin c2 c'] by (auto split: if_splits)
  qed
qed (use cache add in \<open>simp add: addBlocks_def\<close>)

section \<open>Maintenance\<close>

text \<open>The branches that are kept are at most \<open>alpha\<close> blocks lower than the longest one.\<close>

definition recent :: "'s chain \<Rightarrow> bool" where
  "recent c \<longleftrightarrow> (\<forall>i \<in> set (cBranches c). heightOf c (cLongest c) - heightOf c i \<le> word_of_nat alpha)"

lemma calm_heightOf:
  assumes "calm c c'" "i < length (cStore c)" "brHead (br c i) < length (cHeap c)"
  shows "heightOf c' i = heightOf c i"
  using calm_head [OF assms(1,2)] assms(1,3) by (simp add: calm_def heightOf_def branchHeight_def shrunk_def)

lemma calm_branch_height: "calm c c' \<Longrightarrow> shape c \<Longrightarrow> i \<in> set (cBranches c) \<Longrightarrow> heightOf c' i = heightOf c i"
  using calm_heightOf shape_branch shape_update_branch by blast

lemma calm_recent:
  assumes "calm c c'" "shape c" "cBranches c' = cBranches c" "recent c"
  shows "recent c'"
proof -
  have "cLongest c' = cLongest c" "cLongest c \<in> set (cBranches c)" using assms(1,2) by (simp_all add: calm_def shape_def)
  then show ?thesis using assms(3,4) calm_branch_height [OF assms(1,2)] by (simp add: recent_def)
qed

lemma pruneLoop_cache:
  "chain_inv env c \<Longrightarrow> cache_inv c \<Longrightarrow> set ks \<subseteq> set (cBranches c) \<Longrightarrow> pruneLoop ks c res = Some (reserved, c') \<Longrightarrow>
     cache_inv c' \<and> cBranches c' = cBranches c \<and>
     (\<forall>i \<in> set reserved. i \<in> set res \<or> i \<in> set ks \<and> heightOf c (cLongest c) - heightOf c i \<le> word_of_nat alpha)"
proof (induction ks c res rule: pruneLoop.induct)
  case (2 i ks c res)
  have sh: "shape c" and d: "downward (cHeap c)" using "2.prems"(1) by (auto simp: chain_inv_def links_ok_def)
  show ?case
  proof (cases "heightOf c (cLongest c) - heightOf c i > word_of_nat alpha")
    case True
    then obtain h where h: "branchRemove (br c i) (cHeap c) = Some h"
      and rest: "pruneLoop ks (c\<lparr>cHeap := h\<rparr>) res = Some (reserved, c')"
      using "2.prems" by (auto split: bind_splits)
    have p: "pruned (cHeap c) h" using removeLoop_pruned h by (simp add: branchRemove_def)
    then have s: "shrunk (cHeap c) h" by (simp add: pruned_def)
    have "cache_inv (c\<lparr>cHeap := h\<rparr>)"
      using "2.prems"(2,3) removeLoop_linked [OF h [unfolded branchRemove_def]] d shrunk_covers [OF s d]
        shape_update_branch [OF sh] by (auto simp: cache_inv_def shrunk_distinct [OF s])
    moreover have "calm c (c\<lparr>cHeap := h\<rparr>)" using s by (simp add: calm_def)
    then have same: "heightOf (c\<lparr>cHeap := h\<rparr>) j = heightOf c j" if "j \<in> set (cBranches c)" for j
      using calm_branch_height [OF _ sh that] by blast
    moreover have "cLongest c \<in> set (cBranches c)" using sh by (simp add: shape_def)
    moreover have "set ks \<subseteq> set (cBranches (c\<lparr>cHeap := h\<rparr>))" using "2.prems"(3) by simp
    ultimately have "cache_inv c' \<and> cBranches c' = cBranches c \<and>
        (\<forall>i \<in> set reserved. i \<in> set res \<or> i \<in> set ks \<and>
           heightOf c (cLongest c) - heightOf (c\<lparr>cHeap := h\<rparr>) i \<le> word_of_nat alpha)"
      using "2.IH"(1) [OF True h pruned_inv [OF "2.prems"(1) p] _ _ rest] by simp
    then show ?thesis using same "2.prems"(3) by (metis list.set_intros(2) subsetD)
  next
    case False
    then show ?thesis using "2.IH"(2) [OF False "2.prems"(1,2)] "2.prems"(3,4) by fastforce
  qed
qed auto

lemma storeOld_cache:
  assumes inv: "chain_inv env c" and cache: "cache_inv c" and st: "storeOld env a c = Some c'"
  shows "cache_inv c' \<and> cBranches c' = cBranches c"
proof -
  have sh: "shape c" and d: "downward (cHeap c)" using inv by (auto simp: chain_inv_def links_ok_def)
  from st consider "c' = c" | db where "c' = c\<lparr>cDb := db, cHeap := (cHeap c)[a := (cHeap c ! a)\<lparr>bkStored := True\<rparr>]\<rparr>"
    by (auto simp: storeOld_def Let_def split: if_splits sum.splits)
  then show ?thesis
  proof cases
    case 2
    let ?h = "(cHeap c)[a := (cHeap c ! a)\<lparr>bkStored := True\<rparr>]"
    have same: "bkBackward (?h ! x) = bkBackward (cHeap c ! x)" "bkFordward (?h ! x) = bkFordward (cHeap c ! x)"
      "bkHash (?h ! x) = bkHash (cHeap c ! x)" for x
      by (cases "a < length (cHeap c)"; cases "x = a"; simp add: list_update_beyond)+
    have s: "shrunk (cHeap c) ?h" by (rule shrunk_ops(4))
    have "linked ?h" if "linked (cHeap c)" using that by (simp add: linked_def same)
    moreover have "covers ?h (br c i)" if "i \<in> set (cBranches c)" "covers (cHeap c) (br c i)" for i
      by (rule shrunk_covers [OF s d shape_update_branch [OF sh that(1)] that(2)])
    ultimately have "cache_inv (c\<lparr>cDb := db, cHeap := ?h\<rparr>)"
      using cache by (simp add: cache_inv_def shrunk_distinct [OF s])
    then show ?thesis unfolding 2 by simp
  qed (use cache in simp)
qed

lemma removeFromCache_lookup:
  "branchGetBlock (removeFromCache h a b) x = (if x = bkHash (h ! a) then None else branchGetBlock b x)"
  by (simp add: removeFromCache_def branchGetBlock_def delete_conv)

lemma fold_removeFromCache:
  "x \<noteq> bkHash (h ! a) \<Longrightarrow>
   branchGetBlock (foldl (\<lambda>st i. st[i := removeFromCache h a (st ! i)]) st ks ! j) x = branchGetBlock (st ! j) x"
proof (induction ks arbitrary: st)
  case (Cons k ks)
  have "branchGetBlock (st[k := removeFromCache h a (st ! k)] ! j) x = branchGetBlock (st ! j) x"
    using Cons.prems by (cases "j = k"; cases "k < length st"; simp add: removeFromCache_lookup list_update_beyond)
  then show ?case using Cons by simp
qed simp

lemma lineage_child:
  "a \<in> set (lineage h x) \<Longrightarrow> a \<noteq> x \<Longrightarrow> \<exists>y \<in> set (lineage h x). bkBackward (h ! y) = Some a"
proof (induction x rule: less_induct)
  case (less x)
  obtain p where p: "bkBackward (h ! x) = Some p" "p < x" "a \<in> set (lineage h p)"
    using lineage_step [OF less.prems] by blast
  have "set (lineage h p) \<subseteq> set (lineage h x)" using p by (subst (2) lineage.simps) auto
  then show ?case using less.IH [OF p(2,3)] p(1) self_in_lineage [of x h] by (cases "a = p") blast+
qed

text \<open>The block that is disconnected is in no branch any more: its only child has forgotten it.\<close>

lemma disconnect_cache:
  assumes inv: "chain_inv env c" and cache: "cache_inv c" and rec: "recent c"
    and a: "a < length (cHeap c)" "bkFordward (cHeap c ! a) = [(k, n)]" and n: "n < length (cHeap c)"
    and old: "heightOf c (cLongest c) - bkHeight (cHeap c ! a) > word_of_nat alpha"
  shows "cache_inv (disconnect a n c)"
proof -
  let ?h = "cHeap c" and ?h' = "cut a n (cHeap c)"
  let ?st = "foldl (\<lambda>st i. st[i := removeFromCache ?h' a (st ! i)]) (cStore c) (cBranches c)"
  have sh: "shape c" and d: "downward ?h" using inv by (auto simp: chain_inv_def links_ok_def)
  have s: "shrunk ?h ?h'" by (rule cut_shrunk)
  have "linked ?h' \<and> (\<forall>i \<in> set (cBranches c). covers ?h' (?st ! i))" if dist: "distinct_hashes ?h"
  proof -
    have l: "linked ?h" and cov: "\<forall>i \<in> set (cBranches c). covers ?h (br c i)" using cache dist by (auto simp: cache_inv_def)
    have "covers ?h' (?st ! i)" if i: "i \<in> set (cBranches c)" for i
      unfolding covers_def
    proof
      have hd: "brHead (?st ! i) = brHead (br c i)"
        using trim_all [of "evds_at ?h' a", OF removeFromCache_trimmed, of "cStore c" "cBranches c"] shape_branch [OF sh i]
        by (auto simp: trimmed_def)
      note x = shape_update_branch [OF sh i]
      fix y assume "y \<in> set (lineage ?h' (brHead (?st ! i)))"
      then have y': "y \<in> set (lineage ?h' (brHead (br c i)))" by (simp add: hd)
      then have y: "y \<in> set (lineage ?h (brHead (br c i)))" using shrunk_lineage [OF s d x] by blast
      have yl: "y < length ?h" by (rule lineage_bound [OF x y])
      have "y \<noteq> a"
      proof
        assume ya: "y = a"
        have "a \<noteq> brHead (br c i)" using rec i old by (auto simp: recent_def heightOf_def branchHeight_def)
        then obtain z where z: "z \<in> set (lineage ?h' (brHead (br c i)))" "bkBackward (?h' ! z) = Some a"
          using lineage_child y' ya by blast
        have zl: "z < length ?h" using lineage_bound [OF x] shrunk_lineage [OF s d x] z(1) by blast
        then have "bkBackward (?h ! z) = Some a" "z \<noteq> n" using z(2) cut_backward [OF zl] by (auto split: if_splits)
        then show False using l zl a(2) by (auto simp: linked_def split: if_splits)
      qed
      then have "bkHash (?h' ! y) = bkHash (?h ! y)" "bkHash (?h ! y) \<noteq> bkHash (?h' ! a)"
        using s yl a(1) distinct_hashesD [OF dist yl a(1)] by (simp_all add: shrunk_def)
      then show "branchGetBlock (?st ! i) (bkHash (?h' ! y)) = Some y"
        using cov i y fold_removeFromCache [of "bkHash (?h ! y)" ?h' a] by (simp add: covers_def)
    qed
    then show ?thesis using cut_linked [OF dist d n l] by blast
  qed
  then show ?thesis
    using shrunk_distinct [OF s] by (simp add: cache_inv_def disconnect_def Let_def cut_def)
qed

context evidence_index
begin

lemma flushLoop_cache:
  "flushLoop env a c = Some c' \<Longrightarrow> envBdg env = bdg \<longrightarrow> chain_inv env c \<longrightarrow> cache_inv c \<longrightarrow> recent c \<longrightarrow>
     a < length (cHeap c) \<longrightarrow> cache_inv c'"
proof (induction rule: flushLoop.raw_induct [rotated, consumes 1])
  case (1 flushLoop env a c c')
  show ?case
  proof (intro impI)
    assume env: "envBdg env = bdg" and inv: "chain_inv env c" and cache: "cache_inv c" and rec: "recent c"
      and a: "a < length (cHeap c)"
    show "cache_inv c'"
    proof (cases "forwardNum (cHeap c) a = 1 \<and> heightOf c (cLongest c) - bkHeight (cHeap c ! a) > word_of_nat alpha")
      case False
      then show ?thesis using 1(2) cache by (auto split: if_splits)
    next
      case True
      then obtain c1 where c1: "storeOld env a c = Some c1" using 1(2) by (auto split: bind_splits)
      let ?n = "snd (last (bkFordward (cHeap c1 ! a)))"
      let ?c2 = "if heightOf c1 (cLongest c1) - bkHeight (cHeap c1 ! ?n) > syncMaxBlocks then disconnect a ?n c1 else c1"
      note step = flush_step_inv [OF env inv a conjunct1 [OF True] c1 refl refl]
      have sh: "shape c" "shape c1" using inv step(1) by (simp_all add: chain_inv_def)
      note calm1 = storeOld_calm [OF c1] and st = storeOld_cache [OF inv cache c1]
      have rec1: "recent c1" using calm_recent [OF calm1 sh(1) conjunct2 [OF st] rec] .
      have "cLongest c \<in> set (cBranches c)" using sh(1) by (simp add: shape_def)
      then have "heightOf c1 (cLongest c1) - bkHeight (cHeap c1 ! a) > word_of_nat alpha"
        using True calm_branch_height [OF calm1 sh(1)] calm1 a by (simp add: calm_def shrunk_def)
      moreover have "bkFordward (cHeap c1 ! a) = [(fst (last (bkFordward (cHeap c1 ! a))), ?n)]"
        using step(5) by simp
      moreover have "?n < length (cHeap c1)"
        using step(3) by (simp add: disconnect_def Let_def removeBackward_def removeForward_def split: if_splits)
      ultimately have "cache_inv (disconnect a ?n c1)"
        using disconnect_cache [OF step(1) conjunct1 [OF st] rec1] a step(4) by metis
      then have "cache_inv ?c2" using st by simp
      moreover have "recent (disconnect a ?n c1)"
        by (rule calm_recent [OF disconnect_calm sh(2) _ rec1]) (simp add: disconnect_def Let_def)
      then have "recent ?c2" using rec1 by simp
      moreover have "flushLoop env ?n ?c2 = Some c'" using 1(2) True c1 by (simp add: Let_def)
      ultimately show ?thesis using 1(1) [of env ?n ?c2] step(2,3) env by blast
    qed
  qed
qed

lemma maintain_cache:
  assumes env: "envBdg env = bdg" and inv: "chain_inv env c" and cache: "cache_inv c" and m: "maintain env c = Some c'"
  shows "cache_inv c'"
proof -
  obtain res c1 where c1: "pruneLoop (cBranches c) c [] = Some (res, c1)"
    and fl: "flushLoop env (cOldest c1) (c1\<lparr>cBranches := res\<rparr>) = Some c'"
    using m by (auto simp: maintain_def Let_def split: bind_splits)
  let ?c = "c1\<lparr>cBranches := res\<rparr>"
  have sh: "shape c" using inv by (simp add: chain_inv_def)
  have inv1: "chain_inv env c1 \<and> set res \<subseteq> set (cBranches c1) \<and> cLongest c1 \<in> set res"
    using pruneLoop_inv [OF inv _ _ _ c1] sh by (simp add: shape_def)
  then have inv': "chain_inv env ?c" by (auto simp: chain_inv_def shape_def)
  have p: "cache_inv c1" "cBranches c1 = cBranches c"
    "\<forall>i \<in> set res. i \<in> set (cBranches c) \<and> heightOf c (cLongest c) - heightOf c i \<le> word_of_nat alpha"
    using pruneLoop_cache [OF inv cache subset_refl c1] by auto
  have calm: "calm c c1" by (rule pruneLoop_calm [OF c1])
  have "heightOf ?c i = heightOf c i" if "i \<in> set (cBranches c)" for i
    using calm_branch_height [OF calm sh that] by (simp add: heightOf_def)
  moreover have "cLongest c1 = cLongest c" "cLongest c \<in> set (cBranches c)" using calm sh by (simp_all add: calm_def shape_def)
  ultimately have "recent ?c" using p(3) by (simp add: recent_def)
  moreover have "cache_inv ?c" using p(1) inv1 by (auto simp: cache_inv_def)
  moreover have "cOldest c1 < length (cHeap ?c)" using inv1 by (simp add: chain_inv_def shape_def)
  ultimately show ?thesis using flushLoop_cache [OF fl] env inv' by blast
qed

lemma chain_step_cache:
  assumes "envBdg env = bdg" "chain_inv env c" "cache_inv c" "chain_step env c (Some c')"
  shows "cache_inv c'"
  using assms(4)
proof cases
  case step_maintain
  then show ?thesis using maintain_cache [OF assms(1-3)] by simp
next
  case (step_pending blocks rest clock coin)
  have "chain_inv env (c\<lparr>cPending := rest\<rparr>)" "cache_inv (c\<lparr>cPending := rest\<rparr>)"
    using assms(2,3) by (simp_all add: chain_inv_def shape_def cache_inv_def)
  then show ?thesis using addBlocks_cache step_pending by metis
next
  case (step_add clock coin blocks local)
  have "cache_inv (c\<lparr>cPending := cPending c @ [blocks]\<rparr>)" using assms(3) by (simp add: cache_inv_def)
  then show ?thesis
    using step_add addBlocks_cache [OF assms(2,3), of clock coin blocks local c'] by (auto simp: AddBlocks_def split: if_splits)
next
  case step_notified
  then show ?thesis using assms(3) by (simp add: cache_inv_def)
qed

end

lemma starts_cache:
  assumes "starts env genesis db c"
  shows "cache_inv c"
proof -
  obtain g db' i where
    "initFirstBranch (newBlk (envHash env) g 1 True) ((NewChain db)\<lparr>cDb := db'\<rparr>) = Some (i, c)"
    using assms by (auto simp: starts_def initGenesis_def split: sum.splits bind_splits)
  then show ?thesis
    by (auto simp: initFirstBranch_def NewChain_def newBranch_def newBranchLoop_one newBlk_def Let_def cache_inv_def
        linked_def covers_def lineage_root storeEvds_def storeBlk_def branchGetBlock_def split: bind_splits)
qed

context kv_store
begin

lemma reachable_cache:
  assumes env: "envBdg env = bdg" and st: "starts env genesis db c0" and "runs env c0 c"
  shows "cache_inv c"
  using assms(3)
proof induction
  case (runs_step c c')
  then show ?case using index.chain_step_cache [OF env reachable_inv [OF env st]] by blast
qed (rule starts_cache [OF st])

text \<open>Every block of a branch is found in its cache.\<close>

lemma reachable_covers:
  assumes "envBdg env = bdg" "starts env genesis db c0" "runs env c0 c" "distinct_hashes (cHeap c)" "i \<in> set (cBranches c)"
  shows "covers (cHeap c) (br c i)"
  using reachable_cache [OF assms(1-3)] assms(4,5) by (simp add: cache_inv_def)

end

end
