(* ===== verification/SyncAnswers.thy ===== *)
theory SyncAnswers
  imports BranchCache
begin

text \<open>
  What a peer that lags behind receives: \<open>GetSyncHash\<close> names the head of the longest branch and how
  far it is, and \<open>GetSyncBlocks\<close> for that range returns exactly the missing blocks, oldest first.
\<close>

section \<open>The blocks between an ancestor and a block\<close>

definition since :: "heap \<Rightarrow> addr \<Rightarrow> addr \<Rightarrow> addr list" where
  "since h a x = takeWhile (\<lambda>y. y \<noteq> a) (lineage h x)"

text \<open>Consecutive blocks name each other's hashes, the first one the given hash.\<close>

fun hash_linked :: "hasher \<Rightarrow> bytes \<Rightarrow> Block list \<Rightarrow> bool" where
  "hash_linked Hash base [] \<longleftrightarrow> True"
| "hash_linked Hash base (b # bs) \<longleftrightarrow> bhLastHash (bHeader b) = base \<and> hash_linked Hash (BlockHash Hash b) bs"

lemma hash_linked_snoc:
  "hash_linked Hash base (bs @ [b]) \<longleftrightarrow>
     hash_linked Hash base bs \<and> bhLastHash (bHeader b) = (if bs = [] then base else BlockHash Hash (last bs))"
  by (induction bs arbitrary: base) auto

lemma since_self [simp]: "since h a a = []"
  by (simp add: since_def lineage.simps [of h a])

lemma since_step: "downward h \<Longrightarrow> x < length h \<Longrightarrow> bkBackward (h ! x) = Some p \<Longrightarrow> x \<noteq> a \<Longrightarrow> since h a x = x # since h a p"
  by (simp add: since_def lineage_parent)

lemma lineage_length_le: "length (lineage h x) \<le> Suc x"
proof (induction x rule: less_induct)
  case (less x)
  have "length (lineage h b) \<le> x" if "b < x" for b using less [OF that] that by simp
  then show ?case by (subst lineage.simps) (simp split: option.split)
qed

lemma height_less:
  assumes l: "links_ok env h" and low: "low h" and len: "length h < 2 ^ 64"
  shows "x < length h \<Longrightarrow> a \<in> set (lineage h x) \<Longrightarrow> a \<noteq> x \<Longrightarrow> bkHeight (h ! a) < bkHeight (h ! x)"
proof (induction x rule: less_induct)
  case (less x)
  obtain p where p: "bkBackward (h ! x) = Some p" "p < x" "a \<in> set (lineage h p)"
    using lineage_step [OF less.prems(2,3)] by blast
  have pl: "p < length h" using p less.prems by simp
  have "bkHeight (h ! p) < bkHeight (h ! p) + 1"
    by (rule next_height [of _ "Suc p"]) (use low pl len p less.prems in \<open>simp_all add: low_def\<close>)
  moreover have "bkHeight (h ! x) = bkHeight (h ! p) + 1" using l less.prems p by (simp add: links_ok_def)
  moreover have "bkHeight (h ! a) \<le> bkHeight (h ! p)"
    using less.IH [OF p(2) pl p(3)] by (cases "a = p") auto
  ultimately show ?case by simp
qed

section \<open>The loops\<close>

lemma syncHashLoop_since:
  assumes "downward h" "inj_on (\<lambda>y. bkHash (h ! y)) (set (lineage h x))" "x < length h" "a \<in> set (lineage h x)"
  shows "syncHashLoop h (bkHash (h ! a)) (Some x) k = Some (Inr (k + word_of_nat (length (since h a x))))"
  using assms(2-4)
proof (induction x arbitrary: k rule: less_induct)
  case (less x)
  show ?case
  proof (cases "a = x")
    case False
    obtain p where p: "bkBackward (h ! x) = Some p" "p < x" "a \<in> set (lineage h p)"
      using lineage_step [OF less.prems(3) False] by blast
    have "lineage h x = x # lineage h p" using lineage_parent [OF assms(1) less.prems(2) p(1)] .
    then have inj: "inj_on (\<lambda>y. bkHash (h ! y)) (set (lineage h p))"
      using less.prems(1) by (simp add: inj_on_insert)
    have "bkHash (h ! x) \<noteq> bkHash (h ! a)" using less.prems(1,3) False by (auto dest!: inj_onD)
    then show ?thesis
      using less.IH [OF p(2) inj _ p(3), of "k + 1"] less.prems(2) p(1,2) False since_step [OF assms(1) less.prems(2) p(1)]
      by (subst syncHashLoop.simps) (simp add: algebra_simps)
  qed (simp add: syncHashLoop.simps)
qed

lemma BlockShallowCopy_full [simp]: "BlockShallowCopy b False = b"
  by (simp add: BlockShallowCopy_def)

lemma syncBlocksLoop_since:
  assumes l: "links_ok env h" and low: "low h" and len: "length h < 2 ^ 64"
    and "x < length h" "a \<in> set (lineage h x)"
  shows "syncBlocksLoop h False (bkHeight (h ! a)) (Some x) acc =
    Some (map (\<lambda>y. bkBlock (h ! y)) (rev (since h a x)) @ acc)"
  using assms(4,5)
proof (induction x arbitrary: acc rule: less_induct)
  case (less x)
  show ?case
  proof (cases "a = x")
    case False
    obtain p where p: "bkBackward (h ! x) = Some p" "p < x" "a \<in> set (lineage h p)"
      using lineage_step [OF less.prems(2) False] by blast
    have "bkHeight (h ! x) \<noteq> bkHeight (h ! a)" using height_less [OF l low len less.prems False] by simp
    then show ?thesis
      using less.IH [OF p(2) _ p(3)] less.prems(1) p(1,2) False since_step [OF links_downward [OF l] less.prems(1) p(1)]
      by (subst syncBlocksLoop.simps) simp
  qed (simp add: syncBlocksLoop.simps)
qed

lemma since_linked:
  assumes l: "links_ok env h" and "x < length h" "a \<in> set (lineage h x)" "x \<noteq> a"
  shows "let bs = map (\<lambda>y. bkBlock (h ! y)) (rev (since h a x)) in
    bs \<noteq> [] \<and> hash_linked (envHash env) (bkHash (h ! a)) bs \<and> last bs = bkBlock (h ! x)"
  using assms(2-4)
proof (induction x rule: less_induct)
  case (less x)
  obtain p where p: "bkBackward (h ! x) = Some p" "p < x" "a \<in> set (lineage h p)"
    using lineage_step [OF less.prems(2)] less.prems(3) by blast
  note step = since_step [OF links_downward [OF l] less.prems(1) p(1) less.prems(3)]
  have last: "bhLastHash (bHeader (bkBlock (h ! x))) = bkHash (h ! p)"
    using l less.prems(1) p(1) by (simp add: links_ok_def accepted_def)
  have hp: "bkHash (h ! p) = BlockHash (envHash env) (bkBlock (h ! p))"
    using l less.prems(1) p(2) by (simp add: links_ok_def)
  show ?case
  proof (cases "p = a")
    case True
    then show ?thesis using step last by simp
  next
    case False
    then show ?thesis
      using less.IH [OF p(2) _ p(3)] less.prems(1) p(2) step last hp by (simp add: Let_def hash_linked_snoc)
  qed
qed

section \<open>The answers from memory\<close>

lemma reachable_longest:
  assumes "kv_store (envBdg env) view" "starts env genesis db c0" "runs env c0 c"
  shows "low (cHeap c)" "links_ok env (cHeap c)" "apart (cHeap c)" "brHead (longest c) < length (cHeap c)"
    and "distinct_hashes (cHeap c) \<Longrightarrow> covers (cHeap c) (longest c)"
proof -
  have inv: "chain_inv env c" by (rule kv_store.reachable_inv [OF assms(1) refl assms(2,3)])
  then have sh: "shape c" by (simp add: chain_inv_def)
  show "low (cHeap c)" using kv_store.reachable_height [OF assms(1) refl assms(2,3)] by (simp add: height_inv_def)
  show "links_ok env (cHeap c)" "apart (cHeap c)" using inv by (simp_all add: chain_inv_def)
  show "brHead (longest c) < length (cHeap c)" using shape_update_branch [OF sh] sh by (simp add: shape_def)
  have "cLongest c \<in> set (cBranches c)" using sh by (simp add: shape_def)
  then show "covers (cHeap c) (longest c)" if "distinct_hashes (cHeap c)"
    by (rule kv_store.reachable_covers [OF assms(1) refl assms(2,3) that])
qed

text \<open>What is asked for and answered when the peer is not up to date.\<close>

lemma sync_range:
  assumes "kv_store (envBdg env) view" "starts env genesis db c0" "runs env c0 c"
    and "length (cHeap c) < 2 ^ 32" "distinct_hashes (cHeap c)"
    and "a \<in> set (lineage (cHeap c) (brHead (longest c)))" "a \<noteq> brHead (longest c)"
  shows "let base = bkHash (cHeap c ! a); missing = since (cHeap c) a (brHead (longest c)) in
    GetSyncHash env c base = Some (Inr (LatestBlockHash c, word_of_nat (length missing))) \<and>
    GetSyncBlocks env c base (LatestBlockHash c) False = Some (Inr (map (\<lambda>y. bkBlock (cHeap c ! y)) (rev missing))) \<and>
    length missing = unat (word_of_nat (length missing) :: u32)"
proof -
  let ?h = "cHeap c" and ?x = "brHead (longest c)"
  let ?n = "word_of_nat (length (since ?h a ?x)) :: u32"
  note reach = reachable_longest [OF assms(1-3)]
  note low = reach(1) and l = reach(2) and x = reach(4) and cov = reach(5) [OF assms(5)]
  note look = cov [unfolded covers_def, rule_format] and inj = covers_inj [OF cov]
  have head: "LatestBlockHash c = bkHash (?h ! ?x)" by (simp add: LatestBlockHash_def branchHash_def)
  have len: "length ?h < 2 ^ 64" using assms(4) by simp
  have ne: "bkHash (?h ! ?x) \<noteq> bkHash (?h ! a)" using inj assms(6,7) by (auto dest!: inj_onD)
  have "GetSyncHash env c (bkHash (?h ! a)) = Some (Inr (LatestBlockHash c, ?n))"
    using look [OF assms(6)] ne head syncHashLoop_since [OF links_downward [OF l] inj x assms(6), of 0]
    by (simp add: GetSyncHash_def)
  moreover have "bkHeight (?h ! a) < bkHeight (?h ! ?x)" by (rule height_less [OF l low len x assms(6,7)])
  then have "GetSyncBlocks env c (bkHash (?h ! a)) (LatestBlockHash c) False =
      Some (Inr (map (\<lambda>y. bkBlock (?h ! y)) (rev (since ?h a ?x))))"
    using look [OF assms(6)] look [of ?x] head syncBlocksLoop_since [OF l low len x assms(6), of "[]"]
    by (simp add: GetSyncBlocks_def Let_def)
  moreover have "length (since ?h a ?x) \<le> length (lineage ?h ?x)" by (simp add: since_def length_takeWhile_le)
  then have "length (since ?h a ?x) = unat ?n"
    using lineage_length_le [of ?h ?x] x assms(4) by (simp add: unat_of_nat)
  ultimately show ?thesis by (simp add: Let_def)
qed

lemma sync_from_memory:
  assumes "kv_store (envBdg env) view" "starts env genesis db c0" "runs env c0 c"
    and "length (cHeap c) < 2 ^ 32" "distinct_hashes (cHeap c)"
    and "a \<in> set (lineage (cHeap c) (brHead (longest c)))"
  shows "let base = bkHash (cHeap c ! a) in
    if a = brHead (longest c) then GetSyncHash env c base = Some (Inl (ErrAlreadyUpToDate base))
    else \<exists>n bs. GetSyncHash env c base = Some (Inr (LatestBlockHash c, n)) \<and>
           GetSyncBlocks env c base (LatestBlockHash c) False = Some (Inr bs) \<and>
           length bs = unat n \<and> bs \<noteq> [] \<and> hash_linked (envHash env) base bs \<and>
           BlockHash (envHash env) (last bs) = LatestBlockHash c"
proof (cases "a = brHead (longest c)")
  case True
  then show ?thesis
    using reachable_longest(5) [OF assms(1-3,5)] assms(6)
    by (simp add: GetSyncHash_def LatestBlockHash_def branchHash_def Let_def covers_def)
next
  case False
  note reach = reachable_longest [OF assms(1-3)]
  have "LatestBlockHash c = BlockHash (envHash env) (bkBlock (cHeap c ! brHead (longest c)))"
    using reach(2,4) by (simp add: links_ok_def LatestBlockHash_def branchHash_def)
  then show ?thesis
    using sync_range [OF assms False] since_linked [OF reach(2,4) assms(6)] False by (simp add: Let_def)
qed

section \<open>The answers from the database\<close>

lemma heightAt_mono: "Suc i < 2 ^ 64 \<Longrightarrow> Suc j < 2 ^ 64 \<Longrightarrow> heightAt i \<le> heightAt j \<longleftrightarrow> i \<le> j"
  by (simp add: word_le_nat_alt unat_heightAt)

lemma heightAt_Suc: "heightAt i + 1 = heightAt (Suc i)"
  by (simp add: heightAt_def)

context kv_store
begin

lemma dbBlocksLoop_range:
  assumes holds: "holds Hash (view s) bs" and len: "Suc (length bs) < 2 ^ 64" and m: "m < length bs"
  shows "k \<le> Suc m \<Longrightarrow> dbBlocksLoop bdg False (heightAt k) (heightAt m) s res = Some (res @ drop k (take (Suc m) bs))"
proof (induction "Suc m - k" arbitrary: k res)
  case 0
  then show ?case using len m by (subst dbBlocksLoop.simps) (simp add: heightAt_mono)
next
  case (Suc n)
  then have k: "k \<le> m" by simp
  have "drop k (take (Suc m) bs) = bs ! k # drop (Suc k) (take (Suc m) bs)"
    using k m by (subst Cons_nth_drop_Suc [symmetric]) simp_all
  then show ?case
    using Suc.hyps(1) [of "Suc k" "res @ [bs ! k]"] Suc.hyps(2) k m len block_reads(1) [OF holds, of k]
    by (subst dbBlocksLoop.simps) (simp add: heightAt_mono heightAt_Suc)
qed

lemma sync_from_database:
  assumes env: "envBdg env = bdg" and holds: "holds (envHash env) (view (cDb c)) bs"
    and len: "Suc (length bs) < 2 ^ 64" and k: "k < length bs"
    and miss: "branchGetBlock (longest c) (BlockHash (envHash env) (bs ! k)) = None"
  defines "m \<equiv> min (k + 128) (length bs - 1)" and "base \<equiv> BlockHash (envHash env) (bs ! k)"
  shows "GetSyncHash env c base = Some (Inr (BlockHash (envHash env) (bs ! m), word_of_nat (m - k)))"
    and "k < m \<Longrightarrow> GetSyncBlocks env c base (BlockHash (envHash env) (bs ! m)) False =
      Some (Inr (drop (Suc k) (take (Suc m) bs)))"
proof -
  let ?l = "length bs - 1"
  have l: "?l < length bs" "m < length bs" "k \<le> m" using k by (auto simp: m_def)
  have top: "word_of_nat (length bs) = heightAt ?l" using k by (simp add: heightAt_def)
  note at = block_reads [OF holds]
  have latest: "GetLatestHeader bdg (cDb c) = Inr (bHeader (bs ! ?l), heightAt ?l, BlockHash (envHash env) (bs ! ?l))"
    using GetLatestHeight_holds [OF holds] at(4) [OF l(1)] by (simp add: GetLatestHeader_def top)
  have diff: "heightAt j - heightAt k = word_of_nat (j - k)" if "k \<le> j" for j
    using that by (simp add: heightAt_def of_nat_diff)
  have far: "syncMaxBlocks \<le> heightAt ?l - heightAt k \<longleftrightarrow> k + 128 \<le> ?l"
  proof -
    have "unat (word_of_nat (?l - k) :: u64) = ?l - k" using len by (simp add: unat_of_nat)
    moreover have "k \<le> ?l" using k by simp
    ultimately show ?thesis by (simp add: diff word_le_nat_alt syncMaxBlocks_def) linarith
  qed
  have step: "heightAt k + syncMaxBlocks = heightAt (k + 128)" by (simp add: heightAt_def syncMaxBlocks_def)
  have narrow: "ucast (word_of_nat d :: u64) = (word_of_nat d :: u32)" if "d < 2 ^ 64" for d
    using that by (simp add: unsigned_of_nat take_bit_nat_eq_self)
  show "GetSyncHash env c base = Some (Inr (BlockHash (envHash env) (bs ! m), word_of_nat (m - k)))"
  proof (cases "k + 128 \<le> ?l")
    case True
    then have "m = k + 128" "k + 128 < length bs" by (auto simp: m_def)
    then show ?thesis
      using miss at(3) [OF k] latest env far True at(5) [of "k + 128"] step
      by (simp add: GetSyncHash_def base_def wrapErr_def) (simp add: syncMaxBlocks_def)
  next
    case False
    then have m: "m = ?l" by (simp add: m_def)
    have "ucast (heightAt ?l - heightAt k) = (word_of_nat (?l - k) :: u32)"
      using k len by (subst diff, simp) (rule narrow, simp)
    then show ?thesis
      using miss at(3) [OF k] latest env far False by (simp add: GetSyncHash_def base_def wrapErr_def m)
  qed
  show "GetSyncBlocks env c base (BlockHash (envHash env) (bs ! m)) False =
      Some (Inr (drop (Suc k) (take (Suc m) bs)))" if km: "k < m"
  proof -
    have "heightAt k < heightAt m" using km k l len by (simp add: word_less_nat_alt unat_heightAt)
    then show ?thesis
      using miss at(2) [OF k] at(2) [OF l(2)] env dbBlocksLoop_range [OF holds len l(2), of "Suc k" "[]"] km
      by (simp add: GetSyncBlocks_def base_def getSyncBlocksDb_def heightAt_Suc Let_def)
  qed
qed

end

section \<open>Property\<close>

text \<open>
  C4 What a lagging peer is answered, in every reachable state, as long as fewer than \<open>2^32\<close> blocks
  were added and no two of them have the same hash (no collision, and no block was added twice; then
  the cache of the longest branch has all its blocks, as theory \<open>BranchCache\<close> proves).  For the hash of
  a block of the longest branch that is in memory, \<open>GetSyncHash\<close> answers with the head and the number
  of blocks after the given one, and \<open>GetSyncBlocks\<close> for that range returns as many blocks, each naming
  the hash of the one before it, from the block after the given one up to the head; for the head's own
  hash the answer is that the peer is up to date.  For the hash of a block that is no longer in memory,
  when the database holds the blocks \<open>bs\<close>, the two answer with the next blocks of the database, at
  most 128 of them.
\<close>

theorem sync_answers:
  assumes "kv_store (envBdg env) view" "starts env genesis db c0" "runs env c0 c"
    and "length (cHeap c) < 2 ^ 32" "distinct_hashes (cHeap c)"
  shows "(\<forall>a \<in> set (lineage (cHeap c) (brHead (longest c))).
      let base = bkHash (cHeap c ! a) in
      if a = brHead (longest c) then GetSyncHash env c base = Some (Inl (ErrAlreadyUpToDate base))
      else \<exists>n bs. GetSyncHash env c base = Some (Inr (LatestBlockHash c, n)) \<and>
             GetSyncBlocks env c base (LatestBlockHash c) False = Some (Inr bs) \<and>
             length bs = unat n \<and> bs \<noteq> [] \<and> hash_linked (envHash env) base bs \<and>
             BlockHash (envHash env) (last bs) = LatestBlockHash c) \<and>
    (\<forall>bs k. holds (envHash env) (view (cDb c)) bs \<longrightarrow> Suc (length bs) < 2 ^ 64 \<longrightarrow> k < length bs \<longrightarrow>
      branchGetBlock (longest c) (BlockHash (envHash env) (bs ! k)) = None \<longrightarrow>
      (let base = BlockHash (envHash env) (bs ! k); m = min (k + 128) (length bs - 1) in
       GetSyncHash env c base = Some (Inr (BlockHash (envHash env) (bs ! m), word_of_nat (m - k))) \<and>
       (k < m \<longrightarrow> GetSyncBlocks env c base (BlockHash (envHash env) (bs ! m)) False =
          Some (Inr (drop (Suc k) (take (Suc m) bs))))))"
proof (intro conjI ballI allI impI, goal_cases)
  case (1 a)
  then show ?case by (rule sync_from_memory [OF assms])
next
  case (2 bs k)
  then show ?case using kv_store.sync_from_database [OF assms(1) refl, of c bs k] by (simp add: Let_def)
qed

lemma demo_c1_hashes:
  "bkHash (cHeap (demo_c1 s) ! 0) = dh 0" "bkHash (cHeap (demo_c1 s) ! Suc 0) = BlockHash pad_hash demo_evd_block"
  by (simp_all add: demo_c1_def addTo_def demo_c0_def branchAdd_def Let_def setBackward_def addFordward_def
      newBlk_def dh_def demo_branch_def)

lemma demo_c1_line: "set (lineage (cHeap (demo_c1 s)) (Suc 0)) = {0, Suc 0}"
  by (subst lineage.simps) (auto simp: demo_c1_simps lineage_root)

lemma demo_hashes_differ: "BlockHash pad_hash demo_evd_block \<noteq> dh 0"
  using mk_hash_time [of 1 0] by (auto simp: demo_evd_block_def dh_def)

lemma demo_c1_lookup:
  "branchGetBlock (br (demo_c1 s) 0) (dh 0) = Some 0"
  "branchGetBlock (br (demo_c1 s) 0) (BlockHash pad_hash demo_evd_block) = Some (Suc 0)"
proof -
  have "brBlocks (br (demo_c1 s) 0) = [(ToHex (dh 0), 0), (ToHex (BlockHash pad_hash demo_evd_block), Suc 0)]"
    using demo_hashes_differ by (simp add: demo_c1_def addTo_def demo_c0_def branchAdd_def Let_def setBackward_def
        addFordward_def newBlk_def storeEvds_def storeBlk_def demo_branch_def)
  then show "branchGetBlock (br (demo_c1 s) 0) (dh 0) = Some 0"
    "branchGetBlock (br (demo_c1 s) 0) (BlockHash pad_hash demo_evd_block) = Some (Suc 0)"
    using demo_hashes_differ by (simp_all add: branchGetBlock_def)
qed

lemma demo_c1_distinct: "distinct_hashes (cHeap (demo_c1 s))"
proof -
  have "map bkHash (cHeap (demo_c1 s)) = [dh 0, BlockHash pad_hash demo_evd_block]"
    by (rule nth_equalityI) (auto simp: demo_c1_simps demo_c1_hashes numeral_2_eq_2 less_Suc_eq)
  then show ?thesis using demo_hashes_differ by (simp add: distinct_hashes_def)
qed

theorem sync_answers_witness:
  "\<exists>s n bs. GetSyncHash demo_env (demo_c1 s) (dh 0) = Some (Inr (LatestBlockHash (demo_c1 s), n)) \<and>
     GetSyncBlocks demo_env (demo_c1 s) (dh 0) (LatestBlockHash (demo_c1 s)) False = Some (Inr bs) \<and> length bs = unat n"
proof -
  obtain s where s: "starts demo_env demo_genesis [] (demo_c0 s)" "\<forall>x. length x = 32 \<longrightarrow> \<not> HasEvidence mem_badger x s"
    using demo_starts by blast
  then have r: "runs demo_env (demo_c0 s) (demo_c1 s)" by (simp add: demo_c1_runs)
  have kv: "kv_store (envBdg demo_env) map_of" using mem.kv_store_axioms by simp
  have c: "cLongest (demo_c1 s) = 0" by (simp add: demo_c1_def frame_simps) (simp add: demo_c0_def)
  show ?thesis
    using sync_answers [OF kv s(1) r _ demo_c1_distinct] demo_c1_line [of s] by (auto simp: c demo_c1_simps demo_c1_hashes Let_def)
qed

end
