(* ===== verification/ChainFaults.thy ===== *)
theory ChainFaults
  imports SyncAnswers
begin

text \<open>
  Runs in which the program ends: a block sent again after an invalid one, followed by
  maintenance, makes \<open>remove\<close> follow a nil pointer.
\<close>

section \<open>A growing branch beside a stale one\<close>

lemma dblk_simps [simp]:
  "bEvds (dblk k) = []" "bhTime (bHeader (dblk k)) = word_of_nat k" "BlockHash pad_hash (dblk k) = dh k"
proof -
  show "bEvds (dblk k) = []" "bhTime (bHeader (dblk k)) = word_of_nat k" by (cases k; simp)+
  show "BlockHash pad_hash (dblk k) = dh k" by (simp only: dh_def)
qed

lemma dblk_Suc: "dblk (Suc k) = mk (dh k) (Suc k) []"
  by (simp only: dblk.simps dh_def)

declare dblk.simps [simp del]

definition gen2 :: blk where
  "gen2 = (newBlk pad_hash (dblk 0) 1 True)\<lparr>bkFordward := [(ToHex (dh 1), 2)]\<rparr>"

definition dup :: blk where
  "dup = (newBlk pad_hash (dblk 1) 2 False)\<lparr>bkBackward := Some 0\<rparr>"

text \<open>
  \<open>tip k c\<close>: branch 0 ends in block \<open>k\<close>, branch 1 in the second copy of block 1 at address 2,
  and the genesis block knows only that copy as its child.
\<close>

definition tip :: "nat \<Rightarrow> 's chain \<Rightarrow> bool" where
  "tip k c \<longleftrightarrow> length (cStore c) = 2 \<and> brHead (br c 1) = 2 \<and> cBranches c = [0, 1] \<and> cLongest c = 0 \<and>
     2 < length (cHeap c) \<and> cHeap c ! 0 = gen2 \<and> cHeap c ! 2 = dup \<and>
     (let x = brHead (br c 0) in x < length (cHeap c) \<and> x \<noteq> 0 \<and> x \<noteq> 2 \<and> bkHash (cHeap c ! x) = dh k \<and>
        bkTime (cHeap c ! x) = word_of_nat k \<and> bkHeight (cHeap c ! x) = word_of_nat (Suc k))"

lemma word_small: "k < 2 ^ 60 \<Longrightarrow> unat (word_of_nat k :: u64) = k"
  by (simp add: unat_of_nat)

lemma tip_add:
  assumes "tip k c"
  shows "tip (Suc k) (addTo 0 (newBlk pad_hash (dblk (Suc k)) (heightOf c 0 + 1) False) c)"
proof -
  let ?x = "brHead (br c 0)" and ?n = "newBlk pad_hash (dblk (Suc k)) (heightOf c 0 + 1) False"
  have t: "length (cStore c) = 2" "brHead (br c 1) = 2" "cBranches c = [0, 1]" "cLongest c = 0"
    "2 < length (cHeap c)" "cHeap c ! 0 = gen2" "cHeap c ! 2 = dup" "?x < length (cHeap c)" "?x \<noteq> 0" "?x \<noteq> 2"
    "bkHeight (cHeap c ! ?x) = word_of_nat (Suc k)"
    using assms by (simp_all add: tip_def Let_def)
  have ne: "cHeap c \<noteq> []" using t(5) by auto
  have h: "heightOf c 0 + 1 = word_of_nat (Suc (Suc k))" by (simp add: heightOf_def branchHeight_def t)
  show ?thesis
    unfolding h unfolding tip_def addTo_def branchAdd_def using t ne
    by (simp add: Let_def setBackward_def addFordward_def storeEvds_def storeBlk_def nth_append nth_list_update
        newBlk_def bkTime_def)
qed

lemma tip_verify:
  assumes "tip k c" "k \<le> 20"
  shows "verifyBlock demo_env (word_of_nat (Suc k), 0) (cDb c) (cHeap c) (br c 0) (dblk (Suc k)) = Some (Inr ())"
proof -
  have "word_of_nat (Suc k) \<le> (21 :: u64)" using assms(2) by (simp add: word_le_nat_alt word_small del: of_nat_Suc)
  then show ?thesis
    using assms unfolding dblk_Suc
    by (intro demo_verify [where u = k]) (auto simp: tip_def Let_def)
qed

lemma tip_addLoop:
  "tip k c \<Longrightarrow> k + n \<le> 21 \<Longrightarrow>
   \<exists>c'. addLoop demo_env (\<lambda>i. (word_of_nat (Suc k + i), 0)) 0 (map dblk [Suc k..<Suc k + n]) c = Some (True, c') \<and> tip (k + n) c'"
proof (induction n arbitrary: k c)
  case (Suc n)
  let ?c = "addTo 0 (newBlk pad_hash (dblk (Suc k)) (heightOf c 0 + 1) False) c"
  have v: "verifyBlock demo_env (word_of_nat (Suc k), 0) (cDb c) (cHeap c) (br c 0) (dblk (Suc k)) = Some (Inr ())"
    using tip_verify [OF Suc.prems(1)] Suc.prems(2) by simp
  obtain c' where c': "addLoop demo_env (\<lambda>i. (word_of_nat (Suc (Suc k) + i), 0)) 0 (map dblk [Suc (Suc k)..<Suc (Suc k) + n]) ?c
      = Some (True, c')" "tip (Suc k + n) c'"
    using Suc.IH [OF tip_add [OF Suc.prems(1)]] Suc.prems(2) by auto
  have list: "map dblk [Suc k..<Suc k + Suc n] = dblk (Suc k) # map dblk [Suc (Suc k)..<Suc (Suc k) + n]"
    by (subst upt_conv_Cons) simp_all
  have "addLoop demo_env (\<lambda>i. (word_of_nat (Suc k + i), 0)) 0 (map dblk [Suc k..<Suc k + Suc n]) c = Some (True, c')"
    unfolding list using v c'(1) by simp
  then show ?case using c'(2) by auto
qed simp

text \<open>Maintenance then fails once branch 0 is more than eight blocks higher.\<close>

lemma tip_maintain:
  assumes "tip 10 c"
  shows "maintain env c = None"
proof -
  have h0: "heightOf c 0 = 11" using assms by (simp add: tip_def Let_def heightOf_def branchHeight_def)
  have h1: "heightOf c 1 = 2" using assms by (simp add: tip_def heightOf_def branchHeight_def dup_def newBlk_def)
  let ?h = "removeBackward 2 (removeForward 0 2 (cHeap c))"
  have t: "2 < length (cHeap c)" "cHeap c ! 0 = gen2" "cHeap c ! 2 = dup" using assms by (simp_all add: tip_def)
  have "0 < length (cHeap c)" using t(1) by linarith
  then have h: "?h ! 0 = gen2\<lparr>bkFordward := []\<rparr>"
    using t by (simp add: removeBackward_def removeForward_def gen2_def dup_def newBlk_def)
  have "removeBlk 2 (cHeap c) = Some (Inr 0, ?h)"
    using t by (simp add: removeBlk_def forwardNum_def dup_def newBlk_def)
  moreover have "removeBlk 0 ?h = None" unfolding removeBlk_def forwardNum_def h by (simp add: gen2_def newBlk_def)
  ultimately have "removeLoop 2 (cHeap c) = None"
    by (subst removeLoop.simps) (simp, subst removeLoop.simps, simp)
  then have "branchRemove (br c 1) (cHeap c) = None" using assms by (simp add: branchRemove_def tip_def)
  then show ?thesis using assms h0 h1 by (simp add: maintain_def tip_def alpha_def)
qed

section \<open>The opening\<close>

text \<open>
  The node's own block 1 on the fresh chain; from a peer, an invalid block after the genesis block,
  of version 9, and block 1 again.
\<close>

definition junk :: Block where
  "junk = NewBlock ((bHeader (dblk 1))\<lparr>bhVersion := 9\<rparr>) []"

definition main1 :: branch where
  "main1 = \<lparr>brHead = 1, brTail = 0, brEvds = [], brBlocks = [(ToHex (dh 0), 0), (ToHex (dh 1), 1)]\<rparr>"

definition gen1 :: blk where
  "gen1 = (newBlk pad_hash (dblk 0) 1 True)\<lparr>bkFordward := [(ToHex (dh 1), 1)]\<rparr>"

definition st1 :: "(bytes \<times> bytes) list \<Rightarrow> (bytes \<times> bytes) list chain" where
  "st1 s = (demo_c0 s)\<lparr>cHeap := [gen1, dup], cStore := [main1]\<rparr>"

definition st2 :: "(bytes \<times> bytes) list \<Rightarrow> (bytes \<times> bytes) list chain" where
  "st2 s = (st1 s)\<lparr>cStore := [main1, demo_branch], cBranches := [0, 1]\<rparr>"

definition st3 :: "(bytes \<times> bytes) list \<Rightarrow> (bytes \<times> bytes) list chain" where
  "st3 s = (st2 s)\<lparr>cHeap := [gen2, dup, dup], cStore := [main1, main1\<lparr>brHead := 2,
     brBlocks := [(ToHex (dh 0), 0), (ToHex (dh 1), 2)]\<rparr>], cLastHeight := 2, cNotify := True\<rparr>"

abbreviation at1 :: "nat \<Rightarrow> i64 \<times> int" where
  "at1 i \<equiv> (1, 0)"

lemma dblk_1: "dblk 1 = mk (dh 0) 1 []" "bhLastHash (bHeader (dblk 1)) = dh 0"
  by (simp_all add: dblk_Suc)

lemma dh_01 [simp]: "dh 0 \<noteq> dh (Suc 0)" "dh (Suc 0) \<noteq> dh 0"
  using dh_inject [of 0 1] by auto

lemma verify_dblk1:
  assumes "bkHash (h ! brHead b) = dh 0" "bkTime (h ! brHead b) = 0" "bkHeight (h ! brHead b) = 1"
  shows "verifyBlock demo_env (1, 0) db h b (dblk 1) = Some (Inr ())"
proof -
  have "verifyBlock demo_env (word_of_nat 1, 0) db h b (mk (dh 0) 1 []) = Some (Inr ())"
    by (rule demo_verify [where u = 0]) (use assms in simp_all)
  then show ?thesis using dblk_1(1) by simp
qed

lemma gen_simps:
  "bkHash gen1 = dh 0" "bkTime gen1 = 0" "bkHeight gen1 = 1" "bkHash dup = dh 1"
  "bkHash (newBlk pad_hash (dblk 0) 1 True) = dh 0" "bkTime (newBlk pad_hash (dblk 0) 1 True) = 0"
  "bkHeight (newBlk pad_hash (dblk 0) 1 True) = 1" "bkHeight dup = 2"
  by (simp_all add: gen1_def dup_def newBlk_def bkTime_def)

lemma addBlocks_one:
  "getBranch c (bhLastHash (bHeader b)) = Some i \<Longrightarrow>
   verifyBlock env (clock 0) (cDb c) (cHeap c) (br c i) b = Some (Inr ()) \<Longrightarrow>
   addBlocks env clock coin [b] True c = Some (addTo i (newBlk (envHash env) b (heightOf c i + 1) False) c)"
  by (simp add: addBlocks_def)

lemma addBlocks_refused:
  "getBranch c (bhLastHash (bHeader b)) = None \<Longrightarrow> createBranch (envHash env) b c = Some (Inr (i, c1)) \<Longrightarrow>
   verifyBlock env (clock 0) (cDb c1) (cHeap c1) (br c1 i) b = Some (Inl err) \<Longrightarrow>
   addBlocks env clock coin [b] local c = Some c1"
  by (simp add: addBlocks_def)

lemma st1_add: "addBlocks demo_env at1 coin [dblk 1] True (demo_c0 s) = Some (st1 s)"
proof -
  have v: "verifyBlock demo_env (1, 0) s [newBlk pad_hash (dblk 0) 1 True] demo_branch (dblk 1) = Some (Inr ())"
    by (rule verify_dblk1) (simp_all add: demo_branch_def gen_simps)
  have "getBranch (demo_c0 s) (dh 0) = Some 0"
    by (simp add: getBranch_def demo_c0_def branchHash_def demo_branch_def gen_simps)
  moreover have "addTo 0 (newBlk pad_hash (dblk 1) (heightOf (demo_c0 s) 0 + 1) False) (demo_c0 s) = st1 s"
    by (simp add: addTo_def branchAdd_def Let_def heightOf_def demo_c0_def branchHeight_def setBackward_def
        addFordward_def storeEvds_def storeBlk_def st1_def newBlk_def demo_branch_def main1_def gen1_def dup_def)
  ultimately show ?thesis
    using addBlocks_one [of "demo_c0 s" "dblk 1" 0 demo_env at1 coin] v dblk_1(2) by (simp add: demo_c0_def)
qed

lemma junk_hash: "BlockHash pad_hash junk \<noteq> dh 1"
proof -
  have "hd (BlockHash pad_hash junk) = 9"
    by (simp add: BlockHash_def HeaderGetSerializedHash_def MarshalBlockHeader_def junk_def NewBlock_def
        pad_hash_def putU8_def)
  moreover have "hd (dh 1) = 1"
    by (simp add: dh_def dblk_Suc BlockHash_def HeaderGetSerializedHash_def MarshalBlockHeader_def mk_def NewBlock_def
        NewBlockHeaderV1_def CoreProtocolV1_def pad_hash_def putU8_def)
  ultimately show ?thesis by auto
qed

lemma st2_add: "addBlocks demo_env at1 coin [junk] False (st1 s) = Some (st2 s)"
proof (rule addBlocks_refused [where i = 1])
  have l: "bhLastHash (bHeader junk) = dh 0" by (simp add: junk_def NewBlock_def dblk_Suc)
  show "getBranch (st1 s) (bhLastHash (bHeader junk)) = None"
    unfolding l by (simp add: getBranch_def st1_def demo_c0_def branchHash_def main1_def gen_simps)
  have "newBranch [gen1, dup] 0 = Some demo_branch"
    unfolding newBranch_def
    by (subst newBranchLoop_one) (simp_all add: gen1_def newBlk_def demo_branch_def storeEvds_def storeBlk_def)
  then show "createBranch (envHash demo_env) junk (st1 s) = Some (Inr (1, st2 s))"
    using junk_hash
    by (simp add: createBranch_def l st1_def st2_def demo_c0_def branchGetBlock_def main1_def heightOf_def branchHeight_def
        gen_simps alpha_def isBackwardOf_def gen1_def [THEN arg_cong [where f = bkFordward]] Let_def)
  show "verifyBlock demo_env (at1 0) (cDb (st2 s)) (cHeap (st2 s)) (br (st2 s) 1) junk =
      Some (Inl (StructVerify (BlockHeaderFailed HeaderVersion)))"
    by (simp add: verifyBlock_def BlockVerify_def BlockHeaderVerify_def junk_def NewBlock_def CoreProtocolV1_def)
qed

lemma st3_add: "addBlocks demo_env at1 (\<lambda>_. False) [dblk 1] False (st2 s) = Some (st3 s)"
proof -
  let ?c = "(st3 s)\<lparr>cLastHeight := 1, cNotify := False\<rparr>"
  have v: "verifyBlock demo_env (1, 0) s [gen1, dup] demo_branch (dblk 1) = Some (Inr ())"
    by (rule verify_dblk1) (simp_all add: demo_branch_def gen_simps)
  have g: "getBranch (st2 s) (bhLastHash (bHeader (dblk 1))) = Some 1"
    unfolding dblk_1(2)
    by (simp add: getBranch_def st1_def st2_def demo_c0_def branchHash_def demo_branch_def main1_def gen_simps)
  have a: "addTo 1 (newBlk pad_hash (dblk 1) (heightOf (st2 s) 1 + 1) False) (st2 s) = ?c"
    by (simp add: addTo_def branchAdd_def Let_def heightOf_def demo_c0_def branchHeight_def setBackward_def
        addFordward_def storeEvds_def storeBlk_def st1_def st2_def st3_def newBlk_def demo_branch_def main1_def gen1_def
        gen2_def dup_def)
  have n: "notifyCheck (\<lambda>_. False) ?c = Some (st3 s)"
    by (simp add: notifyCheck_def getLongestBranch_def heightOf_def branchHeight_def st3_def st2_def st1_def demo_c0_def
        main1_def gen_simps)
  have c: "cDb (st2 s) = s" "cHeap (st2 s) = [gen1, dup]" "br (st2 s) 1 = demo_branch"
    by (simp_all add: st2_def st1_def demo_c0_def)
  show ?thesis
    using g v a c n by (simp add: addBlocks_def)
qed

lemma st3_tip: "tip 1 (st3 s)"
  by (simp add: tip_def st3_def st2_def st1_def demo_c0_def main1_def Let_def gen_simps)
    (simp add: dup_def newBlk_def bkTime_def)

lemma runs_peer:
  assumes "runs env c0 c" "cPending c = []" "addBlocks env clock coin bs False c = Some c'"
  shows "runs env c0 c'"
proof -
  let ?c = "c\<lparr>cPending := [bs]\<rparr>"
  have "chain_step env c (Some ?c)"
    using step_add [of env c clock coin bs False] assms(2) by (simp add: AddBlocks_def)
  with assms(1) have "runs env c0 ?c" by (rule runs_step)
  moreover have "c\<lparr>cPending := []\<rparr> = c" using assms(2) by simp
  then have "chain_step env ?c (Some c')"
    using step_pending [of ?c bs "[]" env clock coin] assms(3) by simp
  ultimately show ?thesis by (rule runs_step)
qed

section \<open>Property\<close>

text \<open>
  C12 A peer can end the program without any proof of work.  A node on a fresh chain mines block 1.
  A peer sends an invalid block that names the genesis block as its parent, and then block 1.  The
  node mines blocks 2 to 10.  The invalid block left an empty branch at the genesis block; on it
  the second copy of block 1 was accepted and replaced the first as the genesis block's child.
  The next maintenance removes the stale branch and, since no child is left, goes on to the genesis
  block, whose parent is nil.
\<close>

theorem duplicate_block_crashes:
  "\<exists>s c. starts demo_env demo_genesis [] (demo_c0 s) \<and> runs demo_env (demo_c0 s) c \<and>
     maintain demo_env c = None"
proof -
  obtain s where s: "starts demo_env demo_genesis [] (demo_c0 s)" using demo_starts by blast
  have own: "runs demo_env (demo_c0 s) c'"
    if "runs demo_env (demo_c0 s) c" "addBlocks demo_env clock (\<lambda>_. True) bs True c = Some c'" for c c' clock bs
    using runs_step [OF that(1)] step_add [of demo_env c clock "\<lambda>_. True" bs True] that(2) by (simp add: AddBlocks_def)
  have r3: "runs demo_env (demo_c0 s) (st3 s)"
    by (rule runs_peer [OF runs_peer [OF own [OF runs_start st1_add] _ st2_add] _ st3_add])
      (simp_all add: st1_def st2_def demo_c0_def)
  obtain c where c: "addLoop demo_env (\<lambda>i. (word_of_nat (Suc 1 + i), 0)) 0 (map dblk [Suc 1..<Suc 1 + 9]) (st3 s) = Some (True, c)"
    and t: "tip (1 + 9) c"
    using tip_addLoop [OF st3_tip, of 9] by auto
  have b: "map dblk [Suc 1..<Suc 1 + 9] = dblk 2 # map dblk [3..<11]" by (simp add: upt_rec numeral_eq_Suc)
  have "getBranch (st3 s) (bhLastHash (bHeader (dblk 2))) = Some 0"
    using dblk_Suc [of 1]
    by (simp add: getBranch_def st3_def st2_def st1_def demo_c0_def branchHash_def main1_def gen_simps numeral_2_eq_2)
  with c have "addBlocks demo_env (\<lambda>i. (word_of_nat (Suc 1 + i), 0)) (\<lambda>_. True) (map dblk [Suc 1..<Suc 1 + 9]) True (st3 s) = Some c"
    unfolding b by (simp add: addBlocks_def del: addLoop.simps)
  then have "runs demo_env (demo_c0 s) c" by (rule own [OF r3])
  moreover have "tip 10 c" using t by simp
  ultimately show ?thesis using s tip_maintain by blast
qed

end
