(* ===== verification/Scheduler.thy ===== *)
theory Scheduler
  imports ChainFaults Mine EvPool
begin

text \<open>
  \<open>src/core/scheduler.go\<close>: mining round by round.  A round takes evidences from the pool, builds a
  block after the head of the longest branch, and searches its nonce; a result, a change of the
  longest branch or the end of the program ends the round.
\<close>

section \<open>Building a block\<close>

definition BlockSize :: nat where "BlockSize = 1024 * 1024"

text \<open>The loop of \<open>getEvidence\<close>; every turn takes an evidence from the pool.\<close>

function collectLoop ::
  "('sig, 'key, 'priv, 's) chain_env \<Rightarrow> 's chain \<Rightarrow> nat \<Rightarrow> 'priv evidencePool \<Rightarrow> (string \<times> Evidence) list \<Rightarrow>
   (string \<times> Evidence) list \<times> 'priv evidencePool" where
  "collectLoop env c evdSize pool evds =
     (if evdSize < BlockSize then
        (case nextEvidence pool of
           (None, pool') \<Rightarrow> (evds, pool')
         | (Some e, pool') \<Rightarrow>
             (case VerifyEvidence env c e of
                Inr _ \<Rightarrow> collectLoop env c (evdSize + EvidenceSize e) pool' (AList.update (ToHex (eHash e)) e evds)
              | Inl _ \<Rightarrow> collectLoop env c evdSize pool' evds))
      else (evds, pool))"
  by pat_completeness auto
termination
  by (relation "measure (\<lambda>(env, c, evdSize, pool, evds). length (epEvds pool))")
    (auto simp: nextEvidence_def split: list.splits)

declare collectLoop.simps [simp del]

text \<open>Go ranges over a map in no particular order: \<open>shuffle\<close> is the order it takes.\<close>

definition schedGetEvidence ::
  "('sig, 'key, 'priv, 's) chain_env \<Rightarrow> (Evidence list \<Rightarrow> Evidence list) \<Rightarrow> 's chain \<Rightarrow> 'priv evidencePool \<Rightarrow>
   Evidence list \<times> 'priv evidencePool" where
  "schedGetEvidence env shuffle c pool =
     (case collectLoop env c 0 pool [] of (evds, pool') \<Rightarrow> (shuffle (map snd evds), pool'))"

definition genEmptyBlock :: "bytes \<Rightarrow> i64 \<Rightarrow> bytes \<Rightarrow> Block" where
  "genEmptyBlock minerID now lastHash = NewBlock (NewBlockHeaderV1 now lastHash minerID EmptyEvidenceRoot) []"

definition genBlock :: "hasher \<Rightarrow> bytes \<Rightarrow> i64 \<Rightarrow> Evidence list \<Rightarrow> bytes \<Rightarrow> Block" where
  "genBlock Hash minerID now evds lastHash =
     (if length evds = 0 then genEmptyBlock minerID now lastHash
      else let evRoot = (case ComputeRoot Hash (map (EvidenceGetSerializedHash Hash) evds) of Inl _ \<Rightarrow> [] | Inr r \<Rightarrow> r)
           in NewBlock (NewBlockHeaderV1 now lastHash minerID evRoot) evds)"

section \<open>Rounds\<close>

text \<open>
  The scheduler with the chain and the pool it shares; \<open>sdJob\<close> is the running search with its
  difficulty, \<open>sdSent\<close> the blocks handed to \<open>broadcastBlock\<close>.
\<close>

record ('priv, 's) scheduler =
  sdPool :: "'priv evidencePool"
  sdChain :: "'s chain"
  sdMiner :: bytes
  sdParallel :: nat
  sdNewRound :: bool
  sdBlock :: Block
  sdJob :: "(nat \<times> mine_state) option"
  sdSent :: "Block list"
  sdStopped :: bool

text \<open>
  \<open>schedule\<close> starts with \<open>newRound\<close>, so that the block, which is nil until then, is never read before
  it is set.
\<close>

definition newScheduler :: "'priv evidencePool \<Rightarrow> 's chain \<Rightarrow> bytes \<Rightarrow> nat \<Rightarrow> ('priv, 's) scheduler" where
  "newScheduler pool c minerID parallel =
     \<lparr>sdPool = pool, sdChain = c, sdMiner = minerID, sdParallel = parallel, sdNewRound = True,
      sdBlock = genEmptyBlock [] 0 [], sdJob = None, sdSent = [], sdStopped = False\<rparr>"

text \<open>The top of the loop; \<open>now\<close> is the time a new header takes.\<close>

definition startRound ::
  "('sig, 'key, 'priv, 's) chain_env \<Rightarrow> (Evidence list \<Rightarrow> Evidence list) \<Rightarrow> i64 \<Rightarrow>
   ('priv, 's) scheduler \<Rightarrow> ('priv, 's) scheduler option" where
  "startRound env shuffle now s =
     (let s1 = (if sdNewRound s then
                  let lastHash = LatestBlockHash (sdChain s);
                      (evs, pool) = schedGetEvidence env shuffle (sdChain s) (sdPool s)
                  in s\<lparr>sdPool := pool, sdBlock := genBlock (envHash env) (sdMiner s) now evs lastHash\<rparr>
                else s)
      in do {
        target \<leftarrow> NextBlockTarget env (sdChain s1) (bhTime (bHeader (sdBlock s1)));
        let header = SetTarget (bHeader (sdBlock s1)) target;
        let difficulty = TargetToDiff (bhTarget header);
        Some (s1\<lparr>sdBlock := (sdBlock s1)\<lparr>bHeader := header\<rparr>,
          sdJob := Some (difficulty, mineInit (sdParallel s1) header)\<rparr>)
      })"

definition onPassiveChange :: "('priv, 's) scheduler \<Rightarrow> ('priv, 's) scheduler" where
  "onPassiveChange s = s\<lparr>sdChain := (sdChain s)\<lparr>cNotify := False\<rparr>, sdJob := None, sdNewRound := True\<rparr>"

definition onResult ::
  "('sig, 'key, 'priv, 's) chain_env \<Rightarrow> (nat \<Rightarrow> i64 \<times> int) \<Rightarrow> (nat \<Rightarrow> bool) \<Rightarrow> i64 \<Rightarrow> mineResult \<Rightarrow>
   ('priv, 's) scheduler \<Rightarrow> ('priv, 's) scheduler option" where
  "onResult env clock coin now result s =
     (if mrFound result then
        (let block = (sdBlock s)\<lparr>bHeader := HeaderSetNonce (bHeader (sdBlock s)) (mrNonce result)\<rparr> in do {
           c \<leftarrow> AddBlocks env clock coin [block] True (sdChain s);
           Some (s\<lparr>sdBlock := block, sdSent := sdSent s @ [block], sdChain := c, sdJob := None, sdNewRound := True\<rparr>)
         })
      else Some (s\<lparr>sdBlock := (sdBlock s)\<lparr>bHeader := UpdateTime now (bHeader (sdBlock s))\<rparr>,
             sdJob := None, sdNewRound := False\<rparr>))"

definition onStop :: "('priv, 's) scheduler \<Rightarrow> ('priv, 's) scheduler" where
  "onStop s = s\<lparr>sdJob := None, sdStopped := True\<rparr>"

text \<open>The scheduler's goroutine, its search, and the other goroutines that use the chain and the pool.\<close>

inductive sched_step ::
  "('sig, 'key, 'priv, 's) chain_env \<Rightarrow> ('priv, 's) scheduler \<Rightarrow> ('priv, 's) scheduler option \<Rightarrow> bool" for env where
  sched_round: "sdJob s = None \<Longrightarrow> \<not> sdStopped s \<Longrightarrow> (\<And>xs. mset (shuffle xs) = mset xs) \<Longrightarrow>
    sched_step env s (startRound env shuffle now s)"
| sched_search: "sdJob s = Some (d, m) \<Longrightarrow> mine_step (envHash env) d m m' \<Longrightarrow>
    sched_step env s (Some (s\<lparr>sdJob := Some (d, m')\<rparr>))"
| sched_passive: "sdJob s \<noteq> None \<Longrightarrow> cNotify (sdChain s) \<Longrightarrow> sched_step env s (Some (onPassiveChange s))"
| sched_result: "sdJob s = Some (d, m) \<Longrightarrow> jobResult m = Some result \<Longrightarrow>
    sched_step env s (onResult env clock coin now result s)"
| sched_stop: "sched_step env s (Some (onStop s))"
| sched_chain: "chain_step env (sdChain s) r \<Longrightarrow>
    sched_step env s (map_option (\<lambda>c. s\<lparr>sdChain := c\<rparr>) r)"
| sched_pool: "pool_step (envEc env) (envHash env) (EvidenceDifficultyLimit (envParams env)) (sdPool s) pool \<Longrightarrow>
    sched_step env s (Some (s\<lparr>sdPool := pool\<rparr>))"

section \<open>What a new block holds\<close>

definition collected :: "('sig, 'key, 'priv, 's) chain_env \<Rightarrow> 's chain \<Rightarrow> (string \<times> Evidence) list \<Rightarrow> bool" where
  "collected env c evds \<longleftrightarrow> distinct (map fst evds) \<and>
     (\<forall>(k, e) \<in> set evds. k = ToHex (eHash e) \<and> VerifyEvidence env c e = Inr ())"

lemma collected_update:
  assumes "collected env c evds" "VerifyEvidence env c e = Inr ()"
  shows "collected env c (AList.update (ToHex (eHash e)) e evds)"
proof -
  have "set (AList.update k v al) \<subseteq> insert (k, v) (set al)" for k :: string and v :: Evidence and al
    by (induction al) auto
  then show ?thesis using assms distinct_keys_update unfolding collected_def by fast
qed

lemma collectLoop_collected:
  "collected env c evds \<Longrightarrow> collected env c (fst (collectLoop env c n pool evds))"
proof (induction env c n pool evds rule: collectLoop.induct)
  case (1 env c n pool evds)
  obtain oe pool' where nx: "nextEvidence pool = (oe, pool')" by (cases "nextEvidence pool")
  show ?case
  proof (cases "n < BlockSize")
    case True
    show ?thesis
    proof (cases oe)
      case (Some e)
      show ?thesis
      proof (cases "VerifyEvidence env c e")
        case (Inl err)
        then show ?thesis
          using 1(1) [OF True nx [symmetric] Some Inl] 1(3) by (subst collectLoop.simps) (simp add: True nx Some)
      next
        case (Inr u)
        then show ?thesis
          using 1(2) [OF True nx [symmetric] Some Inr] collected_update [OF 1(3), of e]
          by (subst collectLoop.simps) (simp add: True nx Some)
      qed
    qed (use 1(3) True nx in \<open>simp add: collectLoop.simps [of env c n pool evds]\<close>)
  qed (use 1(3) in \<open>simp add: collectLoop.simps [of env c n pool evds]\<close>)
qed

text \<open>While all of the pool fits into a block, every evidence that passes is collected.\<close>

lemma collectLoop_keeps:
  "k \<in> fst ` set evds \<Longrightarrow> k \<in> fst ` set (fst (collectLoop env c n pool evds))"
proof (induction env c n pool evds rule: collectLoop.induct)
  case (1 env c n pool evds)
  obtain oe pool' where nx: "nextEvidence pool = (oe, pool')" by (cases "nextEvidence pool")
  have up: "k \<in> fst ` set (AList.update (ToHex (eHash e)) e evds)" for e using 1(3) by (simp add: dom_update)
  show ?case
    using 1(3) 1(1) [OF _ nx [symmetric]] 1(2) [OF _ nx [symmetric] _ _ up] nx
    by (subst collectLoop.simps) (auto split: option.splits sum.splits)
qed

lemma collectLoop_takes:
  "n + sum_list (map (\<lambda>we. EvidenceSize (weEvidence we)) (epEvds pool)) < BlockSize \<Longrightarrow> we \<in> set (epEvds pool) \<Longrightarrow>
   VerifyEvidence env c (weEvidence we) = Inr () \<Longrightarrow>
   ToHex (eHash (weEvidence we)) \<in> fst ` set (fst (collectLoop env c n pool evds))"
proof (induction env c n pool evds rule: collectLoop.induct)
  case (1 env c n pool evds)
  obtain x rest where es: "epEvds pool = x # rest" using 1(4) by (cases "epEvds pool") auto
  let ?e = "weEvidence x" and ?pool = "pool\<lparr>epEvds := rest\<rparr>"
  have nx: "nextEvidence pool = (Some ?e, ?pool)" by (simp add: nextEvidence_def es)
  have n: "n < BlockSize" using 1(3) by simp
  show ?case
  proof (cases "VerifyEvidence env c ?e")
    case (Inl err)
    then have "we \<in> set rest" using 1(4,5) es by auto
    then show ?thesis
      using 1(1) [OF n nx [symmetric] refl Inl] 1(3,5) es Inl n nx by (subst collectLoop.simps) simp
  next
    case (Inr u)
    let ?evds = "AList.update (ToHex (eHash ?e)) ?e evds"
    have step: "collectLoop env c n pool evds = collectLoop env c (n + EvidenceSize ?e) ?pool ?evds"
      using Inr n nx by (subst collectLoop.simps) simp
    show ?thesis
    proof (cases "we = x")
      case True
      show ?thesis unfolding step True by (rule collectLoop_keeps) (simp add: dom_update)
    next
      case False
      then show ?thesis
        unfolding step using 1(2) [OF n nx [symmetric] refl Inr] 1(3-5) es by simp
    qed
  qed
qed

lemma schedGetEvidence_takes:
  assumes "\<And>xs. mset (shuffle xs) = mset xs" "schedGetEvidence env shuffle c pool = (evs, pool')"
    and "sum_list (map (\<lambda>we. EvidenceSize (weEvidence we)) (epEvds pool)) < BlockSize"
    and "we \<in> set (epEvds pool)" "VerifyEvidence env c (weEvidence we) = Inr ()"
  shows "eHash (weEvidence we) \<in> eHash ` set evs"
proof -
  obtain evds where l: "collectLoop env c 0 pool [] = (evds, pool')" and evs: "evs = shuffle (map snd evds)"
    using assms(2) by (auto simp: schedGetEvidence_def split: prod.splits)
  have col: "collected env c evds"
    using collectLoop_collected [of env c "[]" 0 pool] l by (simp add: collected_def)
  have "ToHex (eHash (weEvidence we)) \<in> fst ` set evds"
    using collectLoop_takes [of 0 pool we env c "[]"] assms(3-5) l by simp
  then obtain e where "(ToHex (eHash (weEvidence we)), e) \<in> set evds" by auto
  then have "eHash e = eHash (weEvidence we)" "e \<in> snd ` set evds" using col by (auto simp: collected_def intro: rev_image_eqI)
  moreover have "set evs = snd ` set evds" using assms(1) [of "map snd evds"] evs by (metis mset_eq_setD set_map)
  ultimately show ?thesis by (metis imageI)
qed

lemma schedGetEvidence_spec:
  assumes "\<And>xs. mset (shuffle xs) = mset xs" "schedGetEvidence env shuffle c pool = (evs, pool')"
  shows "distinct (map eHash evs) \<and> (\<forall>e \<in> set evs. VerifyEvidence env c e = Inr ())"
proof -
  obtain evds where l: "collectLoop env c 0 pool [] = (evds, pool')" and evs: "evs = shuffle (map snd evds)"
    using assms(2) by (auto simp: schedGetEvidence_def split: prod.splits)
  have "collected env c evds"
    using collectLoop_collected [of env c "[]" 0 pool] l by (simp add: collected_def)
  then have d: "distinct (map fst evds)" and k: "\<forall>(k, e) \<in> set evds. k = ToHex (eHash e) \<and> VerifyEvidence env c e = Inr ()"
    by (auto simp: collected_def)
  have "map fst evds = map (\<lambda>p. ToHex (eHash (snd p))) evds" using k by auto
  with d have "distinct (map (\<lambda>p. ToHex (eHash (snd p))) evds)" by metis
  then have "distinct (map ToHex (map eHash (map snd evds)))" by (simp add: comp_def)
  then have "distinct (map eHash (map snd evds))" by (rule distinct_map [THEN iffD1, THEN conjunct1])
  moreover have "mset (map eHash evs) = mset (map eHash (map snd evds))"
    using assms(1) [of "map snd evds"] by (simp add: evs) (metis mset_map map_map)
  ultimately have "distinct (map eHash evs)" by (metis mset_eq_imp_distinct_iff)
  moreover have "set evs = snd ` set evds" using assms(1) [of "map snd evds"] evs by (metis mset_eq_setD set_map)
  ultimately show ?thesis using k by auto
qed

text \<open>Whatever nonce and target are set, the block passes \<open>Verify\<close>.\<close>

lemma genBlock_verifies:
  assumes "hash_ok Hash" "length lastHash = 32" "length minerID = 33"
    and "\<And>e. e \<in> set evs \<Longrightarrow> EvidenceVerify ec Hash e = Inr ()"
    and b: "b = genBlock Hash minerID now evs lastHash"
  shows "BlockVerify ec Hash (b\<lparr>bHeader := HeaderSetNonce (SetTarget (bHeader b) t) n\<rparr>) = Inr ()"
    and "evs \<noteq> [] \<Longrightarrow> ComputeRoot Hash (map (EvidenceGetSerializedHash Hash) evs) = Inr (bhEvidenceRoot (bHeader b))"
proof -
  let ?r = "merkleRoot Hash (map (EvidenceGetSerializedHash Hash) evs)"
  show root: "ComputeRoot Hash (map (EvidenceGetSerializedHash Hash) evs) = Inr (bhEvidenceRoot (bHeader b))" if "evs \<noteq> []"
    using that by (simp add: b genBlock_def ComputeRoot_merkleRoot NewBlock_def NewBlockHeaderV1_def)
  show "BlockVerify ec Hash (b\<lparr>bHeader := HeaderSetNonce (SetTarget (bHeader b) t) n\<rparr>) = Inr ()"
  proof (cases "evs = []")
    case True
    then show ?thesis using assms(2,3)
      by (simp add: b genBlock_def genEmptyBlock_def BlockVerify_def BlockHeaderVerify_def NewBlock_def NewBlockHeaderV1_def
          HeaderSetNonce_def SetTarget_def HashLength_def PubKeyBytesLenCompressed_def IsEmptyEvidenceRoot_def EmptyEvidenceRoot_def)
  next
    case False
    have len: "length ?r = 32"
      using False assms(1) by (intro length_merkleRoot) (auto simp: EvidenceGetSerializedHash_def)
    then have r: "?r \<noteq> EmptyEvidenceRoot" "?r \<noteq> []" by (auto simp: EmptyEvidenceRoot_def)
    show ?thesis using False assms(2-4) len r
      by (simp add: b genBlock_def ComputeRoot_merkleRoot BlockVerify_def BlockHeaderVerify_def NewBlock_def NewBlockHeaderV1_def
          HeaderSetNonce_def SetTarget_def HashLength_def PubKeyBytesLenCompressed_def IsEmptyEvidenceRoot_def)
  qed
qed

lemma genBlock_simps:
  "bEvds (genBlock Hash minerID now evs l) = evs" "bhTime (bHeader (genBlock Hash minerID now evs l)) = now"
  "bhLastHash (bHeader (genBlock Hash minerID now evs l)) = l"
  by (simp_all add: genBlock_def genEmptyBlock_def NewBlock_def NewBlockHeaderV1_def Let_def)

section \<open>A found block is accepted\<close>

lemma found_nonce:
  assumes "(mine_step Hash d)\<^sup>*\<^sup>* (mineInit parallel header) m" "0 < parallel" "parallel < 2 ^ 32"
    and "jobResult m = Some r" "mrFound r"
  shows "HeaderGetPow Hash (HeaderSetNonce header (mrNonce r)) < d"
  using mine_reachable [OF assms(1-3)] assms(4,5) by (auto simp: works_inv_def powOf_def)

lemma startRound_new:
  assumes "startRound env shuffle now s = Some s1" "sdNewRound s"
  shows "\<exists>evs pool target. schedGetEvidence env shuffle (sdChain s) (sdPool s) = (evs, pool) \<and>
    NextBlockTarget env (sdChain s) now = Some target \<and>
    (let b = genBlock (envHash env) (sdMiner s) now evs (LatestBlockHash (sdChain s)); hdr = SetTarget (bHeader b) target in
     s1 = s\<lparr>sdPool := pool, sdBlock := b\<lparr>bHeader := hdr\<rparr>,
            sdJob := Some (TargetToDiff target, mineInit (sdParallel s) hdr)\<rparr>)"
proof -
  obtain evs pool where g: "schedGetEvidence env shuffle (sdChain s) (sdPool s) = (evs, pool)"
    by (cases "schedGetEvidence env shuffle (sdChain s) (sdPool s)")
  then show ?thesis
    using assms by (auto simp: startRound_def Let_def genBlock_simps SetTarget_def split: bind_splits)
qed

lemma length_LatestBlockHash:
  assumes "chain_inv env c" "hash_ok (envHash env)"
  shows "length (LatestBlockHash c) = 32"
proof -
  have "cLongest c \<in> set (cBranches c)" using assms(1) by (simp add: chain_inv_def shape_def)
  then have "brHead (longest c) < length (cHeap c)"
    using assms(1) shape_update_branch [of c "cLongest c"] by (simp add: chain_inv_def)
  then show ?thesis
    using assms by (simp add: chain_inv_def links_ok_def LatestBlockHash_def branchHash_def length_BlockHash)
qed

text \<open>Adding a block of one's own that the longest branch accepts.\<close>

lemma add_own:
  assumes inv: "chain_inv env c" and g: "getBranch c (bhLastHash (bHeader b)) = Some (cLongest c)"
    and v: "verifyBlock env (clock 0) (cDb c) (cHeap c) (longest c) b = Some (Inr ())"
  defines "c' \<equiv> addTo (cLongest c) (newBlk (envHash env) b (heightOf c (cLongest c) + 1) False) c"
  shows "AddBlocks env clock coin [b] True c = Some c'" "heightOf c' (cLongest c') = heightOf c (cLongest c) + 1"
    "LatestBlockHash c' = BlockHash (envHash env) b"
proof -
  let ?n = "newBlk (envHash env) b (heightOf c (cLongest c) + 1) False"
  let ?c = "addTo (cLongest c) ?n c"
  have sh: "shape c" using inv by (simp add: chain_inv_def)
  then have l: "cLongest c \<in> set (cBranches c)" by (simp add: shape_def)
  obtain h' b' where add: "branchAdd ?n (cHeap c) (longest c) = (h', b')" by (cases "branchAdd ?n (cHeap c) (longest c)")
  note hd = shape_update_branch [OF sh l]
  note e = branchAdd_extended [OF hd add] and b' = branchAdd_branch(1) [OF hd add]
  have c': "?c = c\<lparr>cHeap := h', cStore := (cStore c)[cLongest c := b']\<rparr>" by (simp add: addTo_def add)
  have il: "cLongest c < length (cStore c)" using shape_branch [OF sh l] by simp
  show "AddBlocks env clock coin [b] True c = Some c'"
    unfolding AddBlocks_def c'_def using addBlocks_one [OF g, of env clock coin] v by simp
  show "heightOf c' (cLongest c') = heightOf c (cLongest c) + 1" "LatestBlockHash c' = BlockHash (envHash env) b"
    unfolding c'_def c' using il b' e
    by (simp_all add: heightOf_def branchHeight_def LatestBlockHash_def branchHash_def extended_def newBlk_def)
qed

text \<open>The round that ends with a nonce: the block it adds, and what the chain and the pool then are.\<close>

lemma own_block_added:
  assumes chain: "kv_store (envBdg env) view" "starts env genesis db c0" "runs env c0 (sdChain s)"
    and node: "hash_ok (envHash env)" "length (sdMiner s) = 33" "0 < sdParallel s" "sdParallel s < 2 ^ 32"
    and shuffle: "\<And>xs. mset (shuffle xs) = mset xs"
    and round: "sdNewRound s" "startRound env shuffle now s = Some s1"
    and search: "sdJob s1 = Some (d, m0)" "(mine_step (envHash env) d)\<^sup>*\<^sup>* m0 m" "jobResult m = Some r" "mrFound r"
    and time: "\<not> timeBefore (now, 0) (bkTime (cHeap (sdChain s) ! brHead (longest (sdChain s))), 0)"
      "timeSub (now, 0) (clock 0) \<le> 3 * 1000000000"
    and only: "getBranch (sdChain s) (LatestBlockHash (sdChain s)) = Some (cLongest (sdChain s))"
  obtains s2 evs where "schedGetEvidence env shuffle (sdChain s) (sdPool s) = (evs, sdPool s2)"
    "onResult env clock coin later r s1 = Some s2" "sdSent s2 = sdSent s @ [sdBlock s2]" "bEvds (sdBlock s2) = evs"
    "verifyBlock env (clock 0) (cDb (sdChain s)) (cHeap (sdChain s)) (longest (sdChain s)) (sdBlock s2) = Some (Inr ())"
    "sdChain s2 = addTo (cLongest (sdChain s))
       (newBlk (envHash env) (sdBlock s2) (heightOf (sdChain s) (cLongest (sdChain s)) + 1) False) (sdChain s)"
    "AddBlocks env clock coin [sdBlock s2] True (sdChain s) = Some (sdChain s2)"
    "heightOf (sdChain s2) (cLongest (sdChain s2)) = heightOf (sdChain s) (cLongest (sdChain s)) + 1"
    "LatestBlockHash (sdChain s2) = BlockHash (envHash env) (sdBlock s2)" "distinct (map eHash evs)"
proof -
  let ?c = "sdChain s" and ?Hash = "envHash env"
  have inv: "chain_inv env ?c" by (rule kv_store.reachable_inv [OF chain(1) refl chain(2,3)])
  obtain evs pool target where evs: "schedGetEvidence env shuffle ?c (sdPool s) = (evs, pool)"
    and target: "NextBlockTarget env ?c now = Some target"
    and s1': "let b = genBlock ?Hash (sdMiner s) now evs (LatestBlockHash ?c); hdr = SetTarget (bHeader b) target in
      s1 = s\<lparr>sdPool := pool, sdBlock := b\<lparr>bHeader := hdr\<rparr>, sdJob := Some (TargetToDiff target, mineInit (sdParallel s) hdr)\<rparr>"
    using startRound_new [OF round(2,1)] by blast
  define b where "b = genBlock ?Hash (sdMiner s) now evs (LatestBlockHash ?c)"
  define hdr where "hdr = SetTarget (bHeader b) target"
  have s1: "s1 = s\<lparr>sdPool := pool, sdBlock := b\<lparr>bHeader := hdr\<rparr>, sdJob := Some (TargetToDiff target, mineInit (sdParallel s) hdr)\<rparr>"
    using s1' by (simp add: Let_def b_def hdr_def)
  let ?b = "b\<lparr>bHeader := HeaderSetNonce hdr (mrNonce r)\<rparr>"
  have pow: "HeaderGetPow ?Hash (HeaderSetNonce hdr (mrNonce r)) < TargetToDiff target"
    by (rule found_nonce [OF _ node(3,4) search(3,4)]) (use search(1,2) s1 in auto)
  note ev = schedGetEvidence_spec [OF shuffle evs]
  note gb = genBlock_verifies [OF node(1) length_LatestBlockHash [OF inv node(1)] node(2) _ b_def]
  have flds: "bEvds ?b = evs" "bhTime (bHeader ?b) = now" "bhLastHash (bHeader ?b) = LatestBlockHash ?c"
    "bhTarget (bHeader ?b) = target" "bhEvidenceRoot (bHeader ?b) = bhEvidenceRoot (bHeader b)"
    by (simp_all add: hdr_def HeaderSetNonce_def SetTarget_def b_def genBlock_simps)
  have v: "verifyBlock env (clock 0) (cDb ?c) (cHeap ?c) (longest ?c) ?b = Some (Inr ())"
  proof (rule verifyBlock_complete)
    show "BlockVerify (envEc env) ?Hash ?b = Inr ()"
      unfolding hdr_def by (rule gb(1)) (use ev in \<open>auto simp: VerifyEvidence_def verifyEvidence_Inr\<close>)
    show "nextBlockTarget (envParams env) (cHeap ?c) (longest ?c) (bhTime (bHeader ?b)) = Some (bhTarget (bHeader ?b))"
      using target flds by (simp add: NextBlockTarget_def)
    show "ComputeRoot ?Hash (map (EvidenceGetSerializedHash ?Hash) (bEvds ?b)) = Inr (bhEvidenceRoot (bHeader ?b))" if "bEvds ?b \<noteq> []"
      unfolding flds by (rule gb(2)) (use ev that flds in \<open>auto simp: VerifyEvidence_def verifyEvidence_Inr\<close>)
    show "verifyEvidence env (cDb ?c) (longest ?c) e = Inr ()" if "e \<in> set (bEvds ?b)" for e
      using ev that unfolding flds by (simp add: VerifyEvidence_def)
  qed (use time pow flds in \<open>simp_all add: LatestBlockHash_def\<close>)
  let ?c' = "addTo (cLongest ?c) (newBlk ?Hash ?b (heightOf ?c (cLongest ?c) + 1) False) ?c"
  have g: "getBranch ?c (bhLastHash (bHeader ?b)) = Some (cLongest ?c)" using only flds by simp
  note added = add_own(1) [where coin = coin and clock = clock, OF inv g v] add_own(2,3) [where clock = clock, OF inv g v]
  have "onResult env clock coin later r s1 =
      Some (s1\<lparr>sdBlock := ?b, sdSent := sdSent s @ [?b], sdChain := ?c', sdJob := None, sdNewRound := True\<rparr>)"
    using search(4) added(1) by (simp add: onResult_def s1 Let_def)
  then show thesis
    by (rule that [rotated]) (use evs v added flds ev in \<open>simp_all add: s1\<close>)
qed

text \<open>
  C6 A node makes progress: a block that the scheduler builds and whose nonce the search reports is
  accepted by the node's own chain and becomes the head of the longest branch, one higher, provided
  that the chain did not change meanwhile, the clock is not behind the head's time, and no other
  branch ends in a block of the same hash.  No evidence is in it twice.
\<close>

theorem own_block_accepted:
  assumes chain: "kv_store (envBdg env) view" "starts env genesis db c0" "runs env c0 (sdChain s)"
    and node: "hash_ok (envHash env)" "length (sdMiner s) = 33" "0 < sdParallel s" "sdParallel s < 2 ^ 32"
    and shuffle: "\<And>xs. mset (shuffle xs) = mset xs"
    and round: "sdNewRound s" "startRound env shuffle now s = Some s1"
    and search: "sdJob s1 = Some (d, m0)" "(mine_step (envHash env) d)\<^sup>*\<^sup>* m0 m" "jobResult m = Some r" "mrFound r"
    and time: "\<not> timeBefore (now, 0) (bkTime (cHeap (sdChain s) ! brHead (longest (sdChain s))), 0)"
      "timeSub (now, 0) (clock 0) \<le> 3 * 1000000000"
    and only: "getBranch (sdChain s) (LatestBlockHash (sdChain s)) = Some (cLongest (sdChain s))"
  shows "\<exists>s2. onResult env clock coin later r s1 = Some s2 \<and> sdSent s2 = sdSent s @ [sdBlock s2] \<and>
    heightOf (sdChain s2) (cLongest (sdChain s2)) = heightOf (sdChain s) (cLongest (sdChain s)) + 1 \<and>
    LatestBlockHash (sdChain s2) = BlockHash (envHash env) (sdBlock s2) \<and> distinct (map eHash (bEvds (sdBlock s2)))"
proof (rule own_block_added [where shuffle = shuffle and clock = clock and coin = coin and later = later, OF assms], goal_cases)
  case (1 s2 evs)
  then show ?case by (intro exI [of _ s2]) simp
qed

definition demo_sched :: "(bytes \<times> bytes) list \<Rightarrow> (unit, (bytes \<times> bytes) list) scheduler" where
  "demo_sched s = \<lparr>sdPool = newEvidencePool (), sdChain = demo_c0 s, sdMiner = replicate 33 2, sdParallel = 1,
     sdNewRound = True, sdBlock = dblk 0, sdJob = None, sdSent = [], sdStopped = False\<rparr>"

theorem own_block_accepted_witness:
  "\<exists>s s1 r s2. startRound demo_env id 1 (demo_sched s) = Some s1 \<and>
     onResult demo_env (\<lambda>_. (1, 0)) (\<lambda>_. True) 1 r s1 = Some s2 \<and> LatestBlockHash (sdChain s2) = BlockHash pad_hash (sdBlock s2)"
proof -
  obtain s where st: "starts demo_env demo_genesis [] (demo_c0 s)" using demo_starts by blast
  have kv: "kv_store (envBdg demo_env) map_of" using mem.kv_store_axioms by simp
  have "schedGetEvidence demo_env id (demo_c0 s) (newEvidencePool ()) = ([], newEvidencePool ())"
    by (simp add: schedGetEvidence_def collectLoop.simps nextEvidence_def newEvidencePool_def BlockSize_def)
  moreover have hd: "bkHeight (cHeap (demo_c0 s) ! 0) = 1" "bkHash (cHeap (demo_c0 s) ! 0) = dh 0" "bkTime (cHeap (demo_c0 s) ! 0) = 0"
    "longest (demo_c0 s) = demo_branch" "brHead demo_branch = 0"
    by (simp_all add: demo_c0_def gen_simps demo_branch_def)
  then have "NextBlockTarget demo_env (demo_c0 s) 1 = Some 0xFFFFFFFF"
    by (simp add: NextBlockTarget_def nextBlockTarget_def Let_def ReferenceBlocks_def)
  ultimately obtain s1 hdr where s1: "startRound demo_env id 1 (demo_sched s) = Some s1"
    "sdJob s1 = Some (TargetToDiff 0xFFFFFFFF, mineInit 1 hdr)" "bhVersion hdr = 1"
    by (auto simp: startRound_def demo_sched_def Let_def genBlock_def genEmptyBlock_def NewBlock_def NewBlockHeaderV1_def
        SetTarget_def CoreProtocolV1_def)
  have "be_nat (pad_hash (MarshalBlockHeader (hdr\<lparr>bhNonce := 0\<rparr>))) < TargetToDiff 0xFFFFFFFF"
    using be_nat_pad s1(3) by (simp add: MarshalBlockHeader_def putU8_def)
  from first_nonce_run [where Hash = pad_hash and header = hdr, OF this] obtain m r where
    m: "(mine_step pad_hash (TargetToDiff 0xFFFFFFFF))\<^sup>*\<^sup>* (mineInit 1 hdr) m" "jobResult m = Some r" "mrFound r" by blast
  have g: "getBranch (demo_c0 s) (LatestBlockHash (demo_c0 s)) = Some (cLongest (demo_c0 s))"
    by (simp add: getBranch_def LatestBlockHash_def demo_c0_def)
  have t: "\<not> timeBefore (1, 0) (0, 0)" using timeBefore_seconds [of 1 0] by simp
  have "\<exists>s2. onResult demo_env (\<lambda>_. (1, 0)) (\<lambda>_. True) 1 r s1 = Some s2 \<and> sdSent s2 = sdSent (demo_sched s) @ [sdBlock s2] \<and>
    heightOf (sdChain s2) (cLongest (sdChain s2)) = heightOf (sdChain (demo_sched s)) (cLongest (sdChain (demo_sched s))) + 1 \<and>
    LatestBlockHash (sdChain s2) = BlockHash (envHash demo_env) (sdBlock s2) \<and> distinct (map eHash (bEvds (sdBlock s2)))"
    by (rule own_block_accepted [OF kv st _ _ _ _ _ _ _ s1(1) s1(2) _ m(2,3)])
      (use m(1) g t hd pad_hash_ok runs_start [of demo_env "demo_c0 s"] timeSub_self in \<open>simp_all add: demo_sched_def\<close>)
  then show ?thesis using s1(1) by auto
qed

end
