(* ===== verification/Net.thy ===== *)
theory Net
  imports Scheduler Handshake
begin

text \<open>
  \<open>src/core/net.go\<close>: the core protocol between peers.  A node asks its neighbours for hashes,
  then for blocks, relays broadcasts once, and hands blocks and evidences to the chain and the
  pool.  \<open>None\<close> is a call that does not return: the program ends, or a channel is full and the
  sender waits.  Times are pairs of seconds and nanoseconds, as in theory \<open>Branch\<close>.
\<close>

section \<open>Keys of the maps\<close>

text \<open>\<open>base64.StdEncoding.EncodeToString\<close>.\<close>

definition base64table :: string where
  "base64table = ''ABCDEFGHIJKLMNOPQRSTUVWXYZabcdefghijklmnopqrstuvwxyz0123456789+/''"

fun base64 :: "bytes \<Rightarrow> string" where
  "base64 [] = []"
| "base64 [a] =
     (let v = unat a * 16 in [base64table ! (v div 64), base64table ! (v mod 64), CHR ''='', CHR ''=''])"
| "base64 [a, b] =
     (let v = (unat a * 256 + unat b) * 4
      in [base64table ! (v div 4096), base64table ! (v div 64 mod 64), base64table ! (v mod 64), CHR ''=''])"
| "base64 (a # b # c # bs) =
     (let v = unat a * 65536 + unat b * 256 + unat c
      in base64table ! (v div 262144) # base64table ! (v div 4096 mod 64) # base64table ! (v div 64 mod 64) #
         base64table ! (v mod 64) # base64 bs)"

text \<open>\<open>%d\<close> of an unsigned integer.\<close>

fun decimal :: "nat \<Rightarrow> string" where
  "decimal n = (if n < 10 then [''0123456789'' ! n] else decimal (n div 10) @ [''0123456789'' ! (n mod 10)])"

declare decimal.simps [simp del]

section \<open>State\<close>

type_synonym gotime = "i64 \<times> int"

definition maxBlocksNumInResponse :: nat where "maxBlocksNumInResponse = 16"
definition sendQSize :: nat where "sendQSize = 512"
definition initializingSyncInterval :: int where "initializingSyncInterval = 1000000000"
definition syncInterval :: int where "syncInterval = 5 * 1000000000"

record waitingBlocks =
  wbPeer :: string
  wbLast :: gotime
  wbRemain :: u32
  wbResponse :: "BlockResponse list"

text \<open>
  The channel \<open>evdsToBroadcast\<close> is the pool's \<open>epBroadcast\<close>.  A packet to no particular peer is a
  broadcast: its peer is empty.
\<close>

record ('priv, 's) net =
  nInitFinish :: bool
  nInited :: bool
  nLightNode :: bool
  nSendQ :: "(bytes \<times> string) list"
  nChain :: "'s chain"
  nPool :: "'priv evidencePool"
  nSyncTicker :: int
  nSyncHashResp :: "(string \<times> SyncResponse) list"
  nWaitingHash :: bool
  nWaiting :: "waitingBlocks list"
  nFilter :: "(string \<times> gotime) list"

definition newNet :: "'s chain \<Rightarrow> 'priv evidencePool \<Rightarrow> u8 \<Rightarrow> ('priv, 's) net" where
  "newNet chain pool nodeType =
     \<lparr>nInitFinish = False, nInited = False, nLightNode = (nodeType = LightNode), nSendQ = [], nChain = chain,
      nPool = pool, nSyncTicker = initializingSyncInterval, nSyncHashResp = [], nWaitingHash = False,
      nWaiting = [], nFilter = []\<rparr>"

section \<open>Sending\<close>

definition netSend :: "bytes \<Rightarrow> string \<Rightarrow> ('priv, 's) net \<Rightarrow> ('priv, 's) net option" where
  "netSend data peerID n =
     (if length (nSendQ n) < sendQSize then Some (n\<lparr>nSendQ := nSendQ n @ [(data, peerID)]\<rparr>) else None)"

definition broadcast :: "hasher \<Rightarrow> gotime \<Rightarrow> bytes \<Rightarrow> ('priv, 's) net \<Rightarrow> ('priv, 's) net" where
  "broadcast Hash now data n =
     (let encoded = base64 (Hash data);
          n1 = n\<lparr>nFilter := AList.update encoded now (nFilter n)\<rparr>
      in if length (nSendQ n1) < sendQSize then n1\<lparr>nSendQ := nSendQ n1 @ [(data, [])]\<rparr> else n1)"

definition broadcastBlock :: "hasher \<Rightarrow> gotime \<Rightarrow> Block \<Rightarrow> ('priv, 's) net \<Rightarrow> ('priv, 's) net" where
  "broadcastBlock Hash now b n = broadcast Hash now (MarshalBlockBroadcast (NewBlockBroadcast b)) n"

definition broadcastEvidence :: "hasher \<Rightarrow> gotime \<Rightarrow> Evidence list \<Rightarrow> ('priv, 's) net \<Rightarrow> ('priv, 's) net" where
  "broadcastEvidence Hash now evds n =
     broadcast Hash now (MarshalEvidenceBroadcast (NewEvidenceBroadcast (Some evds))) n"

definition relayBroadcast :: "hasher \<Rightarrow> gotime \<Rightarrow> bytes \<Rightarrow> ('priv, 's) net \<Rightarrow> bool \<times> ('priv, 's) net" where
  "relayBroadcast Hash now originData n =
     (let encoded = base64 (Hash originData) in
      if map_of (nFilter n) encoded \<noteq> None then (False, n)
      else (True, broadcast Hash now originData (n\<lparr>nFilter := AList.update encoded now (nFilter n)\<rparr>)))"

definition cleanup :: "gotime \<Rightarrow> ('priv, 's) net \<Rightarrow> ('priv, 's) net" where
  "cleanup now n = n\<lparr>nFilter := filter (\<lambda>(k, v). \<not> timeSub now v > 3600 * 1000000000) (nFilter n)\<rparr>"

section \<open>Asking\<close>

text \<open>
  The loop of \<open>syncRequest\<close> over the answers; \<open>order\<close> is the order in which Go ranges over the map.
\<close>

fun requestLoop ::
  "gotime \<Rightarrow> (string \<times> SyncResponse) list \<Rightarrow> string list \<Rightarrow> bool \<Rightarrow> ('priv, 's) net \<Rightarrow> (bool \<times> ('priv, 's) net) option" where
  "requestLoop now [] queryFilter alreadyUptodate n = Some (alreadyUptodate, n)"
| "requestLoop now ((peerID, resp) # resps) queryFilter alreadyUptodate n =
     (if IsUptodate resp then requestLoop now resps queryFilter alreadyUptodate n
      else let queryFlag = ToHex (srEnd resp) @ ''-'' @ decimal (unat (srHeightDiff resp)) in
        if queryFlag \<in> set queryFilter then requestLoop now resps queryFilter False n
        else do {
          n1 \<leftarrow> netSend (MarshalBlockRequest (NewBlockRequest (srBase resp) (srEnd resp) (nLightNode n))) peerID n;
          requestLoop now resps (queryFlag # queryFilter) False
            (n1\<lparr>nWaiting := nWaiting n1 @
               [\<lparr>wbPeer = peerID, wbLast = now, wbRemain = srHeightDiff resp, wbResponse = []\<rparr>]\<rparr>)
        })"

definition syncRequest ::
  "hasher \<Rightarrow> gotime \<Rightarrow> ((string \<times> SyncResponse) list \<Rightarrow> (string \<times> SyncResponse) list) \<Rightarrow>
   ('priv, 's) net \<Rightarrow> ('priv, 's) net option" where
  "syncRequest Hash now order n =
     (if length (nSyncHashResp n) = 0 then
        Some ((foldl (\<lambda>m h. broadcast Hash now (MarshalSyncRequest (NewSyncRequest h)) m) n
                 (GetSyncBlockHash (nChain n)))\<lparr>nWaitingHash := True\<rparr>)
      else do {
        (alreadyUptodate, n1) \<leftarrow> requestLoop now (order (nSyncHashResp n)) [] True n;
        let n2 = n1\<lparr>nSyncHashResp := [], nWaitingHash := False\<rparr>;
        (if \<not> nInited n2 \<and> alreadyUptodate then
           (if nInitFinish n2 then None
            else Some (n2\<lparr>nInitFinish := True, nInited := True, nSyncTicker := syncInterval\<rparr>))
         else Some n2)
      })"

definition netSync ::
  "hasher \<Rightarrow> gotime \<Rightarrow> ((string \<times> SyncResponse) list \<Rightarrow> (string \<times> SyncResponse) list) \<Rightarrow>
   ('priv, 's) net \<Rightarrow> ('priv, 's) net option" where
  "netSync Hash now order n =
     (if length (nWaiting n) = 0 then syncRequest Hash now order n
      else Some (n\<lparr>nWaiting := filter (\<lambda>ex. timeSub now (wbLast ex) \<le>
        int (5 * maxBlocksNumInResponse) * 1000000000) (nWaiting n)\<rparr>))"

section \<open>Answering\<close>

definition handleSyncRequest ::
  "('sig, 'key, 'priv, 's) chain_env \<Rightarrow> SyncRequest \<Rightarrow> string \<Rightarrow> ('priv, 's) net \<Rightarrow> ('priv, 's) net option" where
  "handleSyncRequest env r peerID n = do {
     answer \<leftarrow> GetSyncHash env (nChain n) (sqBase r);
     (case answer of
        Inl (ErrAlreadyUpToDate _) \<Rightarrow> netSend (MarshalSyncResponse (NewSyncResponse [] [] 0 True)) peerID n
      | Inl _ \<Rightarrow> Some n
      | Inr (syncEnd, heightDiff) \<Rightarrow>
          netSend (MarshalSyncResponse (NewSyncResponse (sqBase r) syncEnd heightDiff False)) peerID n)
   }"

definition handleSyncResponse :: "SyncResponse \<Rightarrow> string \<Rightarrow> ('priv, 's) net \<Rightarrow> ('priv, 's) net" where
  "handleSyncResponse r peerID n =
     (if \<not> nWaitingHash n then n else n\<lparr>nSyncHashResp := AList.update peerID r (nSyncHashResp n)\<rparr>)"

function respondLoop :: "string \<Rightarrow> Block list \<Rightarrow> ('priv, 's) net \<Rightarrow> ('priv, 's) net option" where
  "respondLoop peerID blocks n =
     (if length blocks > 0 then do {
        let sendNum = (if length blocks < maxBlocksNumInResponse then length blocks else maxBlocksNumInResponse);
        n1 \<leftarrow> netSend (MarshalBlockResponse (NewBlockResponse (take sendNum blocks))) peerID n;
        respondLoop peerID (drop sendNum blocks) n1
      }
      else Some n)"
  by pat_completeness auto
termination
  by (relation "measure (\<lambda>(peerID, blocks, n). length blocks)") (auto simp: maxBlocksNumInResponse_def)

declare respondLoop.simps [simp del]

definition handleBlocksRequest ::
  "('sig, 'key, 'priv, 's) chain_env \<Rightarrow> BlockRequest \<Rightarrow> string \<Rightarrow> ('priv, 's) net \<Rightarrow> ('priv, 's) net option" where
  "handleBlocksRequest env r peerID n = do {
     answer \<leftarrow> GetSyncBlocks env (nChain n) (brqBase r) (brqEnd r) (IsOnlyHeader r);
     (case answer of Inl _ \<Rightarrow> Some n | Inr blocks \<Rightarrow> respondLoop peerID blocks n)
   }"

text \<open>
  The loop of \<open>handleBlocksResponse\<close>: the first entry of the peer is updated and, when complete,
  removed; then the blocks of its responses are to be added.  \<open>remainNums < 0\<close> compares a
  \<open>uint32\<close>.
\<close>

fun takeResponse ::
  "gotime \<Rightarrow> BlockResponse \<Rightarrow> string \<Rightarrow> waitingBlocks list \<Rightarrow> Block list option \<times> waitingBlocks list" where
  "takeResponse now r peerID [] = (None, [])"
| "takeResponse now r peerID (ex # waiting) =
     (if wbPeer ex = peerID then
        let ex' = ex\<lparr>wbLast := now, wbRemain := wbRemain ex - word_of_nat (length (brsBlocks r)),
                       wbResponse := wbResponse ex @ [r]\<rparr>
        in if wbRemain ex' = 0 then (Some (concat (map brsBlocks (wbResponse ex'))), waiting)
           else if wbRemain ex' < 0 then (None, waiting)
           else (None, ex' # waiting)
      else case takeResponse now r peerID waiting of (add, waiting') \<Rightarrow> (add, ex # waiting'))"

definition netAddBlocks ::
  "('sig, 'key, 'priv, 's) chain_env \<Rightarrow> Block list \<Rightarrow> ('priv, 's) net \<Rightarrow> ('priv, 's) net option" where
  "netAddBlocks env blocks n =
     map_option (\<lambda>c. n\<lparr>nChain := c\<rparr>) (AddBlocks env (\<lambda>_. (0, 0)) (\<lambda>_. True) blocks False (nChain n))"

definition handleBlocksResponse ::
  "('sig, 'key, 'priv, 's) chain_env \<Rightarrow> gotime \<Rightarrow> BlockResponse \<Rightarrow> string \<Rightarrow> ('priv, 's) net \<Rightarrow> ('priv, 's) net option" where
  "handleBlocksResponse env now r peerID n =
     (case takeResponse now r peerID (nWaiting n) of
        (None, waiting) \<Rightarrow> Some (n\<lparr>nWaiting := waiting\<rparr>)
      | (Some toAddBlocks, waiting) \<Rightarrow> map_option (\<lambda>m. m\<lparr>nWaiting := waiting\<rparr>) (netAddBlocks env toAddBlocks n))"

definition handleBlockBroadcast ::
  "('sig, 'key, 'priv, 's) chain_env \<Rightarrow> gotime \<Rightarrow> bytes \<Rightarrow> BlockBroadcast \<Rightarrow> ('priv, 's) net \<Rightarrow> ('priv, 's) net option" where
  "handleBlockBroadcast env now originData b n =
     (case relayBroadcast (envHash env) now originData n of
        (True, n1) \<Rightarrow> netAddBlocks env [bbBlock b] n1
      | (False, n1) \<Rightarrow> Some n1)"

definition handleEvidenceBroadcase ::
  "('sig, 'key, 'priv, 's) chain_env \<Rightarrow> gotime \<Rightarrow> bytes \<Rightarrow> EvidenceBroadcast \<Rightarrow> ('priv, 's) net \<Rightarrow> ('priv, 's) net option" where
  "handleEvidenceBroadcase env now originData b n =
     (case relayBroadcast (envHash env) now originData n of
        (True, n1) \<Rightarrow> map_option (\<lambda>p. n1\<lparr>nPool := p\<rparr>) (addEvidence (envHash env) (sliceList (ebEvds b)) True (nPool n1))
      | (False, n1) \<Rightarrow> Some n1)"

text \<open>A message that cannot be decoded is logged and dropped; no \<open>Verify\<close> is called here.\<close>

definition decoded :: "'a reader \<Rightarrow> bytes \<Rightarrow> ('a \<Rightarrow> 'n option) \<Rightarrow> 'n \<Rightarrow> 'n option" where
  "decoded dec data handle n = (case dec data of Inl _ \<Rightarrow> Some n | Inr (x, _) \<Rightarrow> handle x)"

definition handleRecvPacket ::
  "('sig, 'key, 'priv, 's) chain_env \<Rightarrow> gotime \<Rightarrow> bytes \<times> string \<Rightarrow> ('priv, 's) net \<Rightarrow> ('priv, 's) net option" where
  "handleRecvPacket env now pd n =
     (let data = fst pd; peer = snd pd in
      decoded UnmarshalHead data (\<lambda>msg.
        if \<not> nInited n \<and> (hType msg = MsgBlockBroadcast \<or> hType msg = MsgEvidenceBroadcast) then Some n
        else if hType msg = MsgSyncReq then decoded UnmarshalSyncRequest data (\<lambda>r. handleSyncRequest env r peer n) n
        else if hType msg = MsgSyncResp then decoded UnmarshalSyncResponse data (\<lambda>r. Some (handleSyncResponse r peer n)) n
        else if hType msg = MsgBlockRequest then decoded UnmarshalBlockRequest data (\<lambda>r. handleBlocksRequest env r peer n) n
        else if hType msg = MsgBlockResponse then
          decoded UnmarshalBlockResponse data (\<lambda>r. handleBlocksResponse env now r peer n) n
        else if hType msg = MsgBlockBroadcast then
          decoded UnmarshalBlockBroadcast data (\<lambda>b. handleBlockBroadcast env now data b n) n
        else if hType msg = MsgEvidenceBroadcast then
          decoded UnmarshalEvidenceBroadcast data (\<lambda>b. handleEvidenceBroadcase env now data b n) n
        else Some n) n)"

text \<open>One turn of \<open>loop\<close>, of \<open>doSend\<close>, or of a goroutine that uses the chain or the pool.\<close>

inductive net_step :: "('sig, 'key, 'priv, 's) chain_env \<Rightarrow> ('priv, 's) net \<Rightarrow> ('priv, 's) net option \<Rightarrow> bool" for env where
  net_recv: "net_step env n (handleRecvPacket env now pd n)"
| net_sync: "(\<And>xs. mset (order xs) = mset xs) \<Longrightarrow> net_step env n (netSync (envHash env) now order n)"
| net_evds: "epBroadcast (nPool n) = evds # rest \<Longrightarrow>
    net_step env n (Some (broadcastEvidence (envHash env) now evds (n\<lparr>nPool := (nPool n)\<lparr>epBroadcast := rest\<rparr>\<rparr>)))"
| net_cleanup: "net_step env n (Some (cleanup now n))"
| net_sent: "nSendQ n = d # rest \<Longrightarrow> net_step env n (Some (n\<lparr>nSendQ := rest\<rparr>))"
| net_block: "net_step env n (Some (broadcastBlock (envHash env) now b n))"
| net_chain: "chain_step env (nChain n) r \<Longrightarrow> net_step env n (map_option (\<lambda>c. n\<lparr>nChain := c\<rparr>) r)"
| net_pool: "pool_step (envEc env) (envHash env) (EvidenceDifficultyLimit (envParams env)) (nPool n) pool \<Longrightarrow>
    net_step env n (Some (n\<lparr>nPool := pool\<rparr>))"

section \<open>A transfer of blocks\<close>

text \<open>The packets a node has received from one peer, handled in order.\<close>

fun recvAll ::
  "('sig, 'key, 'priv, 's) chain_env \<Rightarrow> gotime \<Rightarrow> string \<Rightarrow> bytes list \<Rightarrow> ('priv, 's) net \<Rightarrow> ('priv, 's) net option" where
  "recvAll env now peer [] n = Some n"
| "recvAll env now peer (d # ds) n = do { n1 \<leftarrow> handleRecvPacket env now (d, peer) n; recvAll env now peer ds n1 }"

function chunks :: "Block list \<Rightarrow> Block list list" where
  "chunks bs = (if bs = [] then [] else take 16 bs # chunks (drop 16 bs))"
  by pat_completeness auto
termination
  by (relation "measure length") auto

declare chunks.simps [simp del]

abbreviation responsePacket :: "Block list \<Rightarrow> bytes" where
  "responsePacket bs \<equiv> MarshalBlockResponse (NewBlockResponse bs)"

lemma respondLoop_chunks:
  "length (nSendQ n) + length (chunks bs) \<le> sendQSize \<Longrightarrow>
   respondLoop peer bs n = Some (n\<lparr>nSendQ := nSendQ n @ map (\<lambda>c. (responsePacket c, peer)) (chunks bs)\<rparr>)"
proof (induction bs arbitrary: n rule: chunks.induct)
  case (1 bs)
  show ?case
  proof (cases "bs = []")
    case True
    then show ?thesis by (simp add: chunks.simps respondLoop.simps)
  next
    case False
    let ?k = "if length bs < maxBlocksNumInResponse then length bs else maxBlocksNumInResponse"
    have k: "take ?k bs = take 16 bs" "drop ?k bs = drop 16 bs" by (simp_all add: maxBlocksNumInResponse_def)
    have c: "chunks bs = take 16 bs # chunks (drop 16 bs)" using False by (simp add: chunks.simps [of bs])
    let ?n = "n\<lparr>nSendQ := nSendQ n @ [(responsePacket (take 16 bs), peer)]\<rparr>"
    have "netSend (responsePacket (take 16 bs)) peer n = Some ?n" using 1(2) c by (simp add: netSend_def)
    then show ?thesis
      using 1(1) [OF False, of ?n] 1(2) False c by (subst respondLoop.simps) (simp add: Let_def k)
  qed
qed

lemma recv_response:
  assumes "wfSeq16 block_fits bs"
  shows "handleRecvPacket env now (responsePacket bs, peer) n = handleBlocksResponse env now (NewBlockResponse bs) peer n"
proof -
  have "UnmarshalBlockResponse (responsePacket bs) = Inr (NewBlockResponse bs, [])"
    using block_response.dec_enc_whole [of "NewBlockResponse bs"] assms by (simp add: NewBlockResponse_def)
  moreover have "UnmarshalHead (responsePacket bs) = Inr (NewHeadV1 MsgBlockResponse, putSeq16 MarshalBlock bs)"
    using head.dec_enc [of "NewHeadV1 MsgBlockResponse"] by (simp add: MarshalBlockResponse_def NewBlockResponse_def)
  ultimately show ?thesis
    by (simp add: handleRecvPacket_def decoded_def NewHeadV1_def cp_consts)
qed

lemma length_chunks: "length (chunks bs) = (length bs + 15) div 16"
proof (induction bs rule: chunks.induct)
  case (1 bs)
  show ?case
  proof (cases "bs = []")
    case False
    then have "length (chunks bs) = Suc ((length bs - 16 + 15) div 16)" using 1 by (simp add: chunks.simps [of bs])
    also have "\<dots> = (length bs + 15) div 16" using False by (cases "length bs \<ge> 16") (auto simp: not_le le_Suc_eq div_if)
    finally show ?thesis .
  qed (simp add: chunks.simps)
qed

lemma chunk_fits: "list_all block_fits bs \<Longrightarrow> wfSeq16 block_fits (take 16 bs)"
  by (auto simp: wfSeq16_def list_all_iff dest: in_set_takeD)

text \<open>A waiting entry that has received \<open>got\<close> and still expects \<open>todo\<close> blocks.\<close>

lemma recvAll_chunks:
  assumes "length todo < 2 ^ 32" "todo \<noteq> []" "list_all block_fits todo"
    and "nWaiting n = w # rest" "wbPeer w = peer" "wbRemain w = word_of_nat (length todo)"
    and "concat (map brsBlocks (wbResponse w)) = got" "length (cPending (nChain n)) < 16"
  shows "recvAll env now peer (map responsePacket (chunks todo)) n =
    Some (n\<lparr>nWaiting := rest, nChain := (nChain n)\<lparr>cPending := cPending (nChain n) @ [got @ todo]\<rparr>\<rparr>)"
  using assms
proof (induction todo arbitrary: n w got rule: chunks.induct)
  case (1 todo)
  let ?c = "take 16 todo" and ?r = "drop 16 todo"
  let ?w = "w\<lparr>wbLast := now, wbRemain := word_of_nat (length ?r), wbResponse := wbResponse w @ [NewBlockResponse ?c]\<rparr>"
  have c: "chunks todo = ?c # chunks ?r" using 1(3) by (simp add: chunks.simps [of todo])
  have rem: "wbRemain w - word_of_nat (length ?c) = (word_of_nat (length ?r) :: u32)"
  proof -
    have "length todo = length ?c + length ?r" by (simp add: min_def)
    then have "word_of_nat (length todo) = (word_of_nat (length ?c) + word_of_nat (length ?r) :: u32)"
      by (metis of_nat_add)
    then show ?thesis using 1(7) by simp
  qed
  have fits: "wfSeq16 block_fits ?c" by (rule chunk_fits [OF 1(4)])
  have len: "length ?r < 2 ^ 32" using 1(2) by simp
  show ?case
  proof (cases "?r = []")
    case True
    then have t: "?c = todo" by simp
    have "handleBlocksResponse env now (NewBlockResponse ?c) peer n =
        Some (n\<lparr>nWaiting := rest, nChain := (nChain n)\<lparr>cPending := cPending (nChain n) @ [got @ todo]\<rparr>\<rparr>)"
      using 1(5-9) rem True t
      by (simp add: handleBlocksResponse_def Let_def NewBlockResponse_def netAddBlocks_def AddBlocks_def)
    then show ?thesis
      unfolding c using True recv_response [OF fits, of env now peer n] by (simp add: chunks.simps [of "[]"])
  next
    case False
    have fitr: "list_all block_fits ?r" using 1(4) by (auto simp: list_all_iff dest: in_set_dropD)
    have "unat (word_of_nat (length ?r) :: u32) = length ?r" using len by (simp add: unat_of_nat)
    then have nz: "(word_of_nat (length ?r) :: u32) \<noteq> 0" using False by (metis length_0_conv unat_0)
    have h: "handleBlocksResponse env now (NewBlockResponse ?c) peer n = Some (n\<lparr>nWaiting := ?w # rest\<rparr>)"
      using 1(5,6) rem nz by (simp add: handleBlocksResponse_def Let_def NewBlockResponse_def)
    have "recvAll env now peer (map responsePacket (chunks ?r)) (n\<lparr>nWaiting := ?w # rest\<rparr>) =
      Some (n\<lparr>nWaiting := rest, nChain := (nChain n)\<lparr>cPending := cPending (nChain n) @ [(got @ ?c) @ ?r]\<rparr>\<rparr>)"
      using 1(1) [OF 1(3) len False fitr, of "n\<lparr>nWaiting := ?w # rest\<rparr>" ?w "got @ ?c"] 1(6,8,9)
      by (simp add: NewBlockResponse_def)
    then show ?thesis unfolding c using recv_response [OF fits, of env now peer n] h by simp
  qed
qed

section \<open>Properties\<close>

text \<open>
  C10 Blocks reach a peer whole and in order: when a node answers a block request from its chain,
  the packets it queues, handled by the peer that waits for that many blocks, end the waiting and
  hand exactly these blocks as one batch to the peer's chain, and change nothing else.
\<close>

theorem block_transfer:
  assumes "GetSyncBlocks env (nChain b) (brqBase r) (brqEnd r) (IsOnlyHeader r) = Some (Inr bs)"
    and "bs \<noteq> []" "length bs < 2 ^ 32" "list_all block_fits bs"
    and "length (nSendQ b) + (length bs + 15) div 16 \<le> sendQSize"
    and "nWaiting a = w # rest" "wbPeer w = peerB" "wbRemain w = word_of_nat (length bs)" "wbResponse w = []"
    and "length (cPending (nChain a)) < 16"
  shows "\<exists>pkts. handleBlocksRequest env r peerA b = Some (b\<lparr>nSendQ := nSendQ b @ map (\<lambda>d. (d, peerA)) pkts\<rparr>) \<and>
    recvAll env' now peerB pkts a =
      Some (a\<lparr>nWaiting := rest, nChain := (nChain a)\<lparr>cPending := cPending (nChain a) @ [bs]\<rparr>\<rparr>)"
proof -
  have "length (nSendQ b) + length (chunks bs) \<le> sendQSize" using assms(5) by (simp add: length_chunks)
  then have "handleBlocksRequest env r peerA b =
      Some (b\<lparr>nSendQ := nSendQ b @ map (\<lambda>d. (d, peerA)) (map responsePacket (chunks bs))\<rparr>)"
    using respondLoop_chunks [of b bs peerA] assms(1) by (simp add: handleBlocksRequest_def comp_def)
  moreover have "recvAll env' now peerB (map responsePacket (chunks bs)) a =
      Some (a\<lparr>nWaiting := rest, nChain := (nChain a)\<lparr>cPending := cPending (nChain a) @ [bs]\<rparr>\<rparr>)"
    using recvAll_chunks [OF assms(3,2,4,6,7,8), of "[]" env' now] assms(9,10) by simp
  ultimately show ?thesis by blast
qed

definition demo_net :: "(bytes \<times> bytes) list \<Rightarrow> (unit, (bytes \<times> bytes) list) net" where
  "demo_net s = newNet (demo_c1 s) (newEvidencePool ()) FullNode"

definition demo_waiting :: waitingBlocks where
  "demo_waiting = \<lparr>wbPeer = ''b'', wbLast = (0, 0), wbRemain = 1, wbResponse = []\<rparr>"

lemma demo_evd_block_fits: "block_fits demo_evd_block"
proof -
  have "length (merkleRoot pad_hash [EvidenceGetSerializedHash pad_hash demo_evd]) = 32"
    by (rule length_merkleRoot) (simp_all add: pad_hash_ok EvidenceGetSerializedHash_def)
  moreover have "length (pad_hash x) = 32" for x using hash_ok_length [OF pad_hash_ok] .
  ultimately show ?thesis
    by (simp add: demo_evd_block_def mk_def NewBlock_def NewBlockHeaderV1_def block_fits_def header_fits_def wfSeq16_def
        evidence_fits_def demo_evd_def)
qed

lemma demo_sync_blocks:
  "GetSyncBlocks demo_env (demo_c1 s) (dh 0) (BlockHash pad_hash demo_evd_block) False = Some (Inr [demo_evd_block])"
proof -
  let ?last = "BlockHash pad_hash demo_evd_block" and ?h = "cHeap (demo_c1 s)"
  have c: "cLongest (demo_c1 s) = 0" by (simp add: demo_c1_def frame_simps) (simp add: demo_c0_def)
  note look = demo_c1_lookup [of s]
  have h0: "bkHeight (?h ! 0) = 1"
    by (simp add: demo_c1_def addTo_def demo_c0_def branchAdd_def Let_def setBackward_def addFordward_def newBlk_def demo_branch_def)
  have "syncBlocksLoop ?h False 1 (Some (Suc 0)) [] = Some [demo_evd_block]"
    by (subst syncBlocksLoop.simps, simp add: demo_c1_simps, subst syncBlocksLoop.simps, simp add: h0)
  then show ?thesis by (simp add: GetSyncBlocks_def Let_def c look h0 demo_c1_simps)
qed

theorem block_transfer_witness:
  "\<exists>pkts. handleBlocksRequest demo_env (NewBlockRequest (dh 0) (BlockHash pad_hash demo_evd_block) False) ''a'' (demo_net []) =
       Some ((demo_net [])\<lparr>nSendQ := map (\<lambda>d. (d, ''a'')) pkts\<rparr>) \<and>
     recvAll demo_env (5, 0) ''b'' pkts ((demo_net [])\<lparr>nWaiting := [demo_waiting], nChain := demo_c0 []\<rparr>) =
       Some ((demo_net [])\<lparr>nChain := (demo_c0 [])\<lparr>cPending := [[demo_evd_block]]\<rparr>\<rparr>)"
  using block_transfer [of demo_env "demo_net []" "NewBlockRequest (dh 0) (BlockHash pad_hash demo_evd_block) False"
      "[demo_evd_block]" "(demo_net [])\<lparr>nWaiting := [demo_waiting], nChain := demo_c0 []\<rparr>" demo_waiting "[]" "''b''"
      "''a''" demo_env "(5, 0)"]
    demo_sync_blocks [of "[]"] demo_evd_block_fits
  by (simp add: demo_net_def newNet_def demo_waiting_def sendQSize_def NewBlockRequest_def IsOnlyHeader_def
      notOnlyHeaderFlag_def onlyHeaderFlag_def demo_c0_def)

section \<open>Broadcasts\<close>

lemma broadcast_filter:
  "map_of (nFilter (broadcast Hash t d m)) = (map_of (nFilter m))(base64 (Hash d) \<mapsto> t)"
  by (simp add: broadcast_def Let_def update_conv')

lemma relayBroadcast_again:
  "map_of (nFilter m) (base64 (Hash d)) \<noteq> None \<Longrightarrow> relayBroadcast Hash t d m = (False, m)"
  by (simp add: relayBroadcast_def Let_def)

lemma relayBroadcast_filter:
  "map_of (nFilter (snd (relayBroadcast Hash t d m))) k \<noteq> None \<longleftrightarrow> map_of (nFilter m) k \<noteq> None \<or> k = base64 (Hash d)"
  by (auto simp: relayBroadcast_def broadcast_filter Let_def update_conv')

lemma update_twice: "AList.update k v (AList.update k v al) = AList.update k v al"
  by (induction al) auto

text \<open>The node has put the packet into its queue for all peers, if there is room, and remembers it.\<close>

definition relayedNet :: "hasher \<Rightarrow> gotime \<Rightarrow> bytes \<Rightarrow> ('priv, 's) net \<Rightarrow> ('priv, 's) net" where
  "relayedNet Hash now data n =
     n\<lparr>nFilter := AList.update (base64 (Hash data)) now (nFilter n),
       nSendQ := (if length (nSendQ n) < sendQSize then nSendQ n @ [(data, [])] else nSendQ n)\<rparr>"

lemma relayBroadcast_first:
  "map_of (nFilter n) (base64 (Hash data)) = None \<Longrightarrow> relayBroadcast Hash now data n = (True, relayedNet Hash now data n)"
  by (simp add: relayBroadcast_def broadcast_def relayedNet_def Let_def update_twice)

subsection \<open>What is remembered\<close>

lemma netSend_filter: "netSend d p n = Some n' \<Longrightarrow> nFilter n' = nFilter n"
  by (auto simp: netSend_def split: if_splits)

lemma respondLoop_filter: "respondLoop peer bs n = Some n' \<Longrightarrow> nFilter n' = nFilter n"
proof (induction peer bs n arbitrary: n' rule: respondLoop.induct)
  case (1 peer bs n)
  show ?case
  proof (cases "length bs > 0")
    case True
    let ?k = "if length bs < maxBlocksNumInResponse then length bs else maxBlocksNumInResponse"
    from 1(2) True obtain n1 where
      n1: "netSend (MarshalBlockResponse (NewBlockResponse (take ?k bs))) peer n = Some n1" "respondLoop peer (drop ?k bs) n1 = Some n'"
      by (subst (asm) respondLoop.simps) (auto simp: Let_def split: bind_splits)
    then show ?thesis using 1(1) [OF True refl n1] netSend_filter [OF n1(1)] by simp
  next
    case False
    then show ?thesis using 1(2) by (subst (asm) respondLoop.simps) simp
  qed
qed

lemma requestLoop_filter: "requestLoop now rs qf up n = Some (up', n') \<Longrightarrow> nFilter n' = nFilter n"
proof (induction now rs qf up n rule: requestLoop.induct)
  case (2 now peerID resp resps qf up n)
  then show ?case
    by (auto simp: Let_def dest!: netSend_filter split: if_splits bind_splits)
qed simp

lemma foldl_broadcast_filter:
  "map_of (nFilter n) k \<noteq> None \<Longrightarrow> map_of (nFilter (foldl (\<lambda>m h. broadcast Hash now (f h) m) n hs)) k \<noteq> None"
  by (induction hs arbitrary: n) (auto simp: broadcast_filter)

lemma netSync_filter:
  assumes sync: "netSync Hash now order n = Some n'" and k: "map_of (nFilter n) k \<noteq> None"
  shows "map_of (nFilter n') k \<noteq> None"
proof (cases "nWaiting n = [] \<and> nSyncHashResp n = []")
  case True
  then show ?thesis
    using sync foldl_broadcast_filter [OF k, of Hash now "\<lambda>h. MarshalSyncRequest (NewSyncRequest h)"]
    by (auto simp: netSync_def syncRequest_def)
next
  case False
  then have "nFilter n' = nFilter n"
    using sync by (auto simp: netSync_def syncRequest_def Let_def dest!: requestLoop_filter split: if_splits bind_splits)
  then show ?thesis using k by simp
qed

lemma handleBlockBroadcast_filter:
  "handleBlockBroadcast env now d b n = Some n' \<Longrightarrow>
     map_of (nFilter n') k \<noteq> None \<longleftrightarrow> map_of (nFilter n) k \<noteq> None \<or> k = base64 (envHash env d)"
  using relayBroadcast_filter [of "envHash env" now d n k]
  by (auto simp: handleBlockBroadcast_def netAddBlocks_def split: prod.splits bool.splits)

lemma handleEvidenceBroadcase_filter:
  "handleEvidenceBroadcase env now d b n = Some n' \<Longrightarrow>
     map_of (nFilter n') k \<noteq> None \<longleftrightarrow> map_of (nFilter n) k \<noteq> None \<or> k = base64 (envHash env d)"
  using relayBroadcast_filter [of "envHash env" now d n k]
  by (auto simp: handleEvidenceBroadcase_def split: prod.splits bool.splits)

lemma handleRecvPacket_filter:
  assumes "handleRecvPacket env now pd n = Some n'" "map_of (nFilter n) k \<noteq> None"
  shows "map_of (nFilter n') k \<noteq> None"
proof -
  have "handleSyncRequest env r peer n = Some n' \<Longrightarrow> nFilter n' = nFilter n" for r peer
    by (auto simp: handleSyncRequest_def dest!: netSend_filter split: bind_splits sum.splits chain_error.splits)
  moreover have "nFilter (handleSyncResponse r peer n) = nFilter n" for r peer
    by (simp add: handleSyncResponse_def)
  moreover have "handleBlocksRequest env r peer n = Some n' \<Longrightarrow> nFilter n' = nFilter n" for r peer
    by (auto simp: handleBlocksRequest_def dest!: respondLoop_filter split: bind_splits sum.splits)
  moreover have "handleBlocksResponse env now r peer n = Some n' \<Longrightarrow> nFilter n' = nFilter n" for r peer
    by (auto simp: handleBlocksResponse_def netAddBlocks_def split: prod.splits option.splits)
  moreover have "handleBlockBroadcast env now (fst pd) b n = Some n' \<Longrightarrow> map_of (nFilter n') k \<noteq> None" for b
    using handleBlockBroadcast_filter [of env now "fst pd" b n n' k] assms(2) by blast
  moreover have "handleEvidenceBroadcase env now (fst pd) b n = Some n' \<Longrightarrow> map_of (nFilter n') k \<noteq> None" for b
    using handleEvidenceBroadcase_filter [of env now "fst pd" b n n' k] assms(2) by blast
  ultimately show ?thesis
    using assms by (auto simp: handleRecvPacket_def decoded_def Let_def split: sum.splits prod.splits if_splits)
qed

text \<open>A step of the node other than a cleanup that forgets a broadcast.\<close>

definition remembering :: "('sig, 'key, 'priv, 's) chain_env \<Rightarrow> ('priv, 's) net \<Rightarrow> ('priv, 's) net \<Rightarrow> bool" where
  "remembering env n n' \<longleftrightarrow> net_step env n (Some n') \<and> (\<forall>now. n' = cleanup now n \<longrightarrow> nFilter n' = nFilter n)"

lemma remembering_filter:
  assumes "remembering env n n'" "map_of (nFilter n) k \<noteq> None"
  shows "map_of (nFilter n') k \<noteq> None"
proof -
  have step: "net_step env n (Some n')" and clean: "n' = cleanup now n \<Longrightarrow> nFilter n' = nFilter n" for now
    using assms(1) unfolding remembering_def by blast+
  from step show ?thesis
  proof cases
    case (net_recv now pd)
    then show ?thesis using handleRecvPacket_filter [of env now pd n n'] assms(2) by simp
  next
    case (net_sync order now)
    then show ?thesis using netSync_filter [of "envHash env" now order n n'] assms(2) by simp
  next
    case (net_cleanup now)
    then show ?thesis using clean [of now] assms(2) by simp
  next
    case (net_chain r)
    then show ?thesis using assms(2) by (cases r) simp_all
  qed (use assms(2) in \<open>auto simp: broadcastEvidence_def broadcastBlock_def broadcast_filter\<close>)
qed

lemma remembering_run:
  assumes "(remembering env)\<^sup>*\<^sup>* n n'" "map_of (nFilter n) k \<noteq> None"
  shows "map_of (nFilter n') k \<noteq> None"
  using assms by (induction rule: rtranclp_induct) (auto dest: remembering_filter)

lemma remembered_ignored:
  assumes "map_of (nFilter n) (base64 (envHash env data)) \<noteq> None"
  shows "handleBlockBroadcast env now data b n = Some n" "handleEvidenceBroadcase env now data e n = Some n"
  using relayBroadcast_again [of n "envHash env" data now] assms
  by (simp_all add: handleBlockBroadcast_def handleEvidenceBroadcase_def)

lemma recv_block_broadcast:
  assumes "block_fits blk" "nInited m"
  shows "handleRecvPacket env now (MarshalBlockBroadcast (NewBlockBroadcast blk), peer) m =
    handleBlockBroadcast env now (MarshalBlockBroadcast (NewBlockBroadcast blk)) (NewBlockBroadcast blk) m"
proof -
  let ?d = "MarshalBlockBroadcast (NewBlockBroadcast blk)"
  have "UnmarshalBlockBroadcast ?d = Inr (NewBlockBroadcast blk, [])"
    using block_broadcast.dec_enc_whole [of "NewBlockBroadcast blk"] assms(1) by (simp add: NewBlockBroadcast_def)
  moreover have "UnmarshalHead ?d = Inr (NewHeadV1 MsgBlockBroadcast, MarshalBlock blk)"
    using head.dec_enc [of "NewHeadV1 MsgBlockBroadcast"] by (simp add: MarshalBlockBroadcast_def NewBlockBroadcast_def)
  ultimately show ?thesis
    using assms(2) by (simp add: handleRecvPacket_def decoded_def NewHeadV1_def cp_consts)
qed

text \<open>
  C11 A broadcast is relayed and used exactly once.  The first time it comes, its block is handed to the
  chain (if the channel to the chain has room) or its evidences to the pool, the packet is put into the
  queue for all peers, if there is room, and remembered.  After that, whatever else the node does, the
  same packet changes nothing, until the hourly cleanup forgets a broadcast; and a block that the node
  broadcasts itself is put into the queue and ignored when it comes back from any peer.
\<close>

theorem broadcast_once:
  "(map_of (nFilter n) (base64 (envHash env data)) = None \<longrightarrow>
      handleBlockBroadcast env now data b n =
        (if length (cPending (nChain n)) < 16
         then Some ((relayedNet (envHash env) now data n)\<lparr>nChain := (nChain n)\<lparr>cPending := cPending (nChain n) @ [[bbBlock b]]\<rparr>\<rparr>)
         else None) \<and>
      handleEvidenceBroadcase env now data e n =
        map_option (\<lambda>p. (relayedNet (envHash env) now data n)\<lparr>nPool := p\<rparr>)
          (addEvidence (envHash env) (sliceList (ebEvds e)) True (nPool n))) \<and>
   (\<forall>n1 n2. handleBlockBroadcast env now data b n = Some n1 \<or> handleEvidenceBroadcase env now data e n = Some n1 \<longrightarrow>
      (remembering env)\<^sup>*\<^sup>* n1 n2 \<longrightarrow>
      handleBlockBroadcast env now' data b' n2 = Some n2 \<and> handleEvidenceBroadcase env now' data e' n2 = Some n2) \<and>
   broadcastBlock (envHash env) now blk n = relayedNet (envHash env) now (MarshalBlockBroadcast (NewBlockBroadcast blk)) n \<and>
   (\<forall>n2. block_fits blk \<longrightarrow> (remembering env)\<^sup>*\<^sup>* (broadcastBlock (envHash env) now blk n) n2 \<longrightarrow> nInited n2 \<longrightarrow>
      handleRecvPacket env now' (MarshalBlockBroadcast (NewBlockBroadcast blk), peer) n2 = Some n2)"
proof (intro conjI allI impI, goal_cases)
  case 1
  then show ?case
    using relayBroadcast_first [of n "envHash env" data now]
    by (simp add: handleBlockBroadcast_def netAddBlocks_def AddBlocks_def relayedNet_def)
next
  case 2
  then show ?case
    using relayBroadcast_first [of n "envHash env" data now]
    by (simp add: handleEvidenceBroadcase_def relayedNet_def)
next
  case (3 n1 n2)
  then have "map_of (nFilter n1) (base64 (envHash env data)) \<noteq> None"
    using handleBlockBroadcast_filter [of env now data b n n1 "base64 (envHash env data)"]
      handleEvidenceBroadcase_filter [of env now data e n n1 "base64 (envHash env data)"] by blast
  then show ?case using remembered_ignored(1) remembering_run [OF 3(2)] by blast
next
  case (4 n1 n2)
  then have "map_of (nFilter n1) (base64 (envHash env data)) \<noteq> None"
    using handleBlockBroadcast_filter [of env now data b n n1 "base64 (envHash env data)"]
      handleEvidenceBroadcase_filter [of env now data e n n1 "base64 (envHash env data)"] by blast
  then show ?case using remembered_ignored(2) remembering_run [OF 4(2)] by blast
next
  case 5
  show ?case by (simp add: broadcastBlock_def broadcast_def relayedNet_def Let_def)
next
  case (6 n2)
  let ?d = "MarshalBlockBroadcast (NewBlockBroadcast blk)"
  have "map_of (nFilter n2) (base64 (envHash env ?d)) \<noteq> None"
    by (rule remembering_run [OF 6(2)]) (simp add: broadcastBlock_def broadcast_filter)
  then show ?case using recv_block_broadcast [OF 6(1,3), of env now' peer] remembered_ignored(1) by simp
qed

theorem broadcast_once_witness:
  "let n = (demo_net [])\<lparr>nInited := True\<rparr>; d = MarshalBlockBroadcast (NewBlockBroadcast demo_evd_block) in
     \<exists>n1. handleBlockBroadcast demo_env (5, 0) d (NewBlockBroadcast demo_evd_block) n = Some n1 \<and>
       nSendQ n1 = [(d, [])] \<and> cPending (nChain n1) = [[demo_evd_block]] \<and>
       handleBlockBroadcast demo_env (6, 0) d (NewBlockBroadcast demo_evd_block) n1 = Some n1 \<and>
       handleRecvPacket demo_env (6, 0) (d, ''b'') (broadcastBlock pad_hash (5, 0) demo_evd_block n) =
         Some (broadcastBlock pad_hash (5, 0) demo_evd_block n)"
proof -
  let ?n = "(demo_net [])\<lparr>nInited := True\<rparr>" and ?b = "NewBlockBroadcast demo_evd_block"
  let ?d = "MarshalBlockBroadcast ?b"
  note once = broadcast_once [where n = ?n and env = demo_env and data = ?d and now = "(5, 0)" and now' = "(6, 0)"
      and b = ?b and b' = ?b and blk = demo_evd_block and peer = "''b''"]
  have n: "map_of (nFilter ?n) x = None" "cPending (nChain ?n) = []" "nSendQ ?n = []" for x
    by (simp_all add: demo_net_def newNet_def demo_c1_def addTo_def demo_c0_def split: prod.split)
  have i: "nInited (broadcastBlock pad_hash (5, 0) demo_evd_block ?n)" by (simp add: broadcastBlock_def broadcast_def Let_def)
  let ?n1 = "(relayedNet pad_hash (5, 0) ?d ?n)\<lparr>nChain := (nChain ?n)\<lparr>cPending := [[demo_evd_block]]\<rparr>\<rparr>"
  have first: "handleBlockBroadcast demo_env (5, 0) ?d ?b ?n = Some ?n1"
    using once n by (simp add: NewBlockBroadcast_def)
  moreover have "nSendQ ?n1 = [(?d, [])]" using n by (simp add: relayedNet_def sendQSize_def)
  moreover have "handleBlockBroadcast demo_env (6, 0) ?d ?b ?n1 = Some ?n1" using once first by blast
  moreover have "handleRecvPacket demo_env (6, 0) (?d, ''b'') (broadcastBlock pad_hash (5, 0) demo_evd_block ?n) =
      Some (broadcastBlock pad_hash (5, 0) demo_evd_block ?n)"
    using once demo_evd_block_fits i by simp
  ultimately show ?thesis by (simp add: Let_def)
qed

text \<open>
  A peer that sends more blocks than announced is not recognised: the counter of remaining
  blocks, an unsigned integer, wraps, the test for a negative value never holds, and the entry
  stays and collects responses.
\<close>

theorem excess_response_kept:
  assumes "wbPeer w = peer" "wbRemain w < word_of_nat (length (brsBlocks r))" "length (brsBlocks r) < 65536"
  shows "\<exists>w'. takeResponse now r peer (w # ws) = (None, w' # ws) \<and> wbRemain w < wbRemain w' \<and>
    wbResponse w' = wbResponse w @ [r]"
proof -
  let ?l = "word_of_nat (length (brsBlocks r)) :: u32"
  have "unat (wbRemain w) < length (brsBlocks r)"
    using assms(2,3) by (simp add: word_less_nat_alt unat_of_nat)
  then have "wbRemain w < wbRemain w - ?l"
    using assms(3) by (simp add: word_less_nat_alt unat_sub_if' unat_of_nat)
  moreover from this have "wbRemain w - ?l \<noteq> 0" by auto
  ultimately show ?thesis using assms(1) by (simp add: Let_def)
qed

theorem excess_response_kept_witness:
  "\<exists>w'. takeResponse (9, 0) (NewBlockResponse [dblk 1, dblk 2]) ''b'' [demo_waiting] = (None, [w']) \<and> 1 < wbRemain w'"
  using excess_response_kept [of demo_waiting "''b''" "NewBlockResponse [dblk 1, dblk 2]" "(9, 0)" "[]"]
  by (auto simp: demo_waiting_def NewBlockResponse_def)

end
