(* ===== verification/Query.thy ===== *)
theory Query
  imports Net SyncAnswers PeerID
begin

text \<open>
  What a node answers its clients: \<open>src/core/qcache.go\<close> and \<open>src/core/core.go\<close>.  The cache copies
  the blocks of the longest branch that are not stored yet, at most every twenty seconds, and a
  query looks there before it reads the database.  \<open>None\<close> is a panic or a call that does not
  return.  \<open>now\<close> is the clock, as in theory \<open>Branch\<close>.
\<close>

section \<open>State\<close>

record BlockInfo =
  biBlock :: Block
  biHeight :: u64
  biHash :: bytes

record EvidenceInfo =
  eiEvidence :: Evidence
  eiHeight :: u64
  eiBlockHash :: bytes
  eiTime :: i64

record AccountInfo =
  aiEvdsHash :: "bytes list"
  aiScore :: u64

record sortedBlocks =
  sbBlocks :: "BlockInfo list"
  sbBegin :: u64
  sbEnd :: u64

record qCache =
  qcBlocks :: "string \<rightharpoonup> BlockInfo"
  qcEvidences :: "string \<rightharpoonup> EvidenceInfo"
  qcAccounts :: "string \<rightharpoonup> AccountInfo"
  qcSorted :: sortedBlocks
  qcLastRefresh :: gotime

text \<open>
  The maps and the pointer to the sorted blocks are nil at first, and \<open>lastRefreshTime\<close> is the
  zero time, so that the first query fills them.
\<close>

definition zeroTime :: gotime where
  "zeroTime = (- 62135596800, 0)"

definition newQCache :: qCache where
  "newQCache = \<lparr>qcBlocks = Map.empty, qcEvidences = Map.empty, qcAccounts = Map.empty,
     qcSorted = \<lparr>sbBlocks = [], sbBegin = 0, sbEnd = 0\<rparr>, qcLastRefresh = zeroTime\<rparr>"

section \<open>Refreshing\<close>

definition refreshInterval :: int where
  "refreshInterval = 20 * 1000000000"

definition accountOf :: "(string \<rightharpoonup> AccountInfo) \<Rightarrow> string \<Rightarrow> AccountInfo" where
  "accountOf accounts s = (case accounts s of None \<Rightarrow> \<lparr>aiEvdsHash = [], aiScore = 0\<rparr> | Some a \<Rightarrow> a)"

fun refreshEvds ::
  "u64 \<Rightarrow> bytes \<Rightarrow> i64 \<Rightarrow> Evidence list \<Rightarrow> (string \<rightharpoonup> EvidenceInfo) \<times> (string \<rightharpoonup> AccountInfo) \<Rightarrow>
   (string \<rightharpoonup> EvidenceInfo) \<times> (string \<rightharpoonup> AccountInfo)" where
  "refreshEvds height h t [] s = s"
| "refreshEvds height h t (evd # evds) (es, as) =
     (let sid = BytesToID (ePubKey evd); account = accountOf as sid
      in refreshEvds height h t evds
           (es(ToHex (eHash evd) \<mapsto> \<lparr>eiEvidence = evd, eiHeight = height, eiBlockHash = h, eiTime = t\<rparr>),
            as(sid \<mapsto> account\<lparr>aiEvdsHash := aiEvdsHash account @ [eHash evd]\<rparr>)))"

fun qcLoop ::
  "hasher \<Rightarrow> (Block \<times> u64) list \<Rightarrow>
   (string \<rightharpoonup> BlockInfo) \<times> BlockInfo list \<times> (string \<rightharpoonup> EvidenceInfo) \<times> (string \<rightharpoonup> AccountInfo) \<Rightarrow>
   (string \<rightharpoonup> BlockInfo) \<times> BlockInfo list \<times> (string \<rightharpoonup> EvidenceInfo) \<times> (string \<rightharpoonup> AccountInfo)" where
  "qcLoop Hash [] s = s"
| "qcLoop Hash ((b, height) # bs) (blocks, infos, es, as) =
     (let h = BlockHash Hash b;
          info = \<lparr>biBlock = b, biHeight = height, biHash = h\<rparr>;
          (es1, as1) = refreshEvds height h (bhTime (bHeader b)) (bEvds b) (es, as);
          miner = BytesToID (bhMiner (bHeader b)); account = accountOf as1 miner
      in qcLoop Hash bs
           (blocks(ToHex h \<mapsto> info), infos @ [info], es1, as1(miner \<mapsto> account\<lparr>aiScore := aiScore account + 1\<rparr>)))"

definition refresh :: "hasher \<Rightarrow> 's chain \<Rightarrow> gotime \<Rightarrow> qCache \<Rightarrow> qCache option" where
  "refresh Hash c now qc =
     (if timeSub now (qcLastRefresh qc) > refreshInterval
      then map_option (\<lambda>blocks.
          case qcLoop Hash blocks (Map.empty, [], Map.empty, Map.empty) of (bs, infos, es, as) \<Rightarrow>
            \<lparr>qcBlocks = bs, qcEvidences = es, qcAccounts = as,
             qcSorted = \<lparr>sbBlocks = infos,
               sbBegin = (if blocks \<noteq> [] then snd (last blocks) else 0),
               sbEnd = (if blocks \<noteq> [] then snd (hd blocks) else 0)\<rparr>,
             qcLastRefresh = now\<rparr>)
        (GetUnstoredBlocks c)
      else Some qc)"

section \<open>Queries of the cache\<close>

definition getBlockViaHash ::
  "hasher \<Rightarrow> 's chain \<Rightarrow> gotime \<Rightarrow> string \<Rightarrow> qCache \<Rightarrow> (BlockInfo option \<times> qCache) option" where
  "getBlockViaHash Hash c now hash qc0 =
     map_option (\<lambda>qc. (qcBlocks qc (ToUpper hash), qc)) (refresh Hash c now qc0)"

text \<open>\<open>sbs.blocks[diff]\<close> panics when the index is out of range.\<close>

definition getBlockViaHeight ::
  "('sig, 'key, 'priv, 's) chain_env \<Rightarrow> 's chain \<Rightarrow> gotime \<Rightarrow> u64 \<Rightarrow> qCache \<Rightarrow> (BlockInfo option \<times> qCache) option" where
  "getBlockViaHeight env c now height qc0 =
     (case refresh (envHash env) c now qc0 of
        None \<Rightarrow> None
      | Some qc \<Rightarrow>
          (let sbs = qcSorted qc
           in if height \<ge> sbBegin sbs \<and> height \<le> sbEnd sbs
              then (let diff = unat (sbEnd sbs - height)
                    in if diff < length (sbBlocks sbs) then Some (Some (sbBlocks sbs ! diff), qc) else None)
              else case GetBlockViaHeight (envBdg env) height (cDb c) of
                  Inl _ \<Rightarrow> Some (None, qc)
                | Inr (cb, hash) \<Rightarrow> Some (Some \<lparr>biBlock = cb, biHeight = height, biHash = hash\<rparr>, qc)))"

definition getLatestBlock ::
  "('sig, 'key, 'priv, 's) chain_env \<Rightarrow> 's chain \<Rightarrow> gotime \<Rightarrow> qCache \<Rightarrow> (BlockInfo option \<times> qCache) option" where
  "getLatestBlock env c now qc0 =
     map_option (\<lambda>qc.
       (if sbBlocks (qcSorted qc) \<noteq> [] then Some (sbBlocks (qcSorted qc) ! 0)
        else case GetLatestHeight (envBdg env) (cDb c) of
            Inl _ \<Rightarrow> None
          | Inr latestHeight \<Rightarrow>
              (case GetBlockViaHeight (envBdg env) latestHeight (cDb c) of
                 Inl _ \<Rightarrow> None
               | Inr (cb, hash) \<Rightarrow> Some \<lparr>biBlock = cb, biHeight = latestHeight, biHash = hash\<rparr>), qc))
       (refresh (envHash env) c now qc0)"

text \<open>One round of the loop of \<open>getEvidence\<close>; \<open>None\<close> is a \<open>continue\<close>.\<close>

definition findEvidence ::
  "('sig, 'key, 'priv, 's) chain_env \<Rightarrow> 's chain \<Rightarrow> qCache \<Rightarrow> string \<Rightarrow> EvidenceInfo option" where
  "findEvidence env c qc hash =
     (case qcEvidences qc (ToUpper hash) of
        Some e \<Rightarrow> Some e
      | None \<Rightarrow>
          (case FromHex hash of
             Inl _ \<Rightarrow> None
           | Inr h \<Rightarrow>
               (case GetEvidenceViaHash (envBdg env) h (cDb c) of
                  Inl _ \<Rightarrow> None
                | Inr (e, height) \<Rightarrow>
                    (case GetHeaderViaHeight (envBdg env) height (cDb c) of
                       Inl _ \<Rightarrow> None
                     | Inr (header, blockHash) \<Rightarrow>
                         Some \<lparr>eiEvidence = e, eiHeight = height, eiBlockHash = blockHash, eiTime = bhTime header\<rparr>))))"

definition qcGetEvidence ::
  "('sig, 'key, 'priv, 's) chain_env \<Rightarrow> 's chain \<Rightarrow> gotime \<Rightarrow> string list \<Rightarrow> qCache \<Rightarrow>
   (EvidenceInfo list \<times> qCache) option" where
  "qcGetEvidence env c now hexHash qc0 =
     map_option (\<lambda>qc. (List.map_filter (findEvidence env c qc) hexHash, qc)) (refresh (envHash env) c now qc0)"

text \<open>The nil check of \<open>accountKeyB\<close> never fires, as in theory \<open>PeerID\<close>.\<close>

definition getAccount ::
  "('sig, 'key, 'priv, 's) chain_env \<Rightarrow> 's chain \<Rightarrow> gotime \<Rightarrow> string \<Rightarrow> qCache \<Rightarrow>
   ((bytes list \<times> u64) \<times> qCache) option" where
  "getAccount env c now sid qc0 =
     map_option (\<lambda>qc.
       (let key = IDToBytes sid;
            cached = accountOf (qcAccounts qc) (ToUpper sid);
            evds = (case GetEvidenceViaKey (envBdg env) key (cDb c) of Inl _ \<Rightarrow> [] | Inr (hs, _) \<Rightarrow> hs);
            score = (case GetScoreViaKey (envBdg env) key (cDb c) of Inl _ \<Rightarrow> 0 | Inr s \<Rightarrow> s)
        in ((aiEvdsHash cached @ evds, aiScore cached + score), qc)))
       (refresh (envHash env) c now qc0)"

section \<open>The core module\<close>

datatype upload_error = InvalidHashSize bytes | AlreadyRecorded bytes | VerifyFailed Evidence

text \<open>\<open>UploadEvidenceRaw\<close> and \<open>UploadEvidence\<close> check everything before they touch the pool.\<close>

definition UploadEvidenceRaw :: "RawEvidence list \<Rightarrow> 'priv evidencePool \<Rightarrow> upload_error + 'priv evidencePool" where
  "UploadEvidenceRaw evds pool =
     (case find (\<lambda>evd. length (reHash evd) \<noteq> HashLength) evds of
        Some evd \<Rightarrow> Inl (InvalidHashSize (reHash evd))
      | None \<Rightarrow> Inr (addRawEvidence evds pool))"

fun verifyUploads :: "('sig, 'key, 'priv, 's) chain_env \<Rightarrow> 's chain \<Rightarrow> Evidence list \<Rightarrow> upload_error + unit" where
  "verifyUploads env c [] = Inr ()"
| "verifyUploads env c (evd # evds) =
     (case VerifyEvidence env c evd of
        Inl (ErrEvidenceAlreadyExist h) \<Rightarrow> Inl (AlreadyRecorded h)
      | Inl _ \<Rightarrow> Inl (VerifyFailed evd)
      | Inr _ \<Rightarrow> verifyUploads env c evds)"

definition UploadEvidence ::
  "('sig, 'key, 'priv, 's) chain_env \<Rightarrow> 's chain \<Rightarrow> Evidence list \<Rightarrow> 'priv evidencePool \<Rightarrow>
   (upload_error + 'priv evidencePool) option" where
  "UploadEvidence env c evds pool =
     (case verifyUploads env c evds of
        Inl e \<Rightarrow> Some (Inl e)
      | Inr _ \<Rightarrow> map_option Inr (addEvidence (envHash env) evds False pool))"

text \<open>The loop over the heights, sorted from high to low; \<open>now k\<close> is the clock of the \<open>k\<close>-th query.\<close>

fun heightsLoop ::
  "('sig, 'key, 'priv, 's) chain_env \<Rightarrow> 's chain \<Rightarrow> (nat \<Rightarrow> gotime) \<Rightarrow> u64 list \<Rightarrow> qCache \<Rightarrow>
   (BlockInfo list \<times> qCache) option" where
  "heightsLoop env c now [] qc = Some ([], qc)"
| "heightsLoop env c now (h # hs) qc =
     (case getBlockViaHeight env c (now 0) h qc of
        None \<Rightarrow> None
      | Some (info, qc1) \<Rightarrow>
          (case heightsLoop env c (\<lambda>k. now (Suc k)) hs qc1 of
             None \<Rightarrow> None
           | Some (infos, qc2) \<Rightarrow> Some ((case info of None \<Rightarrow> infos | Some i \<Rightarrow> i # infos), qc2)))"

definition QueryBlockViaHeights ::
  "('sig, 'key, 'priv, 's) chain_env \<Rightarrow> 's chain \<Rightarrow> (nat \<Rightarrow> gotime) \<Rightarrow> u64 list \<Rightarrow> qCache \<Rightarrow>
   (BlockInfo list \<times> qCache) option" where
  "QueryBlockViaHeights env c now heights qc = heightsLoop env c now (rev (sort heights)) qc"

text \<open>The loop counts down in \<open>uint64\<close> while the height is at least \<open>begin\<close>.\<close>

partial_function (option) rangeLoop ::
  "('sig, 'key, 'priv, 's) chain_env \<Rightarrow> 's chain \<Rightarrow> (nat \<Rightarrow> gotime) \<Rightarrow> u64 \<Rightarrow> u64 \<Rightarrow> BlockInfo list \<Rightarrow> qCache \<Rightarrow>
   (BlockInfo list \<times> qCache) option" where
  "rangeLoop env c now b i result qc =
     (if \<not> i \<ge> b then Some (result, qc)
      else case getBlockViaHeight env c (now 0) i qc of
          None \<Rightarrow> None
        | Some (info, qc1) \<Rightarrow>
            rangeLoop env c (\<lambda>k. now (Suc k)) b (i - 1) (case info of None \<Rightarrow> result | Some x \<Rightarrow> result @ [x]) qc1)"

definition QueryBlockViaRange ::
  "('sig, 'key, 'priv, 's) chain_env \<Rightarrow> 's chain \<Rightarrow> (nat \<Rightarrow> gotime) \<Rightarrow> u64 \<Rightarrow> u64 \<Rightarrow> qCache \<Rightarrow>
   (BlockInfo list \<times> qCache) option" where
  "QueryBlockViaRange env c now b e qc = rangeLoop env c now b e [] qc"

fun QueryBlockViaHash ::
  "hasher \<Rightarrow> 's chain \<Rightarrow> (nat \<Rightarrow> gotime) \<Rightarrow> string list \<Rightarrow> qCache \<Rightarrow> (BlockInfo list \<times> qCache) option" where
  "QueryBlockViaHash Hash c now [] qc = Some ([], qc)"
| "QueryBlockViaHash Hash c now (h # hs) qc =
     (case getBlockViaHash Hash c (now 0) h qc of
        None \<Rightarrow> None
      | Some (info, qc1) \<Rightarrow>
          (case QueryBlockViaHash Hash c (\<lambda>k. now (Suc k)) hs qc1 of
             None \<Rightarrow> None
           | Some (infos, qc2) \<Rightarrow> Some ((case info of None \<Rightarrow> infos | Some i \<Rightarrow> i # infos), qc2)))"

section \<open>What the cache holds\<close>

text \<open>The blocks of the longest branch that are not stored, from the head down.\<close>

definition unstored :: "'s chain \<Rightarrow> addr list" where
  "unstored c = takeWhile (\<lambda>a. \<not> isStored (cHeap c ! a)) (lineage (cHeap c) (brHead (longest c)))"

definition infoOf :: "heap \<Rightarrow> addr \<Rightarrow> BlockInfo" where
  "infoOf h a = \<lparr>biBlock = bkBlock (h ! a), biHeight = bkHeight (h ! a), biHash = bkHash (h ! a)\<rparr>"

lemma unstoredLoop_lineage:
  assumes "downward h" "x < length h"
  shows "unstoredLoop h (Some x) acc =
    Some (acc @ map (\<lambda>a. (bkBlock (h ! a), bkHeight (h ! a))) (takeWhile (\<lambda>a. \<not> isStored (h ! a)) (lineage h x)))"
  using assms(2)
proof (induction x arbitrary: acc rule: less_induct)
  case (less x)
  show ?case
  proof (cases "bkBackward (h ! x)")
    case None
    then show ?thesis by (subst unstoredLoop.simps) (simp add: lineage_root unstoredLoop.simps [of h None])
  next
    case (Some p)
    have "p < x" using assms(1) less.prems Some by (auto simp: downward_def)
    then show ?thesis
      using less.IH [of p] less.prems lineage_parent [OF assms(1) less.prems Some] Some
      by (subst unstoredLoop.simps) simp
  qed
qed

lemma lineage_height:
  assumes l: "links_ok env h" and low: "low h" and len: "length h < 2 ^ 64" and "x < length h" "i < length (lineage h x)"
  shows "unat (bkHeight (h ! (lineage h x ! i))) + i = unat (bkHeight (h ! x))"
  using assms(4,5)
proof (induction x arbitrary: i rule: less_induct)
  case (less x)
  show ?case
  proof (cases "bkBackward (h ! x)")
    case None
    with less.prems show ?thesis by (simp add: lineage_root)
  next
    case (Some p)
    have p: "p < x" "bkHeight (h ! x) = bkHeight (h ! p) + 1"
      using l less.prems Some by (auto simp: links_ok_def downward_def)
    have "unat (bkHeight (h ! p)) \<le> Suc p" using low p less.prems by (simp add: low_def)
    then have next_one: "unat (bkHeight (h ! x)) = Suc (unat (bkHeight (h ! p)))"
      using p less.prems(1) len by (simp add: unat_word_ariths)
    note line = lineage_parent [OF links_downward [OF l] less.prems(1) Some]
    show ?thesis
    proof (cases i)
      case (Suc j)
      with less.IH [of p j] less.prems p line next_one show ?thesis by simp
    qed (simp add: line)
  qed
qed

text \<open>The entry of an evidence hash names the block that has the evidence.\<close>

definition names_block :: "u64 \<Rightarrow> bytes \<Rightarrow> i64 \<Rightarrow> bytes \<Rightarrow> (string \<rightharpoonup> EvidenceInfo) \<Rightarrow> bool" where
  "names_block height h t eh es \<longleftrightarrow> (\<exists>ei. es (ToHex eh) = Some ei \<and> eHash (eiEvidence ei) = eh \<and>
     eiHeight ei = height \<and> eiBlockHash ei = h \<and> eiTime ei = t)"

lemma refreshEvds_keeps:
  "names_block height h t eh (fst s) \<Longrightarrow> names_block height h t eh (fst (refreshEvds height h t evds s))"
proof (induction height h t evds s rule: refreshEvds.induct)
  case (2 height h t evd evds es as)
  show ?case unfolding refreshEvds.simps Let_def
    by (rule "2.IH" [OF refl refl]) (use "2.prems" in \<open>auto simp: names_block_def\<close>)
qed simp

lemma refreshEvds_found:
  "eh \<in> eHash ` set evds \<Longrightarrow> names_block height h t eh (fst (refreshEvds height h t evds s))"
proof (induction height h t evds s rule: refreshEvds.induct)
  case (2 height h t evd evds es as)
  show ?case
  proof (cases "eh = eHash evd")
    case True
    show ?thesis unfolding refreshEvds.simps Let_def by (rule refreshEvds_keeps) (simp add: names_block_def True)
  next
    case False
    show ?thesis unfolding refreshEvds.simps Let_def by (rule "2.IH" [OF refl refl]) (use "2.prems" False in simp)
  qed
qed simp

lemma refreshEvds_other:
  "eh \<notin> eHash ` set evds \<Longrightarrow> fst (refreshEvds height h t evds s) (ToHex eh) = fst s (ToHex eh)"
proof (induction height h t evds s rule: refreshEvds.induct)
  case (2 height h t evd evds es as)
  have "eh \<notin> eHash ` set evds" using "2.prems" by simp
  with "2.IH" [OF refl refl this] "2.prems" show ?case by (simp add: Let_def)
qed simp

lemma qcLoop_evidence:
  assumes "\<And>b' ht'. (b', ht') \<in> set bs \<Longrightarrow> (b', ht') \<noteq> (b, ht) \<Longrightarrow> eh \<notin> eHash ` set (bEvds b')"
    and "eh \<in> eHash ` set (bEvds b)"
    and "(b, ht) \<in> set bs \<or> names_block ht (BlockHash Hash b) (bhTime (bHeader b)) eh (fst (snd (snd s)))"
  shows "names_block ht (BlockHash Hash b) (bhTime (bHeader b)) eh (fst (snd (snd (qcLoop Hash bs s))))"
  using assms
proof (induction bs arbitrary: s)
  case (Cons x bs)
  obtain b' ht' where x: "x = (b', ht')" by (cases x)
  obtain blocks infos es as where s: "s = (blocks, infos, es, as)" by (cases s)
  let ?N = "names_block ht (BlockHash Hash b) (bhTime (bHeader b)) eh"
  let ?r = "refreshEvds ht' (BlockHash Hash b') (bhTime (bHeader b')) (bEvds b') (es, as)"
  have "(b, ht) \<in> set bs \<or> ?N (fst ?r)"
  proof (cases "(b', ht') = (b, ht)")
    case True
    then show ?thesis using refreshEvds_found [OF Cons.prems(2)] by simp
  next
    case False
    then have "fst ?r (ToHex eh) = es (ToHex eh)"
      using refreshEvds_other [of eh "bEvds b'"] Cons.prems(1) [of b' ht'] by (simp add: x)
    moreover have "(b, ht) \<in> set bs \<or> ?N es" using Cons.prems(3) False by (auto simp: x s)
    ultimately show ?thesis by (simp add: names_block_def)
  qed
  then show ?case unfolding x s qcLoop.simps Let_def split_beta
    by (intro Cons.IH) (use Cons.prems(1,2) in \<open>auto simp: x\<close>)
qed simp

definition cacheInfo :: "hasher \<Rightarrow> Block \<times> u64 \<Rightarrow> BlockInfo" where
  "cacheInfo Hash x = \<lparr>biBlock = fst x, biHeight = snd x, biHash = BlockHash Hash (fst x)\<rparr>"

lemma qcLoop_infos: "fst (snd (qcLoop Hash bs s)) = fst (snd s) @ map (cacheInfo Hash) bs"
proof (induction bs arbitrary: s)
  case (Cons x bs)
  obtain b ht where x: "x = (b, ht)" by (cases x)
  obtain blocks infos es as where s: "s = (blocks, infos, es, as)" by (cases s)
  show ?case unfolding x s qcLoop.simps Let_def split_beta using Cons.IH by (simp add: cacheInfo_def)
qed simp

lemma qcLoop_blocks:
  assumes "x \<in> set bs \<or> fst s (ToHex (BlockHash Hash (fst x))) = Some (cacheInfo Hash x)"
    and "\<And>y. y \<in> set bs \<Longrightarrow> BlockHash Hash (fst y) = BlockHash Hash (fst x) \<Longrightarrow> y = x"
  shows "fst (qcLoop Hash bs s) (ToHex (BlockHash Hash (fst x))) = Some (cacheInfo Hash x)"
  using assms
proof (induction bs arbitrary: s)
  case (Cons y bs)
  obtain b ht where y: "y = (b, ht)" by (cases y)
  obtain blocks infos es as where s: "s = (blocks, infos, es, as)" by (cases s)
  let ?blocks = "blocks(ToHex (BlockHash Hash b) \<mapsto> cacheInfo Hash y)"
  have new: "x \<in> set bs \<or> ?blocks (ToHex (BlockHash Hash (fst x))) = Some (cacheInfo Hash x)"
  proof (cases "y = x")
    case False
    then have "BlockHash Hash (fst y) \<noteq> BlockHash Hash (fst x)" using Cons.prems(2) [of y] by auto
    then show ?thesis using Cons.prems(1) False by (simp add: s y)
  qed (auto simp: y)
  have "\<exists>r. qcLoop Hash (y # bs) s = qcLoop Hash bs (?blocks, r)"
    unfolding y s qcLoop.simps Let_def split_beta
    by (simp only: cacheInfo_def fst_conv snd_conv) (intro exI, rule refl)
  then obtain r where r: "qcLoop Hash (y # bs) s = qcLoop Hash bs (?blocks, r)" by blast
  show ?case unfolding r by (rule Cons.IH) (use new Cons.prems(2) in auto)
qed simp

section \<open>Properties\<close>

lemma ToUpper_ToHex [simp]: "ToUpper (ToHex bs) = ToHex bs"
proof -
  have "upperChar (upperChar c) = upperChar c" for c
  proof (cases "97 \<le> (of_char c :: nat) \<and> (of_char c :: nat) \<le> 122")
    case True
    then have "((of_char c :: nat) - 32) mod 256 = of_char c - 32" "\<not> 97 \<le> (of_char c :: nat) - 32"
      by auto
    with True show ?thesis by (simp add: upperChar_def)
  qed (auto simp: upperChar_def)
  then show ?thesis by (simp add: ToHex_def ToUpper_def)
qed

abbreviation blockPair :: "heap \<Rightarrow> addr \<Rightarrow> Block \<times> u64" where
  "blockPair h y \<equiv> (bkBlock (h ! y), bkHeight (h ! y))"

lemma unstored_blocks:
  assumes inv: "chain_inv env c"
  shows "y \<in> set (unstored c) \<Longrightarrow> y < length (cHeap c)"
    and "y \<in> set (unstored c) \<Longrightarrow> bkHash (cHeap c ! y) = BlockHash (envHash env) (bkBlock (cHeap c ! y))"
    and "y \<in> set (unstored c) \<Longrightarrow> z \<in> set (unstored c) \<Longrightarrow> y \<noteq> z \<Longrightarrow> evds_at (cHeap c) y \<inter> evds_at (cHeap c) z = {}"
proof -
  let ?h = "cHeap c" and ?x = "brHead (longest c)"
  have l: "links_ok env ?h" and sh: "shape c" and ap: "apart ?h" using inv by (auto simp: chain_inv_def)
  have x: "?x < length ?h" using shape_update_branch [OF sh] sh by (simp add: shape_def)
  have line: "y \<in> set (lineage ?h ?x)" if "y \<in> set (unstored c)" for y
    using that by (auto simp: unstored_def dest: set_takeWhileD)
  show small: "y < length ?h" if "y \<in> set (unstored c)" for y using lineage_bound [OF x line [OF that]] .
  show "bkHash (?h ! y) = BlockHash (envHash env) (bkBlock (?h ! y))" if "y \<in> set (unstored c)" for y
    using l small [OF that] by (simp add: links_ok_def)
  show "evds_at ?h y \<inter> evds_at ?h z = {}" if "y \<in> set (unstored c)" "z \<in> set (unstored c)" "y \<noteq> z" for y z
    using ap small [OF that(1)] small [OF that(2)] lineage_chain [OF line line, of y z] lineage_chain [OF line line, of z y] that
    unfolding apart_def by (metis Int_commute nle_le)
qed

text \<open>The cache after a refresh that is due.\<close>

lemma refresh_due:
  assumes inv: "chain_inv env c" and ne: "unstored c \<noteq> []"
    and due: "timeSub now (qcLastRefresh qc) > refreshInterval"
  defines "st \<equiv> qcLoop (envHash env) (map (blockPair (cHeap c)) (unstored c)) (Map.empty, [], Map.empty, Map.empty)"
  obtains qc' where "refresh (envHash env) c now qc = Some qc'"
    "qcBlocks qc' = fst st" "qcEvidences qc' = fst (snd (snd st))"
    "qcSorted qc' = \<lparr>sbBlocks = map (infoOf (cHeap c)) (unstored c),
       sbBegin = bkHeight (cHeap c ! last (unstored c)), sbEnd = bkHeight (cHeap c ! brHead (longest c))\<rparr>"
    "hd (unstored c) = brHead (longest c)"
proof -
  let ?h = "cHeap c" and ?x = "brHead (longest c)"
  have l: "links_ok env ?h" and sh: "shape c" using inv by (auto simp: chain_inv_def)
  have x: "?x < length ?h" using shape_update_branch [OF sh] sh by (simp add: shape_def)
  have unst: "GetUnstoredBlocks c = Some (map (blockPair ?h) (unstored c))"
    using unstoredLoop_lineage [OF links_downward [OF l] x, of "[]"] by (simp add: GetUnstoredBlocks_def unstored_def)
  have info: "map (cacheInfo (envHash env) \<circ> blockPair ?h) (unstored c) = map (infoOf ?h) (unstored c)"
    using unstored_blocks(2) [OF inv] by (simp add: cacheInfo_def infoOf_def)
  have head: "hd (unstored c) = ?x"
    using ne by (simp add: unstored_def) (subst (asm) lineage.simps, subst lineage.simps, simp split: if_splits)
  let ?qc = "\<lparr>qcBlocks = fst st, qcEvidences = fst (snd (snd st)), qcAccounts = snd (snd (snd st)),
    qcSorted = \<lparr>sbBlocks = map (infoOf ?h) (unstored c), sbBegin = bkHeight (?h ! last (unstored c)),
      sbEnd = bkHeight (?h ! ?x)\<rparr>, qcLastRefresh = now\<rparr>"
  have "refresh (envHash env) c now qc = Some ?qc"
    using due ne info by (simp add: refresh_def unst split_beta qcLoop_infos last_map hd_map head st_def)
  with head show thesis by (intro that [of ?qc]) simp_all
qed

text \<open>Along the unstored blocks the heights go down by one, and never below zero.\<close>

lemma unstored_height:
  assumes inv: "chain_inv env c" and low: "low (cHeap c)" and len: "length (cHeap c) < 2 ^ 64" and i: "i < length (unstored c)"
  defines "hmax \<equiv> bkHeight (cHeap c ! brHead (longest c))" and "ht \<equiv> bkHeight (cHeap c ! (unstored c ! i))"
  shows "bkHeight (cHeap c ! last (unstored c)) \<le> ht" "ht \<le> hmax" "unat (hmax - ht) = i"
proof -
  let ?h = "cHeap c" and ?x = "brHead (longest c)" and ?us = "unstored c"
  have l: "links_ok env ?h" and sh: "shape c" using inv by (auto simp: chain_inv_def)
  have x: "?x < length ?h" using shape_update_branch [OF sh] sh by (simp add: shape_def)
  have at: "unat (bkHeight (?h ! (?us ! k))) + k = unat hmax" if "k < length ?us" for k
    using lineage_height [OF l low len x, of k] that length_takeWhile_le [of "\<lambda>y. \<not> isStored (?h ! y)" "lineage ?h ?x"]
    by (simp add: unstored_def takeWhile_nth hmax_def)
  have "unat (bkHeight (?h ! last ?us)) + (length ?us - 1) = unat hmax"
    using at [of "length ?us - 1"] i by (cases "?us = []") (simp_all add: last_conv_nth)
  with at [OF i] i show "bkHeight (?h ! last ?us) \<le> ht" "ht \<le> hmax" "unat (hmax - ht) = i"
    by (simp_all add: word_le_nat_alt ht_def unat_sub)
qed

text \<open>
  C19 Queries see the longest branch, in every reachable state as long as fewer than \<open>2^64\<close> blocks
  were added: for every block of it that is not stored yet, once the cache is due for a refresh, the
  query by height returns that block with its height and hash, and so does the query by hash, unless
  another unstored block of the branch has the same hash; the query for each of its evidences returns
  the evidence with the height, the hash and the time of the block; and the latest block is the head.
\<close>

theorem queries_see_longest_branch:
  assumes kv: "kv_store (envBdg env) view" "starts env genesis db c0" "runs env c0 c"
    and len: "length (cHeap c) < 2 ^ 64"
    and due: "timeSub now (qcLastRefresh qc) > refreshInterval" and a: "a \<in> set (unstored c)"
  shows "\<exists>qc'. getBlockViaHeight env c now (bkHeight (cHeap c ! a)) qc = Some (Some (infoOf (cHeap c) a), qc') \<and>
    ((\<forall>y \<in> set (unstored c). bkHash (cHeap c ! y) = bkHash (cHeap c ! a) \<longrightarrow> y = a) \<longrightarrow>
       getBlockViaHash (envHash env) c now (ToHex (bkHash (cHeap c ! a))) qc = Some (Some (infoOf (cHeap c) a), qc')) \<and>
    (\<forall>e \<in> set (bEvds (bkBlock (cHeap c ! a))). \<exists>ei. qcGetEvidence env c now [ToHex (eHash e)] qc = Some ([ei], qc') \<and>
       eHash (eiEvidence ei) = eHash e \<and> eiHeight ei = bkHeight (cHeap c ! a) \<and>
       eiBlockHash ei = bkHash (cHeap c ! a) \<and> eiTime ei = bhTime (bHeader (bkBlock (cHeap c ! a)))) \<and>
    getLatestBlock env c now qc = Some (Some (infoOf (cHeap c) (brHead (longest c))), qc')"
proof -
  let ?h = "cHeap c" and ?x = "brHead (longest c)" and ?us = "unstored c" and ?Hash = "envHash env"
  have inv: "chain_inv env c" by (rule kv_store.reachable_inv [OF kv(1) refl kv(2,3)])
  have low: "low ?h" using kv_store.reachable_height [OF kv(1) refl kv(2,3)] by (simp add: height_inv_def)
  note us = unstored_blocks [OF inv]
  have ne: "?us \<noteq> []" using a by auto
  obtain qc' where qc': "refresh ?Hash c now qc = Some qc'"
      "qcBlocks qc' = fst (qcLoop ?Hash (map (blockPair ?h) ?us) (Map.empty, [], Map.empty, Map.empty))"
      "qcEvidences qc' = fst (snd (snd (qcLoop ?Hash (map (blockPair ?h) ?us) (Map.empty, [], Map.empty, Map.empty))))"
      "qcSorted qc' = \<lparr>sbBlocks = map (infoOf ?h) ?us, sbBegin = bkHeight (?h ! last ?us), sbEnd = bkHeight (?h ! ?x)\<rparr>"
      "hd ?us = ?x"
    by (rule refresh_due [OF inv ne due])
  obtain i where i: "i < length ?us" "a = ?us ! i" using a by (auto simp: in_set_conv_nth)
  have height: "getBlockViaHeight env c now (bkHeight (?h ! a)) qc = Some (Some (infoOf ?h a), qc')"
    using qc'(1,4) unstored_height [OF inv low len i(1)] i by (simp add: getBlockViaHeight_def)
  have byhash: "getBlockViaHash ?Hash c now (ToHex (bkHash (?h ! a))) qc = Some (Some (infoOf ?h a), qc')"
    if only: "\<forall>y \<in> set ?us. bkHash (?h ! y) = bkHash (?h ! a) \<longrightarrow> y = a"
  proof -
    have "fst (qcLoop ?Hash (map (blockPair ?h) ?us) (Map.empty, [], Map.empty, Map.empty))
        (ToHex (BlockHash ?Hash (fst (blockPair ?h a)))) = Some (cacheInfo ?Hash (blockPair ?h a))"
    proof (rule qcLoop_blocks)
      show "y = blockPair ?h a" if "y \<in> set (map (blockPair ?h) ?us)"
          "BlockHash ?Hash (fst y) = BlockHash ?Hash (fst (blockPair ?h a))" for y
        using that us(2) only a by fastforce
    qed (use a in simp)
    then show ?thesis using qc'(1,2) us(2) [OF a] by (simp add: getBlockViaHash_def cacheInfo_def infoOf_def)
  qed
  have evd: "names_block (bkHeight (?h ! a)) (bkHash (?h ! a)) (bhTime (bHeader (bkBlock (?h ! a)))) (eHash e) (qcEvidences qc')"
    if e: "e \<in> set (bEvds (bkBlock (?h ! a)))" for e
    unfolding qc'(3) us(2) [OF a]
  proof (rule qcLoop_evidence)
    show "eHash e \<notin> eHash ` set (bEvds b')" if "(b', ht') \<in> set (map (blockPair ?h) ?us)" "(b', ht') \<noteq> blockPair ?h a" for b' ht'
      using that us(3) [OF a] e unfolding evds_at_def by fastforce
  qed (use e a in auto)
  have evds: "\<exists>ei. qcGetEvidence env c now [ToHex (eHash e)] qc = Some ([ei], qc') \<and>
       eHash (eiEvidence ei) = eHash e \<and> eiHeight ei = bkHeight (?h ! a) \<and>
       eiBlockHash ei = bkHash (?h ! a) \<and> eiTime ei = bhTime (bHeader (bkBlock (?h ! a)))"
    if "e \<in> set (bEvds (bkBlock (?h ! a)))" for e
    using evd [OF that] qc'(1) by (auto simp: names_block_def qcGetEvidence_def findEvidence_def map_filter_simps)
  have "getLatestBlock env c now qc = Some (Some (infoOf ?h ?x), qc')"
    using qc'(1,4,5) ne by (simp add: getLatestBlock_def nth_map hd_conv_nth)
  with height byhash evds show ?thesis by blast
qed


lemma demo_c1_fresh: "\<not> isStored (cHeap (demo_c1 s) ! Suc 0)"
  by (simp add: demo_c1_def addTo_def demo_c0_def branchAdd_def Let_def setBackward_def addFordward_def newBlk_def
      demo_branch_def isStored_def)

lemma demo_query:
  obtains s where "starts demo_env demo_genesis [] (demo_c0 s)" "runs demo_env (demo_c0 s) (demo_c1 s)"
    "kv_store (envBdg demo_env) map_of" "longest (demo_c1 s) = br (demo_c1 s) 0" "unstored (demo_c1 s) = [Suc 0]"
    "timeSub (1600000000, 0) (qcLastRefresh newQCache) > refreshInterval"
proof -
  obtain s where s: "starts demo_env demo_genesis [] (demo_c0 s)" "\<forall>x. length x = 32 \<longrightarrow> \<not> HasEvidence mem_badger x s"
    using demo_starts by blast
  have c: "cLongest (demo_c1 s) = 0" by (simp add: demo_c1_def frame_simps) (simp add: demo_c0_def)
  have "isStored (cHeap (demo_c1 s) ! 0)"
    by (simp add: demo_c1_def addTo_def demo_c0_def branchAdd_def Let_def setBackward_def addFordward_def newBlk_def
        demo_branch_def isStored_def)
  then have "unstored (demo_c1 s) = [Suc 0]"
    unfolding unstored_def
    by (subst lineage.simps, subst lineage.simps) (simp add: demo_c1_simps c demo_c1_fresh)
  moreover have "timeSub (1600000000, 0) (qcLastRefresh newQCache) > refreshInterval"
    by (simp add: newQCache_def zeroTime_def timeSub_def refreshInterval_def internalSec_def timeBefore_def)
  ultimately show thesis
    using s c by (intro that [of s]) (simp_all add: demo_c1_runs mem.kv_store_axioms)
qed

theorem queries_see_longest_branch_witness:
  "\<exists>s qc'. Suc 0 \<in> set (unstored (demo_c1 s)) \<and>
     getBlockViaHeight demo_env (demo_c1 s) (1600000000, 0) 2 newQCache = Some (Some (infoOf (cHeap (demo_c1 s)) (Suc 0)), qc')"
proof (rule demo_query)
  fix s
  assume s: "starts demo_env demo_genesis [] (demo_c0 s)" "runs demo_env (demo_c0 s) (demo_c1 s)"
    "kv_store (envBdg demo_env) map_of" "longest (demo_c1 s) = br (demo_c1 s) 0" "unstored (demo_c1 s) = [Suc 0]"
    "timeSub (1600000000, 0) (qcLastRefresh newQCache) > refreshInterval"
  show ?thesis
    using queries_see_longest_branch [OF s(3,1,2) _ s(6), of "Suc 0"] s(4,5)
    by (auto simp: demo_c1_simps intro!: exI [of _ s])
qed

section \<open>Queries that do not return\<close>

text \<open>
  The loop of \<open>QueryBlockViaRange\<close> never ends when \<open>begin\<close> is zero, since no \<open>uint64\<close> is below
  zero.
\<close>

lemma range_from_zero_never_returns: "QueryBlockViaRange env c now 0 e qc = None"
proof -
  have "b \<noteq> 0" if "rangeLoop env c now b i result qc = Some r" for now b i result qc r
  proof (rule rangeLoop.raw_induct [OF _ that], goal_cases)
    case (1 loop env c now b i result qc r)
    from 1(2) show ?case by (auto split: if_splits option.splits dest: 1(1))
  qed
  from this [of now 0 e "[]" qc] show ?thesis
    by (cases "rangeLoop env c now 0 e [] qc") (auto simp: QueryBlockViaRange_def)
qed

text \<open>
  With no unstored block the cached range is \<open>[0, 0]\<close> without blocks, so that the query for height 0
  indexes an empty slice.
\<close>

lemma height_zero_panics:
  assumes "GetUnstoredBlocks c = Some []" "timeSub now (qcLastRefresh qc) > refreshInterval"
  shows "getBlockViaHeight env c now 0 qc = None"
  using assms by (simp add: getBlockViaHeight_def refresh_def)

text \<open>A stored block is not found by its hash.\<close>

lemma stored_block_not_found_by_hash:
  assumes "GetUnstoredBlocks c = Some []" "timeSub now (qcLastRefresh qc) > refreshInterval"
  shows "\<exists>qc'. getBlockViaHash Hash c now hash qc = Some (None, qc')"
  using assms by (simp add: getBlockViaHash_def refresh_def)


section \<open>Ranges\<close>

text \<open>The sorted blocks of a cache that is up to date.\<close>

definition sorted_view :: "'s chain \<Rightarrow> sortedBlocks" where
  "sorted_view c = \<lparr>sbBlocks = map (infoOf (cHeap c)) (unstored c),
     sbBegin = bkHeight (cHeap c ! last (unstored c)), sbEnd = bkHeight (cHeap c ! brHead (longest c))\<rparr>"

definition up_to_date :: "gotime \<Rightarrow> 's chain \<Rightarrow> qCache \<Rightarrow> bool" where
  "up_to_date now c qc \<longleftrightarrow> timeSub now (qcLastRefresh qc) > refreshInterval \<or> qcSorted qc = sorted_view c"

lemma getBlockViaHeight_unstored:
  assumes inv: "chain_inv env c" and low: "low (cHeap c)"
    and len: "length (cHeap c) < 2 ^ 64" and i: "i < length (unstored c)" and up: "up_to_date now c qc"
  obtains qc' where "qcSorted qc' = sorted_view c"
    "getBlockViaHeight env c now (bkHeight (cHeap c ! (unstored c ! i))) qc = Some (Some (infoOf (cHeap c) (unstored c ! i)), qc')"
proof -
  have ne: "unstored c \<noteq> []" using i by auto
  have "\<exists>qc'. refresh (envHash env) c now qc = Some qc' \<and> qcSorted qc' = sorted_view c"
  proof (cases "timeSub now (qcLastRefresh qc) > refreshInterval")
    case True
    show ?thesis by (rule refresh_due [OF inv ne True]) (auto simp: sorted_view_def)
  next
    case False
    then show ?thesis using up by (simp add: up_to_date_def refresh_def)
  qed
  then obtain qc' where qc': "refresh (envHash env) c now qc = Some qc'" "qcSorted qc' = sorted_view c" by blast
  then show thesis
    using unstored_height [OF inv low len i] i
    by (intro that [of qc']) (simp_all add: getBlockViaHeight_def sorted_view_def)
qed

lemma unstored_height_sum:
  assumes inv: "chain_inv env c" and low: "low (cHeap c)" and len: "length (cHeap c) < 2 ^ 64"
    and i: "i < length (unstored c)"
  shows "unat (bkHeight (cHeap c ! (unstored c ! i))) + i = unat (bkHeight (cHeap c ! brHead (longest c)))"
  using unstored_height(2,3) [OF inv low len i] by (simp add: unat_sub word_le_nat_alt)

text \<open>
  C20 Ranges: in every reachable state, the query for the blocks between the heights of two unstored blocks of the longest
  branch answers exactly the blocks between them, from the higher one down, however many times the
  cache is refreshed on the way, provided that the first height is not zero (a range from zero
  does not return).
\<close>

theorem range_query_answers:
  assumes kv: "kv_store (envBdg env) view" "starts env genesis db c0" "runs env c0 c"
    and len: "length (cHeap c) < 2 ^ 64"
    and up: "up_to_date (now 0) c qc" and ij: "i \<le> j" "j < length (unstored c)"
    and b: "b = bkHeight (cHeap c ! (unstored c ! j))" "0 < b"
  shows "\<exists>qc'. QueryBlockViaRange env c now b (bkHeight (cHeap c ! (unstored c ! i))) qc =
    Some (map (infoOf (cHeap c)) (take (Suc j - i) (drop i (unstored c))), qc')"
proof -
  let ?h = "cHeap c" and ?us = "unstored c"
  let ?ht = "\<lambda>k. bkHeight (?h ! (?us ! k))"
  have inv: "chain_inv env c" by (rule kv_store.reachable_inv [OF kv(1) refl kv(2,3)])
  have low: "low ?h" using kv_store.reachable_height [OF kv(1) refl kv(2,3)] by (simp add: height_inv_def)
  note query = getBlockViaHeight_unstored [OF inv low len]
  note sum = unstored_height_sum [OF inv low len]
  have at_least: "b \<le> ?ht k" if "k \<le> j" for k
    using sum [of k] sum [OF ij(2)] that ij(2) b(1) by (simp add: word_le_nat_alt)
  have below: "\<not> b \<le> b - 1" using b(2) by (simp add: word_le_nat_alt word_less_nat_alt unat_sub)
  have "\<exists>qc'. rangeLoop env c now b (?ht i) result qc =
      Some (result @ map (infoOf ?h) (take (Suc j - i) (drop i ?us)), qc')" for result
    using ij(1) up
  proof (induction "j - i" arbitrary: i now result qc)
    case 0
    then have [simp]: "i = j" by simp
    obtain qc1 where "getBlockViaHeight env c (now 0) b qc = Some (Some (infoOf ?h (?us ! j)), qc1)"
      using query [OF ij(2) 0(3)] b(1) by metis
    then show ?case
      using ij(2) below by (simp add: rangeLoop.simps [of env c now] rangeLoop.simps [of env c _ b "b - 1"]
          b(1) [symmetric] Cons_nth_drop_Suc [symmetric])
  next
    case (Suc k)
    then have i: "i < j" by simp
    obtain qc1 where q: "getBlockViaHeight env c (now 0) (?ht i) qc = Some (Some (infoOf ?h (?us ! i)), qc1)"
        "qcSorted qc1 = sorted_view c"
      using query [of i "now 0" qc] i ij(2) Suc.prems(2) by (metis order.strict_trans)
    have "Suc (unat (?ht (Suc i))) = unat (?ht i)" using sum [of i] sum [of "Suc i"] i ij(2) by simp
    moreover have "unat (?ht i) < 2 ^ 64" by (rule less_le_trans [OF unsigned_less]) simp
    ultimately have "?ht i = ?ht (Suc i) + 1"
      by (simp add: word_unat_eq_iff unat_word_ariths)
    then have "rangeLoop env c now b (?ht i) result qc =
        rangeLoop env c (\<lambda>k. now (Suc k)) b (?ht (Suc i)) (result @ [infoOf ?h (?us ! i)]) qc1"
      using at_least [of i] i q(1) by (subst rangeLoop.simps) simp
    moreover have "take (Suc j - i) (drop i ?us) = (?us ! i) # take (Suc j - Suc i) (drop (Suc i) ?us)"
      using i ij(2) by (simp add: Cons_nth_drop_Suc [symmetric] Suc_diff_le)
    ultimately show ?case
      using Suc.hyps(1) [of "Suc i" "\<lambda>k. now (Suc k)" qc1 "result @ [infoOf ?h (?us ! i)]"] Suc.hyps(2) i q(2)
      by (simp add: up_to_date_def)
  qed
  from this [of "[]"] show ?thesis by (simp add: QueryBlockViaRange_def)
qed


theorem range_query_answers_witness:
  "\<exists>s qc'. QueryBlockViaRange demo_env (demo_c1 s) (\<lambda>_. (1600000000, 0)) 2 2 newQCache =
     Some ([infoOf (cHeap (demo_c1 s)) (Suc 0)], qc')"
proof (rule demo_query)
  fix s
  assume s: "starts demo_env demo_genesis [] (demo_c0 s)" "runs demo_env (demo_c0 s) (demo_c1 s)"
    "kv_store (envBdg demo_env) map_of" "longest (demo_c1 s) = br (demo_c1 s) 0" "unstored (demo_c1 s) = [Suc 0]"
    "timeSub (1600000000, 0) (qcLastRefresh newQCache) > refreshInterval"
  show ?thesis
    using range_query_answers [OF s(3,1,2), of "\<lambda>_. (1600000000, 0)" newQCache 0 0 2] s(4-6)
    by (auto simp: demo_c1_simps up_to_date_def intro!: exI [of _ s])
qed

end
