(* ===== verification/Rpc.thy ===== *)
theory Rpc
  imports Query Peer
begin

text \<open>
  The HTTP interface of a node, \<open>src/rpc\<close>: the handlers from the decoded request to the response and
  the new state.  \<open>encoding/json\<close> is a function from the body of a request to its value; a body
  that cannot be read is \<open>None\<close>.  A result \<open>None\<close> is a panic of the handler or a handler that does not
  return.  Go's strings are the bytes of their characters.
\<close>

definition strBytes :: "string \<Rightarrow> bytes" where
  "strBytes s = map (\<lambda>c. word_of_nat (of_char c)) s"

definition bytesStr :: "bytes \<Rightarrow> string" where
  "bytesStr bs = map (\<lambda>b. char_of (unat b)) bs"

section \<open>Responses\<close>

record EvidenceJSON =
  ejVersion :: u8
  ejHash :: string
  ejDescription :: string
  ejPubKey :: string
  ejSig :: string
  ejNonce :: u32
  ejHeight :: u64
  ejBlockHash :: string
  ejTime :: i64

record EvidenceInBlockJSON =
  ebHash :: string
  ebOwner :: string

record BlockJSON =
  bjVersion :: u8
  bjTime :: i64
  bjNonce :: u32
  bjTarget :: u32
  bjLastHash :: string
  bjMiner :: string
  bjEvidenceRoot :: string
  bjHeight :: u64
  bjHash :: string
  bjEvds :: "EvidenceInBlockJSON list"

datatype rpc_data = NoData | AccountData "string list" u64 | BlocksData "BlockJSON list" | EvidenceData "EvidenceJSON list"

record HTTPResponse =
  rsCode :: int
  rsMessage :: string
  rsData :: rpc_data

definition CodeSuccess :: int where "CodeSuccess = 0"
definition CodeFailed :: int where "CodeFailed = 1"
definition CodeBadRequest :: int where "CodeBadRequest = 2"

definition doResponse :: "int \<Rightarrow> string \<Rightarrow> rpc_data \<Rightarrow> HTTPResponse" where
  "doResponse code msg data = \<lparr>rsCode = code, rsMessage = msg, rsData = data\<rparr>"

definition successResponse :: HTTPResponse where
  "successResponse = doResponse CodeSuccess [] NoData"

definition successWithDataResponse :: "rpc_data \<Rightarrow> HTTPResponse" where
  "successWithDataResponse data = doResponse CodeSuccess [] data"

definition failedResponse :: "string \<Rightarrow> HTTPResponse" where
  "failedResponse msg = doResponse CodeFailed msg NoData"

definition badRequestResponse :: HTTPResponse where
  "badRequestResponse = doResponse CodeBadRequest [] NoData"

section \<open>Evidences\<close>

definition maxBatchQueryNum :: nat where "maxBatchQueryNum = 40"

definition toCPEvidence :: "EvidenceJSON \<Rightarrow> Evidence option" where
  "toCPEvidence e =
     (if ejVersion e \<noteq> CoreProtocolV1 then None
      else case FromHex (ejHash e) of
          Inl _ \<Rightarrow> None
        | Inr hash \<Rightarrow>
            (case VerifyDescription (strBytes (ejDescription e)) of
               Inl _ \<Rightarrow> None
             | Inr _ \<Rightarrow>
                 (case FromHex (ejPubKey e) of
                    Inl _ \<Rightarrow> None
                  | Inr pubKey \<Rightarrow>
                      (case FromHex (ejSig e) of
                         Inl _ \<Rightarrow> None
                       | Inr sig \<Rightarrow>
                           Some ((EvidenceSetNonce (NewEvidenceV1 hash (strBytes (ejDescription e)) pubKey) (ejNonce e))
                             \<lparr>eSig := sig\<rparr>)))))"

definition fromEvidenceInfo :: "EvidenceInfo \<Rightarrow> EvidenceJSON" where
  "fromEvidenceInfo info =
     (let e = eiEvidence info
      in \<lparr>ejVersion = eVersion e, ejHash = ToHex (eHash e), ejDescription = bytesStr (eDescription e),
          ejPubKey = ToHex (ePubKey e), ejSig = ToHex (eSig e), ejNonce = eNonce e, ejHeight = eiHeight info,
          ejBlockHash = ToHex (eiBlockHash info), ejTime = eiTime info\<rparr>)"

text \<open>
  The loop over the uploaded evidences.  An element of the array is a pointer, nil for a JSON \<open>null\<close>,
  on which \<open>toCPEvidence\<close> panics; \<open>Some None\<close> is a bad request.
\<close>

fun toCPEvidences :: "EvidenceJSON option list \<Rightarrow> Evidence list \<Rightarrow> Evidence list option option" where
  "toCPEvidences [] evds = Some (Some evds)"
| "toCPEvidences (None # rest) evds = None"
| "toCPEvidences (Some e # rest) evds =
     (case toCPEvidence e of None \<Rightarrow> Some None | Some evd \<Rightarrow> toCPEvidences rest (evds @ [evd]))"

text \<open>The text of \<open>ErrEvidenceAlreadyExist\<close>.\<close>

definition existError :: "bytes \<Rightarrow> string" where
  "existError h = ''evidence '' @ ToHex h @ '' exists''"

definition uploadEvds ::
  "('sig, 'key, 'priv, 's) chain_env \<Rightarrow> 's chain \<Rightarrow> (bytes \<Rightarrow> EvidenceJSON option list option) \<Rightarrow> bytes option \<Rightarrow>
   'priv evidencePool \<Rightarrow> (HTTPResponse \<times> 'priv evidencePool) option" where
  "uploadEvds env c unmarshal body pool =
     (case body of
        None \<Rightarrow> Some (badRequestResponse, pool)
      | Some b \<Rightarrow>
          (case unmarshal b of
             None \<Rightarrow> Some (badRequestResponse, pool)
           | Some data \<Rightarrow>
               (case toCPEvidences data [] of
                  None \<Rightarrow> None
                | Some None \<Rightarrow> Some (badRequestResponse, pool)
                | Some (Some evds) \<Rightarrow>
                    (case UploadEvidence env c evds pool of
                       None \<Rightarrow> None
                     | Some (Inl (AlreadyRecorded h)) \<Rightarrow> Some (failedResponse (existError h), pool)
                     | Some (Inl _) \<Rightarrow> Some (badRequestResponse, pool)
                     | Some (Inr pool') \<Rightarrow> Some (successResponse, pool')))))"

record rawEvidenceJSON =
  rjHash :: string
  rjDescription :: string

definition toRawEvidence :: "rawEvidenceJSON \<Rightarrow> RawEvidence option" where
  "toRawEvidence r =
     (case FromHex (rjHash r) of
        Inl _ \<Rightarrow> None
      | Inr hash \<Rightarrow>
          (case VerifyDescription (strBytes (rjDescription r)) of
             Inl _ \<Rightarrow> None
           | Inr _ \<Rightarrow> Some \<lparr>reHash = hash, reDescription = strBytes (rjDescription r)\<rparr>))"

fun toRawEvidences :: "rawEvidenceJSON list \<Rightarrow> RawEvidence list \<Rightarrow> RawEvidence list option" where
  "toRawEvidences [] rEvds = Some rEvds"
| "toRawEvidences (evd # rest) rEvds =
     (case toRawEvidence evd of None \<Rightarrow> None | Some rEvd \<Rightarrow> toRawEvidences rest (rEvds @ [rEvd]))"

text \<open>
  The only field of \<open>uploadRawReq\<close> is not exported, so that \<open>json.Unmarshal\<close> checks the text
  (\<open>unmarshal\<close> says whether it is an object) and leaves the field nil.
\<close>

record uploadRawReq =
  urEvds :: "rawEvidenceJSON list"

definition decodeUploadRaw :: "(bytes \<Rightarrow> bool) \<Rightarrow> bytes \<Rightarrow> uploadRawReq option" where
  "decodeUploadRaw unmarshal body = (if unmarshal body then Some \<lparr>urEvds = []\<rparr> else None)"

definition uploadRaw ::
  "(bytes \<Rightarrow> bool) \<Rightarrow> bytes option \<Rightarrow> 'priv evidencePool \<Rightarrow> HTTPResponse \<times> 'priv evidencePool" where
  "uploadRaw unmarshal body pool =
     (case body of
        None \<Rightarrow> (badRequestResponse, pool)
      | Some b \<Rightarrow>
          (case decodeUploadRaw unmarshal b of
             None \<Rightarrow> (badRequestResponse, pool)
           | Some query \<Rightarrow>
               (case toRawEvidences (urEvds query) [] of
                  None \<Rightarrow> (badRequestResponse, pool)
                | Some rEvds \<Rightarrow>
                    (case UploadEvidenceRaw rEvds pool of
                       Inl _ \<Rightarrow> (badRequestResponse, pool)
                     | Inr pool' \<Rightarrow> (successResponse, pool')))))"

definition queryEvidence ::
  "('sig, 'key, 'priv, 's) chain_env \<Rightarrow> 's chain \<Rightarrow> gotime \<Rightarrow> (bytes \<Rightarrow> string list option) \<Rightarrow> bytes option \<Rightarrow> qCache \<Rightarrow>
   (HTTPResponse \<times> qCache) option" where
  "queryEvidence env c now unmarshal body qc =
     (case body of
        None \<Rightarrow> Some (badRequestResponse, qc)
      | Some b \<Rightarrow>
          (case unmarshal b of
             None \<Rightarrow> Some (badRequestResponse, qc)
           | Some hashes \<Rightarrow>
               if length hashes = 0 \<or> length hashes > maxBatchQueryNum then Some (badRequestResponse, qc)
               else if \<exists>hexHash \<in> set hashes. case FromHex hexHash of Inl _ \<Rightarrow> True | Inr h \<Rightarrow> length h \<noteq> HashLength
               then Some (badRequestResponse, qc)
               else map_option (\<lambda>(evidenceInfo, qc').
                 (if evidenceInfo = [] then failedResponse ''Not found evidence''
                  else successWithDataResponse (EvidenceData (map fromEvidenceInfo evidenceInfo)), qc'))
                 (qcGetEvidence env c now hashes qc)))"

section \<open>Accounts\<close>

text \<open>\<open>param\<close> are the values of the query parameter \<open>id\<close>, which are never an empty list.\<close>

definition rpcGetAccount ::
  "('sig, 'key, 'priv, 's) chain_env \<Rightarrow> 's chain \<Rightarrow> gotime \<Rightarrow> string list option \<Rightarrow> qCache \<Rightarrow>
   (HTTPResponse \<times> qCache) option" where
  "rpcGetAccount env c now param qc =
     (case param of
        None \<Rightarrow> Some (badRequestResponse, qc)
      | Some values \<Rightarrow>
          (let sid = hd values
           in if length (IDToBytes sid) \<noteq> PubKeyBytesLenCompressed then Some (badRequestResponse, qc)
              else map_option (\<lambda>((evdsHash, score), qc').
                (if evdsHash = [] \<and> score = 0 then failedResponse ''Not found account''
                 else successWithDataResponse (AccountData (map ToHex evdsHash) score), qc'))
                (getAccount env c now sid qc)))"

section \<open>Blocks\<close>

definition fromBlockInfo :: "BlockInfo \<Rightarrow> BlockJSON" where
  "fromBlockInfo info =
     (let b = biBlock info; h = bHeader b
      in \<lparr>bjVersion = bhVersion h, bjTime = bhTime h, bjNonce = bhNonce h, bjTarget = bhTarget h,
          bjLastHash = ToHex (bhLastHash h), bjMiner = BytesToID (bhMiner h), bjEvidenceRoot = ToHex (bhEvidenceRoot h),
          bjHeight = biHeight info, bjHash = ToHex (biHash info),
          bjEvds = map (\<lambda>evd. \<lparr>ebHash = ToHex (eHash evd), ebOwner = BytesToID (ePubKey evd)\<rparr>) (bEvds b)\<rparr>)"

text \<open>An element is a pointer; only the query for the latest block passes nil.\<close>

definition responseBlocks :: "BlockInfo option list \<Rightarrow> HTTPResponse option" where
  "responseBlocks blocks =
     (if length blocks = 0 then Some (failedResponse ''not found'')
      else if length blocks = 1 \<and> blocks ! 0 = None then Some (failedResponse ''not found'')
      else if None \<in> set blocks then None
      else Some (successWithDataResponse (BlocksData (map (\<lambda>info. fromBlockInfo (the info)) blocks))))"

definition responseOf :: "(BlockInfo list \<times> qCache) option \<Rightarrow> (HTTPResponse \<times> qCache) option" where
  "responseOf result =
     (case result of
        None \<Rightarrow> None
      | Some (blocks, qc) \<Rightarrow> map_option (\<lambda>r. (r, qc)) (responseBlocks (map Some blocks)))"

text \<open>\<open>strconv.ParseUint(s, 10, 64)\<close>.\<close>

definition ParseUint :: "string \<Rightarrow> u64 option" where
  "ParseUint s =
     (if s = [] then None
      else case decVal 0 s of None \<Rightarrow> None | Some v \<Rightarrow> if v < 2 ^ 64 then Some (word_of_int v) else None)"

text \<open>
  \<open>fmt.Sscanf\<close> with the format \<open>%d-%d\<close>: white space before a number is skipped, but a line feed there is
  an error; a number is a run of digits that fits 64 bits; what follows the second number is ignored.
\<close>

function skipSpace :: "string list \<Rightarrow> string \<Rightarrow> string option" where
  "skipSpace spaces s =
     (if take 1 s = [CHR 0x0A] then None
      else case find (\<lambda>w. w \<noteq> [] \<and> take (length w) s = w) spaces of
          None \<Rightarrow> Some s
        | Some w \<Rightarrow> skipSpace spaces (drop (length w) s))"
  by pat_completeness auto
termination
proof (relation "measure (\<lambda>(_, s). length s)", goal_cases)
  case (2 spaces s w)
  then have "w \<noteq> []" "take (length w) s = w" by (auto simp: find_Some_iff)
  then show ?case by (cases s) auto
qed simp

declare skipSpace.simps [simp del]

definition isDigit :: "char \<Rightarrow> bool" where
  "isDigit c \<longleftrightarrow> digitVal c \<noteq> None"

definition scanUint :: "string \<Rightarrow> (u64 \<times> string) option" where
  "scanUint s =
     (case skipSpace whiteSpaces s of
        None \<Rightarrow> None
      | Some s' \<Rightarrow>
          (case ParseUint (takeWhile isDigit s') of None \<Rightarrow> None | Some v \<Rightarrow> Some (v, dropWhile isDigit s')))"

definition scanRange :: "string \<Rightarrow> (u64 \<times> u64) option" where
  "scanRange s =
     (case scanUint s of
        None \<Rightarrow> None
      | Some (b, s1) \<Rightarrow>
          (if take 1 s1 = ''-''
           then (case scanUint (drop 1 s1) of None \<Rightarrow> None | Some (e, _) \<Rightarrow> Some (b, e))
           else None))"

text \<open>The loop over the heights of a list; \<open>None\<close> is a bad request.\<close>

fun parseHeights :: "string list \<Rightarrow> u64 list \<Rightarrow> u64 list option" where
  "parseHeights [] heights = Some heights"
| "parseHeights (str # strs) heights =
     (case ParseUint str of
        None \<Rightarrow> None
      | Some height \<Rightarrow> if height = 0 then None else parseHeights strs (heights @ [height]))"

definition getBlockViaRange ::
  "('sig, 'key, 'priv, 's) chain_env \<Rightarrow> 's chain \<Rightarrow> (nat \<Rightarrow> gotime) \<Rightarrow> string list option \<Rightarrow> qCache \<Rightarrow>
   (HTTPResponse \<times> qCache) option" where
  "getBlockViaRange env c now param qc =
     (case param of
        None \<Rightarrow> Some (badRequestResponse, qc)
      | Some values \<Rightarrow>
          (let p = hd values
           in case Atoi p of
                Some height \<Rightarrow>
                  (if height = - 1
                   then (case getLatestBlock env c (now 0) qc of
                           None \<Rightarrow> None
                         | Some (result, qc') \<Rightarrow> map_option (\<lambda>r. (r, qc')) (responseBlocks [result]))
                   else if height \<le> 0 then Some (badRequestResponse, qc)
                   else responseOf (QueryBlockViaHeights env c now [word_of_int height] qc))
              | None \<Rightarrow>
                  (if CHR ''-'' \<in> set p
                   then (case scanRange p of
                           None \<Rightarrow> Some (badRequestResponse, qc)
                         | Some (b, e) \<Rightarrow>
                             if b \<ge> e then Some (badRequestResponse, qc)
                             else responseOf (QueryBlockViaRange env c now b e qc))
                   else if CHR '','' \<in> set p
                   then (case parseHeights (splitAt CHR '','' p) [] of
                           None \<Rightarrow> Some (badRequestResponse, qc)
                         | Some heights \<Rightarrow> responseOf (QueryBlockViaHeights env c now heights qc))
                   else Some (badRequestResponse, qc))))"

definition rpcGetBlockViaHash ::
  "('sig, 'key, 'priv, 's) chain_env \<Rightarrow> 's chain \<Rightarrow> (nat \<Rightarrow> gotime) \<Rightarrow> string list option \<Rightarrow> qCache \<Rightarrow>
   (HTTPResponse \<times> qCache) option" where
  "rpcGetBlockViaHash env c now param qc =
     (case param of
        None \<Rightarrow> Some (badRequestResponse, qc)
      | Some values \<Rightarrow>
          (let p = hd values;
               queryHash = (if CHR '','' \<in> set p then splitAt CHR '','' p else [p])
           in responseOf (QueryBlockViaHash (envHash env) c now queryHash qc)))"

section \<open>The server\<close>

datatype handler = UploadEvds | UploadRaw | QueryEvidence | GetBlockViaRange | GetBlockViaHash | GetAccount

text \<open>
  The multiplexer; the handlers do not look at the method.  Every other path answers status 404.
\<close>

definition version1Path :: string where "version1Path = ''/v1''"

definition handlers :: "(string \<times> handler) list" where
  "handlers =
     [(version1Path @ ''/evidence/upload'', UploadEvds), (version1Path @ ''/evidence/upload-raw'', UploadRaw),
      (version1Path @ ''/evidence/query'', QueryEvidence), (version1Path @ ''/block/query-via-range'', GetBlockViaRange),
      (version1Path @ ''/block/query-via-hash'', GetBlockViaHash), (version1Path @ ''/account/query'', GetAccount)]"

definition route :: "string \<Rightarrow> handler option" where
  "route path = map_of handlers path"


text \<open>A request, the state of the core it can change, and the answer.\<close>

record request =
  rqMethod :: string
  rqPath :: string
  rqParams :: "(string \<times> string) list"
  rqBody :: "bytes option"

record 'priv rpc_state =
  rpPool :: "'priv evidencePool"
  rpCache :: qCache

record json_lib =
  jlUploadEvds :: "bytes \<Rightarrow> EvidenceJSON option list option"
  jlUploadRaw :: "bytes \<Rightarrow> bool"
  jlQueryEvidence :: "bytes \<Rightarrow> string list option"

datatype reply = StatusNotFound | StatusOK HTTPResponse

definition queryParam :: "string \<Rightarrow> request \<Rightarrow> string list option" where
  "queryParam k req =
     (let values = map snd (filter (\<lambda>(k', _). k' = k) (rqParams req)) in if values = [] then None else Some values)"

definition withCache :: "'priv rpc_state \<Rightarrow> (HTTPResponse \<times> qCache) option \<Rightarrow> (reply \<times> 'priv rpc_state) option" where
  "withCache st result = map_option (\<lambda>(r, qc). (StatusOK r, st\<lparr>rpCache := qc\<rparr>)) result"

definition serve ::
  "('sig, 'key, 'priv, 's) chain_env \<Rightarrow> 's chain \<Rightarrow> (nat \<Rightarrow> gotime) \<Rightarrow> json_lib \<Rightarrow> request \<Rightarrow> 'priv rpc_state \<Rightarrow>
   (reply \<times> 'priv rpc_state) option" where
  "serve env c now json req st =
     (case route (rqPath req) of
        None \<Rightarrow> Some (StatusNotFound, st)
      | Some UploadEvds \<Rightarrow>
          map_option (\<lambda>(r, pool). (StatusOK r, st\<lparr>rpPool := pool\<rparr>)) (uploadEvds env c (jlUploadEvds json) (rqBody req) (rpPool st))
      | Some UploadRaw \<Rightarrow>
          (case uploadRaw (jlUploadRaw json) (rqBody req) (rpPool st) of (r, pool) \<Rightarrow> Some (StatusOK r, st\<lparr>rpPool := pool\<rparr>))
      | Some QueryEvidence \<Rightarrow> withCache st (queryEvidence env c (now 0) (jlQueryEvidence json) (rqBody req) (rpCache st))
      | Some GetBlockViaRange \<Rightarrow> withCache st (getBlockViaRange env c now (queryParam ''range'' req) (rpCache st))
      | Some GetBlockViaHash \<Rightarrow> withCache st (rpcGetBlockViaHash env c now (queryParam ''hash'' req) (rpCache st))
      | Some GetAccount \<Rightarrow> withCache st (rpcGetAccount env c (now 0) (queryParam ''id'' req) (rpCache st)))"

section \<open>Facts\<close>

lemma strBytes_bytesStr [simp]: "strBytes (bytesStr bs) = bs"
proof -
  have "word_of_nat (of_char (char_of (unat b) :: char)) = b" for b :: byte
    using unat_less [of b] by simp
  then show ?thesis by (induction bs) (simp_all add: strBytes_def bytesStr_def)
qed

lemma verifyUploads_ok: "verifyUploads env c evds = Inr () \<longleftrightarrow> (\<forall>e \<in> set evds. VerifyEvidence env c e = Inr ())"
proof (induction evds)
  case (Cons e evds)
  then show ?case by (cases "VerifyEvidence env c e") (auto split: chain_error.splits)
qed simp

text \<open>
  What the handlers get wrong: the raw evidences of a request are dropped and success is reported, a range from
  zero hangs the handler, and a \<open>null\<close> in the array of evidences makes it panic.
\<close>

lemma uploadRaw_drops_evidences: "uploadRaw (\<lambda>_. True) (Some body) pool = (successResponse, pool)"
  by (simp add: uploadRaw_def decodeUploadRaw_def UploadEvidenceRaw_def addRawEvidence_def)

lemma null_evidence_panics: "uploadEvds env c (\<lambda>_. Some (None # data)) (Some body) pool = None"
  by (simp add: uploadEvds_def)

lemma range_zero_hangs: "getBlockViaRange env c now (Some [''0-5'']) qc = None"
proof -
  have "Atoi ''0-5'' = None" "scanRange ''0-5'' = Some (0, 5)" by code_simp+
  then show ?thesis by (simp add: getBlockViaRange_def responseOf_def range_from_zero_never_returns)
qed

end
