(* ===== verification/HashFile.thy ===== *)
theory HashFile
  imports Merkle
begin

text \<open>
  The hash files of the client, \<open>src/cmd/client/hash_file.go\<close>: a JSON tree with the name and the hash
  of a file or, for a directory, the Merkle root over its entries.  A file system is what the code
  sees of it through \<open>os.Stat\<close>, \<open>ioutil.ReadDir\<close> and \<open>ioutil.ReadFile\<close>, whose failures are \<open>Broken\<close>
  entries and missing contents.  The JSON library is a pair of functions.  \<open>None\<close> is a panic.
\<close>

section \<open>Files and hash files\<close>

text \<open>A directory lists its entries with their names, in the order \<open>ReadDir\<close> gives.\<close>

datatype entry =
    Broken
  | File "bytes option"
  | Directory "(string \<times> entry) list option"

text \<open>A pointer to a \<open>hashFile\<close>: a JSON file can hold \<open>null\<close> where one is expected.\<close>

datatype hashFile =
    NilFile
  | HashFile string string "hashFile list option"

fun hfName :: "hashFile \<Rightarrow> string" where
  "hfName NilFile = []"
| "hfName (HashFile name hash dir) = name"

fun hfHash :: "hashFile \<Rightarrow> string" where
  "hfHash NilFile = []"
| "hfHash (HashFile name hash dir) = hash"

datatype hashFile_error =
    AccessFailed | AbsFailed | ReadDirFailed | NothingForHash string | HexFailed | MerkleFailed | ReadFileFailed |
    GetwdFailed | WriteFailed

section \<open>Generating\<close>

text \<open>
  \<open>statName\<close> is the name \<open>os.Stat\<close> reports for the path, \<open>absName\<close> the base of the absolute path;
  for the entries of a directory both are the name in the listing, which is never empty.
\<close>

fun newHashFile :: "hasher \<Rightarrow> bool \<Rightarrow> string \<Rightarrow> string option \<Rightarrow> entry \<Rightarrow> hashFile_error + hashFile"
  and hashEntries :: "hasher \<Rightarrow> bool \<Rightarrow> (string \<times> entry) list \<Rightarrow> hashFile list \<Rightarrow> bytes list \<Rightarrow>
    hashFile_error + hashFile list \<times> bytes list"
where
  "newHashFile Hash ignore statName absName Broken = Inl AccessFailed"
| "newHashFile Hash ignore statName absName (File None) = Inl ReadFileFailed"
| "newHashFile Hash ignore statName absName (File (Some fileContent)) =
     Inr (HashFile statName (ToHex (Hash fileContent)) None)"
| "newHashFile Hash ignore statName absName (Directory None) =
     (if absName = None then Inl AbsFailed else Inl ReadDirFailed)"
| "newHashFile Hash ignore statName absName (Directory (Some files)) =
     (case absName of
        None \<Rightarrow> Inl AbsFailed
      | Some name \<Rightarrow>
          (if files = [] then Inl (NothingForHash statName)
           else attempt (hashEntries Hash ignore files [] []) (\<lambda>(dir, leafs).
             if leafs = [] then Inl (NothingForHash statName)
             else case SortAndComputeRoot Hash leafs of
                 Inl _ \<Rightarrow> Inl MerkleFailed
               | Inr hash \<Rightarrow> Inr (HashFile name (ToHex hash) (Some dir)))))"
| "hashEntries Hash ignore [] dir leafs = Inr (dir, leafs)"
| "hashEntries Hash ignore ((name, file) # files) dir leafs =
     (if ignore \<and> take 1 name = ''.'' then hashEntries Hash ignore files dir leafs
      else case newHashFile Hash ignore name (Some name) file of
          Inl (NothingForHash _) \<Rightarrow> hashEntries Hash ignore files dir leafs
        | Inl e \<Rightarrow> Inl e
        | Inr hf \<Rightarrow>
            (case FromHex (hfHash hf) of
               Inl _ \<Rightarrow> Inl HexFailed
             | Inr hashB \<Rightarrow> hashEntries Hash ignore files (dir @ [hf]) (leafs @ [hashB])))"

text \<open>
  \<open>generateHashFile\<close> names its output after the running directory (\<open>None\<close> when \<open>os.Getwd\<close> fails), the
  file and the time; \<open>baseName\<close> is the base of the absolute form of \<open>statName\<close>, \<open>written\<close> whether the file can
  be written.  The result is the name and the JSON text of the file.
\<close>

definition generateHashFile ::
  "hasher \<Rightarrow> (hashFile \<Rightarrow> bytes) \<Rightarrow> string option \<Rightarrow> string \<Rightarrow> bool \<Rightarrow> bool \<Rightarrow> string \<Rightarrow> string \<Rightarrow> string option \<Rightarrow> entry \<Rightarrow>
   hashFile_error + string \<times> bytes" where
  "generateHashFile Hash marshal runningDir time written ignore statName baseName absName file =
     attempt (newHashFile Hash ignore statName absName file) (\<lambda>hf.
       (let jsonBytes = marshal hf;
            fileName = (case file of Directory _ \<Rightarrow> baseName | _ \<Rightarrow> statName)
        in case runningDir of
             None \<Rightarrow> Inl GetwdFailed
           | Some dir \<Rightarrow>
               (let outputFile = dir @ ''/hf-'' @ fileName @ ''-'' @ time
                in if written then Inr (outputFile, jsonBytes) else Inl WriteFailed)))"

section \<open>Verifying\<close>

text \<open>The errors hold what the message names: the file and the directory it is in.\<close>

datatype verify_error =
    EmptyName "string option"
  | EmptyHash string "string option"
  | BadHex string string "string option"
  | RootFailed string "string option"
  | RootMismatch string string string "string option"

fun verify :: "hasher \<Rightarrow> hashFile \<Rightarrow> string option \<Rightarrow> (verify_error + unit) option"
  and verifyDir :: "hasher \<Rightarrow> string \<Rightarrow> hashFile list \<Rightarrow> bytes list \<Rightarrow> (verify_error + bytes list) option"
where
  "verify Hash NilFile parent = None"
| "verify Hash (HashFile name hash dir) parent =
     (if name = [] then Some (Inl (EmptyName parent))
      else if hash = [] then Some (Inl (EmptyHash name parent))
      else case FromHex hash of
          Inl _ \<Rightarrow> Some (Inl (BadHex hash name parent))
        | Inr _ \<Rightarrow>
            (case dir of
               None \<Rightarrow> Some (Inr ())
             | Some subs \<Rightarrow>
                 (case verifyDir Hash name subs [] of
                    None \<Rightarrow> None
                  | Some (Inl e) \<Rightarrow> Some (Inl e)
                  | Some (Inr leafs) \<Rightarrow>
                      (case SortAndComputeRoot Hash leafs of
                         Inl _ \<Rightarrow> Some (Inl (RootFailed name parent))
                       | Inr root \<Rightarrow>
                           if ToHex root \<noteq> hash then Some (Inl (RootMismatch (ToHex root) hash name parent))
                           else Some (Inr ())))))"
| "verifyDir Hash name [] leafs = Some (Inr leafs)"
| "verifyDir Hash name (subHf # subs) leafs =
     (case verify Hash subHf (Some name) of
        None \<Rightarrow> None
      | Some (Inl e) \<Rightarrow> Some (Inl e)
      | Some (Inr _) \<Rightarrow>
          verifyDir Hash name subs (leafs @ [case FromHex (hfHash subHf) of Inl _ \<Rightarrow> [] | Inr h \<Rightarrow> h]))"

datatype verdict = ParseFailed | Invalid verify_error | Valid

definition verifyHashFile :: "hasher \<Rightarrow> (bytes \<Rightarrow> hashFile option) \<Rightarrow> bytes \<Rightarrow> verdict option" where
  "verifyHashFile Hash unmarshal jsonBytes =
     (case unmarshal jsonBytes of
        None \<Rightarrow> Some ParseFailed
      | Some hf \<Rightarrow> map_option (\<lambda>r. case r of Inl e \<Rightarrow> Invalid e | Inr _ \<Rightarrow> Valid) (verify Hash hf None))"

section \<open>The reference definition of the hash\<close>

text \<open>
  The hash of a file is the hash of its content, that of a directory the Merkle root of the sorted
  hashes of its entries; \<open>None\<close> when there is nothing to hash, as in an empty directory.
\<close>

fun treeHash :: "hasher \<Rightarrow> bool \<Rightarrow> entry \<Rightarrow> bytes option"
  and entryHashes :: "hasher \<Rightarrow> bool \<Rightarrow> (string \<times> entry) list \<Rightarrow> bytes list"
where
  "treeHash Hash ignore Broken = None"
| "treeHash Hash ignore (File c) = map_option Hash c"
| "treeHash Hash ignore (Directory None) = None"
| "treeHash Hash ignore (Directory (Some files)) =
     (let hs = entryHashes Hash ignore files in if hs = [] then None else Some (merkleRoot Hash (sort hs)))"
| "entryHashes Hash ignore [] = []"
| "entryHashes Hash ignore ((name, file) # files) =
     (if ignore \<and> take 1 name = ''.'' then entryHashes Hash ignore files
      else (case treeHash Hash ignore file of None \<Rightarrow> [] | Some h \<Rightarrow> [h]) @ entryHashes Hash ignore files)"

text \<open>Every file and directory that is not ignored can be read, and every name is non-empty.\<close>

fun readable :: "bool \<Rightarrow> entry \<Rightarrow> bool" and readableAll :: "bool \<Rightarrow> (string \<times> entry) list \<Rightarrow> bool" where
  "readable ignore Broken = False"
| "readable ignore (File c) = (c \<noteq> None)"
| "readable ignore (Directory None) = False"
| "readable ignore (Directory (Some files)) = readableAll ignore files"
| "readableAll ignore [] = True"
| "readableAll ignore ((name, file) # files) =
     ((ignore \<and> take 1 name = ''.'' \<or> name \<noteq> [] \<and> readable ignore file) \<and> readableAll ignore files)"

lemma sort_Nil_iff [simp]: "sort xs = [] \<longleftrightarrow> xs = ([] :: bytes list)"
  by (metis length_0_conv length_sort)

lemma SortAndComputeRoot_sort:
  "SortAndComputeRoot Hash leafs = (if leafs = [] then Inl NilInput else Inr (merkleRoot Hash (sort leafs)))"
  by (simp add: SortAndComputeRoot_def SortByteArray_def ComputeRoot_merkleRoot del: length_0_conv)
    (simp add: ComputeRoot_def)

lemma entryHashes_length:
  shows "hash_ok Hash \<Longrightarrow> treeHash Hash ignore e = Some h \<Longrightarrow> length h = 32"
    and "hash_ok Hash \<Longrightarrow> h \<in> set (entryHashes Hash ignore files) \<Longrightarrow> length h = 32"
proof (induction Hash ignore e and Hash ignore files arbitrary: h and h rule: treeHash_entryHashes.induct)
  case (4 Hash ignore files)
  then show ?case using length_merkleRoot [of Hash "sort (entryHashes Hash ignore files)"]
    by (auto simp: Let_def split: if_splits)
next
  case (6 Hash ignore name f files)
  then show ?case by (auto split: option.splits if_splits)
qed auto

text \<open>A generated hash file has the hash of the tree and passes the verification.\<close>

definition makes :: "hasher \<Rightarrow> bytes \<Rightarrow> hashFile \<Rightarrow> bool" where
  "makes Hash h hf \<longleftrightarrow> hfHash hf = ToHex h \<and> (\<forall>parent. verify Hash hf parent = Some (Inr ()))"

lemma verifyDir_append:
  "list_all2 (makes Hash) ls ds \<Longrightarrow> verifyDir Hash name ds acc = Some (Inr (acc @ ls))"
  by (induction arbitrary: acc rule: list_all2_induct) (simp_all add: makes_def)

lemma newHashFile_tree:
  shows "\<lbrakk>hash_ok Hash; readable ignore e; statName \<noteq> []; absName = Some n; n \<noteq> []\<rbrakk> \<Longrightarrow>
      case treeHash Hash ignore e of
        None \<Rightarrow> newHashFile Hash ignore statName absName e = Inl (NothingForHash statName)
      | Some h \<Rightarrow> \<exists>hf. newHashFile Hash ignore statName absName e = Inr hf \<and> makes Hash h hf"
    and "hash_ok Hash \<Longrightarrow> readableAll ignore files \<Longrightarrow>
      \<exists>ds. hashEntries Hash ignore files dir leafs = Inr (dir @ ds, leafs @ entryHashes Hash ignore files) \<and>
        list_all2 (makes Hash) (entryHashes Hash ignore files) ds"
proof (induction Hash ignore statName absName e and Hash ignore files dir leafs arbitrary: n rule: newHashFile_hashEntries.induct)
  case (3 Hash ignore statName absName c)
  have "Hash c \<noteq> []" using hash_ok_length [OF 3(1), of c] by auto
  with 3 show ?case by (simp add: makes_def)
next
  case (5 Hash ignore statName absName files)
  let ?hs = "entryHashes Hash ignore files"
  show ?case
  proof (cases "files = []")
    case False
    then obtain ds where ds: "hashEntries Hash ignore files [] [] = Inr (ds, ?hs)" "list_all2 (makes Hash) ?hs ds"
      using 5 by fastforce
    show ?thesis
    proof (cases "?hs = []")
      case nonempty: False
      have "merkleRoot Hash (sort ?hs) \<noteq> []"
        using length_merkleRoot [of Hash "sort ?hs"] entryHashes_length(2) [OF 5(2)] nonempty 5(2) by auto
      with nonempty show ?thesis
        using 5(4-6) False ds(1) verifyDir_append [OF ds(2)] by (simp add: SortAndComputeRoot_sort makes_def Let_def)
    qed (use 5(5) False ds(1) in \<open>simp add: Let_def\<close>)
  qed (use 5(5) in simp)
next
  case (7 Hash ignore name f files dir leafs)
  show ?case
  proof (cases "ignore \<and> take 1 name = ''.''")
    case False
    then have r: "name \<noteq> []" "readable ignore f" "readableAll ignore files" using 7(6) by auto
    show ?thesis
    proof (cases "treeHash Hash ignore f")
      case None
      then show ?thesis using 7(2) [OF False 7(5) r(2,1) refl r(1)] 7(3) [OF False _ _ 7(5) r(3)] False by auto
    next
      case (Some h)
      then obtain hf where hf: "newHashFile Hash ignore name (Some name) f = Inr hf" "makes Hash h hf"
        using 7(2) [OF False 7(5) r(2,1) refl r(1)] by auto
      obtain ds where "hashEntries Hash ignore files (dir @ [hf]) (leafs @ [h]) =
            Inr ((dir @ [hf]) @ ds, (leafs @ [h]) @ entryHashes Hash ignore files)"
          "list_all2 (makes Hash) (entryHashes Hash ignore files) ds"
        using 7(4) [OF False hf(1) _ 7(5) r(3), of h] hf(2) unfolding makes_def by auto
      moreover have "hfHash hf = ToHex h" using hf(2) by (simp add: makes_def)
      ultimately show ?thesis using hf Some False by (intro exI [of _ "hf # ds"]) auto
    qed
  qed (use 7(1) [OF _ 7(5)] 7(6) in simp)
qed auto

section \<open>What the verification accepts\<close>

definition unhex :: "string \<Rightarrow> bytes" where
  "unhex s = (case FromHex s of Inl _ \<Rightarrow> [] | Inr h \<Rightarrow> h)"

text \<open>The hashes of a hash file fit together.\<close>

fun consistent :: "hasher \<Rightarrow> hashFile \<Rightarrow> bool" where
  "consistent Hash NilFile \<longleftrightarrow> False"
| "consistent Hash (HashFile name hash dir) \<longleftrightarrow>
     name \<noteq> [] \<and> hash \<noteq> [] \<and> (\<exists>h. FromHex hash = Inr h) \<and>
     (case dir of
        None \<Rightarrow> True
      | Some subs \<Rightarrow> subs \<noteq> [] \<and> (\<forall>s \<in> set subs. consistent Hash s) \<and>
          hash = ToHex (merkleRoot Hash (sort (map (\<lambda>s. unhex (hfHash s)) subs))))"

lemma verify_consistent:
  shows "verify Hash hf parent = Some (Inr ()) \<longleftrightarrow> consistent Hash hf"
    and "verifyDir Hash name subs leafs = Some (Inr leafs') \<longleftrightarrow>
      (\<forall>s \<in> set subs. consistent Hash s) \<and> leafs' = leafs @ map (\<lambda>s. unhex (hfHash s)) subs"
proof (induction Hash hf parent and Hash name subs leafs arbitrary: and leafs' rule: verify_verifyDir.induct)
  case (2 Hash name hash dir parent)
  show ?case
  proof (cases "name = [] \<or> hash = [] \<or> dir = None \<or> isl (FromHex hash)")
    case False
    then obtain h subs where hd: "name \<noteq> []" "hash \<noteq> []" "FromHex hash = Inr h" "dir = Some subs"
      by (auto simp: isl_iff) (metis not_Inl_iff)
    have iff: "verifyDir Hash name subs [] = Some (Inr ls) \<longleftrightarrow>
        (\<forall>s \<in> set subs. consistent Hash s) \<and> ls = map (\<lambda>s. unhex (hfHash s)) subs" for ls
      using 2 [OF hd] by simp
    show ?thesis
    proof (cases "\<forall>s \<in> set subs. consistent Hash s")
      case True
      then have "verifyDir Hash name subs [] = Some (Inr (map (\<lambda>s. unhex (hfHash s)) subs))" using iff by simp
      with True hd show ?thesis by (auto simp: SortAndComputeRoot_sort)
    next
      case False
      then have "verifyDir Hash name subs [] \<noteq> Some (Inr ls)" for ls using iff by simp
      with False hd show ?thesis by (auto split: option.splits sum.splits)
    qed
  qed (auto simp: isl_iff split: option.splits sum.splits)
next
  case (4 Hash name subHf subs leafs)
  have step: "verifyDir Hash name (subHf # subs) leafs = verifyDir Hash name subs (leafs @ [unhex (hfHash subHf)])"
    if "verify Hash subHf (Some name) = Some (Inr ())" using that by (simp add: unhex_def)
  show ?case
  proof (cases "verify Hash subHf (Some name) = Some (Inr ())")
    case True
    then show ?thesis using 4(1) 4(2) [OF True refl, of leafs'] step by (simp add: unhex_def)
  next
    case False
    then show ?thesis using 4(1) by (auto split: sum.splits option.splits)
  qed
qed auto

text \<open>
  C25 Hash files: when everything in a tree can be read, generating its hash file succeeds exactly if
  there is something to hash; the file then parses to the hash of the tree, whatever the order of
  the directory listings and the names, and its verification answers that it is valid.
\<close>

theorem hash_file_verifies:
  assumes "hash_ok Hash" "readable ignore tree" "statName \<noteq> []" "absName \<noteq> []"
    and json: "\<And>hf. newHashFile Hash ignore statName (Some absName) tree = Inr hf \<Longrightarrow> unmarshal (marshal hf) = Some hf"
  shows "case treeHash Hash ignore tree of
      None \<Rightarrow> generateHashFile Hash marshal (Some dir) time True ignore statName baseName (Some absName) tree =
        Inl (NothingForHash statName)
    | Some h \<Rightarrow> \<exists>name text hf.
        generateHashFile Hash marshal (Some dir) time True ignore statName baseName (Some absName) tree = Inr (name, text) \<and>
        unmarshal text = Some hf \<and> hfHash hf = ToHex h \<and> verifyHashFile Hash unmarshal text = Some Valid"
proof -
  note tree = newHashFile_tree(1) [OF assms(1-3) refl assms(4)]
  show ?thesis
  proof (cases "treeHash Hash ignore tree")
    case None
    with tree show ?thesis by (simp add: generateHashFile_def)
  next
    case (Some h)
    with tree obtain hf where "newHashFile Hash ignore statName (Some absName) tree = Inr hf" "makes Hash h hf" by auto
    with json Some show ?thesis by (simp add: generateHashFile_def verifyHashFile_def makes_def Let_def)
  qed
qed

definition demo_tree :: entry where
  "demo_tree = Directory (Some [(''.git'', Broken), (''a'', File (Some [1])), (''b'', Directory (Some []))])"

theorem hash_file_verifies_witness:
  "\<exists>name text hf h. treeHash mod_hash True demo_tree = Some h \<and>
     generateHashFile mod_hash (\<lambda>_. [0]) (Some ''/'') ''now'' True True ''d'' ''d'' (Some ''d'') demo_tree = Inr (name, text) \<and>
     hfHash hf = ToHex h \<and>
     verifyHashFile mod_hash (\<lambda>_. case newHashFile mod_hash True ''d'' (Some ''d'') demo_tree of Inl _ \<Rightarrow> None | Inr hf \<Rightarrow> Some hf)
       text = Some Valid"
  using hash_file_verifies [OF mod_hash_ok, of True demo_tree "''d''" "''d''"
      "\<lambda>_. case newHashFile mod_hash True ''d'' (Some ''d'') demo_tree of Inl _ \<Rightarrow> None | Inr hf \<Rightarrow> Some hf" "\<lambda>_. [0]" "''/''" "''now''" "''d''"]
  by (simp add: demo_tree_def merkleRoot.simps) blast

section \<open>What the hash does not cover\<close>

lemma entryHashes_all: "entryHashes Hash False files = List.map_filter (treeHash Hash False \<circ> snd) files"
  by (induction files) (auto simp: map_filter_simps split: option.splits)

text \<open>
  Names and places are not hashed: renaming the entries of a directory or exchanging them, and
  wrapping a file into a directory of its own, leave the hash as it is.
\<close>

lemma renaming_keeps_hash:
  assumes "mset (map snd files) = mset (map snd files')"
  shows "treeHash Hash False (Directory (Some files)) = treeHash Hash False (Directory (Some files'))"
proof -
  have eq: "entryHashes Hash False fs = List.map_filter (treeHash Hash False) (map snd fs)" for fs
    by (simp add: entryHashes_all map_filter_def comp_def filter_map)
  have "mset (List.map_filter f xs) = {#the (f x). x \<in># filter_mset (\<lambda>x. f x \<noteq> None) (mset xs)#}" for f :: "entry \<Rightarrow> bytes option" and xs
    by (simp add: map_filter_def comp_def mset_filter)
  then have same: "mset (entryHashes Hash False files) = mset (entryHashes Hash False files')"
    unfolding eq by (simp only: assms)
  from same have "sort (entryHashes Hash False files) = sort (entryHashes Hash False files')"
      "entryHashes Hash False files = [] \<longleftrightarrow> entryHashes Hash False files' = []"
    by (metis properties_for_sort sorted_sort mset_sort) (metis same mset_zero_iff)
  then show ?thesis by (simp add: Let_def)
qed

lemma single_entry_same_hash: "treeHash Hash False (Directory (Some [(name, e)])) = treeHash Hash False e"
proof -
  have "merkleRoot Hash [x] = x" for x by (subst merkleRoot.simps) simp
  then show ?thesis by (auto split: option.splits)
qed

text \<open>A \<open>null\<close> in place of an entry makes the verification follow a nil pointer.\<close>

lemma null_entry_panics:
  assumes "name \<noteq> []" "bs \<noteq> []" "unmarshal text = Some (HashFile name (ToHex bs) (Some [NilFile]))"
  shows "verifyHashFile Hash unmarshal text = None"
  using assms by (simp add: verifyHashFile_def)

end
