(* ===== verification/Keys.thy ===== *)
theory Keys
  imports Negotiator
begin

text \<open>
  The key files of \<open>src/crypto/pkey.go\<close> and \<open>src/crypto/skey.go\<close>, and the command
  \<open>src/cmd/keygen/main.go\<close> over them.  A plain key file holds the private key in hexadecimal; a sealed
  one holds it encrypted with AES-GCM under a key that scrypt derives from a passphrase, as JSON.
  The disk is a map from paths; a file is its text, with a character for each byte.  Random
  bytes, typed passphrases and the key generator are arguments (\<open>None\<close> when they fail).
\<close>

section \<open>The disk\<close>

datatype dnode = Dir | Plain string | Locked

record disk =
  dkNodes :: "string \<rightharpoonup> dnode"
  dkWritable :: "string \<Rightarrow> bool"

datatype key_error =
    NotFound string
  | AlreadyExists string
  | NewPrivateKeyFailed
  | WriteFileFailed
  | ReadFileError
  | HexError hex_error
  | ParsePrivKeyFailed
  | PassphraseFailed
  | PassphraseTooShort
  | InconsistentInput
  | RandFailed
  | ScryptFailed
  | AESKeyLength
  | NewCipherFailed
  | NewGCMFailed
  | JSONFailed
  | UnrecognizedVersion int
  | UnrecognizedKdf string
  | UnrecognizedCrypto string
  | UnrecognizedDkLen int
  | UnrecognizedN int
  | UnrecognizedP int
  | UnrecognizedR int
  | MissedContent
  | OpenFailed
  | InvalidMode int
  | EmptyOutput
  | EmptySource

definition AccessCheck :: "string \<Rightarrow> disk \<Rightarrow> key_error + unit" where
  "AccessCheck path d = (if dkNodes d path = None then Inl (NotFound path) else Inr ())"

definition checkBeforeNewKey :: "string \<Rightarrow> string \<Rightarrow> disk \<Rightarrow> key_error + unit" where
  "checkBeforeNewKey path file d =
     attempt (AccessCheck path d) (\<lambda>_. case AccessCheck file d of Inr _ \<Rightarrow> Inl (AlreadyExists file) | Inl _ \<Rightarrow> Inr ())"

definition saveOnDisk :: "string \<Rightarrow> string \<Rightarrow> disk \<Rightarrow> key_error + disk" where
  "saveOnDisk content file d =
     (if dkWritable d file then Inr (d\<lparr>dkNodes := (dkNodes d)(file \<mapsto> Plain content)\<rparr>) else Inl WriteFileFailed)"

function trimLeft :: "string list \<Rightarrow> string \<Rightarrow> string" where
  "trimLeft spaces s =
     (case find (\<lambda>w. w \<noteq> [] \<and> take (length w) s = w) spaces of
        None \<Rightarrow> s
      | Some w \<Rightarrow> trimLeft spaces (drop (length w) s))"
  by pat_completeness auto
termination
proof (relation "measure (\<lambda>(_, s). length s)", goal_cases)
  case (2 spaces s w)
  then have "w \<noteq> []" "take (length w) s = w" by (auto simp: find_Some_iff)
  then show ?case by (cases s) auto
qed simp

declare trimLeft.simps [simp del]

definition TrimSpace :: "string \<Rightarrow> string" where
  "TrimSpace s = rev (trimLeft (map rev whiteSpaces) (rev (trimLeft whiteSpaces s)))"

definition readKeyFile :: "string \<Rightarrow> disk \<Rightarrow> key_error + string" where
  "readKeyFile file d =
     attempt (AccessCheck file d) (\<lambda>_.
       case dkNodes d file of Some (Plain content) \<Rightarrow> Inr (TrimSpace content) | _ \<Rightarrow> Inl ReadFileError)"


section \<open>The library\<close>

text \<open>
  \<open>PrivateKey.Serialize\<close>, \<open>btcec.PrivKeyFromBytes\<close>, \<open>scrypt.Key\<close> and \<open>encoding/json\<close> for the value of
  a sealed key, beside the ciphers of theory \<open>Negotiator\<close>.
\<close>

record skeyJSON =
  skVersion :: int
  skKdfName :: string
  skCryptoName :: string

record scryptKDF =
  kdDkLen :: int
  kdN :: int
  kdP :: int
  kdR :: int
  kdSalt :: string

record aes256GcmCrypto =
  acCipherText :: string
  acNonce :: string

record ('key, 'priv, 'block, 'aead) key_lib = "('key, 'priv, 'block, 'aead) cipher_lib" +
  Serialize :: "'priv \<Rightarrow> bytes"
  PrivKeyFromBytes :: "bytes \<Rightarrow> 'priv option"
  ScryptKey :: "bytes \<Rightarrow> bytes \<Rightarrow> int \<Rightarrow> int \<Rightarrow> int \<Rightarrow> int \<Rightarrow> bytes option"
  MarshalIndent :: "skeyJSON \<times> scryptKDF \<times> aes256GcmCrypto \<Rightarrow> string option"
  Unmarshal :: "string \<Rightarrow> (skeyJSON \<times> scryptKDF \<times> aes256GcmCrypto) option"

section \<open>Plain keys\<close>

definition PlainKey :: string where "PlainKey = ''.pKey''"

definition NewPKey ::
  "('key, 'priv, 'block, 'aead) key_lib \<Rightarrow> 'priv option \<Rightarrow> string \<Rightarrow> disk \<Rightarrow> key_error + 'priv \<times> disk" where
  "NewPKey lib newKey path d =
     (let keyFile = path @ ''/'' @ PlainKey
      in attempt (checkBeforeNewKey path keyFile d) (\<lambda>_.
           case newKey of
             None \<Rightarrow> Inl NewPrivateKeyFailed
           | Some privKey \<Rightarrow>
               attempt (saveOnDisk (ToHex (Serialize lib privKey)) keyFile d) (\<lambda>d'. Inr (privKey, d'))))"

definition RestorePKey :: "('key, 'priv, 'block, 'aead) key_lib \<Rightarrow> string \<Rightarrow> disk \<Rightarrow> key_error + 'priv" where
  "RestorePKey lib path d =
     attempt (readKeyFile (path @ ''/'' @ PlainKey) d) (\<lambda>hexPrivKey.
       case FromHex hexPrivKey of
         Inl e \<Rightarrow> Inl (HexError e)
       | Inr bytePrivKey \<Rightarrow>
           (case PrivKeyFromBytes lib bytePrivKey of None \<Rightarrow> Inl ParsePrivKeyFailed | Some k \<Rightarrow> Inr k))"

section \<open>Sealing\<close>

definition SealKey :: string where "SealKey = ''.sKey''"
definition version1 :: int where "version1 = 1"
definition kdfName :: string where "kdfName = ''scrypt''"
definition dkLen :: int where "dkLen = 32"
definition scryptN :: int where "scryptN = 262144"
definition scryptP :: int where "scryptP = 1"
definition scryptR :: int where "scryptR = 8"
definition saltLen :: nat where "saltLen = 32"
definition cryptoName :: string where "cryptoName = ''aes-256-gcm''"

definition getPassphrase :: "bytes option \<Rightarrow> bytes option \<Rightarrow> key_error + bytes" where
  "getPassphrase typed1 typed2 =
     (case typed1 of
        None \<Rightarrow> Inl PassphraseFailed
      | Some pass1 \<Rightarrow>
          if length pass1 < 8 then Inl PassphraseTooShort
          else case typed2 of
              None \<Rightarrow> Inl PassphraseFailed
            | Some pass2 \<Rightarrow> if pass1 \<noteq> pass2 then Inl InconsistentInput else Inr pass1)"

text \<open>\<open>rnd\<close> are the random bytes read for the nonce.\<close>

definition aesEncrypt ::
  "('key, 'priv, 'block, 'aead) key_lib \<Rightarrow> bytes option \<Rightarrow> bytes \<Rightarrow> bytes \<Rightarrow> key_error + bytes \<times> bytes" where
  "aesEncrypt lib rnd plaintext key =
     (if length key \<noteq> 32 then Inl AESKeyLength
      else case NewCipher lib key of
          None \<Rightarrow> Inl NewCipherFailed
        | Some block \<Rightarrow>
            (case rnd of
               None \<Rightarrow> Inl RandFailed
             | Some nonce \<Rightarrow>
                 (case NewGCM lib block of
                    None \<Rightarrow> Inl NewGCMFailed
                  | Some aesgcm \<Rightarrow> Inr (nonce, Seal lib aesgcm nonce plaintext))))"

definition sealJSON :: "string \<Rightarrow> string \<Rightarrow> string \<Rightarrow> skeyJSON \<times> scryptKDF \<times> aes256GcmCrypto" where
  "sealJSON nonce cipherText salt =
     (\<lparr>skVersion = version1, skKdfName = kdfName, skCryptoName = cryptoName\<rparr>,
      \<lparr>kdDkLen = dkLen, kdN = scryptN, kdP = scryptP, kdR = scryptR, kdSalt = salt\<rparr>,
      \<lparr>acCipherText = cipherText, acNonce = nonce\<rparr>)"

definition jsonMarshal ::
  "('key, 'priv, 'block, 'aead) key_lib \<Rightarrow> string \<Rightarrow> string \<Rightarrow> string \<Rightarrow> key_error + string" where
  "jsonMarshal lib nonce cipherText salt =
     (case MarshalIndent lib (sealJSON nonce cipherText salt) of None \<Rightarrow> Inl JSONFailed | Some j \<Rightarrow> Inr j)"

text \<open>\<open>rnd\<close> are the random bytes for the salt and for the nonce.\<close>

definition seal ::
  "('key, 'priv, 'block, 'aead) key_lib \<Rightarrow> bytes option \<times> bytes option \<Rightarrow> bytes \<Rightarrow> bytes \<Rightarrow> key_error + string" where
  "seal lib rnd passphrase key =
     (case fst rnd of
        None \<Rightarrow> Inl RandFailed
      | Some salt \<Rightarrow>
          (case ScryptKey lib passphrase salt scryptN scryptR scryptP dkLen of
             None \<Rightarrow> Inl ScryptFailed
           | Some dk \<Rightarrow>
               attempt (aesEncrypt lib (snd rnd) key dk) (\<lambda>(nonce, cipherText).
                 jsonMarshal lib (ToHex nonce) (ToHex cipherText) (ToHex salt))))"

text \<open>What the user types and the random bytes.\<close>

record sealing =
  seTyped1 :: "bytes option"
  seTyped2 :: "bytes option"
  seRnd :: "bytes option \<times> bytes option"

definition genSKeyAndSaveIt ::
  "('key, 'priv, 'block, 'aead) key_lib \<Rightarrow> sealing \<Rightarrow> 'priv \<Rightarrow> string \<Rightarrow> disk \<Rightarrow> key_error + disk" where
  "genSKeyAndSaveIt lib se privKey outputFile d =
     attempt (getPassphrase (seTyped1 se) (seTyped2 se)) (\<lambda>pass.
       attempt (seal lib (seRnd se) pass (Serialize lib privKey)) (\<lambda>sealedContent.
         saveOnDisk sealedContent outputFile d))"

section \<open>Opening\<close>

text \<open>\<open>utils.FromHex\<close> where the error is dropped: the bytes decoded before it.\<close>

fun hexPrefix :: "string \<Rightarrow> bytes" where
  "hexPrefix (c # c' # s) =
     (case (fromHexChar c, fromHexChar c') of
        (Some a, Some b) \<Rightarrow> word_of_nat (a * 16 + b) # hexPrefix s
      | _ \<Rightarrow> [])"
| "hexPrefix _ = []"

definition checkSealParams :: "skeyJSON \<Rightarrow> scryptKDF \<Rightarrow> aes256GcmCrypto \<Rightarrow> key_error + unit" where
  "checkSealParams ks kdf aesCrypto =
     (if skVersion ks \<noteq> version1 then Inl (UnrecognizedVersion (skVersion ks))
      else if skKdfName ks \<noteq> kdfName then Inl (UnrecognizedKdf (skKdfName ks))
      else if skCryptoName ks \<noteq> cryptoName then Inl (UnrecognizedCrypto (skCryptoName ks))
      else if kdDkLen kdf \<noteq> dkLen then Inl (UnrecognizedDkLen (kdDkLen kdf))
      else if kdN kdf \<noteq> scryptN then Inl (UnrecognizedN (kdN kdf))
      else if kdP kdf \<noteq> scryptP then Inl (UnrecognizedP (kdP kdf))
      else if kdR kdf \<noteq> scryptR then Inl (UnrecognizedR (kdR kdf))
      else if kdSalt kdf = [] \<or> acCipherText aesCrypto = [] \<or> acNonce aesCrypto = [] then Inl MissedContent
      else Inr ())"

definition jsonUnMarshal ::
  "('key, 'priv, 'block, 'aead) key_lib \<Rightarrow> string \<Rightarrow> key_error + skeyJSON \<times> scryptKDF \<times> aes256GcmCrypto" where
  "jsonUnMarshal lib jsonBytes =
     (case Unmarshal lib jsonBytes of
        None \<Rightarrow> Inl JSONFailed
      | Some (ks, kdf, aesCrypto) \<Rightarrow> attempt (checkSealParams ks kdf aesCrypto) (\<lambda>_. Inr (ks, kdf, aesCrypto)))"

text \<open>\<open>AEAD.Open\<close> panics, which is \<open>None\<close>, when the nonce does not have its 12 bytes.\<close>

definition aesDecrypt ::
  "('key, 'priv, 'block, 'aead) key_lib \<Rightarrow> bytes \<Rightarrow> scryptKDF \<Rightarrow> aes256GcmCrypto \<Rightarrow> (key_error + 'priv) option" where
  "aesDecrypt lib pass kdf aesCrypto =
     (let salt = hexPrefix (kdSalt kdf)
      in case ScryptKey lib pass salt (kdN kdf) (kdR kdf) (kdP kdf) (kdDkLen kdf) of
           None \<Rightarrow> Some (Inl ScryptFailed)
         | Some dk \<Rightarrow>
             (case NewCipher lib dk of
                None \<Rightarrow> Some (Inl NewCipherFailed)
              | Some block \<Rightarrow>
                  (case NewGCM lib block of
                     None \<Rightarrow> Some (Inl NewGCMFailed)
                   | Some aesgcm \<Rightarrow>
                       (let nonce = hexPrefix (acNonce aesCrypto);
                            cipherText = hexPrefix (acCipherText aesCrypto)
                        in if length nonce \<noteq> 12 then None
                           else Some (case Open lib aesgcm nonce cipherText of
                               None \<Rightarrow> Inl OpenFailed
                             | Some plainText \<Rightarrow>
                                 (case PrivKeyFromBytes lib plainText of
                                    None \<Rightarrow> Inl ParsePrivKeyFailed
                                  | Some privateKey \<Rightarrow> Inr privateKey))))))"

definition RestoreSKey ::
  "('key, 'priv, 'block, 'aead) key_lib \<Rightarrow> bytes option \<Rightarrow> string \<Rightarrow> disk \<Rightarrow> (key_error + 'priv) option" where
  "RestoreSKey lib typed path d =
     (case readKeyFile (path @ ''/'' @ SealKey) d of
        Inl e \<Rightarrow> Some (Inl e)
      | Inr jsonBytes \<Rightarrow>
          (case jsonUnMarshal lib jsonBytes of
             Inl e \<Rightarrow> Some (Inl e)
           | Inr (ks, kdf, aesCrypto) \<Rightarrow>
               (case typed of
                  None \<Rightarrow> Some (Inl PassphraseFailed)
                | Some pass \<Rightarrow> aesDecrypt lib pass kdf aesCrypto)))"

section \<open>From one file to another\<close>

definition NewSKey ::
  "('key, 'priv, 'block, 'aead) key_lib \<Rightarrow> 'priv option \<Rightarrow> sealing \<Rightarrow> string \<Rightarrow> disk \<Rightarrow> key_error + 'priv \<times> disk" where
  "NewSKey lib newKey se path d =
     (let keyFile = path @ ''/'' @ SealKey
      in attempt (checkBeforeNewKey path keyFile d) (\<lambda>_.
           case newKey of
             None \<Rightarrow> Inl NewPrivateKeyFailed
           | Some privKey \<Rightarrow> attempt (genSKeyAndSaveIt lib se privKey keyFile d) (\<lambda>d'. Inr (privKey, d'))))"

definition SealPKey ::
  "('key, 'priv, 'block, 'aead) key_lib \<Rightarrow> sealing \<Rightarrow> string \<Rightarrow> string \<Rightarrow> disk \<Rightarrow> key_error + disk" where
  "SealPKey lib se pkeyPath outputPath d =
     (let keyFile = outputPath @ ''/'' @ SealKey
      in attempt (checkBeforeNewKey outputPath keyFile d) (\<lambda>_.
           attempt (RestorePKey lib pkeyPath d) (\<lambda>privKey. genSKeyAndSaveIt lib se privKey keyFile d)))"

text \<open>The key that \<open>RestoreSKey\<close> reads from a sealed file is used, or its panic passed on.\<close>

definition withSKey :: "(key_error + 'priv) option \<Rightarrow> ('priv \<Rightarrow> key_error + disk) \<Rightarrow> (key_error + disk) option" where
  "withSKey restored f = map_option (\<lambda>r. attempt r f) restored"

definition ReNewSKey ::
  "('key, 'priv, 'block, 'aead) key_lib \<Rightarrow> bytes option \<Rightarrow> sealing \<Rightarrow> string \<Rightarrow> string \<Rightarrow> disk \<Rightarrow> (key_error + disk) option" where
  "ReNewSKey lib typed se oldKeyPath newKeyPath d =
     (let newKeyFile = newKeyPath @ ''/'' @ SealKey
      in case AccessCheck newKeyPath d of
           Inl e \<Rightarrow> Some (Inl e)
         | Inr _ \<Rightarrow> withSKey (RestoreSKey lib typed oldKeyPath d) (\<lambda>privKey. genSKeyAndSaveIt lib se privKey newKeyFile d))"

definition OpenSKey ::
  "('key, 'priv, 'block, 'aead) key_lib \<Rightarrow> bytes option \<Rightarrow> string \<Rightarrow> string \<Rightarrow> disk \<Rightarrow> (key_error + disk) option" where
  "OpenSKey lib typed skeyPath outputPath d =
     (let keyFile = outputPath @ ''/'' @ PlainKey
      in case checkBeforeNewKey outputPath keyFile d of
           Inl e \<Rightarrow> Some (Inl e)
         | Inr _ \<Rightarrow> withSKey (RestoreSKey lib typed skeyPath d)
             (\<lambda>privKey. saveOnDisk (ToHex (Serialize lib privKey)) keyFile d))"

text \<open>
  The command: the mode, the source and the output path.  The test of the source path repeats that of
  the output path.
\<close>

definition keygen ::
  "('key, 'priv, 'block, 'aead) key_lib \<Rightarrow> int \<Rightarrow> string \<Rightarrow> string \<Rightarrow> 'priv option \<Rightarrow> bytes option \<Rightarrow> sealing \<Rightarrow> disk \<Rightarrow>
   (key_error + disk) option" where
  "keygen lib m s out newKey typed se d =
     (if m \<le> 0 \<or> m > 5 then Some (Inl (InvalidMode m))
      else if out = [] then Some (Inl EmptyOutput)
      else case AccessCheck out d of
          Inl e \<Rightarrow> Some (Inl e)
        | Inr _ \<Rightarrow>
            if m \<ge> 3 \<and> m \<le> 5 \<and> s = [] then Some (Inl EmptySource)
            else if m = 1 then Some (attempt (NewSKey lib newKey se out d) (\<lambda>(_, d'). Inr d'))
            else if m = 2 then Some (attempt (NewPKey lib newKey out d) (\<lambda>(_, d'). Inr d'))
            else if m = 3 then OpenSKey lib typed s out d
            else if m = 4 then Some (SealPKey lib se s out d)
            else ReNewSKey lib typed se s out d)"

section \<open>Trimming\<close>

lemma trimLeft_id:
  assumes "\<And>w. w \<in> set spaces \<Longrightarrow> w \<noteq> [] \<Longrightarrow> hd w \<noteq> hd s"
  shows "trimLeft spaces s = s"
proof -
  have "find (\<lambda>w. w \<noteq> [] \<and> take (length w) s = w) spaces = None"
    unfolding find_None_iff
  proof (rule notI, elim bexE conjE exE)
    fix w assume w: "w \<in> set spaces" "w \<noteq> []" "take (length w) s = w"
    then have "hd w = hd s" by (metis hd_take length_greater_0_conv)
    with assms w show False by blast
  qed
  then show ?thesis by (subst trimLeft.simps) simp
qed

lemma TrimSpace_id:
  assumes "hd s \<notin> hd ` set whiteSpaces" "last s \<notin> last ` set whiteSpaces"
  shows "TrimSpace s = s"
proof -
  have "trimLeft whiteSpaces s = s" using assms(1) by (intro trimLeft_id) (metis image_eqI)
  moreover have "trimLeft (map rev whiteSpaces) (rev s) = rev s"
    using assms(2) by (intro trimLeft_id) (auto simp: hd_rev, metis image_eqI)
  ultimately show ?thesis by (simp add: TrimSpace_def)
qed

lemma TrimSpace_Nil [simp]: "TrimSpace [] = []"
proof -
  have "trimLeft spaces [] = []" for spaces
    by (subst trimLeft.simps) (auto split: option.splits simp: find_Some_iff)
  then show ?thesis by (simp add: TrimSpace_def)
qed

lemma upper_hextable: "n < 16 \<Longrightarrow> upperChar (hextable ! n) \<in> set ''0123456789ABCDEF''"
  unfolding upto15 by (elim insertE emptyE; hypsubst) code_simp+

lemma set_ToHex: "set (ToHex bs) \<subseteq> set ''0123456789ABCDEF''"
proof (induction bs)
  case (Cons b bs)
  have "unat b div 16 < 16" "unat b mod 16 < 16"
    using unat_less [of b] by (simp_all add: less_mult_imp_div_less)
  then show ?case using Cons upper_hextable by auto
qed simp

lemma TrimSpace_ToHex [simp]: "TrimSpace (ToHex bs) = ToHex bs"
proof (cases "ToHex bs = []")
  case False
  then have "{hd (ToHex bs), last (ToHex bs)} \<subseteq> set ''0123456789ABCDEF''"
    using set_ToHex [of bs] hd_in_set last_in_set by blast
  moreover have "set ''0123456789ABCDEF'' \<inter> (hd ` set whiteSpaces \<union> last ` set whiteSpaces) = {}"
    by (simp add: whiteSpaces_def)
  ultimately show ?thesis by (intro TrimSpace_id) blast+
qed simp

lemma hexPrefix_ToHex [simp]: "hexPrefix (ToHex bs) = bs"
proof (induction bs)
  case (Cons b bs)
  have "unat b div 16 < 16" "unat b mod 16 < 16"
    using unat_less [of b] by (simp_all add: less_mult_imp_div_less)
  then show ?case using Cons by (simp add: fromHexChar_hextable flip: of_nat_add of_nat_mult)
qed simp

section \<open>Keys survive their files\<close>

text \<open>A passphrase typed twice, and the random bytes asked for.\<close>

definition good_sealing :: "bytes \<Rightarrow> sealing \<Rightarrow> bool" where
  "good_sealing pass se \<longleftrightarrow> 8 \<le> length pass \<and> seTyped1 se = Some pass \<and> seTyped2 se = Some pass \<and>
     (\<exists>salt nonce. seRnd se = (Some salt, Some nonce) \<and> length salt = saltLen \<and> length nonce = 12)"

abbreviation put_file :: "string \<Rightarrow> string \<Rightarrow> disk \<Rightarrow> disk" where
  "put_file file content d \<equiv> d\<lparr>dkNodes := (dkNodes d)(file \<mapsto> Plain content)\<rparr>"

lemma key_files_differ [simp]:
  "p @ CHR ''/'' # PlainKey \<noteq> q @ CHR ''/'' # SealKey" "q @ CHR ''/'' # SealKey \<noteq> p @ CHR ''/'' # PlainKey"
  by (auto simp: PlainKey_def SealKey_def dest!: arg_cong [where f = "\<lambda>s. rev s ! 3"])

lemma exists_put_file: "dkNodes d x \<noteq> None \<Longrightarrow> dkNodes (put_file file c d) x \<noteq> None"
  by simp

lemma checkBeforeNewKey_ok:
  "dkNodes d path \<noteq> None \<Longrightarrow> dkNodes d file = None \<Longrightarrow> checkBeforeNewKey path file d = Inr ()"
  by (simp add: checkBeforeNewKey_def AccessCheck_def)

lemma AccessCheck_ok: "dkNodes d path \<noteq> None \<Longrightarrow> AccessCheck path d = Inr ()"
  by (simp add: AccessCheck_def)

text \<open>
  What the files rely on: a serialised private key is read back, scrypt yields the 32 bytes it is asked
  for, AES takes them, GCM opens what it sealed and adds its tag, and \<open>encoding/json\<close> reads back the
  object it wrote, which is text in braces.
\<close>

locale key_files =
  fixes lib :: "('key, 'priv, 'block, 'aead) key_lib"
  assumes private_key: "PrivKeyFromBytes lib (Serialize lib k) = Some k"
    and scrypt: "\<exists>dk. ScryptKey lib pass salt scryptN scryptR scryptP dkLen = Some dk \<and> length dk = 32"
    and aes_256: "length key = 32 \<Longrightarrow> \<exists>b g. NewCipher lib key = Some b \<and> NewGCM lib b = Some g"
    and open_seal: "length nonce = 12 \<Longrightarrow> Open lib g nonce (Seal lib g nonce x) = Some x"
    and seal_length: "length (Seal lib g nonce x) = length x + 16"
    and json: "\<exists>j. MarshalIndent lib (sealJSON (ToHex n) (ToHex c) (ToHex s)) = Some j \<and>
      Unmarshal lib j = Some (sealJSON (ToHex n) (ToHex c) (ToHex s)) \<and> hd j = CHR ''{'' \<and> last j = CHR ''}''"
begin

text \<open>The text of a sealed key, and of a plain one.\<close>

definition seals :: "bytes \<Rightarrow> 'priv \<Rightarrow> string \<Rightarrow> bool" where
  "seals pass k j \<longleftrightarrow> (\<forall>path d. dkNodes d (path @ ''/'' @ SealKey) = Some (Plain j) \<longrightarrow>
     RestoreSKey lib (Some pass) path d = Some (Inr k))"

lemma RestorePKey_plain:
  "dkNodes d (path @ ''/'' @ PlainKey) = Some (Plain (ToHex (Serialize lib k))) \<Longrightarrow> RestorePKey lib path d = Inr k"
  by (simp add: RestorePKey_def readKeyFile_def AccessCheck_def private_key)

lemma seal_seals:
  assumes "length nonce = 12" "salt \<noteq> []"
  obtains j where "seal lib (Some salt, Some nonce) pass (Serialize lib k) = Inr j" "seals pass k j"
proof -
  obtain dk where dk: "ScryptKey lib pass salt scryptN scryptR scryptP dkLen = Some dk" "length dk = 32"
    using scrypt by blast
  obtain b g where g: "NewCipher lib dk = Some b" "NewGCM lib b = Some g" using aes_256 [OF dk(2)] by blast
  let ?c = "Seal lib g nonce (Serialize lib k)"
  obtain j where j: "MarshalIndent lib (sealJSON (ToHex nonce) (ToHex ?c) (ToHex salt)) = Some j"
      "Unmarshal lib j = Some (sealJSON (ToHex nonce) (ToHex ?c) (ToHex salt))" "hd j = CHR ''{''" "last j = CHR ''}''"
    using json by blast
  have "TrimSpace j = j" by (rule TrimSpace_id) (simp_all add: j(3,4) whiteSpaces_def)
  have "length ?c = length (Serialize lib k) + 16" by (rule seal_length)
  then have "?c \<noteq> []" "nonce \<noteq> []" using assms(1) by auto
  with \<open>TrimSpace j = j\<close> have "seals pass k j"
    using j dk g assms open_seal
    by (simp add: seals_def RestoreSKey_def readKeyFile_def AccessCheck_def jsonUnMarshal_def sealJSON_def checkSealParams_def
        aesDecrypt_def private_key Let_def)
  then show thesis
    using dk g j(1) by (intro that) (simp_all add: seal_def aesEncrypt_def jsonMarshal_def)
qed

lemma genSKey_seals:
  assumes "good_sealing pass se" "dkWritable d file"
  obtains j where "genSKeyAndSaveIt lib se k file d = Inr (put_file file j d)" "seals pass k j"
proof -
  obtain salt nonce where r: "seRnd se = (Some salt, Some nonce)" "length salt = saltLen" "length nonce = 12"
    using assms(1) by (auto simp: good_sealing_def)
  then have "salt \<noteq> []" by (auto simp: saltLen_def)
  with r(3) obtain j where "seal lib (Some salt, Some nonce) pass (Serialize lib k) = Inr j" "seals pass k j"
    using seal_seals by blast
  with assms r(1) show thesis
    by (intro that [of j]) (auto simp: genSKeyAndSaveIt_def getPassphrase_def good_sealing_def saveOnDisk_def)
qed

lemma key_life:
  assumes d: "\<forall>x \<in> {p, q, r, t}. x \<noteq> [] \<and> dkNodes d x \<noteq> None" "\<forall>file. dkWritable d file"
    and new: "dkNodes d (p @ ''/'' @ PlainKey) = None" "dkNodes d (q @ ''/'' @ SealKey) = None"
      "dkNodes d (t @ ''/'' @ PlainKey) = None" "t \<noteq> p"
    and se: "good_sealing pass1 se1" "good_sealing pass2 se2"
  shows "\<exists>d1 d2 d3 d4. keygen lib 2 [] p (Some k) None se0 d = Some (Inr d1) \<and>
    keygen lib 4 p q None None se1 d1 = Some (Inr d2) \<and>
    keygen lib 5 q r None (Some pass1) se2 d2 = Some (Inr d3) \<and>
    keygen lib 3 r t None (Some pass2) se0 d3 = Some (Inr d4) \<and>
    RestorePKey lib p d4 = Inr k \<and> RestoreSKey lib (Some pass2) r d4 = Some (Inr k) \<and> RestorePKey lib t d4 = Inr k"
proof -
  let ?pf = "p @ ''/'' @ PlainKey" and ?qf = "q @ ''/'' @ SealKey" and ?rf = "r @ ''/'' @ SealKey"
    and ?tf = "t @ ''/'' @ PlainKey" and ?hex = "ToHex (Serialize lib k)"
  let ?d1 = "put_file ?pf ?hex d"
  have dom: "p \<noteq> []" "q \<noteq> []" "r \<noteq> []" "t \<noteq> []" "dkNodes d p \<noteq> None" "dkNodes d q \<noteq> None" "dkNodes d r \<noteq> None"
    "dkNodes d t \<noteq> None" using d(1) by auto
  note files = checkBeforeNewKey_ok AccessCheck_ok exists_put_file
  have 1: "keygen lib 2 [] p (Some k) None se0 d = Some (Inr ?d1)"
    using dom(1) new(1) d(2) files(1,2) [OF dom(5)] by (simp add: keygen_def NewPKey_def saveOnDisk_def Let_def)
  have k1: "RestorePKey lib p ?d1 = Inr k" by (rule RestorePKey_plain) simp
  obtain j1 where j1: "genSKeyAndSaveIt lib se1 k ?qf ?d1 = Inr (put_file ?qf j1 ?d1)" "seals pass1 k j1"
    by (rule genSKey_seals [OF se(1), of ?d1 ?qf]) (use d(2) in simp)
  let ?d2 = "put_file ?qf j1 ?d1"
  have "checkBeforeNewKey q ?qf ?d1 = Inr ()" "AccessCheck q ?d1 = Inr ()"
    by (rule files(1) [OF files(3) [OF dom(6)]], use new(2) in simp) (rule files(2) [OF files(3) [OF dom(6)]])
  then have 2: "keygen lib 4 p q None None se1 ?d1 = Some (Inr ?d2)"
    using dom(1,2) k1 j1(1) by (simp add: keygen_def SealPKey_def Let_def)
  have k2: "RestoreSKey lib (Some pass1) q ?d2 = Some (Inr k)" using j1(2) by (simp add: seals_def)
  obtain j2 where j2: "genSKeyAndSaveIt lib se2 k ?rf ?d2 = Inr (put_file ?rf j2 ?d2)" "seals pass2 k j2"
    by (rule genSKey_seals [OF se(2), of ?d2 ?rf]) (use d(2) in simp)
  let ?d3 = "put_file ?rf j2 ?d2"
  have "AccessCheck r ?d2 = Inr ()" by (rule files(2) [OF files(3) [OF files(3) [OF dom(7)]]])
  then have 3: "keygen lib 5 q r None (Some pass1) se2 ?d2 = Some (Inr ?d3)"
    using dom(2,3) k2 j2(1) by (simp add: keygen_def ReNewSKey_def withSKey_def Let_def)
  have k3: "RestoreSKey lib (Some pass2) r ?d3 = Some (Inr k)" using j2(2) by (simp add: seals_def)
  let ?d4 = "put_file ?tf ?hex ?d3"
  note t = files(3) [OF files(3) [OF files(3) [OF dom(8)]]]
  have "checkBeforeNewKey t ?tf ?d3 = Inr ()" by (rule files(1) [OF t]) (use new(3,4) in simp)
  moreover have "AccessCheck t ?d3 = Inr ()" by (rule files(2) [OF t])
  ultimately have 4: "keygen lib 3 r t None (Some pass2) se0 ?d3 = Some (Inr ?d4)"
    using dom(3,4) k3 d(2) by (simp add: keygen_def OpenSKey_def withSKey_def saveOnDisk_def Let_def)
  have "RestorePKey lib p ?d4 = Inr k" "RestoreSKey lib (Some pass2) r ?d4 = Some (Inr k)" "RestorePKey lib t ?d4 = Inr k"
    using j2(2) by (simp_all add: RestorePKey_plain seals_def)
  with 1 2 3 4 show ?thesis by blast
qed

end

section \<open>A concrete library\<close>

definition notComma :: "char \<Rightarrow> bool" where
  "notComma c \<longleftrightarrow> c \<noteq> CHR '','' "

definition toyMarshal :: "skeyJSON \<times> scryptKDF \<times> aes256GcmCrypto \<Rightarrow> string option" where
  "toyMarshal = (\<lambda>(ks, kdf, aes).
     Some (''{'' @ acNonce aes @ '','' @ acCipherText aes @ '','' @ kdSalt kdf @ ''}''))"

definition toyUnmarshal :: "string \<Rightarrow> (skeyJSON \<times> scryptKDF \<times> aes256GcmCrypto) option" where
  "toyUnmarshal j =
     (let body = butlast (tl j); rest = tl (dropWhile notComma body)
      in Some (sealJSON (takeWhile notComma body) (takeWhile notComma rest) (tl (dropWhile notComma rest))))"

definition toy_key_lib :: "(unit, bytes, bytes, bytes) key_lib" where
  "toy_key_lib = \<lparr>GenerateSharedSecret = (\<lambda>_ _. [7]), Sum512 = (\<lambda>_. replicate 64 5), NewCipher = Some,
     NewGCM = Some, Seal = (\<lambda>_ _ x. x @ replicate 16 0), Open = (\<lambda>_ _ x. Some (take (length x - 16) x)),
     Serialize = (\<lambda>k. k), PrivKeyFromBytes = Some, ScryptKey = (\<lambda>_ _ _ _ _ _. Some (replicate 32 9)),
     MarshalIndent = toyMarshal, Unmarshal = toyUnmarshal\<rparr>"

lemma notComma_ToHex: "c \<in> set (ToHex bs) \<Longrightarrow> notComma c"
  using set_ToHex [of bs] by (auto simp: notComma_def)

lemma toyUnmarshal_text:
  "toyUnmarshal (''{'' @ ToHex n @ '','' @ ToHex c @ '','' @ ToHex s @ ''}'') = Some (sealJSON (ToHex n) (ToHex c) (ToHex s))"
proof -
  have comma: "\<not> notComma CHR '',''" by (simp add: notComma_def)
  have body: "butlast (tl (''{'' @ ToHex n @ '','' @ ToHex c @ '','' @ ToHex s @ ''}'')) = ToHex n @ '','' @ ToHex c @ '','' @ ToHex s"
    by (simp add: butlast_append)
  have cut: "takeWhile notComma (ToHex x @ '','' @ r) = ToHex x" "dropWhile notComma (ToHex x @ '','' @ r) = '','' @ r" for x r
    using comma notComma_ToHex by (auto simp: takeWhile_append dropWhile_append)
  show ?thesis unfolding toyUnmarshal_def Let_def body cut by (simp add: cut [simplified])
qed

interpretation toy_keys: key_files toy_key_lib
proof
  show "\<exists>j. MarshalIndent toy_key_lib (sealJSON (ToHex n) (ToHex c) (ToHex s)) = Some j \<and>
      Unmarshal toy_key_lib j = Some (sealJSON (ToHex n) (ToHex c) (ToHex s)) \<and> hd j = CHR ''{'' \<and> last j = CHR ''}''" for n c s
    using toyUnmarshal_text [of n c s] by (simp add: toy_key_lib_def toyMarshal_def sealJSON_def)
qed (simp_all add: toy_key_lib_def)

text \<open>
  C24 Keys survive their files: a key made with \<open>keygen\<close>, sealed with a passphrase, sealed again with
  another one and opened into a plain file is at every station the same key, and the files made before are
  still readable.
\<close>

theorem keygen_keeps_key:
  assumes "key_files lib"
    and "\<forall>x \<in> {p, q, r, t}. x \<noteq> [] \<and> dkNodes d x \<noteq> None" "\<forall>file. dkWritable d file"
    and "dkNodes d (p @ ''/'' @ PlainKey) = None" "dkNodes d (q @ ''/'' @ SealKey) = None"
      "dkNodes d (t @ ''/'' @ PlainKey) = None" "t \<noteq> p"
    and "good_sealing pass1 se1" "good_sealing pass2 se2"
  shows "\<exists>d1 d2 d3 d4. keygen lib 2 [] p (Some k) None se0 d = Some (Inr d1) \<and>
    keygen lib 4 p q None None se1 d1 = Some (Inr d2) \<and>
    keygen lib 5 q r None (Some pass1) se2 d2 = Some (Inr d3) \<and>
    keygen lib 3 r t None (Some pass2) se0 d3 = Some (Inr d4) \<and>
    RestorePKey lib p d4 = Inr k \<and> RestoreSKey lib (Some pass2) r d4 = Some (Inr k) \<and> RestorePKey lib t d4 = Inr k"
  by (rule key_files.key_life [OF assms])

definition demo_disk :: disk where
  "demo_disk = \<lparr>dkNodes = (\<lambda>x. if x \<in> set [''p'', ''q'', ''r'', ''t''] then Some Dir else None), dkWritable = (\<lambda>_. True)\<rparr>"

definition demo_sealing :: "byte \<Rightarrow> sealing" where
  "demo_sealing b = \<lparr>seTyped1 = Some (replicate 8 b), seTyped2 = Some (replicate 8 b),
     seRnd = (Some (replicate 32 1), Some (replicate 12 2))\<rparr>"

theorem keygen_keeps_key_witness:
  "\<exists>d1 d2 d3 d4. keygen toy_key_lib 2 [] ''p'' (Some [1, 2, 3]) None (demo_sealing 0) demo_disk = Some (Inr d1) \<and>
    keygen toy_key_lib 4 ''p'' ''q'' None None (demo_sealing 1) d1 = Some (Inr d2) \<and>
    keygen toy_key_lib 5 ''q'' ''r'' None (Some (replicate 8 1)) (demo_sealing 2) d2 = Some (Inr d3) \<and>
    keygen toy_key_lib 3 ''r'' ''t'' None (Some (replicate 8 2)) (demo_sealing 0) d3 = Some (Inr d4) \<and>
    RestorePKey toy_key_lib ''p'' d4 = Inr [1, 2, 3] \<and>
    RestoreSKey toy_key_lib (Some (replicate 8 2)) ''r'' d4 = Some (Inr [1, 2, 3]) \<and>
    RestorePKey toy_key_lib ''t'' d4 = Inr [1, 2, 3]"
  by (rule keygen_keeps_key [OF toy_keys.key_files_axioms])
    (simp_all add: demo_disk_def demo_sealing_def good_sealing_def saltLen_def PlainKey_def SealKey_def)

section \<open>Faults\<close>

text \<open>A key file with a short nonce ends the program, since the error of \<open>FromHex\<close> is dropped and \<open>Open\<close> panics.\<close>

lemma short_nonce_panics:
  assumes "key_files lib" "length (hexPrefix (acNonce aesCrypto)) \<noteq> 12"
    "kdDkLen kdf = dkLen" "kdN kdf = scryptN" "kdP kdf = scryptP" "kdR kdf = scryptR"
  shows "aesDecrypt lib pass kdf aesCrypto = None"
proof -
  obtain dk where dk: "ScryptKey lib pass (hexPrefix (kdSalt kdf)) scryptN scryptR scryptP dkLen = Some dk" "length dk = 32"
    using key_files.scrypt [OF assms(1)] by blast
  then obtain b g where "NewCipher lib dk = Some b" "NewGCM lib b = Some g" using key_files.aes_256 [OF assms(1)] by blast
  with dk(1) assms(2-) show ?thesis by (simp add: aesDecrypt_def Let_def)
qed

text \<open>\<open>ReNewSKey\<close> does not look for an existing file, so it replaces the sealed key it finds.\<close>

lemma renew_replaces_key:
  assumes "RestoreSKey lib typed s d = Some (Inr k)" "dkNodes d out = Some Dir"
    "genSKeyAndSaveIt lib se k (out @ ''/'' @ SealKey) d = Inr d'"
  shows "ReNewSKey lib typed se s out d = Some (Inr d')"
  using assms by (simp add: ReNewSKey_def AccessCheck_def withSKey_def)

end
