(* ===== verification/Client.thy ===== *)
theory Client
  imports Rpc HashFile Keys
begin

text \<open>
  The command-line client, \<open>src/cmd/client\<close>: its configuration, the upload of the hash of a file as a
  signed evidence with its proof of work, and the requests of its queries.  The JSON library and the
  transport to the node are functions; \<open>None\<close> is a panic, or a proof of work that is never found.
\<close>

section \<open>Configuration\<close>

record keyConfig =
  kcType :: int
  kcPath :: string

text \<open>The key is a pointer, nil when the file has none.\<close>

record client_config =
  ccServerIP :: string
  ccServerPort :: int
  ccScheme :: string
  ccIgnoreHidden :: int
  ccKey :: "keyConfig option"
  ccDifficulty :: string

datatype client_error =
    ClientKeyError key_error
  | ConfigReadFailed
  | ConfigParseFailed
  | InvalidIP
  | InvalidPort
  | InvalidProtocol
  | InvalidKeyType
  | NullDifficulty
  | DifficultyParseFailed
  | HashFileReadFailed
  | HashFileParseFailed
  | InvalidHashFile
  | HashHexFailed hex_error
  | InvalidHashLength
  | DescriptionError cp_error
  | InvalidEvidenceHash string
  | TransportFailed
  | HTTPStatus int
  | ResponseParseFailed

definition SealKeyType :: int where "SealKeyType = 2"
definition PlainKeyType :: int where "PlainKeyType = 1"

definition verifyConfig :: "(string \<Rightarrow> bytes option) \<Rightarrow> client_config \<Rightarrow> disk \<Rightarrow> (client_error + unit) option" where
  "verifyConfig parseIP c d =
     (if parseIP (ccServerIP c) = None then Some (Inl InvalidIP)
      else if ccServerPort c \<le> 0 \<or> ccServerPort c > 65535 then Some (Inl InvalidPort)
      else if ccScheme c \<noteq> ''http'' \<and> ccScheme c \<noteq> ''https'' then Some (Inl InvalidProtocol)
      else case ccKey c of
          None \<Rightarrow> None
        | Some key \<Rightarrow>
            Some (if kcType key \<noteq> SealKeyType \<and> kcType key \<noteq> PlainKeyType then Inl InvalidKeyType
              else case AccessCheck (kcPath key) d of
                  Inl e \<Rightarrow> Inl (ClientKeyError e)
                | Inr _ \<Rightarrow> if ccDifficulty c = [] then Inl NullDifficulty else Inr ()))"

definition parseConfig ::
  "(string \<Rightarrow> bytes option) \<Rightarrow> (string \<Rightarrow> client_config option) \<Rightarrow> string \<Rightarrow> disk \<Rightarrow> (client_error + client_config) option" where
  "parseConfig parseIP unmarshal path d =
     (case AccessCheck path d of
        Inl e \<Rightarrow> Some (Inl (ClientKeyError e))
      | Inr _ \<Rightarrow>
          (case dkNodes d path of
             Some (Plain text) \<Rightarrow>
               (case unmarshal text of
                  None \<Rightarrow> Some (Inl ConfigParseFailed)
                | Some conf \<Rightarrow> map_option (\<lambda>r. attempt r (\<lambda>_. Inr conf)) (verifyConfig parseIP conf d))
           | _ \<Rightarrow> Some (Inl ConfigReadFailed)))"

text \<open>\<open>strconv.ParseUint(s, 16, 32)\<close>.\<close>

fun hexVal :: "nat \<Rightarrow> string \<Rightarrow> nat option" where
  "hexVal acc [] = Some acc"
| "hexVal acc (c # cs) = (case fromHexChar c of None \<Rightarrow> None | Some v \<Rightarrow> hexVal (acc * 16 + v) cs)"

definition ParseTarget :: "string \<Rightarrow> u32 option" where
  "ParseTarget s =
     (if s = [] then None
      else case hexVal 0 s of None \<Rightarrow> None | Some v \<Rightarrow> if v < 2 ^ 32 then Some (word_of_nat v) else None)"

record 'priv httpClient =
  hcServerIP :: string
  hcServerPort :: string
  hcScheme :: string
  hcPrivKey :: 'priv
  hcDifficulty :: nat

definition initHTTPClient ::
  "('key, 'priv, 'block, 'aead) key_lib \<Rightarrow> bytes option \<Rightarrow> client_config \<Rightarrow> disk \<Rightarrow> (client_error + 'priv httpClient) option" where
  "initHTTPClient lib typed conf d =
     (case ccKey conf of
        None \<Rightarrow> None
      | Some key \<Rightarrow>
          map_option (\<lambda>r. case r of
              Inl e \<Rightarrow> Inl (ClientKeyError e)
            | Inr privKey \<Rightarrow>
                (case ParseTarget (ccDifficulty conf) of
                   None \<Rightarrow> Inl DifficultyParseFailed
                 | Some target \<Rightarrow>
                     Inr \<lparr>hcServerIP = ccServerIP conf, hcServerPort = intString (ccServerPort conf),
                          hcScheme = ccScheme conf, hcPrivKey = privKey, hcDifficulty = TargetToDiff target\<rparr>))
            (if kcType key = SealKeyType then RestoreSKey lib typed (kcPath key) d
             else Some (RestorePKey lib (kcPath key) d)))"

section \<open>Requests and responses\<close>

datatype outcome = Succeeded rpc_data | FailedWith string | BadRequest | UnknownCode int

definition responseHandle :: "HTTPResponse \<Rightarrow> outcome" where
  "responseHandle r =
     (if rsCode r = CodeSuccess then Succeeded (rsData r)
      else if rsCode r = CodeFailed then FailedWith (rsMessage r)
      else if rsCode r = CodeBadRequest then BadRequest
      else UnknownCode (rsCode r))"

definition clientGenRequest :: "string \<Rightarrow> string \<Rightarrow> (string \<times> string) list \<Rightarrow> bytes option \<Rightarrow> request" where
  "clientGenRequest httpMethod path params postData =
     \<lparr>rqMethod = httpMethod, rqPath = path, rqParams = params, rqBody = postData\<rparr>"

text \<open>What comes back: no response, or a status with the parsed body.\<close>

type_synonym transport = "(int \<times> HTTPResponse option) option"

definition parseResponse :: "transport \<Rightarrow> client_error + HTTPResponse" where
  "parseResponse t =
     (case t of
        None \<Rightarrow> Inl TransportFailed
      | Some (status, body) \<Rightarrow>
          if status \<noteq> 200 then Inl (HTTPStatus status)
          else case body of None \<Rightarrow> Inl ResponseParseFailed | Some r \<Rightarrow> Inr r)"

definition clientOutcome :: "transport \<Rightarrow> client_error + outcome" where
  "clientOutcome t = attempt (parseResponse t) (\<lambda>r. Inr (responseHandle r))"

section \<open>Uploading\<close>

text \<open>The error of \<open>Sign\<close> is dropped, which leaves the evidence unsigned.\<close>

definition generateEvidence ::
  "('sig, 'key, 'priv) btcec \<Rightarrow> hasher \<Rightarrow> 'priv httpClient \<Rightarrow> string \<Rightarrow> string \<Rightarrow> (client_error + Evidence) option" where
  "generateEvidence ec Hash hc hash description =
     (case FromHex hash of
        Inl e \<Rightarrow> Some (Inl (HashHexFailed e))
      | Inr h \<Rightarrow>
          if length h \<noteq> HashLength then Some (Inl InvalidHashLength)
          else case VerifyDescription (strBytes description) of
              Inl e \<Rightarrow> Some (Inl (DescriptionError e))
            | Inr _ \<Rightarrow>
                (let pubKeyB = SerializeCompressed ec (PubKeyOf ec (hcPrivKey hc));
                     evd0 = NewEvidenceV1 h (strBytes description) pubKeyB;
                     evd = (case EvidenceSign ec Hash evd0 (hcPrivKey hc) of None \<Rightarrow> evd0 | Some e \<Rightarrow> e)
                 in map_option (\<lambda>(pow, evd', pc). Inr evd') (mineEvidence Hash (hcDifficulty hc) evd)))"

text \<open>The evidence as it is sent; the other fields keep their zero values.\<close>

definition evidenceJSON :: "Evidence \<Rightarrow> EvidenceJSON" where
  "evidenceJSON evd =
     \<lparr>ejVersion = CoreProtocolV1, ejHash = ToHex (eHash evd), ejDescription = bytesStr (eDescription evd),
      ejPubKey = ToHex (ePubKey evd), ejSig = ToHex (eSig evd), ejNonce = eNonce evd, ejHeight = 0,
      ejBlockHash = [], ejTime = 0\<rparr>"

definition uploadRequest :: "(EvidenceJSON option list \<Rightarrow> bytes) \<Rightarrow> Evidence \<Rightarrow> request" where
  "uploadRequest marshal evd =
     clientGenRequest ''POST'' (version1Path @ ''/evidence/upload'') [] (Some (marshal [Some (evidenceJSON evd)]))"

text \<open>\<open>send\<close> is the exchange with the node.\<close>

definition uploadEvidence ::
  "(EvidenceJSON option list \<Rightarrow> bytes) \<Rightarrow> (request \<Rightarrow> transport) \<Rightarrow> Evidence \<Rightarrow> client_error + outcome" where
  "uploadEvidence marshal send evd = clientOutcome (send (uploadRequest marshal evd))"

definition uploadHashFile ::
  "('sig, 'key, 'priv) btcec \<Rightarrow> hasher \<Rightarrow> (string \<Rightarrow> hashFile option) \<Rightarrow> (EvidenceJSON option list \<Rightarrow> bytes) \<Rightarrow>
   (request \<Rightarrow> transport) \<Rightarrow> 'priv httpClient \<Rightarrow> string \<Rightarrow> string \<Rightarrow> disk \<Rightarrow> (client_error + outcome) option" where
  "uploadHashFile ec Hash unmarshal marshal send hc path description d =
     (case AccessCheck path d of
        Inl e \<Rightarrow> Some (Inl (ClientKeyError e))
      | Inr _ \<Rightarrow>
          (case dkNodes d path of
             Some (Plain text) \<Rightarrow>
               (case unmarshal text of
                  None \<Rightarrow> Some (Inl HashFileParseFailed)
                | Some hf \<Rightarrow>
                    if hfName hf = [] \<or> hfHash hf = [] then Some (Inl InvalidHashFile)
                    else map_option (\<lambda>r. attempt r (uploadEvidence marshal send))
                      (generateEvidence ec Hash hc (hfHash hf) description))
           | _ \<Rightarrow> Some (Inl HashFileReadFailed)))"

section \<open>Queries\<close>

definition clientQueryAccount ::
  "('sig, 'key, 'priv) btcec \<Rightarrow> (request \<Rightarrow> transport) \<Rightarrow> 'priv httpClient \<Rightarrow> client_error + outcome" where
  "clientQueryAccount ec send hc =
     clientOutcome (send (clientGenRequest ''GET'' (version1Path @ ''/account/query'') [(''id'', PrivKeyToID ec (hcPrivKey hc))] None))"

definition clientQueryEvidence ::
  "(string list \<Rightarrow> bytes) \<Rightarrow> (request \<Rightarrow> transport) \<Rightarrow> string \<Rightarrow> client_error + outcome" where
  "clientQueryEvidence marshal send params =
     (let hexHashs = splitAt CHR '','' params
      in case find (\<lambda>hash. case FromHex hash of Inl _ \<Rightarrow> True | Inr h \<Rightarrow> length h \<noteq> HashLength) hexHashs of
           Some hash \<Rightarrow> Inl (InvalidEvidenceHash hash)
         | None \<Rightarrow> clientOutcome (send (clientGenRequest ''POST'' (version1Path @ ''/evidence/query'') [] (Some (marshal hexHashs)))))"

definition clientQueryBlocks :: "(request \<Rightarrow> transport) \<Rightarrow> string \<Rightarrow> client_error + outcome" where
  "clientQueryBlocks send params =
     clientOutcome (send (clientGenRequest ''GET'' (version1Path @ ''/block/query-via-range'') [(''range'', params)] None))"

section \<open>An upload reaches the pool\<close>

lemma toCPEvidence_evidenceJSON:
  assumes "eVersion evd = CoreProtocolV1" "VerifyDescription (eDescription evd) = Inr ()"
  shows "toCPEvidence (evidenceJSON evd) = Some evd"
  using assms by (simp add: toCPEvidence_def evidenceJSON_def EvidenceSetNonce_def NewEvidenceV1_def
      del: VerifyDescription_ok)

lemma toCPEvidences_evidenceJSON:
  assumes "\<And>e. e \<in> set evds \<Longrightarrow> eVersion e = CoreProtocolV1 \<and> VerifyDescription (eDescription e) = Inr ()"
  shows "toCPEvidences (map (\<lambda>e. Some (evidenceJSON e)) evds) acc = Some (Some (acc @ evds))"
  using assms by (induction evds arbitrary: acc) (simp_all add: toCPEvidence_evidenceJSON)


text \<open>What a client generates, the node verifies.\<close>

lemma generateEvidence_verifies:
  assumes "signatures ec" and signs: "\<And>h. SignHash ec (hcPrivKey hc) h \<noteq> None"
    and gen: "generateEvidence ec Hash hc hash description = Some (Inr evd)"
  shows "EvidenceVerify ec Hash evd = Inr ()" "EvidenceGetPow Hash evd < hcDifficulty hc"
    "FromHex hash = Inr (eHash evd)" "eDescription evd = strBytes description"
proof -
  obtain h where h: "FromHex hash = Inr h" "length h = 32" "RuneCountInString (strBytes description) \<le> 140"
    using gen by (auto simp: generateEvidence_def HashLength_def split: sum.splits if_splits)
  define evd0 where "evd0 = NewEvidenceV1 h (strBytes description) (SerializeCompressed ec (PubKeyOf ec (hcPrivKey hc)))"
  obtain s where s: "SignHash ec (hcPrivKey hc) (getSignContentHash Hash evd0) = Some s" using signs by blast
  have v: "VerifyDescription (strBytes description) = Inr ()" using h(3) by simp
  obtain pow pc where "mineEvidence Hash (hcDifficulty hc) (evd0\<lparr>eSig := s\<rparr>) = Some (pow, evd, pc)"
    using gen h(1,2) s by (auto simp: generateEvidence_def v HashLength_def EvidenceSign_def evd0_def Let_def)
  from mineEvidence_sound [OF this] obtain n where m: "EvidenceGetPow Hash evd < hcDifficulty hc"
      "evd = EvidenceSetNonce (evd0\<lparr>eSig := s\<rparr>) n" by auto
  have digest: "getSignContentHash Hash evd = getSignContentHash Hash evd0"
    by (simp add: m(2) getSignContentHash_def EvidenceSetNonce_def)
  from signatures.sign_verifies [OF assms(1) s] signatures.parse_compressed [OF assms(1)]
    signatures.compressed_length [OF assms(1)]
  show "EvidenceVerify ec Hash evd = Inr ()"
    using h(2,3) digest by (auto simp: EvidenceVerify_ok m(2) EvidenceSetNonce_def evd0_def NewEvidenceV1_def PubKeyBytesLenCompressed_def)
  show "EvidenceGetPow Hash evd < hcDifficulty hc" by (rule m(1))
  show "FromHex hash = Inr (eHash evd)" "eDescription evd = strBytes description"
    using h(1) by (simp_all add: m(2) EvidenceSetNonce_def evd0_def NewEvidenceV1_def)
qed

text \<open>The answer of the node as the client gets it, its JSON form read back.\<close>

definition replyTransport :: "reply \<Rightarrow> transport" where
  "replyTransport r = (case r of StatusNotFound \<Rightarrow> Some (404, None) | StatusOK resp \<Rightarrow> Some (200, Some resp))"

text \<open>
  C21 Uploads: a client whose difficulty is at most that of the chain generates an evidence for a hash
  that is neither in the longest branch nor in the database, and its request arrives with its JSON form
  readable; the pool is in any state it can reach.  If the channel to the network has room, the node
  answers with success and puts exactly this evidence into its pool and into that channel, and touches
  nothing else; a pool with fewer than \<open>evdsCacheSize\<close> evidences keeps all of them, a full one may
  lose some (the new one perhaps), which weigh at least as much as every evidence that stays, and the
  answer is success all the same.  If the channel is full, the request is not answered.  The evidence
  is for the hash and the description that were given.
\<close>

theorem upload_reaches_pool:
  assumes "signatures (envEc env)" and "\<And>h. SignHash (envEc env) (hcPrivKey hc) h \<noteq> None"
    and gen: "generateEvidence (envEc env) (envHash env) hc hash description = Some (Inr evd)"
    and diff: "hcDifficulty hc \<le> EvidenceDifficultyLimit (envParams env)"
    and fresh: "branchGetEvidence (longest c) (eHash evd) = None" "\<not> HasEvidence (envBdg env) (eHash evd) (cDb c)"
    and json: "jlUploadEvds json (marshal [Some (evidenceJSON evd)]) = Some [Some (evidenceJSON evd)]"
    and pool: "(pool_step (envEc env) (envHash env) limit)\<^sup>*\<^sup>* (newEvidencePool key) (rpPool st)"
  shows "(if length (epBroadcast (rpPool st)) < evdsCacheSize
      then \<exists>r es lost. serve env c now json (uploadRequest marshal evd) st =
          Some (r, st\<lparr>rpPool := (rpPool st)\<lparr>epEvds := es, epBroadcast := epBroadcast (rpPool st) @ [[evd]]\<rparr>\<rparr>) \<and>
        uploadEvidence marshal (\<lambda>_. replyTransport r) evd = Inr (Succeeded NoData) \<and>
        mset es + lost = add_mset \<lparr>weEvidence = evd, weWeight = EvidenceGetPow (envHash env) evd\<rparr> (mset (epEvds (rpPool st))) \<and>
        (length (epEvds (rpPool st)) < evdsCacheSize \<longrightarrow> lost = {#}) \<and>
        (\<forall>x \<in># lost. \<forall>y \<in> set es. weWeight y \<le> weWeight x)
      else serve env c now json (uploadRequest marshal evd) st = None) \<and>
    FromHex hash = Inr (eHash evd) \<and> eDescription evd = strBytes description"
proof -
  note made = generateEvidence_verifies [OF assms(1-3)]
  have verify: "VerifyEvidence env c evd = Inr ()"
    using made(1,2) diff fresh by (simp add: VerifyEvidence_def verifyEvidence_def powCheck_def)
  let ?we = "\<lparr>weEvidence = evd, weWeight = EvidenceGetPow (envHash env) evd\<rparr>" and ?p = "rpPool st"
  have sorted: "sorted (map weWeight (epEvds ?p))" using pool_reachable_inv [OF pool] by (simp add: pool_inv_def)
  obtain es lost where es: "poolInsert ?we (epEvds ?p) = Some es" "mset es + lost = add_mset ?we (mset (epEvds ?p))"
      "length (epEvds ?p) < evdsCacheSize \<Longrightarrow> lost = {#}" "\<forall>x \<in># lost. \<forall>y \<in> set es. weWeight y \<le> weWeight x"
    by (rule poolInsert_loses [OF sorted, of ?we]) blast
  let ?new = "?p\<lparr>epEvds := es, epBroadcast := epBroadcast ?p @ [[evd]]\<rparr>"
  have add: "UploadEvidence env c [evd] ?p = (if length (epBroadcast ?p) < evdsCacheSize then Some (Inr ?new) else None)"
    using verify es(1) by (simp add: UploadEvidence_def addEvidence_def)
  have conv: "toCPEvidences [Some (evidenceJSON evd)] [] = Some (Some [evd])"
    using toCPEvidence_evidenceJSON [of evd] made(1) by (simp add: EvidenceVerify_ok)
  have route: "route (version1Path @ ''/evidence/upload'') = Some UploadEvds" by (simp add: route_def handlers_def)
  have "serve env c now json (uploadRequest marshal evd) st =
      (if length (epBroadcast ?p) < evdsCacheSize then Some (StatusOK successResponse, st\<lparr>rpPool := ?new\<rparr>) else None)"
    using json add conv route by (simp add: serve_def uploadRequest_def clientGenRequest_def uploadEvds_def)
  moreover have "uploadEvidence marshal (\<lambda>_. replyTransport (StatusOK successResponse)) evd = Inr (Succeeded NoData)"
    by (simp add: uploadEvidence_def clientOutcome_def parseResponse_def replyTransport_def responseHandle_def
        successResponse_def doResponse_def)
  ultimately show ?thesis using es(2-4) made(3,4) by auto
qed

definition demo_client :: "unit httpClient" where
  "demo_client = \<lparr>hcServerIP = ''127.0.0.1'', hcServerPort = ''23666'', hcScheme = ''http'', hcPrivKey = (),
     hcDifficulty = TargetToDiff 0xFFFFFFFF\<rparr>"

lemma demo_generate:
  "\<exists>evd. generateEvidence toy_ec pad_hash demo_client (ToHex (replicate 32 5)) ''hi'' = Some (Inr evd) \<and>
     eHash evd = replicate 32 5"
proof -
  let ?e = "(NewEvidenceV1 (replicate 32 5) (strBytes ''hi'') (SerializeCompressed toy_ec ()))
      \<lparr>eSig := getSignContentHash pad_hash (NewEvidenceV1 (replicate 32 5) (strBytes ''hi'') (SerializeCompressed toy_ec ()))\<rparr>"
  have "EvidenceGetPow pad_hash ?e < TargetToDiff 0xFFFFFFFF"
    using be_nat_pad
    by (simp add: EvidenceGetPow_def EvidenceGetSerializedHash_def MarshalEvidence_def NewEvidenceV1_def
        CoreProtocolV1_def putU8_def)
  then have "\<exists>pc. mineEvidence pad_hash (TargetToDiff 0xFFFFFFFF) ?e = Some (EvidenceGetPow pad_hash ?e, ?e, pc)"
    by (rule_tac mineEvidence_step [of pad_hash "TargetToDiff 0xFFFFFFFF" ?e]) (simp add: powLoop.simps)
  then obtain pc where m: "mineEvidence pad_hash (TargetToDiff 0xFFFFFFFF) ?e = Some (EvidenceGetPow pad_hash ?e, ?e, pc)" ..
  have "RuneCountInString (strBytes ''hi'') \<le> 140"
    using RuneCountInString_le [of "strBytes ''hi''"] by (simp add: strBytes_def)
  then have "VerifyDescription (strBytes ''hi'') = Inr ()" by simp
  then show ?thesis using m
    by (simp add: generateEvidence_def demo_client_def HashLength_def EvidenceSign_def toy_ec_def Let_def NewEvidenceV1_def
        del: VerifyDescription_ok)
qed

theorem upload_reaches_pool_witness:
  "\<exists>s evd r es. generateEvidence toy_ec pad_hash demo_client (ToHex (replicate 32 5)) ''hi'' = Some (Inr evd) \<and>
     serve demo_env (demo_c0 s) (\<lambda>_. (0, 0)) \<lparr>jlUploadEvds = (\<lambda>_. Some [Some (evidenceJSON evd)]), jlUploadRaw = (\<lambda>_. True),
         jlQueryEvidence = (\<lambda>_. None)\<rparr> (uploadRequest (\<lambda>_. []) evd) \<lparr>rpPool = newEvidencePool (), rpCache = newQCache\<rparr> =
       Some (r, \<lparr>rpPool = (newEvidencePool ())\<lparr>epEvds := es, epBroadcast := [[evd]]\<rparr>, rpCache = newQCache\<rparr>) \<and>
     mset es = {#\<lparr>weEvidence = evd, weWeight = EvidenceGetPow pad_hash evd\<rparr>#}"
proof -
  obtain s where s: "\<forall>x. length x = 32 \<longrightarrow> \<not> HasEvidence mem_badger x s" using demo_starts by blast
  obtain evd where evd: "generateEvidence toy_ec pad_hash demo_client (ToHex (replicate 32 5)) ''hi'' = Some (Inr evd)"
      "eHash evd = replicate 32 5" using demo_generate by blast
  let ?json = "\<lparr>jlUploadEvds = (\<lambda>_. Some [Some (evidenceJSON evd)]), jlUploadRaw = (\<lambda>_. True), jlQueryEvidence = (\<lambda>_. None)\<rparr>"
    and ?st = "\<lparr>rpPool = newEvidencePool (), rpCache = newQCache\<rparr>"
  have "branchGetEvidence (longest (demo_c0 s)) (eHash evd) = None"
    by (simp add: demo_c0_def demo_branch_def branchGetEvidence_def)
  moreover have "\<not> HasEvidence (envBdg demo_env) (eHash evd) (cDb (demo_c0 s))"
    using s evd(2) by (simp add: demo_c0_def)
  moreover have "(pool_step (envEc demo_env) (envHash demo_env) 0)\<^sup>*\<^sup>* (newEvidencePool ()) (rpPool ?st)" by simp
  moreover have "\<And>h. SignHash (envEc demo_env) (hcPrivKey demo_client) h \<noteq> None" by (simp add: toy_ec_def)
  ultimately have "\<exists>r es. serve demo_env (demo_c0 s) (\<lambda>_. (0, 0)) ?json (uploadRequest (\<lambda>_. []) evd) ?st =
      Some (r, ?st\<lparr>rpPool := (rpPool ?st)\<lparr>epEvds := es, epBroadcast := epBroadcast (rpPool ?st) @ [[evd]]\<rparr>\<rparr>) \<and>
      mset es = {#\<lparr>weEvidence = evd, weWeight = EvidenceGetPow pad_hash evd\<rparr>#}"
    using upload_reaches_pool [of demo_env demo_client "ToHex (replicate 32 5)" "''hi''" evd "demo_c0 s" ?json "\<lambda>_. []" 0 "()" ?st]
      evd(1) toy.signatures_axioms
    by (simp add: demo_client_def newEvidencePool_def evdsCacheSize_def) blast
  with evd(1) show ?thesis by (simp add: newEvidencePool_def) blast
qed

end
