(* ===== verification/LoopMode.thy ===== *)
theory LoopMode
  imports Prelude
begin

text \<open>
  The start and stop of long-running goroutines, \<open>src/utils/lm.go\<close>, and the UDP server
  \<open>src/utils/udp.go\<close> that uses it.  The channel \<open>D\<close> is the number of tokens in it, the wait group its
  counter.  Each goroutine of the owner is \<open>Spawned\<close> until it has called \<open>Add\<close>, \<open>Looping\<close> until it has
  taken a token, and \<open>Finished\<close> once it has called \<open>Done\<close>; the caller of \<open>Stop\<close> has a program counter.
\<close>

section \<open>The helper\<close>

record loopMode =
  lmWorking :: bool
  lmRoutinesNum :: nat
  lmWaitGroup :: nat
  lmD :: nat

definition NewLoop :: "int \<Rightarrow> loopMode option" where
  "NewLoop routines =
     (if routines \<le> 0 then None
      else Some \<lparr>lmWorking = False, lmRoutinesNum = nat routines, lmWaitGroup = 0, lmD = 0\<rparr>)"

definition StartWorking :: "loopMode \<Rightarrow> loopMode" where
  "StartWorking l = l\<lparr>lmWorking := True\<rparr>"

definition lmAdd :: "loopMode \<Rightarrow> loopMode" where
  "lmAdd l = l\<lparr>lmWaitGroup := lmWaitGroup l + 1\<rparr>"

text \<open>\<open>Done\<close> below zero panics.\<close>

definition lmDone :: "loopMode \<Rightarrow> loopMode option" where
  "lmDone l = (if lmWaitGroup l = 0 then None else Some (l\<lparr>lmWaitGroup := lmWaitGroup l - 1\<rparr>))"

definition IsWorking :: "loopMode \<Rightarrow> bool" where
  "IsWorking l = lmWorking l"

text \<open>The stages of \<open>Stop\<close>: the tokens are sent one by one, a send waits while the channel is full.\<close>

datatype stopper = NotCalled | Sending nat | Waiting | Returned bool

definition stopCall :: "loopMode \<Rightarrow> loopMode \<times> stopper" where
  "stopCall l = (if \<not> lmWorking l then (l, Returned False) else (l\<lparr>lmWorking := False\<rparr>, Sending 0))"

definition stopRound :: "loopMode \<Rightarrow> stopper \<Rightarrow> (loopMode \<times> stopper) option" where
  "stopRound l pc =
     (case pc of
        Sending i \<Rightarrow>
          (if i < lmRoutinesNum l
           then (if lmD l < lmRoutinesNum l then Some (l\<lparr>lmD := lmD l + 1\<rparr>, Sending (i + 1)) else None)
           else Some (l, Waiting))
      | Waiting \<Rightarrow> (if lmWaitGroup l = 0 then Some (l, Returned True) else None)
      | _ \<Rightarrow> None)"

section \<open>The owner and its goroutines\<close>

datatype routine = Spawned | Looping | Finished

record owner =
  owLoop :: loopMode
  owStop :: stopper
  owRoutines :: "routine list"

text \<open>
  The owner has created the helper, started as many goroutines as it announced and called
  \<open>StartWorking\<close>.  \<open>None\<close> is a panic.
\<close>

definition started :: "nat \<Rightarrow> owner \<Rightarrow> bool" where
  "started n s \<longleftrightarrow> (\<exists>l. NewLoop (int n) = Some l \<and>
     s = \<lparr>owLoop = StartWorking l, owStop = NotCalled, owRoutines = replicate n Spawned\<rparr>)"

inductive owner_step :: "owner \<Rightarrow> owner option \<Rightarrow> bool" where
  enter: "i < length (owRoutines s) \<Longrightarrow> owRoutines s ! i = Spawned \<Longrightarrow>
    owner_step s (Some (s\<lparr>owLoop := lmAdd (owLoop s), owRoutines := (owRoutines s)[i := Looping]\<rparr>))"
| leave: "i < length (owRoutines s) \<Longrightarrow> owRoutines s ! i = Looping \<Longrightarrow> 0 < lmD (owLoop s) \<Longrightarrow>
    owner_step s (map_option (\<lambda>l. s\<lparr>owLoop := l, owRoutines := (owRoutines s)[i := Finished]\<rparr>)
      (lmDone ((owLoop s)\<lparr>lmD := lmD (owLoop s) - 1\<rparr>)))"
| call: "owStop s \<in> {NotCalled, Returned b} \<Longrightarrow> stopCall (owLoop s) = (l, pc) \<Longrightarrow>
    owner_step s (Some (s\<lparr>owLoop := l, owStop := pc\<rparr>))"
| proceed: "stopRound (owLoop s) (owStop s) = Some (l, pc) \<Longrightarrow> owner_step s (Some (s\<lparr>owLoop := l, owStop := pc\<rparr>))"

inductive owner_runs :: "nat \<Rightarrow> owner \<Rightarrow> bool" for n where
  init: "started n s \<Longrightarrow> owner_runs n s"
| step: "owner_runs n s \<Longrightarrow> owner_step s (Some s') \<Longrightarrow> owner_runs n s'"

section \<open>The counters\<close>

definition routines :: "routine \<Rightarrow> owner \<Rightarrow> nat" where
  "routines r s = length (filter (\<lambda>x. x = r) (owRoutines s))"

fun sentTokens :: "nat \<Rightarrow> stopper \<Rightarrow> nat" where
  "sentTokens n NotCalled = 0"
| "sentTokens n (Sending i) = i"
| "sentTokens n _ = n"

definition owner_inv :: "nat \<Rightarrow> owner \<Rightarrow> bool" where
  "owner_inv n s \<longleftrightarrow> length (owRoutines s) = n \<and> lmRoutinesNum (owLoop s) = n \<and>
     lmWaitGroup (owLoop s) = routines Looping s \<and>
     lmWorking (owLoop s) = (owStop s = NotCalled) \<and>
     lmD (owLoop s) + routines Finished s = sentTokens n (owStop s) \<and> sentTokens n (owStop s) \<le> n"

lemma count_update:
  "i < length (owRoutines s) \<Longrightarrow>
   routines r (s\<lparr>owLoop := l, owRoutines := (owRoutines s)[i := x]\<rparr>) + (if owRoutines s ! i = r then 1 else 0) =
   routines r s + (if x = r then 1 else 0)"
  using length_filter_update [of i "owRoutines s" "\<lambda>x. x = r" x] by (simp add: routines_def)

lemma count_frame [simp]:
  "routines r (s\<lparr>owLoop := l, owStop := pc\<rparr>) = routines r s"
  by (simp add: routines_def)

lemma count_total: "routines Spawned s + routines Looping s + routines Finished s = length (owRoutines s)"
proof -
  have "length (filter (\<lambda>x. x = Spawned) xs) + length (filter (\<lambda>x. x = Looping) xs) + length (filter (\<lambda>x. x = Finished) xs)
      = length xs" for xs
    by (induction xs) (auto intro: routine.exhaust)
  then show ?thesis by (simp add: routines_def)
qed

lemma count_pos: "i < length (owRoutines s) \<Longrightarrow> owRoutines s ! i = r \<Longrightarrow> 0 < routines r s"
  by (auto simp: routines_def filter_empty_conv in_set_conv_nth)

lemma started_inv: "started n s \<Longrightarrow> owner_inv n s"
  by (auto simp: started_def NewLoop_def StartWorking_def owner_inv_def routines_def split: if_splits)

lemma owner_step_inv:
  assumes "owner_step s r" "owner_inv n s"
  shows "\<exists>s'. r = Some s' \<and> owner_inv n s'"
  using assms
proof (cases rule: owner_step.cases)
  case (enter i)
  then show ?thesis
    using assms(2) count_update [OF enter(2), where r = Looping and x = Looping and l = "lmAdd (owLoop s)"]
      count_update [OF enter(2), where r = Finished and x = Looping and l = "lmAdd (owLoop s)"]
    by (simp add: owner_inv_def lmAdd_def)
next
  case (leave i)
  let ?l = "(owLoop s)\<lparr>lmD := lmD (owLoop s) - 1, lmWaitGroup := lmWaitGroup (owLoop s) - 1\<rparr>"
  show ?thesis
    using assms(2) leave count_pos [OF leave(2,3)] count_update [OF leave(2), where r = Looping and x = Finished and l = ?l]
      count_update [OF leave(2), where r = Finished and x = Finished and l = ?l]
    by (simp add: owner_inv_def lmDone_def)
next
  case (call b l pc)
  then show ?thesis using assms(2) by (auto simp: owner_inv_def stopCall_def routines_def split: if_splits)
next
  case (proceed l pc)
  then show ?thesis using assms(2)
    by (auto simp: owner_inv_def stopRound_def routines_def split: stopper.splits if_splits)
qed

lemma owner_runs_inv: "owner_runs n s \<Longrightarrow> owner_inv n s"
  by (induction rule: owner_runs.induct) (auto intro: started_inv dest: owner_step_inv)

section \<open>Stopping\<close>

text \<open>What is left to do: every step either leaves the state as it is or makes this smaller.\<close>

fun stopWork :: "nat \<Rightarrow> stopper \<Rightarrow> nat" where
  "stopWork n NotCalled = n + 4"
| "stopWork n (Sending i) = n + 3 - i"
| "stopWork n Waiting = 2"
| "stopWork n (Returned b) = (if b then 1 else 0)"

definition owner_work :: "nat \<Rightarrow> owner \<Rightarrow> nat" where
  "owner_work n s = 2 * routines Spawned s + routines Looping s + stopWork n (owStop s)"

lemma owner_step_work:
  assumes "owner_step s (Some s')" "owner_inv n s" "s' \<noteq> s"
  shows "owner_work n s' < owner_work n s"
  using assms(1)
proof (cases rule: owner_step.cases)
  case (enter i)
  let ?l = "lmAdd (owLoop s)"
  show ?thesis
    using enter count_pos [OF enter(2,3)] count_update [OF enter(2), where r = Spawned and x = Looping and l = ?l]
      count_update [OF enter(2), where r = Looping and x = Looping and l = ?l]
    by (simp add: owner_work_def)
next
  case (leave i)
  from leave(1) obtain l where l: "s' = s\<lparr>owLoop := l, owRoutines := (owRoutines s)[i := Finished]\<rparr>"
    by (auto simp: eq_commute [of "Some s'"])
  show ?thesis
    using leave count_pos [OF leave(2,3)] count_update [OF leave(2), where r = Spawned and x = Finished and l = l]
      count_update [OF leave(2), where r = Looping and x = Finished and l = l]
    by (simp add: owner_work_def l)
next
  case (call b l pc)
  have "owStop s \<noteq> Returned False"
  proof
    assume r: "owStop s = Returned False"
    then have "s' = s" using call assms(2) by (cases s) (auto simp: owner_inv_def stopCall_def)
    with assms(3) show False ..
  qed
  with call show ?thesis
    using assms(2) by (auto simp: owner_work_def owner_inv_def stopCall_def routines_def split: if_splits)
next
  case (proceed l pc)
  then show ?thesis
    using assms(2) by (auto simp: owner_work_def owner_inv_def stopRound_def routines_def split: stopper.splits if_splits)
qed

lemma stuck_stopped:
  assumes inv: "owner_inv n s" and stuck: "\<And>s'. owner_step s (Some s') \<Longrightarrow> s' = s"
  shows "owStop s = Returned False" "\<forall>r \<in> set (owRoutines s). r = Finished"
proof -
  have changed: "owRoutines s ! i \<noteq> x \<Longrightarrow> i < length (owRoutines s) \<Longrightarrow> s\<lparr>owLoop := l, owRoutines := (owRoutines s)[i := x]\<rparr> \<noteq> s"
    for i x l by (metis owner.select_convs(3) owner.surjective owner.update_convs(1,3) nth_list_update_eq)
  have spawned: "owRoutines s ! i \<noteq> Spawned" if "i < length (owRoutines s)" for i
    using stuck [OF owner_step.enter [OF that]] changed [OF _ that] by force
  have idle: "owRoutines s ! i = Looping \<Longrightarrow> lmD (owLoop s) = 0" if "i < length (owRoutines s)" for i
  proof (rule ccontr)
    assume i: "owRoutines s ! i = Looping" "lmD (owLoop s) \<noteq> 0"
    have "0 < lmWaitGroup (owLoop s)" using inv count_pos [OF that i(1)] by (simp add: owner_inv_def)
    then obtain l where "lmDone ((owLoop s)\<lparr>lmD := lmD (owLoop s) - 1\<rparr>) = Some l" by (simp add: lmDone_def)
    then have "s\<lparr>owLoop := l, owRoutines := (owRoutines s)[i := Finished]\<rparr> = s"
      using owner_step.leave [OF that i(1)] i(2) stuck by simp
    then show False using changed [OF _ that, of Finished l] i(1) by simp
  qed
  have moved: "s\<lparr>owLoop := l, owStop := pc\<rparr> \<noteq> s" if "pc \<noteq> owStop s" for l pc
    using that by (metis owner.select_convs(2) owner.surjective owner.update_convs(1,2))
  have total: "routines Spawned s + routines Looping s + routines Finished s = n"
    using count_total [of s] inv by (simp add: owner_inv_def)
  have none: "routines Looping s = 0" if "sentTokens n (owStop s) = n"
  proof (rule ccontr)
    assume "routines Looping s \<noteq> 0"
    then obtain i where i: "i < length (owRoutines s)" "owRoutines s ! i = Looping"
      by (auto simp: routines_def filter_empty_conv in_set_conv_nth)
    have "lmD (owLoop s) \<noteq> 0" using \<open>routines Looping s \<noteq> 0\<close> total that inv by (simp add: owner_inv_def)
    with idle [OF i] show False by simp
  qed
  show stop: "owStop s = Returned False"
  proof (cases "owStop s")
    case NotCalled
    have "stopCall (owLoop s) = ((owLoop s)\<lparr>lmWorking := False\<rparr>, Sending 0)"
      using inv NotCalled by (simp add: stopCall_def owner_inv_def)
    moreover have "owStop s \<in> {NotCalled, Returned False}" using NotCalled by simp
    ultimately have "s\<lparr>owLoop := (owLoop s)\<lparr>lmWorking := False\<rparr>, owStop := Sending 0\<rparr> = s"
      by (intro stuck owner_step.call)
    then show ?thesis using moved NotCalled by (metis stopper.distinct(1))
  next
    case (Sending i)
    have "stopRound (owLoop s) (owStop s) \<noteq> None" using inv Sending by (auto simp: stopRound_def owner_inv_def)
    then obtain l pc where "stopRound (owLoop s) (owStop s) = Some (l, pc)" by auto
    moreover from this have "pc \<noteq> owStop s" using Sending by (auto simp: stopRound_def split: if_splits)
    ultimately show ?thesis using stuck [OF owner_step.proceed] moved by blast
  next
    case Waiting
    then have "stopRound (owLoop s) (owStop s) = Some (owLoop s, Returned True)"
      using none inv by (simp add: stopRound_def owner_inv_def)
    then show ?thesis using stuck [OF owner_step.proceed] moved Waiting by (metis stopper.distinct(11))
  next
    case (Returned b)
    have "\<not> lmWorking (owLoop s)" using inv Returned by (simp add: owner_inv_def)
    then have "stopCall (owLoop s) = (owLoop s, Returned False)" by (simp add: stopCall_def)
    moreover have "owStop s \<in> {NotCalled, Returned b}" using Returned by simp
    ultimately have "s\<lparr>owLoop := owLoop s, owStop := Returned False\<rparr> = s" by (intro stuck owner_step.call)
    then show ?thesis using moved by metis
  qed
  show "\<forall>r \<in> set (owRoutines s). r = Finished"
  proof
    fix r assume r: "r \<in> set (owRoutines s)"
    then obtain i where i: "i < length (owRoutines s)" "owRoutines s ! i = r" by (auto simp: in_set_conv_nth)
    have "routines Looping s = 0" using none stop by simp
    then have "r \<noteq> Looping" using count_pos [OF i(1)] i(2) by auto
    with spawned [OF i(1)] i(2) show "r = Finished" by (cases r) auto
  qed
qed

text \<open>
  C26 Stopping: the goroutines of an owner and a \<open>Stop\<close> never panic, \<open>Stop\<close> never blocks on the channel,
  every step that changes the state brings the end nearer, and where nothing can change any more
  \<open>Stop\<close> has returned and every goroutine has left its loop.  When \<open>Stop\<close> returns true no
  goroutine is inside its loop, and there is a token left for each that has not begun.
\<close>

theorem stop_ends_goroutines:
  assumes "owner_runs n s"
  shows "\<not> owner_step s None \<and>
    (\<forall>i. owStop s = Sending i \<longrightarrow> stopRound (owLoop s) (owStop s) \<noteq> None) \<and>
    (\<forall>s'. owner_step s (Some s') \<longrightarrow> s' \<noteq> s \<longrightarrow> owner_work n s' < owner_work n s) \<and>
    ((\<forall>s'. owner_step s (Some s') \<longrightarrow> s' = s) \<longrightarrow>
      owStop s = Returned False \<and> (\<forall>r \<in> set (owRoutines s). r = Finished)) \<and>
    (\<forall>l. owStop s = Waiting \<longrightarrow> stopRound (owLoop s) Waiting = Some (l, Returned True) \<longrightarrow>
      routines Looping s = 0 \<and> lmD (owLoop s) = routines Spawned s)"
proof -
  have inv: "owner_inv n s" by (rule owner_runs_inv [OF assms])
  have total: "routines Spawned s + routines Looping s + routines Finished s = n"
    using count_total [of s] inv by (simp add: owner_inv_def)
  have "\<not> owner_step s None" using owner_step_inv [OF _ inv] by blast
  moreover have "\<forall>i. owStop s = Sending i \<longrightarrow> stopRound (owLoop s) (owStop s) \<noteq> None"
    using inv by (auto simp: stopRound_def owner_inv_def)
  moreover have "\<forall>l. owStop s = Waiting \<longrightarrow> stopRound (owLoop s) Waiting = Some (l, Returned True) \<longrightarrow>
      routines Looping s = 0 \<and> lmD (owLoop s) = routines Spawned s"
    using inv total by (auto simp: stopRound_def owner_inv_def split: if_splits)
  ultimately show ?thesis using owner_step_work [OF _ inv] stuck_stopped [OF inv] by blast
qed

theorem stop_ends_goroutines_witness:
  "\<not> owner_step \<lparr>owLoop = \<lparr>lmWorking = True, lmRoutinesNum = 2, lmWaitGroup = 0, lmD = 0\<rparr>, owStop = NotCalled,
     owRoutines = [Spawned, Spawned]\<rparr> None"
proof -
  have "owner_runs 2 \<lparr>owLoop = \<lparr>lmWorking = True, lmRoutinesNum = 2, lmWaitGroup = 0, lmD = 0\<rparr>, owStop = NotCalled,
      owRoutines = [Spawned, Spawned]\<rparr>"
    by (rule owner_runs.init) (simp add: started_def NewLoop_def StartWorking_def numeral_2_eq_2)
  from stop_ends_goroutines [OF this] show ?thesis by blast
qed

section \<open>A Stop that returns early\<close>

text \<open>
  \<open>Add\<close> is called by the goroutine itself.  A \<open>Stop\<close> that comes before a goroutine was scheduled
  returns true while it has yet to begin, so that it still enters its loop after the owner has cleaned up.
\<close>

lemma stop_may_return_early:
  "\<exists>s. owner_runs 1 s \<and> owStop s = Returned True \<and> owRoutines s = [Looping]"
proof -
  let ?l = "\<lambda>w g d. \<lparr>lmWorking = w, lmRoutinesNum = 1, lmWaitGroup = g, lmD = d\<rparr>"
  let ?s = "\<lambda>w g d pc r. \<lparr>owLoop = ?l w g d, owStop = pc, owRoutines = [r]\<rparr>"
  have 0: "owner_runs 1 (?s True 0 0 NotCalled Spawned)"
    by (rule owner_runs.init) (simp add: started_def NewLoop_def StartWorking_def)
  have "owner_step (?s True 0 0 NotCalled Spawned) (Some (?s False 0 0 (Sending 0) Spawned))"
    using owner_step.call [of "?s True 0 0 NotCalled Spawned" False "?l False 0 0" "Sending 0"] by (simp add: stopCall_def)
  with 0 have 1: "owner_runs 1 (?s False 0 0 (Sending 0) Spawned)" by (rule owner_runs.step)
  have "owner_step (?s False 0 0 (Sending 0) Spawned) (Some (?s False 0 1 (Sending 1) Spawned))"
    using owner_step.proceed [of "?s False 0 0 (Sending 0) Spawned" "?l False 0 1" "Sending 1"] by (simp add: stopRound_def)
  with 1 have 2: "owner_runs 1 (?s False 0 1 (Sending 1) Spawned)" by (rule owner_runs.step)
  have "owner_step (?s False 0 1 (Sending 1) Spawned) (Some (?s False 0 1 Waiting Spawned))"
    using owner_step.proceed [of "?s False 0 1 (Sending 1) Spawned" "?l False 0 1" Waiting] by (simp add: stopRound_def)
  with 2 have 3: "owner_runs 1 (?s False 0 1 Waiting Spawned)" by (rule owner_runs.step)
  have "owner_step (?s False 0 1 Waiting Spawned) (Some (?s False 0 1 (Returned True) Spawned))"
    using owner_step.proceed [of "?s False 0 1 Waiting Spawned" "?l False 0 1" "Returned True"] by (simp add: stopRound_def)
  with 3 have 4: "owner_runs 1 (?s False 0 1 (Returned True) Spawned)" by (rule owner_runs.step)
  have "owner_step (?s False 0 1 (Returned True) Spawned) (Some (?s False 1 1 (Returned True) Looping))"
    using owner_step.enter [of 0 "?s False 0 1 (Returned True) Spawned"] by (simp add: lmAdd_def)
  with 4 have "owner_runs 1 (?s False 1 1 (Returned True) Looping)" by (rule owner_runs.step)
  then show ?thesis by (intro exI [of _ "?s False 1 1 (Returned True) Looping"]) simp
qed

section \<open>The UDP server\<close>

definition udpRecvQSize :: nat where "udpRecvQSize = 1024"
definition udpRecvBufferSize :: nat where "udpRecvBufferSize = 1024"
definition udpSendQSize :: nat where "udpSendQSize = 1024"

type_synonym 'addr udpPacket = "bytes \<times> 'addr"

text \<open>\<open>udClosed\<close> is whether the connection was closed; the first goroutine receives, the second sends.\<close>

record 'addr udpServer =
  udRecvQ :: "'addr udpPacket list"
  udSendQ :: "'addr udpPacket list"
  udOwner :: owner
  udClosed :: bool

text \<open>The outcome of \<open>ReadFromUDP\<close>: a datagram longer than the buffer is cut.\<close>

datatype 'addr udp_read = ReadTimeout | ReadFailed | ReadDatagram bytes 'addr

text \<open>\<open>Start\<close> returns false when the address cannot be bound.\<close>

definition udpStart :: "bool \<Rightarrow> 'addr udpServer option" where
  "udpStart bound =
     (if \<not> bound then None
      else map_option (\<lambda>l. \<lparr>udRecvQ = [], udSendQ = [],
          udOwner = \<lparr>owLoop = StartWorking l, owStop = NotCalled, owRoutines = [Spawned, Spawned]\<rparr>, udClosed = False\<rparr>)
        (NewLoop 2))"

definition udpSend :: "'addr udpPacket \<Rightarrow> 'addr udpServer \<Rightarrow> 'addr udpServer" where
  "udpSend packet u = (if length (udSendQ u) < udpSendQSize then u\<lparr>udSendQ := udSendQ u @ [packet]\<rparr> else u)"

definition udpRecvRound :: "'addr udp_read \<Rightarrow> 'addr udpServer \<Rightarrow> 'addr udpServer" where
  "udpRecvRound r u =
     (case r of
        ReadDatagram packet addr \<Rightarrow>
          (let pkt = (take udpRecvBufferSize packet, addr)
           in if length (udRecvQ u) < udpRecvQSize then u\<lparr>udRecvQ := udRecvQ u @ [pkt]\<rparr> else u)
      | _ \<Rightarrow> u)"

text \<open>A round of the sender, with the packet it hands to the socket.\<close>

definition udpSendRound :: "'addr udpServer \<Rightarrow> ('addr udpServer \<times> 'addr udpPacket) option" where
  "udpSendRound u =
     (case udSendQ u of [] \<Rightarrow> None | packet # rest \<Rightarrow> Some (u\<lparr>udSendQ := rest\<rparr>, packet))"

datatype 'addr udp_event = Queued "'addr udpPacket" | Arrived bytes 'addr | Taken "'addr udpPacket" | Sent "'addr udpPacket"

text \<open>
  What happens to the server, with the events of interest: packets handed to \<open>Send\<close> and accepted,
  datagrams that were read and kept, packets taken from the receive channel, packets sent.
  \<open>select\<close> in the receiver reads from the socket only when there is no token.
\<close>

inductive udp_step :: "'addr udpServer \<Rightarrow> 'addr udp_event list \<Rightarrow> 'addr udpServer \<Rightarrow> bool" where
  send: "udpSend packet u = u' \<Longrightarrow> udp_step u (if u' = u then [] else [Queued packet]) u'"
| recv: "owRoutines (udOwner u) ! 0 = Looping \<Longrightarrow> lmD (owLoop (udOwner u)) = 0 \<Longrightarrow>
    udpRecvRound r u = u' \<Longrightarrow>
    udp_step u (case r of ReadDatagram p a \<Rightarrow> if u' = u then [] else [Arrived p a] | _ \<Rightarrow> []) u'"
| take: "udRecvQ u = packet # rest \<Longrightarrow> udp_step u [Taken packet] (u\<lparr>udRecvQ := rest\<rparr>)"
| transmit: "owRoutines (udOwner u) ! 1 = Looping \<Longrightarrow> udpSendRound u = Some (u', packet) \<Longrightarrow> udp_step u [Sent packet] u'"
| own: "owner_step (udOwner u) (Some ow) \<Longrightarrow> udp_step u [] (u\<lparr>udOwner := ow\<rparr>)"
| close: "owStop (udOwner u) = Returned True \<Longrightarrow> udp_step u [] (u\<lparr>udClosed := True\<rparr>)"

inductive udp_runs :: "'addr udp_event list \<Rightarrow> 'addr udpServer \<Rightarrow> bool" where
  init: "udpStart True = Some u \<Longrightarrow> udp_runs [] u"
| step: "udp_runs es u \<Longrightarrow> udp_step u e u' \<Longrightarrow> udp_runs (es @ e) u'"

definition queued :: "'addr udp_event list \<Rightarrow> 'addr udpPacket list" where
  "queued es = concat (map (\<lambda>e. case e of Queued p \<Rightarrow> [p] | _ \<Rightarrow> []) es)"

definition sent :: "'addr udp_event list \<Rightarrow> 'addr udpPacket list" where
  "sent es = concat (map (\<lambda>e. case e of Sent p \<Rightarrow> [p] | _ \<Rightarrow> []) es)"

definition arrived :: "'addr udp_event list \<Rightarrow> 'addr udpPacket list" where
  "arrived es = concat (map (\<lambda>e. case e of Arrived p a \<Rightarrow> [(take udpRecvBufferSize p, a)] | _ \<Rightarrow> []) es)"

definition taken :: "'addr udp_event list \<Rightarrow> 'addr udpPacket list" where
  "taken es = concat (map (\<lambda>e. case e of Taken p \<Rightarrow> [p] | _ \<Rightarrow> []) es)"

definition udp_inv :: "'addr udp_event list \<Rightarrow> 'addr udpServer \<Rightarrow> bool" where
  "udp_inv es u \<longleftrightarrow> queued es = sent es @ udSendQ u \<and> arrived es = taken es @ udRecvQ u \<and>
     length (udSendQ u) \<le> udpSendQSize \<and> length (udRecvQ u) \<le> udpRecvQSize \<and> owner_runs 2 (udOwner u)"

lemmas udp_lists = queued_def sent_def arrived_def taken_def

lemma udp_step_inv:
  assumes "udp_step u e u'" "udp_inv es u"
  shows "udp_inv (es @ e) u'"
  using assms
proof (cases rule: udp_step.cases)
  case (send packet)
  then show ?thesis using assms(2) by (auto simp: udp_inv_def udp_lists udpSend_def)
next
  case (recv r)
  then show ?thesis using assms(2)
    by (auto simp: udp_inv_def udp_lists udpRecvRound_def Let_def split: udp_read.splits)
next
  case (own ow)
  then show ?thesis using assms(2) by (auto simp: udp_inv_def udp_lists intro: owner_runs.step)
qed (auto simp: udp_inv_def udp_lists udpSendRound_def split: list.splits)

text \<open>
  The UDP server: in every reachable state the packets sent and those still queued are the
  packets that were accepted, in their order; the datagrams taken and those waiting are those that arrived
  while there was room, cut to 1024 bytes; and neither queue exceeds its size.
\<close>

theorem udp_queues:
  assumes "udp_runs es u"
  shows "queued es = sent es @ udSendQ u \<and> arrived es = taken es @ udRecvQ u \<and>
    length (udSendQ u) \<le> udpSendQSize \<and> length (udRecvQ u) \<le> udpRecvQSize"
proof -
  have "udp_inv es u" using assms
  proof (induction rule: udp_runs.induct)
    case (init u)
    then have "started 2 (udOwner u)"
      by (auto simp: udpStart_def started_def NewLoop_def numeral_2_eq_2)
    with init show ?case
      by (auto simp: udp_inv_def udp_lists udpStart_def NewLoop_def intro: owner_runs.init)
  qed (rule udp_step_inv)
  then show ?thesis by (simp add: udp_inv_def)
qed


theorem udp_queues_witness:
  "\<exists>u. udp_runs [Queued ([1, 2], 0 :: nat)] u \<and> udSendQ u = [([1, 2], 0)]"
proof -
  obtain u0 :: "nat udpServer" where u0: "udpStart True = Some u0" by (simp add: udpStart_def NewLoop_def)
  let ?u = "udpSend ([1, 2], 0) u0"
  have q: "udSendQ u0 = []" using u0 by (auto simp: udpStart_def NewLoop_def)
  then have u: "udSendQ ?u = [([1, 2], 0)]" by (simp add: udpSend_def udpSendQSize_def)
  with q have "?u \<noteq> u0" by auto
  then have "udp_step u0 [Queued ([1, 2], 0)] ?u" using udp_step.send [OF refl, of u0 "([1, 2], 0)"] by simp
  with udp_runs.init [OF u0] have r: "udp_runs ([] @ [Queued ([1, 2], 0)]) ?u" by (rule udp_runs.step)
  from udp_queues [OF r] u have "queued [Queued ([1, 2], 0 :: nat)] = sent [Queued ([1, 2], 0)] @ udSendQ ?u" by simp
  with r u show ?thesis by auto
qed

end
