(* ===== verification/CoreNode.thy ===== *)
theory CoreNode
  imports Rpc
begin

text \<open>
  The composed node: \<open>NewCore\<close> and \<open>Stop\<close> of \<open>src/core/core.go\<close>, with the goroutines of chain, pool,
  network and scheduler over the chain and the pool they share, and the handlers of the HTTP server.
  The chain and the pool are those of the network's state; the scheduler's are set before each of its
  turns.  \<open>None\<close> is the end of the program or a call that does not return.
\<close>

section \<open>State\<close>

text \<open>The parts in the order in which \<open>Stop\<close> stops them.\<close>

datatype part = Scheduling | Pooling | Networking | Chaining

text \<open>\<open>coReady\<close>: the scheduler has received from \<open>InitFinishC\<close>.\<close>

record ('priv, 's) core =
  coNet :: "('priv, 's) net"
  coSched :: "('priv, 's) scheduler option"
  coReady :: bool
  coCache :: qCache
  coRunning :: "part list"

record 'priv coreConfig =
  ccNodeType :: u8
  ccPrivKey :: 'priv
  ccParallelMine :: nat
  ccChain :: ChainConfig

abbreviation coChain :: "('priv, 's) core \<Rightarrow> 's chain" where
  "coChain co \<equiv> nChain (coNet co)"

abbreviation coPool :: "('priv, 's) core \<Rightarrow> 'priv evidencePool" where
  "coPool co \<equiv> nPool (coNet co)"

text \<open>
  The result has the environment with the parameters that \<open>Init\<close> sets.  An error of \<open>Init\<close> ends the
  program.
\<close>

definition NewCore ::
  "('sig, 'key, 'priv, 's) chain_env \<Rightarrow> 'priv coreConfig \<Rightarrow> 's \<Rightarrow>
   (('sig, 'key, 'priv, 's) chain_env \<times> ('priv, 's) core) option" where
  "NewCore env0 conf db =
     (case Init env0 (ccChain conf) (NewChain db) of
        None \<Rightarrow> None
      | Some (env, Inl _) \<Rightarrow> None
      | Some (env, Inr chain) \<Rightarrow>
          (let pool = newEvidencePool (ccPrivKey conf);
               n = newNet chain pool (ccNodeType conf);
               mining = (ccParallelMine conf \<noteq> 0);
               pubKey = PubKeyOf (envEc env) (ccPrivKey conf)
           in Some (env,
             \<lparr>coNet = n,
              coSched = (if mining then Some (newScheduler pool chain (SerializeCompressed (envEc env) pubKey) (ccParallelMine conf))
                         else None),
              coReady = False, coCache = newQCache,
              coRunning = (if mining then [Scheduling] else []) @ [Pooling, Networking, Chaining]\<rparr>)))"

section \<open>Turns of the goroutines\<close>

definition netTurn :: "('priv, 's) core \<Rightarrow> ('priv, 's) net option \<Rightarrow> ('priv, 's) core option" where
  "netTurn co r = map_option (\<lambda>n. co\<lparr>coNet := n\<rparr>) r"

definition chainTurn :: "('priv, 's) core \<Rightarrow> 's chain option \<Rightarrow> ('priv, 's) core option" where
  "chainTurn co r = netTurn co (map_option (\<lambda>c. (coNet co)\<lparr>nChain := c\<rparr>) r)"

definition poolTurn :: "('priv, 's) core \<Rightarrow> 'priv evidencePool option \<Rightarrow> ('priv, 's) core option" where
  "poolTurn co r = netTurn co (map_option (\<lambda>p. (coNet co)\<lparr>nPool := p\<rparr>) r)"

text \<open>What the scheduler sees at the start of a turn, and the node after it.\<close>

definition schedView :: "('priv, 's) core \<Rightarrow> ('priv, 's) scheduler \<Rightarrow> ('priv, 's) scheduler" where
  "schedView co s = s\<lparr>sdPool := coPool co, sdChain := coChain co, sdSent := []\<rparr>"

definition schedTurn ::
  "('sig, 'key, 'priv, 's) chain_env \<Rightarrow> gotime \<Rightarrow> ('priv, 's) core \<Rightarrow> ('priv, 's) scheduler option \<Rightarrow> ('priv, 's) core option" where
  "schedTurn env now co r =
     map_option (\<lambda>s. co\<lparr>coSched := Some s, coNet := foldl (\<lambda>n b. broadcastBlock (envHash env) now b n)
       ((coNet co)\<lparr>nPool := sdPool s, nChain := sdChain s\<rparr>) (sdSent s)\<rparr>) r"

text \<open>\<open>schedule\<close> waits for the end of the initial synchronisation.\<close>

definition schedReady :: "('priv, 's) core \<Rightarrow> ('priv, 's) core" where
  "schedReady co = co\<lparr>coReady := True, coNet := (coNet co)\<lparr>nInitFinish := False\<rparr>\<rparr>"

text \<open>A request to the HTTP server.\<close>

definition coreServe ::
  "('sig, 'key, 'priv, 's) chain_env \<Rightarrow> (nat \<Rightarrow> gotime) \<Rightarrow> json_lib \<Rightarrow> request \<Rightarrow> ('priv, 's) core \<Rightarrow>
   (reply \<times> ('priv, 's) core) option" where
  "coreServe env now json req co =
     map_option (\<lambda>(r, st). (r, co\<lparr>coNet := (coNet co)\<lparr>nPool := rpPool st\<rparr>, coCache := rpCache st\<rparr>))
       (serve env (coChain co) now json req \<lparr>rpPool = coPool co, rpCache = coCache co\<rparr>)"

text \<open>\<open>Stop\<close> stops one part after the other; the goroutines of the others go on meanwhile.\<close>

definition stopPart :: "('priv, 's) core \<Rightarrow> ('priv, 's) core" where
  "stopPart co =
     (case coRunning co of
        [] \<Rightarrow> co
      | p # ps \<Rightarrow> co\<lparr>coRunning := ps, coSched := (if p = Scheduling then map_option onStop (coSched co) else coSched co)\<rparr>)"

definition coreStop :: "('priv, 's) core \<Rightarrow> ('priv, 's) core" where
  "coreStop co = (stopPart ^^ length (coRunning co)) co"

inductive core_step ::
  "('sig, 'key, 'priv, 's) chain_env \<Rightarrow> ('priv, 's) core \<Rightarrow> ('priv, 's) core option \<Rightarrow> bool" for env where
  core_recv: "Networking \<in> set (coRunning co) \<Longrightarrow>
    core_step env co (netTurn co (handleRecvPacket env now pd (coNet co)))"
| core_sync: "Networking \<in> set (coRunning co) \<Longrightarrow> (\<And>xs. mset (order xs) = mset xs) \<Longrightarrow>
    core_step env co (netTurn co (netSync (envHash env) now order (coNet co)))"
| core_evds: "Networking \<in> set (coRunning co) \<Longrightarrow> epBroadcast (coPool co) = evds # rest \<Longrightarrow>
    core_step env co (netTurn co (Some (broadcastEvidence (envHash env) now evds
      ((coNet co)\<lparr>nPool := (coPool co)\<lparr>epBroadcast := rest\<rparr>\<rparr>))))"
| core_cleanup: "Networking \<in> set (coRunning co) \<Longrightarrow> core_step env co (netTurn co (Some (cleanup now (coNet co))))"
| core_sent: "Networking \<in> set (coRunning co) \<Longrightarrow> nSendQ (coNet co) = d # rest \<Longrightarrow>
    core_step env co (netTurn co (Some ((coNet co)\<lparr>nSendQ := rest\<rparr>)))"
| core_maintain: "Chaining \<in> set (coRunning co) \<Longrightarrow> core_step env co (chainTurn co (maintain env (coChain co)))"
| core_pending: "Chaining \<in> set (coRunning co) \<Longrightarrow> cPending (coChain co) = blocks # rest \<Longrightarrow>
    core_step env co (chainTurn co (addBlocks env clock coin blocks False ((coChain co)\<lparr>cPending := rest\<rparr>)))"
| core_raw: "Pooling \<in> set (coRunning co) \<Longrightarrow> epRaws (coPool co) = raw # raws \<Longrightarrow>
    core_step env co (poolTurn co (calculateRaw (envEc env) (envHash env) (EvidenceDifficultyLimit (envParams env)) raw
      ((coPool co)\<lparr>epRaws := raws\<rparr>)))"
| core_ready: "Scheduling \<in> set (coRunning co) \<Longrightarrow> \<not> coReady co \<Longrightarrow> nInitFinish (coNet co) \<Longrightarrow>
    core_step env co (Some (schedReady co))"
| core_round: "Scheduling \<in> set (coRunning co) \<Longrightarrow> coReady co \<Longrightarrow> coSched co = Some s \<Longrightarrow> sdJob s = None \<Longrightarrow>
    (\<And>xs. mset (shuffle xs) = mset xs) \<Longrightarrow>
    core_step env co (schedTurn env now co (startRound env shuffle clock (schedView co s)))"
| core_search: "coSched co = Some s \<Longrightarrow> sdJob s = Some (d, m) \<Longrightarrow> mine_step (envHash env) d m m' \<Longrightarrow>
    core_step env co (Some (co\<lparr>coSched := Some (s\<lparr>sdJob := Some (d, m')\<rparr>)\<rparr>))"
| core_passive: "Scheduling \<in> set (coRunning co) \<Longrightarrow> coSched co = Some s \<Longrightarrow> sdJob s \<noteq> None \<Longrightarrow> cNotify (coChain co) \<Longrightarrow>
    core_step env co (schedTurn env now co (Some (onPassiveChange (schedView co s))))"
| core_result: "Scheduling \<in> set (coRunning co) \<Longrightarrow> coSched co = Some s \<Longrightarrow> sdJob s = Some (d, m) \<Longrightarrow>
    jobResult m = Some result \<Longrightarrow>
    core_step env co (schedTurn env now co (onResult env clock coin later result (schedView co s)))"
| core_http: "coreServe env now json req co = Some (r, co') \<Longrightarrow> core_step env co (Some co')"
| core_stop: "core_step env co (Some (stopPart co))"

inductive core_runs ::
  "('sig, 'key, 'priv, 's) chain_env \<Rightarrow> ('priv, 's) core \<Rightarrow> ('priv, 's) core \<Rightarrow> bool" for env co0 where
  core_start: "core_runs env co0 co0"
| core_next: "core_runs env co0 co \<Longrightarrow> core_step env co (Some co') \<Longrightarrow> core_runs env co0 co'"

section \<open>What the parts see of a run of the node\<close>

abbreviation chain_moves :: "('sig, 'key, 'priv, 's) chain_env \<Rightarrow> 's chain \<Rightarrow> 's chain \<Rightarrow> bool" where
  "chain_moves env \<equiv> (\<lambda>c c'. chain_step env c (Some c'))\<^sup>*\<^sup>*"

abbreviation pool_moves ::
  "('sig, 'key, 'priv, 's) chain_env \<Rightarrow> 'priv evidencePool \<Rightarrow> 'priv evidencePool \<Rightarrow> bool" where
  "pool_moves env \<equiv> (pool_step (envEc env) (envHash env) (EvidenceDifficultyLimit (envParams env)))\<^sup>*\<^sup>*"

definition net_moves :: "('sig, 'key, 'priv, 's) chain_env \<Rightarrow> ('priv, 's) net \<Rightarrow> ('priv, 's) net \<Rightarrow> bool" where
  "net_moves env n n' \<longleftrightarrow> chain_moves env (nChain n) (nChain n') \<and> pool_moves env (nPool n) (nPool n')"

lemma net_moves_same: "nChain n' = nChain n \<Longrightarrow> nPool n' = nPool n \<Longrightarrow> net_moves env n n'"
  by (simp add: net_moves_def)

lemma chain_moves_step: "chain_step env c (Some c') \<Longrightarrow> chain_moves env c c'"
  by (rule r_into_rtranclp)

lemma pool_moves_step:
  "pool_step (envEc env) (envHash env) (EvidenceDifficultyLimit (envParams env)) p p' \<Longrightarrow> pool_moves env p p'"
  by (rule r_into_rtranclp)

subsection \<open>The network\<close>

lemma broadcast_same [simp]:
  "nChain (broadcast Hash now d n) = nChain n" "nPool (broadcast Hash now d n) = nPool n"
  by (simp_all add: broadcast_def Let_def)

lemma broadcasts_same:
  "nChain (foldl (\<lambda>n b. broadcastBlock Hash now b n) n bs) = nChain n \<and>
   nPool (foldl (\<lambda>n b. broadcastBlock Hash now b n) n bs) = nPool n"
  by (induction bs arbitrary: n) (simp_all add: broadcastBlock_def)

lemma requests_same:
  "nChain (foldl (\<lambda>m h. broadcast Hash now (f h) m) n hs) = nChain n \<and>
   nPool (foldl (\<lambda>m h. broadcast Hash now (f h) m) n hs) = nPool n"
  by (induction hs arbitrary: n) simp_all

lemma netSend_same: "netSend d p n = Some n' \<Longrightarrow> nChain n' = nChain n \<and> nPool n' = nPool n"
  by (auto simp: netSend_def split: if_splits)

lemma requestLoop_same:
  "requestLoop now rs queries up n = Some (u, n') \<Longrightarrow> nChain n' = nChain n \<and> nPool n' = nPool n"
proof (induction now rs queries up n rule: requestLoop.induct)
  case (2 now peerID resp resps queryFilter alreadyUptodate n)
  let ?flag = "ToHex (srEnd resp) @ ''-'' @ decimal (unat (srHeightDiff resp))"
  consider "IsUptodate resp" | "\<not> IsUptodate resp" "?flag \<in> set queryFilter"
    | "\<not> IsUptodate resp" "?flag \<notin> set queryFilter" by blast
  then show ?case
  proof cases
    case 3
    obtain n1 where n1: "netSend (MarshalBlockRequest (NewBlockRequest (srBase resp) (srEnd resp) (nLightNode n))) peerID n = Some n1"
      using "2.prems" 3 by (auto split: bind_splits)
    show ?thesis
      using "2.IH"(3) [OF 3(1) refl 3(2), of n1] "2.prems" 3 n1 netSend_same [OF n1] by (simp add: Let_def)
  qed (use "2.IH" "2.prems" in auto)
qed simp

lemma respondLoop_same: "respondLoop p bs n = Some n' \<Longrightarrow> nChain n' = nChain n \<and> nPool n' = nPool n"
proof (induction p bs n rule: respondLoop.induct)
  case (1 p bs n)
  show ?case
  proof (cases "length bs > 0")
    case True
    let ?k = "if length bs < maxBlocksNumInResponse then length bs else maxBlocksNumInResponse"
    obtain n1 where n1: "netSend (MarshalBlockResponse (NewBlockResponse (take ?k bs))) p n = Some n1"
        "respondLoop p (drop ?k bs) n1 = Some n'"
      using 1(2) True by (subst (asm) respondLoop.simps) (auto simp: Let_def split: bind_splits)
    then show ?thesis using 1(1) [OF True refl n1] netSend_same [OF n1(1)] by simp
  qed (use 1(2) in \<open>simp add: respondLoop.simps\<close>)
qed

lemma netSync_same: "netSync Hash now order n = Some n' \<Longrightarrow> nChain n' = nChain n \<and> nPool n' = nPool n"
  by (auto simp: netSync_def syncRequest_def requests_same Let_def split: if_splits bind_splits dest!: requestLoop_same)

lemma netAddBlocks_moves: "netAddBlocks env bs n = Some n' \<Longrightarrow> net_moves env n n'"
proof -
  assume "netAddBlocks env bs n = Some n'"
  then obtain c where c: "AddBlocks env (\<lambda>_. (0, 0)) (\<lambda>_. True) bs False (nChain n) = Some c" "n' = n\<lparr>nChain := c\<rparr>"
    by (auto simp: netAddBlocks_def)
  have "chain_step env (nChain n) (Some c)" using chain_step.step_add [of env "nChain n" "\<lambda>_. (0, 0)" "\<lambda>_. True" bs False] c(1) by simp
  then show ?thesis using c(2) by (simp add: net_moves_def chain_moves_step)
qed

lemma relayBroadcast_same:
  "relayBroadcast Hash now d n = (relayed, n') \<Longrightarrow> nChain n' = nChain n \<and> nPool n' = nPool n"
  by (auto simp: relayBroadcast_def Let_def split: if_splits)

lemma addEvidence_moves: "addEvidence (envHash env) evds fromBroadcast p = Some p' \<Longrightarrow> pool_moves env p p'"
  by (rule pool_moves_step) (rule pool_step.step_add)

lemma net_moves_from: "net_moves env n1 n' \<Longrightarrow> nChain n1 = nChain n \<and> nPool n1 = nPool n \<Longrightarrow> net_moves env n n'"
  by (simp add: net_moves_def)

lemma handlers_move:
  "handleSyncRequest env r peer n = Some n' \<Longrightarrow> net_moves env n n'"
  "net_moves env n (handleSyncResponse sr peer n)"
  "handleBlocksRequest env brq peer n = Some n' \<Longrightarrow> net_moves env n n'"
  "handleBlocksResponse env now bs peer n = Some n' \<Longrightarrow> net_moves env n n'"
  "handleBlockBroadcast env now d b n = Some n' \<Longrightarrow> net_moves env n n'"
  "handleEvidenceBroadcase env now d eb n = Some n' \<Longrightarrow> net_moves env n n'"
proof -
  show "net_moves env n n'" if "handleSyncRequest env r peer n = Some n'"
    using that by (auto simp: handleSyncRequest_def intro!: net_moves_same dest: netSend_same
        split: bind_splits sum.splits chain_error.splits prod.splits)
  show "net_moves env n (handleSyncResponse sr peer n)" by (simp add: handleSyncResponse_def net_moves_same)
  show "net_moves env n n'" if "handleBlocksRequest env brq peer n = Some n'"
    using that by (auto simp: handleBlocksRequest_def intro!: net_moves_same dest: respondLoop_same
        split: bind_splits sum.splits)
  show "net_moves env n n'" if h: "handleBlocksResponse env now bs peer n = Some n'"
  proof (cases "takeResponse now bs peer (nWaiting n)")
    case (Pair add waiting)
    then show ?thesis
      using h by (cases add) (auto simp: handleBlocksResponse_def net_moves_same dest: netAddBlocks_moves
          simp: net_moves_def)
  qed
  show "net_moves env n n'" if "handleBlockBroadcast env now d b n = Some n'"
    using that by (auto simp: handleBlockBroadcast_def net_moves_same dest!: relayBroadcast_same
        intro: net_moves_from [OF netAddBlocks_moves] split: prod.splits bool.splits)
  show "net_moves env n n'" if "handleEvidenceBroadcase env now d eb n = Some n'"
    using that by (auto simp: handleEvidenceBroadcase_def net_moves_def dest!: relayBroadcast_same
        dest: addEvidence_moves split: prod.splits bool.splits)
qed

lemma decoded_moves:
  "decoded dec data f n = Some n' \<Longrightarrow> (\<And>x n'. f x = Some n' \<Longrightarrow> net_moves env n n') \<Longrightarrow> net_moves env n n'"
  by (auto simp: decoded_def net_moves_same split: sum.splits prod.splits)

lemma if_Some: "(if b then x else y) = Some z \<Longrightarrow> (x = Some z \<Longrightarrow> P) \<Longrightarrow> (y = Some z \<Longrightarrow> P) \<Longrightarrow> P"
  by (simp split: if_splits)

lemma recv_moves: "handleRecvPacket env now pd n = Some n' \<Longrightarrow> net_moves env n n'"
  unfolding handleRecvPacket_def Let_def
  by (elim decoded_moves if_Some) (auto intro: handlers_move net_moves_same)

subsection \<open>The scheduler and the server\<close>

lemma collectLoop_moves: "pool_moves env pool (snd (collectLoop env c n pool evds))"
proof (induction env c n pool evds rule: collectLoop.induct)
  case (1 env c n pool evds)
  obtain oe pool' where nx: "nextEvidence pool = (oe, pool')" by (cases "nextEvidence pool")
  then have p: "pool_moves env pool pool'" by (intro pool_moves_step pool_step.step_next)
  show ?case
  proof (cases "n < BlockSize")
    case True
    show ?thesis
    proof (cases oe)
      case (Some e)
      show ?thesis
        using 1(1) [OF True nx [symmetric] Some] 1(2) [OF True nx [symmetric] Some]
        by (cases "VerifyEvidence env c e")
          (auto simp: collectLoop.simps [of env c n pool] True nx Some intro: rtranclp_trans [OF p])
    qed (use p in \<open>simp add: collectLoop.simps [of env c n pool] True nx\<close>)
  qed (simp add: collectLoop.simps [of env c n pool])
qed

lemma startRound_moves:
  assumes "startRound env shuffle now s = Some s'"
  shows "sdChain s' = sdChain s \<and> pool_moves env (sdPool s) (sdPool s') \<and> sdSent s' = sdSent s"
proof -
  obtain evs pool where g: "schedGetEvidence env shuffle (sdChain s) (sdPool s) = (evs, pool)"
    by (cases "schedGetEvidence env shuffle (sdChain s) (sdPool s)")
  then have "pool_moves env (sdPool s) pool"
    using collectLoop_moves [of env "sdPool s" "sdChain s" 0 "[]"] by (auto simp: schedGetEvidence_def split: prod.splits)
  then show ?thesis using assms g by (auto simp: startRound_def Let_def split: bind_splits if_splits)
qed

lemma onResult_moves:
  assumes "onResult env clock coin now r s = Some s'"
  shows "chain_moves env (sdChain s) (sdChain s') \<and> sdPool s' = sdPool s"
proof (cases "mrFound r")
  case True
  then obtain b where "AddBlocks env clock coin [b] True (sdChain s) = Some (sdChain s')" "sdPool s' = sdPool s"
    using assms by (auto simp: onResult_def Let_def split: bind_splits)
  then show ?thesis using chain_step.step_add [of env "sdChain s" clock coin "[b]" True] by (simp add: chain_moves_step)
qed (use assms in \<open>auto simp: onResult_def\<close>)

lemma UploadEvidence_moves: "UploadEvidence env c evds p = Some (Inr p') \<Longrightarrow> pool_moves env p p'"
  by (auto simp: UploadEvidence_def split: sum.splits intro: addEvidence_moves)

lemma UploadEvidenceRaw_moves: "UploadEvidenceRaw evds p = Inr p' \<Longrightarrow> pool_moves env p p'"
  by (auto simp: UploadEvidenceRaw_def split: option.splits intro: pool_moves_step pool_step.step_add_raw)

lemma serve_moves:
  assumes "serve env c now json req st = Some (r, st')"
  shows "pool_moves env (rpPool st) (rpPool st')"
proof -
  have up: "pool_moves env p p'" if "uploadEvds env c um body p = Some (resp, p')" for um body p resp p'
    using that by (auto simp: uploadEvds_def split: option.splits sum.splits upload_error.splits intro: UploadEvidence_moves)
  have raw: "pool_moves env p p'" if "uploadRaw um body p = (resp, p')" for um body p resp p'
    using that by (auto simp: uploadRaw_def split: option.splits sum.splits intro: UploadEvidenceRaw_moves)
  have cache: "rpPool st' = rpPool st" if "withCache st x = Some (r, st')" for x
    using that by (auto simp: withCache_def)
  show ?thesis
  proof (cases "route (rqPath req)")
    case (Some h)
    then show ?thesis
      using assms by (cases h) (auto simp: serve_def dest: cache up raw split: prod.splits)
  qed (use assms in \<open>simp add: serve_def\<close>)
qed

subsection \<open>The whole node\<close>

lemma netTurn_moves: "(\<And>n. r = Some n \<Longrightarrow> net_moves env (coNet co) n) \<Longrightarrow> netTurn co r = Some co' \<Longrightarrow> net_moves env (coNet co) (coNet co')"
  by (auto simp: netTurn_def)

lemma chainTurn_moves: "chainTurn co r = Some co' \<Longrightarrow> chain_step env (coChain co) r \<Longrightarrow> net_moves env (coNet co) (coNet co')"
  by (cases r) (auto simp: chainTurn_def netTurn_def net_moves_def intro: chain_moves_step)

lemma poolTurn_moves:
  assumes "poolTurn co r = Some co'"
    and "\<And>p. r = Some p \<Longrightarrow> pool_step (envEc env) (envHash env) (EvidenceDifficultyLimit (envParams env)) (coPool co) p"
  shows "net_moves env (coNet co) (coNet co')"
  using assms by (cases r) (auto simp: poolTurn_def netTurn_def net_moves_def intro: pool_moves_step)

lemma schedTurn_moves:
  assumes "schedTurn env now co r = Some co'"
    and "\<And>s. r = Some s \<Longrightarrow> chain_moves env (coChain co) (sdChain s) \<and> pool_moves env (coPool co) (sdPool s)"
  shows "net_moves env (coNet co) (coNet co')"
  using assms by (auto simp: schedTurn_def net_moves_def broadcasts_same)

lemma core_moves:
  assumes "core_step env co (Some co')"
  shows "net_moves env (coNet co) (coNet co')"
  using assms
proof (cases rule: core_step.cases)
  case (core_recv now pd)
  from core_recv(1) [symmetric] show ?thesis by (rule netTurn_moves [rotated]) (rule recv_moves)
next
  case (core_sync order now)
  from core_sync(1) [symmetric] show ?thesis by (rule netTurn_moves [rotated]) (auto dest: netSync_same intro: net_moves_same)
next
  case (core_evds evds rest now)
  then show ?thesis
    by (auto simp: netTurn_def net_moves_def broadcastEvidence_def intro: pool_moves_step pool_step.step_broadcast)
next
  case core_maintain
  from core_maintain(1) [symmetric] show ?thesis by (rule chainTurn_moves) (rule step_maintain)
next
  case (core_pending blocks rest clock coin)
  from core_pending(1) [symmetric] show ?thesis by (rule chainTurn_moves) (rule step_pending [OF core_pending(3)])
next
  case (core_raw raw raws)
  from core_raw(1) [symmetric] show ?thesis by (rule poolTurn_moves) (rule pool_step.step_raw [OF core_raw(3)])
next
  case (core_round s shuffle now clock)
  from core_round(1) [symmetric] show ?thesis
    by (rule schedTurn_moves) (auto simp: schedView_def dest: startRound_moves)
next
  case (core_passive s now)
  from core_passive(1) [symmetric] show ?thesis
    by (rule schedTurn_moves) (auto simp: schedView_def onPassiveChange_def intro: chain_moves_step step_notified)
next
  case (core_result s d m result now clock coin later)
  from core_result(1) [symmetric] show ?thesis
    by (rule schedTurn_moves) (auto simp: schedView_def dest: onResult_moves)
next
  case (core_http now json req r)
  then show ?thesis by (auto simp: coreServe_def net_moves_def dest: serve_moves)
qed (auto simp: netTurn_def cleanup_def schedReady_def stopPart_def intro: net_moves_same split: list.splits)

lemma chain_moves_runs: "chain_moves env c c' \<Longrightarrow> runs env c0 c \<Longrightarrow> runs env c0 c'"
  by (induction rule: rtranclp_induct) (auto intro: runs_step)

lemma core_runs_moves: "core_runs env co0 co \<Longrightarrow> net_moves env (coNet co0) (coNet co)"
proof (induction rule: core_runs.induct)
  case (core_next co co')
  then show ?case using core_moves [OF core_next(2)] by (auto simp: net_moves_def)
qed (simp add: net_moves_def)

lemma core_chain_runs: "core_runs env co0 co \<Longrightarrow> runs env (coChain co0) (coChain co)"
  by (rule chain_moves_runs [OF _ runs_start]) (use core_runs_moves in \<open>auto simp: net_moves_def\<close>)

lemma NewCore_state:
  assumes "NewCore env0 conf db = Some (env, co0)"
  shows "Init env0 (ccChain conf) (NewChain db) = Some (env, Inr (coChain co0))"
    "coPool co0 = newEvidencePool (ccPrivKey conf)" "\<not> nInited (coNet co0)"
    "coSched co0 = (if ccParallelMine conf = 0 then None else Some (newScheduler (coPool co0) (coChain co0)
       (SerializeCompressed (envEc env) (PubKeyOf (envEc env) (ccPrivKey conf))) (ccParallelMine conf)))"
  using assms by (auto simp: NewCore_def newNet_def Let_def split: option.splits sum.splits)

section \<open>What the node mines\<close>

text \<open>A block that other nodes accept as far as they can tell from the block alone, up to its proof of work.\<close>

definition genuine :: "('sig, 'key, 'priv, 's) chain_env \<Rightarrow> Block \<Rightarrow> bool" where
  "genuine env b \<longleftrightarrow> BlockVerify (envEc env) (envHash env) b = Inr () \<and> distinct (map eHash (bEvds b)) \<and>
     (\<forall>e \<in> set (bEvds b). EvidenceGetPow (envHash env) e < EvidenceDifficultyLimit (envParams env)) \<and>
     (bEvds b \<noteq> [] \<longrightarrow> ComputeRoot (envHash env) (map (EvidenceGetSerializedHash (envHash env)) (bEvds b)) =
        Inr (bhEvidenceRoot (bHeader b)))"

lemma genuine_header:
  assumes "bhVersion h = bhVersion (bHeader b)" "bhLastHash h = bhLastHash (bHeader b)"
    "bhMiner h = bhMiner (bHeader b)" "bhEvidenceRoot h = bhEvidenceRoot (bHeader b)"
  shows "genuine env (b\<lparr>bHeader := h\<rparr>) \<longleftrightarrow> genuine env b"
  using assms by (simp add: genuine_def BlockVerify_def BlockHeaderVerify_def IsEmptyEvidenceRoot_def)

lemma genuine_genBlock:
  assumes "hash_ok (envHash env)" "length lastHash = 32" "length minerID = 33" "\<And>xs. mset (shuffle xs) = mset xs"
    and evs: "schedGetEvidence env shuffle c pool = (evs, pool')"
  shows "genuine env (genBlock (envHash env) minerID now evs lastHash)" (is "genuine env ?b")
proof -
  note ev = schedGetEvidence_spec [OF assms(4) evs]
  have v: "EvidenceVerify (envEc env) (envHash env) e = Inr () \<and>
      EvidenceGetPow (envHash env) e < EvidenceDifficultyLimit (envParams env)" if "e \<in> set evs" for e
    using ev that by (simp add: VerifyEvidence_def verifyEvidence_Inr)
  note gb = genBlock_verifies [OF assms(1-3), where evs = evs and now = now and b = "?b", OF _ refl]
  have "genuine env (?b\<lparr>bHeader := HeaderSetNonce (SetTarget (bHeader ?b) 0) 0\<rparr>)"
    using gb [of "envEc env"] v ev by (simp add: genuine_def genBlock_simps SetTarget_def HeaderSetNonce_def)
  then show ?thesis by (subst (asm) genuine_header) (simp_all add: SetTarget_def HeaderSetNonce_def)
qed

text \<open>The search runs on the scheduler's block, and the block is genuine while it matters.\<close>

definition miner_ok :: "('sig, 'key, 'priv, 's) chain_env \<Rightarrow> nat \<Rightarrow> ('priv, 's) scheduler \<Rightarrow> bool" where
  "miner_ok env parallel s \<longleftrightarrow> length (sdMiner s) = 33 \<and> sdParallel s = parallel \<and>
     (\<not> sdNewRound s \<or> sdJob s \<noteq> None \<longrightarrow> genuine env (sdBlock s)) \<and>
     (\<forall>d m. sdJob s = Some (d, m) \<longrightarrow> d = TargetToDiff (bhTarget (bHeader (sdBlock s))) \<and>
        (mine_step (envHash env) d)\<^sup>*\<^sup>* (mineInit parallel (bHeader (sdBlock s))) m)"

lemma startRound_ok:
  assumes inv: "chain_inv env (sdChain s)" and "hash_ok (envHash env)" and shuffle: "\<And>xs. mset (shuffle xs) = mset xs"
    and ok: "miner_ok env parallel s" and round: "startRound env shuffle now s = Some s'"
  shows "miner_ok env parallel s'"
proof (cases "sdNewRound s")
  case True
  obtain evs pool target where g: "schedGetEvidence env shuffle (sdChain s) (sdPool s) = (evs, pool)"
    and s': "let b = genBlock (envHash env) (sdMiner s) now evs (LatestBlockHash (sdChain s)); hdr = SetTarget (bHeader b) target in
      s' = s\<lparr>sdPool := pool, sdBlock := b\<lparr>bHeader := hdr\<rparr>, sdJob := Some (TargetToDiff target, mineInit (sdParallel s) hdr)\<rparr>"
    using startRound_new [OF round True] by blast
  have "genuine env (genBlock (envHash env) (sdMiner s) now evs (LatestBlockHash (sdChain s)))"
    by (rule genuine_genBlock [OF assms(2) length_LatestBlockHash [OF inv assms(2)] _ shuffle g])
      (use ok in \<open>simp add: miner_ok_def\<close>)
  then show ?thesis using s' ok by (auto simp: miner_ok_def Let_def SetTarget_def genuine_header)
next
  case False
  then show ?thesis
    using ok round by (auto simp: miner_ok_def startRound_def Let_def SetTarget_def genuine_header split: bind_splits)
qed

lemma onResult_ok: "miner_ok env parallel s \<Longrightarrow> sdJob s \<noteq> None \<Longrightarrow> onResult env clock coin now r s = Some s' \<Longrightarrow> miner_ok env parallel s'"
  by (auto simp: miner_ok_def onResult_def Let_def UpdateTime_def genuine_header split: if_splits bind_splits)

lemma schedView_simps [simp]:
  "sdChain (schedView co s) = coChain co" "sdPool (schedView co s) = coPool co" "sdJob (schedView co s) = sdJob s"
  "sdSent (schedView co s) = []" "sdBlock (schedView co s) = sdBlock s" "sdNewRound (schedView co s) = sdNewRound s"
  "sdMiner (schedView co s) = sdMiner s" "sdParallel (schedView co s) = sdParallel s"
  by (simp_all add: schedView_def)

lemma miner_ok_view [simp]: "miner_ok env parallel (schedView co s) = miner_ok env parallel s"
  by (simp add: miner_ok_def schedView_def)

lemma schedTurn_sched: "schedTurn env now co r = Some co' \<Longrightarrow> coSched co' = Some s' \<Longrightarrow> r = Some s'"
  by (auto simp: schedTurn_def)

lemma turns_keep_sched:
  "Some co' = netTurn co n \<Longrightarrow> coSched co' = coSched co"
  "Some co' = chainTurn co c \<Longrightarrow> coSched co' = coSched co"
  "Some co' = poolTurn co p \<Longrightarrow> coSched co' = coSched co"
  by (cases n; cases c; cases p; simp add: netTurn_def chainTurn_def poolTurn_def)+

lemma core_step_miner:
  assumes "core_step env co (Some co')" "chain_inv env (coChain co)" "hash_ok (envHash env)"
    and "\<And>s. coSched co = Some s \<Longrightarrow> miner_ok env parallel s" "coSched co' = Some s'"
  shows "miner_ok env parallel s'"
  using assms(1)
proof (cases rule: core_step.cases)
  case (core_round s shuffle now clock)
  show ?thesis
    using startRound_ok [OF _ assms(3), of "schedView co s" shuffle parallel clock s'] core_round assms(2,4)
      schedTurn_sched [OF core_round(1) [symmetric] assms(5)] by simp
next
  case (core_search s d m m')
  then show ?thesis
    using assms(4) [OF core_search(2)] assms(5) by (auto simp: miner_ok_def intro: rtranclp.rtrancl_into_rtrancl)
next
  case (core_passive s now)
  then show ?thesis
    using assms(4) [of s] schedTurn_sched [OF core_passive(1) [symmetric] assms(5)]
    by (auto simp: onPassiveChange_def schedView_def miner_ok_def)
next
  case (core_result s d m result now clock coin later)
  show ?thesis
    using onResult_ok [of env parallel "schedView co s" clock coin later result s'] core_result assms(4)
      schedTurn_sched [OF core_result(1) [symmetric] assms(5)] by simp
next
  case core_stop
  then show ?thesis
    using assms(4,5) by (auto simp: stopPart_def onStop_def miner_ok_def split: list.splits if_splits)
next
  case (core_http now json req r)
  then show ?thesis using assms(4,5) by (auto simp: coreServe_def)
qed (use assms(4,5) in \<open>auto simp: schedReady_def dest!: turns_keep_sched\<close>)

section \<open>From an upload to the chain\<close>

lemma UploadEvidence_one:
  assumes "UploadEvidence env c [e] p = Some (Inr p')" "pool_inv (envHash env) (epEvds p)" "length (epEvds p) < evdsCacheSize"
  shows "VerifyEvidence env c e = Inr ()"
    and "mset (epEvds p') = add_mset \<lparr>weEvidence = e, weWeight = EvidenceGetPow (envHash env) e\<rparr> (mset (epEvds p))"
proof -
  show "VerifyEvidence env c e = Inr ()"
    using assms(1) verifyUploads_ok [of env c "[e]"]
    by (cases "verifyUploads env c [e]") (simp_all add: UploadEvidence_def)
  have "sorted (map weWeight (epEvds p))" using assms(2) by (simp add: pool_inv_def)
  then obtain full where "poolInsert \<lparr>weEvidence = e, weWeight = EvidenceGetPow (envHash env) e\<rparr> (epEvds p) = Some full"
      "mset full = add_mset \<lparr>weEvidence = e, weWeight = EvidenceGetPow (envHash env) e\<rparr> (mset (epEvds p))"
    using poolInsert_room assms(3) by metis
  then show "mset (epEvds p') = add_mset \<lparr>weEvidence = e, weWeight = EvidenceGetPow (envHash env) e\<rparr> (mset (epEvds p))"
    using assms(1) by (auto simp: UploadEvidence_def addEvidence_def split: sum.splits if_splits)
qed

text \<open>What a chain with the evidence in an unstored block of its longest branch answers.\<close>

lemma unstored_evidence_found:
  assumes inv: "chain_inv env c" and a: "a \<in> set (unstored c)" and e: "eh \<in> evds_at (cHeap c) a"
    and due: "timeSub now (qcLastRefresh qc) > refreshInterval"
  shows "\<exists>ei qc'. qcGetEvidence env c now [ToHex eh] qc = Some ([ei], qc') \<and> eHash (eiEvidence ei) = eh \<and>
    eiHeight ei = bkHeight (cHeap c ! a) \<and> eiBlockHash ei = bkHash (cHeap c ! a)"
proof -
  let ?h = "cHeap c" and ?x = "brHead (longest c)" and ?us = "unstored c" and ?Hash = "envHash env"
  have l: "links_ok env ?h" and sh: "shape c" and ap: "apart ?h" using inv by (auto simp: chain_inv_def)
  have x: "?x < length ?h" using shape_update_branch [OF sh] sh by (simp add: shape_def)
  have line: "y \<in> set (lineage ?h ?x)" if "y \<in> set ?us" for y
    using that by (auto simp: unstored_def dest: set_takeWhileD)
  have hash: "bkHash (?h ! a) = BlockHash ?Hash (bkBlock (?h ! a))"
    using l lineage_bound [OF x line [OF a]] by (simp add: links_ok_def)
  let ?st = "qcLoop ?Hash (map (blockPair ?h) ?us) (Map.empty, [], Map.empty, Map.empty)"
  have "names_block (bkHeight (?h ! a)) (bkHash (?h ! a)) (bhTime (bHeader (bkBlock (?h ! a)))) eh (fst (snd (snd ?st)))"
    unfolding hash
  proof (rule qcLoop_evidence)
    show "eh \<notin> eHash ` set (bEvds b')" if b': "(b', ht') \<in> set (map (blockPair ?h) ?us)" "(b', ht') \<noteq> blockPair ?h a" for b' ht'
    proof -
      obtain y where y: "y \<in> set ?us" "y \<noteq> a" "b' = bkBlock (?h ! y)" using b' by auto
      then show ?thesis using apart_lineage [OF ap x line [OF a] line [OF y(1)]] e by (auto simp: evds_at_def)
    qed
  qed (use e a in \<open>auto simp: evds_at_def\<close>)
  moreover have "GetUnstoredBlocks c = Some (map (blockPair ?h) ?us)"
    using unstoredLoop_lineage [OF links_downward [OF l] x, of "[]"] by (simp add: GetUnstoredBlocks_def unstored_def)
  ultimately show ?thesis
    using due by (auto simp: names_block_def qcGetEvidence_def refresh_def findEvidence_def map_filter_simps split: prod.splits)
qed

lemma recorded_refused:
  assumes "chain_inv env c" "eHash e \<in> evds_at (cHeap c) (brHead (longest c))"
  shows "VerifyEvidence env c e \<noteq> Inr ()"
proof -
  have "knows (envBdg env) (cDb c) (cHeap c) (longest c)" using assms(1) by (auto simp: chain_inv_def shape_def)
  then show ?thesis using assms(2) by (auto simp: knows_def VerifyEvidence_def verifyEvidence_Inr)
qed

text \<open>A block added to the longest branch is its head and not stored.\<close>

lemma addTo_head:
  assumes inv: "chain_inv env c" and c': "c' = addTo (cLongest c) (newBlk (envHash env) b ht False) c"
  shows "bkBlock (cHeap c' ! brHead (longest c')) = b" "brHead (longest c') \<in> set (unstored c')"
    "bkHash (cHeap c' ! brHead (longest c')) = LatestBlockHash c'"
proof -
  let ?n = "newBlk (envHash env) b ht False"
  have sh: "shape c" using inv by (simp add: chain_inv_def)
  then have l: "cLongest c \<in> set (cBranches c)" by (simp add: shape_def)
  obtain h' b' where add: "branchAdd ?n (cHeap c) (longest c) = (h', b')" by (cases "branchAdd ?n (cHeap c) (longest c)")
  note hd = shape_update_branch [OF sh l]
  note e = branchAdd_extended [OF hd add] and b' = branchAdd_branch(1) [OF hd add]
  have eq: "c' = c\<lparr>cHeap := h', cStore := (cStore c)[cLongest c := b']\<rparr>" by (simp add: c' addTo_def add)
  have il: "cLongest c < length (cStore c)" using shape_branch [OF sh l] by simp
  show "bkBlock (cHeap c' ! brHead (longest c')) = b" "bkHash (cHeap c' ! brHead (longest c')) = LatestBlockHash c'"
    unfolding eq using il b' e by (simp_all add: extended_def newBlk_def LatestBlockHash_def branchHash_def)
  have "\<not> isStored (cHeap c' ! brHead (longest c'))"
    unfolding eq using il b' e by (simp add: extended_def newBlk_def isStored_def)
  then show "brHead (longest c') \<in> set (unstored c')" unfolding unstored_def by (subst lineage.simps) simp
qed

section \<open>Evidences of a round that is given up\<close>

text \<open>
  A round takes its evidences out of the pool.  When the longest branch changes, the block is
  dropped and the evidences with it: they are not put back, so that the next round builds an empty block.
\<close>

lemma collectLoop_empties:
  "n + sum_list (map (\<lambda>we. EvidenceSize (weEvidence we)) (epEvds pool)) < BlockSize \<Longrightarrow>
   epEvds (snd (collectLoop env c n pool evds)) = []"
proof (induction env c n pool evds rule: collectLoop.induct)
  case (1 env c n pool evds)
  show ?case
  proof (cases "epEvds pool")
    case Nil
    then show ?thesis by (subst collectLoop.simps) (simp add: nextEvidence_def)
  next
    case (Cons x rest)
    let ?pool = "pool\<lparr>epEvds := rest\<rparr>"
    have nx: "nextEvidence pool = (Some (weEvidence x), ?pool)" by (simp add: nextEvidence_def Cons)
    have n: "n < BlockSize" using 1(3) by simp
    show ?thesis
      using 1(1) [OF n nx [symmetric] refl] 1(2) [OF n nx [symmetric] refl] 1(3) n nx Cons
      by (subst collectLoop.simps) (auto split: sum.splits)
  qed
qed

lemma passive_change_drops_evidences:
  assumes "sdNewRound s" "startRound env shuffle now s = Some s1"
    and "sum_list (map (\<lambda>we. EvidenceSize (weEvidence we)) (epEvds (sdPool s))) < BlockSize"
    and "\<And>xs. mset (shuffle' xs) = mset xs" "startRound env shuffle' now' (onPassiveChange s1) = Some s2"
  shows "bEvds (sdBlock s2) = []"
proof -
  obtain evs pool where g: "schedGetEvidence env shuffle (sdChain s) (sdPool s) = (evs, pool)" "sdPool s1 = pool"
    using startRound_new [OF assms(2,1)] by (auto simp: Let_def)
  have empty: "epEvds (sdPool (onPassiveChange s1)) = []"
    using collectLoop_empties [of 0 "sdPool s" env "sdChain s" "[]"] assms(3) g
    by (auto simp: onPassiveChange_def schedGetEvidence_def split: prod.splits)
  have "schedGetEvidence env shuffle' c p = ([], p)" if "epEvds p = []" for c p
    using that assms(4) [of "[]"] by (simp add: schedGetEvidence_def collectLoop.simps BlockSize_def nextEvidence_def)
  then obtain target where "let b = genBlock (envHash env) (sdMiner s1) now' [] (LatestBlockHash (sdChain (onPassiveChange s1)));
      hdr = SetTarget (bHeader b) target in sdBlock s2 = b\<lparr>bHeader := hdr\<rparr>"
    using startRound_new [OF assms(5)] empty by (auto simp: Let_def onPassiveChange_def)
  then show ?thesis by (simp add: Let_def genBlock_simps)
qed

section \<open>Stopping\<close>

text \<open>After \<open>Stop\<close> only the handlers of requests still run.\<close>

lemma stopPart_running: "coRunning (stopPart co) = drop 1 (coRunning co)"
  by (simp add: stopPart_def split: list.splits)

lemma coreStop_quiet:
  assumes "core_step env (coreStop co) (Some co')"
  shows "coChain co' = coChain (coreStop co)"
proof -
  have run: "coRunning ((stopPart ^^ k) co) = drop k (coRunning co)" for k
    by (induction k) (simp_all add: stopPart_running)
  have "coRunning (coreStop co) = []" by (simp add: coreStop_def run)
  from assms this show ?thesis
    by (cases rule: core_step.cases) (auto simp: coreServe_def stopPart_def)
qed

section \<open>Properties\<close>

lemma core_runs_miner:
  assumes core: "NewCore env0 conf db = Some (env, co0)" "core_runs env co0 co"
    and fresh: "kv_store (envBdg env) view" "starts env genesis db (coChain co0)"
    and ok: "hash_ok (envHash env)" "signatures (envEc env)"
    and s: "coSched co = Some s"
  shows "miner_ok env (ccParallelMine conf) s"
  using core(2) s
proof (induction arbitrary: s rule: core_runs.induct)
  case core_start
  then show ?case
    using NewCore_state(4) [OF core(1)] signatures.compressed_length [OF ok(2)]
    by (auto simp: miner_ok_def newScheduler_def PubKeyBytesLenCompressed_def split: if_splits)
next
  case (core_next co co')
  have "chain_inv env (coChain co)"
    by (rule kv_store.reachable_inv [OF fresh(1) refl fresh(2) core_chain_runs [OF core_next(1)]])
  then show ?case using core_step_miner [OF core_next(2) _ ok(1) _ core_next(4)] core_next(3) by blast
qed

text \<open>
  C7 What a node announces is genuine: when the search of a running node reports a nonce, the node
  broadcasts exactly one block, and this block passes \<open>Verify\<close>, its hash is below the difficulty of
  its target, its header has the Merkle root of its evidences, the evidences have different hashes, and
  each has the proof of work the chain asks for.  This holds in every reachable state of the node,
  whatever happened during the search.
\<close>

theorem own_broadcasts_genuine:
  assumes core: "NewCore env0 conf db = Some (env, co0)" "core_runs env co0 co"
    and fresh: "kv_store (envBdg env) view" "starts env genesis db (nChain (coNet co0))"
    and ok: "hash_ok (envHash env)" "signatures (envEc env)" "0 < ccParallelMine conf" "ccParallelMine conf < 2 ^ 32"
    and found: "coSched co = Some s" "sdJob s = Some (d, m)" "jobResult m = Some r" "mrFound r"
    and result: "onResult env clock coin later r (schedView co s) = Some s'"
  shows "\<exists>b. sdSent s' = [b] \<and> BlockVerify (envEc env) (envHash env) b = Inr () \<and>
    HeaderGetPow (envHash env) (bHeader b) < TargetToDiff (bhTarget (bHeader b)) \<and>
    distinct (map eHash (bEvds b)) \<and>
    (\<forall>e \<in> set (bEvds b). EvidenceGetPow (envHash env) e < EvidenceDifficultyLimit (envParams env)) \<and>
    (bEvds b \<noteq> [] \<longrightarrow> ComputeRoot (envHash env) (map (EvidenceGetSerializedHash (envHash env)) (bEvds b)) =
       Inr (bhEvidenceRoot (bHeader b)))"
proof -
  let ?hdr = "HeaderSetNonce (bHeader (sdBlock s)) (mrNonce r)"
  let ?b = "(sdBlock s)\<lparr>bHeader := ?hdr\<rparr>"
  have m: "miner_ok env (ccParallelMine conf) s" by (rule core_runs_miner [OF core fresh ok(1,2) found(1)])
  then have d: "d = TargetToDiff (bhTarget (bHeader (sdBlock s)))"
    and search: "(mine_step (envHash env) d)\<^sup>*\<^sup>* (mineInit (ccParallelMine conf) (bHeader (sdBlock s))) m"
    and g: "genuine env (sdBlock s)" using found(2) by (auto simp: miner_ok_def)
  have "HeaderGetPow (envHash env) ?hdr < d" by (rule found_nonce [OF search ok(3,4) found(3,4)])
  moreover have "genuine env ?b" using g by (simp add: genuine_header HeaderSetNonce_def)
  moreover have "sdSent s' = [?b]"
    using result found(4) by (auto simp: onResult_def Let_def split: bind_splits)
  ultimately show ?thesis unfolding d by (simp add: genuine_def HeaderSetNonce_def)
qed

text \<open>
  C8 From an upload to the chain.  A running node accepts the upload of a new evidence while its pool
  has room and all its evidences together fit into a block; a new round of the scheduler is due and is
  the next step; its search reports a nonce, and the chain did not change since the upload.  Then the
  block of the round has the evidence's hash, the node broadcasts the block and has it as the head of
  its longest branch, answers queries for the hash with this block from its next refresh on, and
  refuses every later evidence for the hash.  The clock is not behind the head's time nor more than
  three seconds ahead of the time at which the block is added, and no earlier branch ends in a
  block of the head's hash.  When the longest branch changes during the round instead, the round ends
  and its evidences are lost (\<open>passive_change_drops_evidences\<close>).
\<close>

theorem upload_recorded:
  assumes core: "NewCore env0 conf db = Some (env, co0)" "core_runs env co0 co"
    and fresh: "kv_store (envBdg env) view" "starts env genesis db (nChain (coNet co0))"
    and ok: "hash_ok (envHash env)" "signatures (envEc env)" "0 < ccParallelMine conf" "ccParallelMine conf < 2 ^ 32"
    and upload: "UploadEvidence env (nChain (coNet co)) [e] (nPool (coNet co)) = Some (Inr pool)"
      "co1 = co\<lparr>coNet := (coNet co)\<lparr>nPool := pool\<rparr>\<rparr>"
    and room: "length (epEvds (nPool (coNet co))) < evdsCacheSize"
      "sum_list (map (\<lambda>we. EvidenceSize (weEvidence we)) (epEvds pool)) < BlockSize"
    and shuffle: "\<And>xs. mset (shuffle xs) = mset xs"
    and round: "coSched co = Some s" "sdNewRound s" "startRound env shuffle now (schedView co1 s) = Some s1"
    and search: "sdJob s1 = Some (d, m0)" "(mine_step (envHash env) d)\<^sup>*\<^sup>* m0 m" "jobResult m = Some r" "mrFound r"
    and time: "\<not> timeBefore (now, 0) (bkTime (cHeap (nChain (coNet co)) ! brHead (longest (nChain (coNet co)))), 0)"
      "timeSub (now, 0) (clock 0) \<le> 3 * 1000000000"
    and only: "getBranch (nChain (coNet co)) (LatestBlockHash (nChain (coNet co))) = Some (cLongest (nChain (coNet co)))"
  shows "\<exists>s2. onResult env clock coin later r s1 = Some s2 \<and> sdSent s2 = [sdBlock s2] \<and>
    eHash e \<in> eHash ` set (bEvds (sdBlock s2)) \<and> LatestBlockHash (sdChain s2) = BlockHash (envHash env) (sdBlock s2) \<and>
    (\<forall>e'. eHash e' = eHash e \<longrightarrow> VerifyEvidence env (sdChain s2) e' \<noteq> Inr ()) \<and>
    (\<forall>t qc. timeSub t (qcLastRefresh qc) > refreshInterval \<longrightarrow>
       (\<exists>ei qc'. qcGetEvidence env (sdChain s2) t [ToHex (eHash e)] qc = Some ([ei], qc') \<and>
          eHash (eiEvidence ei) = eHash e \<and> eiBlockHash ei = BlockHash (envHash env) (sdBlock s2)))"
proof -
  let ?s = "schedView co1 s"
  have runs: "runs env (coChain co0) (sdChain ?s)" using core_chain_runs [OF core(2)] by (simp add: upload(2))
  have miner: "length (sdMiner ?s) = 33" "0 < sdParallel ?s" "sdParallel ?s < 2 ^ 32"
    using core_runs_miner [OF core fresh ok(1,2) round(1)] ok(3,4) by (auto simp: miner_ok_def)
  have "pool_inv (envHash env) (epEvds (coPool co))"
    by (rule pool_reachable_inv [where ec = "envEc env" and limit = "EvidenceDifficultyLimit (envParams env)" and key = "ccPrivKey conf"])
      (use core_runs_moves [OF core(2)] NewCore_state(2) [OF core(1)] in \<open>simp add: net_moves_def\<close>)
  note up = UploadEvidence_one [OF upload(1) this room(1)]
  let ?we = "\<lparr>weEvidence = e, weWeight = EvidenceGetPow (envHash env) e\<rparr>"
  have we: "?we \<in> set (epEvds pool)" using up(2) by (metis set_mset_mset union_single_eq_member)
  show ?thesis
  proof (rule own_block_added [where s = ?s and shuffle = shuffle and clock = clock and coin = coin and later = later,
        OF fresh runs ok(1) miner shuffle _ round(3) search], goal_cases)
    case (5 s2 evs)
    have e: "eHash e \<in> eHash ` set (bEvds (sdBlock s2))"
      using schedGetEvidence_takes [OF shuffle 5(1), of ?we] we up(1) room(2) 5(4) by (simp add: upload(2))
    let ?c = "sdChain s2" and ?x = "brHead (longest (sdChain s2))"
    have inv: "chain_inv env (sdChain ?s)" by (rule kv_store.reachable_inv [OF fresh(1) refl fresh(2) runs])
    note hd = addTo_head [OF inv 5(6)]
    have "runs env (coChain co0) ?c"
      by (rule runs_step [OF runs]) (use chain_step.step_add [of env "sdChain ?s" clock coin "[sdBlock s2]" True] 5(7) in simp)
    then have inv': "chain_inv env ?c" by (rule kv_store.reachable_inv [OF fresh(1) refl fresh(2)])
    have at: "eHash e \<in> evds_at (cHeap ?c) ?x" using e by (simp add: evds_at_def hd(1))
    show ?thesis
      using 5(2,3,9) e recorded_refused [OF inv'] at unstored_evidence_found [OF inv' hd(2) at] hd(3)
      by (intro exI [of _ s2]) (simp, metis)
  qed (use round(2) time only in \<open>simp_all add: upload(2)\<close>)
qed

section \<open>A running node\<close>

definition demo_core_conf :: "unit coreConfig" where
  "demo_core_conf = \<lparr>ccNodeType = FullNode, ccPrivKey = (), ccParallelMine = 1, ccChain = demo_conf\<lparr>cfgGenesis := demo_genesis\<rparr>\<rparr>"

definition demo_core :: "(bytes \<times> bytes) list \<Rightarrow> (unit, (bytes \<times> bytes) list) core" where
  "demo_core s = \<lparr>coNet = newNet (demo_c0 s) (newEvidencePool ()) FullNode,
     coSched = Some (newScheduler (newEvidencePool ()) (demo_c0 s) (SerializeCompressed toy_ec ()) 1),
     coReady = False, coCache = newQCache, coRunning = [Scheduling, Pooling, Networking, Chaining]\<rparr>"

lemma demo_core_new:
  assumes "starts demo_env demo_genesis [] (demo_c0 s)"
  shows "NewCore demo_env demo_core_conf [] = Some (demo_env, demo_core s)"
proof -
  let ?conf = "demo_conf\<lparr>cfgGenesis := demo_genesis\<rparr>"
  have p: "initMiningParams ?conf = initMiningParams demo_conf" by (simp add: initMiningParams_def)
  have env: "demo_env\<lparr>envParams := initMiningParams ?conf\<rparr> = demo_env" unfolding p by (simp add: demo_env_def)
  have "HasGenesis mem_badger [] = Some False" by (simp add: HasGenesis_def mem_badger_def)
  then have "Init demo_env ?conf (NewChain []) = Some (demo_env, Inr (demo_c0 s))"
    using assms unfolding Init_def env by (simp add: starts_def NewChain_def)
  then show ?thesis
    by (simp add: NewCore_def demo_core_conf_def demo_core_def Let_def toy_ec_def)
qed

text \<open>The first synchronisation: the node asks, a peer answers that it is up to date, the node is ready.\<close>

definition demo_answer :: SyncResponse where
  "demo_answer = NewSyncResponse [] [] 0 True"

lemma demo_recv_answer:
  assumes "nWaitingHash n" "nSyncHashResp n = []"
  shows "handleRecvPacket demo_env now (MarshalSyncResponse demo_answer, peer) n = Some (n\<lparr>nSyncHashResp := [(peer, demo_answer)]\<rparr>)"
proof -
  have "UnmarshalSyncResponse (MarshalSyncResponse demo_answer) = Inr (demo_answer, [])"
    using sync_response.dec_enc_whole [of demo_answer] by (simp add: demo_answer_def NewSyncResponse_def)
  moreover obtain rest where "MarshalSyncResponse demo_answer = MarshalHead (NewHeadV1 MsgSyncResp) @ rest"
    by (auto simp: MarshalSyncResponse_def demo_answer_def NewSyncResponse_def)
  then have "UnmarshalHead (MarshalSyncResponse demo_answer) = Inr (NewHeadV1 MsgSyncResp, rest)"
    using head.dec_enc [of "NewHeadV1 MsgSyncResp"] by simp
  ultimately show ?thesis
    using assms by (simp add: handleRecvPacket_def decoded_def NewHeadV1_def cp_consts handleSyncResponse_def)
qed

lemma demo_ready:
  obtains co where "core_runs demo_env (demo_core s) co" "coReady co" "coSched co = coSched (demo_core s)"
    "coChain co = demo_c0 s" "coPool co = newEvidencePool ()" "coRunning co = coRunning (demo_core s)"
proof -
  let ?n0 = "newNet (demo_c0 s) (newEvidencePool ()) FullNode :: (unit, (bytes \<times> bytes) list) net"
  let ?t = "(0, 0)"
  obtain n1 where n1: "netSync (envHash demo_env) ?t id ?n0 = Some n1" "nWaitingHash n1" "nSyncHashResp n1 = []" "nWaiting n1 = []"
      "\<not> nInited n1" "\<not> nInitFinish n1" "nChain n1 = demo_c0 s" "nPool n1 = newEvidencePool ()"
    by (simp add: netSync_def syncRequest_def newNet_def GetSyncBlockHash_def demo_c0_def broadcast_def Let_def sendQSize_def)
  let ?n2 = "n1\<lparr>nSyncHashResp := [(''p'', demo_answer)]\<rparr>"
  have n2: "handleRecvPacket demo_env ?t (MarshalSyncResponse demo_answer, ''p'') n1 = Some ?n2"
    by (rule demo_recv_answer) (use n1 in simp_all)
  have "IsUptodate demo_answer" by (simp add: demo_answer_def NewSyncResponse_def IsUptodate_def)
  then have "netSync (envHash demo_env) ?t id ?n2 = Some (n1\<lparr>nInitFinish := True, nInited := True, nSyncTicker := syncInterval,
      nSyncHashResp := [], nWaitingHash := False\<rparr>)" (is "_ = Some ?n3")
    using n1 by (simp add: netSync_def syncRequest_def Let_def)
  note n3 = this
  let ?co = "\<lambda>n. (demo_core s)\<lparr>coNet := n\<rparr>"
  have 0: "demo_core s = ?co ?n0" by (simp add: demo_core_def)
  have "core_step demo_env (?co ?n0) (netTurn (?co ?n0) (netSync (envHash demo_env) ?t id (coNet (?co ?n0))))"
    by (rule core_sync) (simp_all add: demo_core_def)
  then have 1: "core_step demo_env (?co ?n0) (Some (?co n1))" using n1(1) by (simp add: netTurn_def)
  have "core_step demo_env (?co n1) (netTurn (?co n1) (handleRecvPacket demo_env ?t (MarshalSyncResponse demo_answer, ''p'') (coNet (?co n1))))"
    by (rule core_recv) (simp add: demo_core_def)
  then have 2: "core_step demo_env (?co n1) (Some (?co ?n2))" using n2 by (simp add: netTurn_def)
  have "core_step demo_env (?co ?n2) (netTurn (?co ?n2) (netSync (envHash demo_env) ?t id (coNet (?co ?n2))))"
    by (rule core_sync) (simp_all add: demo_core_def)
  then have 3: "core_step demo_env (?co ?n2) (Some (?co ?n3))" using n3 by (simp add: netTurn_def)
  have 4: "core_step demo_env (?co ?n3) (Some (schedReady (?co ?n3)))"
    by (rule core_ready) (simp_all add: demo_core_def)
  have "core_runs demo_env (demo_core s) (schedReady (?co ?n3))"
    by (rule core_next [OF core_next [OF core_next [OF core_next [OF core_start]]] 4])
      (use 0 1 2 3 in simp_all)
  then show thesis by (rule that) (use n1 in \<open>simp_all add: schedReady_def\<close>)
qed

lemma demo_c0_head:
  "longest (demo_c0 s) = demo_branch" "bkHeight (cHeap (demo_c0 s) ! 0) = 1" "bkTime (cHeap (demo_c0 s) ! 0) = 0"
  "getBranch (demo_c0 s) (LatestBlockHash (demo_c0 s)) = Some (cLongest (demo_c0 s))" "brHead (longest (demo_c0 s)) = 0"
  by (simp_all add: demo_c0_def getBranch_def LatestBlockHash_def gen_simps demo_branch_def)

lemma demo_round:
  assumes "sdChain sch = demo_c0 st" "sdNewRound sch" "sdParallel sch = 1"
  obtains s1 hdr m r where "startRound demo_env id 1 sch = Some s1" "sdChain s1 = demo_c0 st"
    "sdJob s1 = Some (TargetToDiff 0xFFFFFFFF, mineInit 1 hdr)"
    "(mine_step (envHash demo_env) (TargetToDiff 0xFFFFFFFF))\<^sup>*\<^sup>* (mineInit 1 hdr) m" "jobResult m = Some r" "mrFound r"
proof -
  obtain evs pool where g: "schedGetEvidence demo_env id (demo_c0 st) (sdPool sch) = (evs, pool)"
    by (cases "schedGetEvidence demo_env id (demo_c0 st) (sdPool sch)")
  have t: "NextBlockTarget demo_env (demo_c0 st) 1 = Some 0xFFFFFFFF"
    using demo_c0_head [of st] by (simp add: NextBlockTarget_def nextBlockTarget_def Let_def ReferenceBlocks_def)
  let ?b = "genBlock pad_hash (sdMiner sch) 1 evs (LatestBlockHash (demo_c0 st))"
  let ?hdr = "SetTarget (bHeader ?b) 0xFFFFFFFF"
  have v: "bhVersion ?hdr = 1"
    by (simp add: genBlock_def genEmptyBlock_def NewBlock_def NewBlockHeaderV1_def SetTarget_def CoreProtocolV1_def Let_def)
  have "startRound demo_env id 1 sch = Some (sch\<lparr>sdPool := pool, sdBlock := ?b\<lparr>bHeader := ?hdr\<rparr>,
      sdJob := Some (TargetToDiff 0xFFFFFFFF, mineInit 1 ?hdr)\<rparr>)" (is "_ = Some ?s1")
    using assms g t by (simp add: startRound_def genBlock_simps SetTarget_def Let_def)
  moreover have "be_nat (pad_hash (MarshalBlockHeader (?hdr\<lparr>bhNonce := 0\<rparr>))) < TargetToDiff 0xFFFFFFFF"
    using be_nat_pad v by (simp add: MarshalBlockHeader_def putU8_def)
  then obtain m r where "(mine_step pad_hash (TargetToDiff 0xFFFFFFFF))\<^sup>*\<^sup>* (mineInit 1 ?hdr) m" "jobResult m = Some r" "mrFound r"
    using first_nonce_run [where Hash = pad_hash] by blast
  ultimately show thesis by (intro that [of ?s1 ?hdr m r]) (simp_all add: assms(1))
qed

lemma demo_kv: "kv_store (envBdg demo_env) map_of"
  using mem.kv_store_axioms by simp

lemma core_search_steps:
  assumes "(mine_step (envHash env) d)\<^sup>*\<^sup>* m0 m" "coSched co = Some s" "sdJob s = Some (d, m0)" "core_runs env co0 co"
  shows "core_runs env co0 (co\<lparr>coSched := Some (s\<lparr>sdJob := Some (d, m)\<rparr>)\<rparr>)"
  using assms(1)
proof (induction rule: rtranclp_induct)
  case base
  have "co\<lparr>coSched := Some (s\<lparr>sdJob := Some (d, m0)\<rparr>)\<rparr> = co" using assms(2,3) by (metis core.surjective core.update_convs(2)
        scheduler.surjective scheduler.update_convs(7))
  then show ?case using assms(4) by simp
next
  case (step m1 m2)
  let ?co = "\<lambda>m. co\<lparr>coSched := Some (s\<lparr>sdJob := Some (d, m)\<rparr>)\<rparr>"
  have "core_step env (?co m1) (Some ((?co m1)\<lparr>coSched := Some ((s\<lparr>sdJob := Some (d, m1)\<rparr>)\<lparr>sdJob := Some (d, m2)\<rparr>)\<rparr>))"
    by (rule core_search [OF _ _ step(2)]) simp_all
  then have "core_step env (?co m1) (Some (?co m2))" by simp
  then show ?case by (rule core_next [OF step(3)])
qed

theorem own_broadcasts_genuine_witness:
  "\<exists>s co m r s'. core_runs demo_env (demo_core s) co \<and> onResult demo_env (\<lambda>_. (1, 0)) (\<lambda>_. True) 1 r m = Some s' \<and>
     (\<exists>b. sdSent s' = [b] \<and> BlockVerify toy_ec pad_hash b = Inr ())"
proof -
  obtain s where s: "starts demo_env demo_genesis [] (demo_c0 s)" using demo_starts by blast
  note new = demo_core_new [OF s]
  obtain co where co: "core_runs demo_env (demo_core s) co" "coReady co" "coSched co = coSched (demo_core s)"
      "coChain co = demo_c0 s" "coPool co = newEvidencePool ()" "coRunning co = coRunning (demo_core s)" by (rule demo_ready)
  obtain sc where sc: "coSched co = Some sc" "sdNewRound sc" "sdParallel sc = 1" "sdJob sc = None" "length (sdMiner sc) = 33"
    using co(3) signatures.compressed_length [OF toy.signatures_axioms, of "()"]
    by (simp add: demo_core_def newScheduler_def PubKeyBytesLenCompressed_def)
  obtain s1 hdr m r where s1: "startRound demo_env id 1 (schedView co sc) = Some s1" "sdChain s1 = demo_c0 s"
      "sdJob s1 = Some (TargetToDiff 0xFFFFFFFF, mineInit 1 hdr)"
      "(mine_step (envHash demo_env) (TargetToDiff 0xFFFFFFFF))\<^sup>*\<^sup>* (mineInit 1 hdr) m" "jobResult m = Some r" "mrFound r"
    by (rule demo_round [of "schedView co sc" s]) (use sc co(4) in simp_all)
  obtain co1 where turn: "schedTurn demo_env (0, 0) co (Some s1) = Some co1" "coSched co1 = Some s1" by (simp add: schedTurn_def)
  have "core_step demo_env co (schedTurn demo_env (0, 0) co (startRound demo_env id 1 (schedView co sc)))"
    by (rule core_round) (use co(2,6) sc in \<open>simp_all add: demo_core_def\<close>)
  then have "core_step demo_env co (Some co1)" using turn(1) s1(1) by simp
  then have "core_runs demo_env (demo_core s) co1" by (rule core_next [OF co(1)])
  then have run: "core_runs demo_env (demo_core s) (co1\<lparr>coSched := Some (s1\<lparr>sdJob := Some (TargetToDiff 0xFFFFFFFF, m)\<rparr>)\<rparr>)"
    by (rule core_search_steps [rotated 3]) (use s1(3,4) turn(2) in simp_all)
  let ?co = "co1\<lparr>coSched := Some (s1\<lparr>sdJob := Some (TargetToDiff 0xFFFFFFFF, m)\<rparr>)\<rparr>"
  let ?sc = "schedView ?co (s1\<lparr>sdJob := Some (TargetToDiff 0xFFFFFFFF, m)\<rparr>)"
  have "\<not> timeBefore (1, 0) (0, 0)" using timeBefore_seconds [of 1 0] by simp
  then obtain s2 where "onResult demo_env (\<lambda>_. (1, 0)) (\<lambda>_. True) 1 r s1 = Some s2"
    by (rule_tac own_block_added [where s = "schedView co sc" and shuffle = id and clock = "\<lambda>_. (1, 0)" and coin = "\<lambda>_. True"
          and later = 1, OF demo_kv s _ _ _ _ _ _ _ s1(1,3-6)])
      (use sc co(4) demo_c0_head [of s] timeSub_self pad_hash_ok runs_start in
        \<open>simp_all add: demo_core_def newScheduler_def\<close>)
  moreover have "sdSent s1 = []" using startRound_moves [OF s1(1)] by simp
  then have "?sc = s1\<lparr>sdJob := Some (TargetToDiff 0xFFFFFFFF, m)\<rparr>"
    using turn(1) by (auto simp: schedTurn_def schedView_def)
  ultimately obtain s' where s': "onResult demo_env (\<lambda>_. (1, 0)) (\<lambda>_. True) 1 r ?sc = Some s'"
    using s1(6) by (auto simp: onResult_def Let_def split: bind_splits)
  have conf: "0 < ccParallelMine demo_core_conf" "ccParallelMine demo_core_conf < 2 ^ 32" by (simp_all add: demo_core_conf_def)
  have st: "starts demo_env demo_genesis [] (coChain (demo_core s))" using s by (simp add: demo_core_def newNet_def)
  have "\<exists>b. sdSent s' = [b] \<and> BlockVerify toy_ec pad_hash b = Inr ()"
    using own_broadcasts_genuine [OF new run demo_kv st _ _ conf _ _ s1(5,6) s'] pad_hash_ok toy.signatures_axioms by auto
  then show ?thesis using run s' by auto
qed


theorem upload_recorded_witness:
  "\<exists>s co s1 s2 r. core_runs demo_env (demo_core s) co \<and> nChain (coNet co) = demo_c0 s \<and>
     onResult demo_env (\<lambda>_. (1, 0)) (\<lambda>_. True) 1 r s1 = Some s2 \<and>
     VerifyEvidence demo_env (demo_c0 s) demo_evd = Inr () \<and> VerifyEvidence demo_env (sdChain s2) demo_evd \<noteq> Inr ()"
proof -
  obtain s where s: "starts demo_env demo_genesis [] (demo_c0 s)" "\<forall>x. length x = 32 \<longrightarrow> \<not> HasEvidence mem_badger x s"
    using demo_starts by blast
  note new = demo_core_new [OF s(1)]
  obtain co where co: "core_runs demo_env (demo_core s) co" "coReady co" "coSched co = coSched (demo_core s)"
      "coChain co = demo_c0 s" "coPool co = newEvidencePool ()" "coRunning co = coRunning (demo_core s)" by (rule demo_ready)
  obtain sc where sc: "coSched co = Some sc" "sdNewRound sc" "sdParallel sc = 1"
    using co(3) by (simp add: demo_core_def newScheduler_def)
  have v: "VerifyEvidence demo_env (demo_c0 s) demo_evd = Inr ()"
    using demo_evd_verifies demo_evd_pow s(2)
    by (simp add: VerifyEvidence_def verifyEvidence_Inr demo_c0_head) (simp add: demo_evd_def demo_branch_def branchGetEvidence_def demo_c0_def)
  let ?we = "\<lparr>weEvidence = demo_evd, weWeight = EvidenceGetPow pad_hash demo_evd\<rparr>"
  let ?pool = "(newEvidencePool ())\<lparr>epEvds := [?we], epBroadcast := [[demo_evd]]\<rparr>"
  have up: "UploadEvidence demo_env (coChain co) [demo_evd] (coPool co) = Some (Inr ?pool)"
    using v co(4,5) by (simp add: UploadEvidence_def addEvidence_def newEvidencePool_def poolInsert_def
        binarySearchInsertIndex_def evdsCacheSize_def)
  let ?co = "co\<lparr>coNet := (coNet co)\<lparr>nPool := ?pool\<rparr>\<rparr>"
  obtain s1 hdr m r where s1: "startRound demo_env id 1 (schedView ?co sc) = Some s1" "sdChain s1 = demo_c0 s"
      "sdJob s1 = Some (TargetToDiff 0xFFFFFFFF, mineInit 1 hdr)"
      "(mine_step (envHash demo_env) (TargetToDiff 0xFFFFFFFF))\<^sup>*\<^sup>* (mineInit 1 hdr) m" "jobResult m = Some r" "mrFound r"
    by (rule demo_round [of "schedView ?co sc" s]) (use sc co(4) in simp_all)
  have conf: "0 < ccParallelMine demo_core_conf" "ccParallelMine demo_core_conf < 2 ^ 32" by (simp_all add: demo_core_conf_def)
  have st: "starts demo_env demo_genesis [] (coChain (demo_core s))" using s by (simp add: demo_core_def newNet_def)
  have "\<not> timeBefore (1, 0) (0, 0)" using timeBefore_seconds [of 1 0] by simp
  then have "\<exists>s2. onResult demo_env (\<lambda>_. (1, 0)) (\<lambda>_. True) 1 r s1 = Some s2 \<and>
      (\<forall>e'. eHash e' = eHash demo_evd \<longrightarrow> VerifyEvidence demo_env (sdChain s2) e' \<noteq> Inr ())"
    using upload_recorded [where shuffle = id and clock = "\<lambda>_. (1, 0)" and coin = "\<lambda>_. True" and later = 1,
        OF new co(1) demo_kv st _ _ conf up refl _ _ _ sc(1,2) s1(1,3-6)] co(4,5) demo_c0_head [of s] timeSub_self pad_hash_ok
        toy.signatures_axioms
    by (simp add: newEvidencePool_def evdsCacheSize_def BlockSize_def EvidenceSize_def demo_evd_def EvidenceBasicLen_def
        pad_hash_ok [unfolded hash_ok_def] HashLength_def) blast
  then show ?thesis using co(1,4) v by blast
qed

end
