(* ===== verification/CatchUp.thy ===== *)
theory CatchUp
  imports SyncAnswers
begin

text \<open>
  A node that lags behind catches up: the blocks \<open>GetSyncBlocks\<close> of one chain answers are accepted
  one after the other by the \<open>addBlocks\<close> of another, whose longest branch then ends in the same
  block.  The two nodes may keep their blocks in different databases.
\<close>

section \<open>Two nodes with the same rules and the same recent blocks\<close>

definition same_rules ::
  "('sig, 'key, 'priv, 's) chain_env \<Rightarrow> ('sig, 'key, 'priv, 't) chain_env \<Rightarrow> bool" where
  "same_rules env env' \<longleftrightarrow> envEc env' = envEc env \<and> envHash env' = envHash env \<and> envParams env' = envParams env"

text \<open>The blocks from a block back to the oldest one in memory, with their heights.\<close>

definition past :: "heap \<Rightarrow> addr \<Rightarrow> (Block \<times> u64) list" where
  "past h x = map (\<lambda>y. (bkBlock (h ! y), bkHeight (h ! y))) (lineage h x)"

text \<open>The blocks a target is computed from are the same.\<close>

definition same_past :: "heap \<Rightarrow> addr \<Rightarrow> heap \<Rightarrow> addr \<Rightarrow> bool" where
  "same_past h x h' z \<longleftrightarrow> take (Suc ReferenceBlocks) (past h x) = take (Suc ReferenceBlocks) (past h' z)"

text \<open>Enough blocks are in memory to compute the target of the next one.\<close>

definition deep :: "heap \<Rightarrow> addr \<Rightarrow> bool" where
  "deep h x \<longleftrightarrow> ReferenceBlocks < length (past h x) \<or> unat (bkHeight (h ! x)) \<le> length (past h x)"

lemma past_head: "\<exists>l. past h x = (bkBlock (h ! x), bkHeight (h ! x)) # l"
  by (subst past_def, subst lineage.simps) simp

lemma past_step:
  "downward h \<Longrightarrow> x < length h \<Longrightarrow> bkBackward (h ! x) = Some p \<Longrightarrow>
     past h x = (bkBlock (h ! x), bkHeight (h ! x)) # past h p"
  by (simp add: past_def lineage_parent)

lemma past_nth: "n < length (past h x) \<Longrightarrow> past h x ! n = (bkBlock (h ! (lineage h x ! n)), bkHeight (h ! (lineage h x ! n)))"
  by (simp add: past_def)

lemma same_past_head:
  assumes "same_past h x h' z"
  shows "bkBlock (h' ! z) = bkBlock (h ! x)" "bkHeight (h' ! z) = bkHeight (h ! x)"
proof -
  obtain l l' where "past h x = (bkBlock (h ! x), bkHeight (h ! x)) # l"
    "past h' z = (bkBlock (h' ! z), bkHeight (h' ! z)) # l'"
    using past_head by metis
  then show "bkBlock (h' ! z) = bkBlock (h ! x)" "bkHeight (h' ! z) = bkHeight (h ! x)"
    using assms by (auto simp: same_past_def)
qed

lemma same_past_step:
  assumes "same_past h p h' q" "past h x = v # past h p" "past h2 z = v # past h' q"
  shows "same_past h x h2 z"
proof -
  have "take ReferenceBlocks (past h p) = take ReferenceBlocks (past h' q)"
    using arg_cong [OF assms(1) [unfolded same_past_def], of "take ReferenceBlocks"] by simp
  then show ?thesis by (simp add: same_past_def assms(2,3))
qed

lemma deep_step:
  assumes "deep h p" "past h x = v # past h p" "bkHeight (h ! x) = bkHeight (h ! p) + 1"
  shows "deep h x"
  using assms unat_Suc_le [of "bkHeight (h ! p)"] by (auto simp: deep_def)

lemma goBack_lineage:
  "downward h \<Longrightarrow> x < length h \<Longrightarrow> n < length (lineage h x) \<Longrightarrow> goBack h n x = Some (lineage h x ! n)"
proof (induction n arbitrary: x)
  case 0
  then show ?case by (subst lineage.simps) simp
next
  case (Suc n)
  then obtain p where p: "bkBackward (h ! x) = Some p"
    by (cases "bkBackward (h ! x)") (simp_all add: lineage_unfold)
  then have "lineage h x = x # lineage h p" "p < length h"
    using lineage_parent [OF Suc.prems(1,2)] downwardD [OF Suc.prems(1,2)] Suc.prems(2) by auto
  then show ?case using Suc.IH [of p] Suc.prems p by simp
qed

text \<open>The targets after blocks with the same past are the same, and are computed.\<close>

lemma same_past_target:
  assumes s: "same_past h x h' z" and d: "downward h" "x < length h" "downward h'" "z < length h'" and "deep h x"
  shows "\<exists>t. nextBlockTarget mp h (branchAt x) bt = Some t \<and> nextBlockTarget mp h' (branchAt z) bt = Some t"
proof (cases "bkHeight (h ! x) \<le> word_of_nat ReferenceBlocks + 1")
  case True
  then show ?thesis using same_past_head [OF s] by (simp add: nextBlockTarget_def branchAt_def)
next
  case False
  then have "ReferenceBlocks + 1 < unat (bkHeight (h ! x))"
    by (simp add: ReferenceBlocks_def word_le_nat_alt)
  then have len: "ReferenceBlocks < length (past h x)" using assms(6) by (auto simp: deep_def)
  then have len': "ReferenceBlocks < length (past h' z)"
    using arg_cong [OF s [unfolded same_past_def], of length] by simp
  have "past h x ! ReferenceBlocks = past h' z ! ReferenceBlocks"
    using arg_cong [OF s [unfolded same_past_def], of "\<lambda>l. l ! ReferenceBlocks"] by simp
  then have "bkTime (h ! (lineage h x ! ReferenceBlocks)) = bkTime (h' ! (lineage h' z ! ReferenceBlocks))"
    using len len' by (simp add: past_nth bkTime_def)
  moreover have "goBack h ReferenceBlocks x = Some (lineage h x ! ReferenceBlocks)"
    "goBack h' ReferenceBlocks z = Some (lineage h' z ! ReferenceBlocks)"
    using goBack_lineage d len len' by (simp_all add: past_def)
  ultimately show ?thesis
    using False same_past_head [OF s] by (simp add: nextBlockTarget_def branchAt_def Let_def bkTime_def bkTarget_def)
qed

text \<open>What one node accepted after a block, the other accepts after the same block.\<close>

lemma accepted_verifies:
  assumes r: "same_rules env env'" and l: "links_ok env h" and l': "links_ok env' h'"
    and x: "x < length h" and z: "brHead b < length h'" and s: "same_past h x h' (brHead b)" and "deep h x"
    and a: "accepted env h x cb" and t: "timeSub (bhTime (bHeader cb), 0) now \<le> 3 * 1000000000"
    and fresh: "\<And>e. e \<in> set (bEvds cb) \<Longrightarrow>
      branchGetEvidence b (eHash e) = None \<and> \<not> HasEvidence (envBdg env') (eHash e) db"
  shows "verifyBlock env' now db h' b cb = Some (Inr ())"
proof (rule verifyBlock_complete)
  obtain tg where "nextBlockTarget (envParams env) h (branchAt x) (bhTime (bHeader cb)) = Some tg"
    "nextBlockTarget (envParams env) h' (branchAt (brHead b)) (bhTime (bHeader cb)) = Some tg"
    using same_past_target [OF s links_downward [OF l] x links_downward [OF l'] z assms(7)] by blast
  then show "nextBlockTarget (envParams env') h' b (bhTime (bHeader cb)) = Some (bhTarget (bHeader cb))"
    using a r nextBlockTarget_head [of "envParams env" h' b] by (simp add: accepted_def same_rules_def)
  have "bkHash (h' ! brHead b) = bkHash (h ! x)"
    using l l' x z same_past_head [OF s] r by (simp add: links_ok_def same_rules_def)
  then show "bhLastHash (bHeader cb) = branchHash h' b" using a by (simp add: accepted_def branchHash_def)
  show "verifyEvidence env' db b e = Inr ()" if "e \<in> set (bEvds cb)" for e
    using a r that fresh by (simp add: verifyEvidence_Inr accepted_def same_rules_def)
qed (use a r t same_past_head [OF s] in \<open>simp_all add: accepted_def same_rules_def bkTime_def\<close>)


section \<open>The missing blocks in order\<close>

fun linkedFrom :: "heap \<Rightarrow> addr \<Rightarrow> addr list \<Rightarrow> bool" where
  "linkedFrom h p [] \<longleftrightarrow> True"
| "linkedFrom h p (y # ys) \<longleftrightarrow> y < length h \<and> bkBackward (h ! y) = Some p \<and> linkedFrom h y ys"

lemma linkedFrom_snoc:
  "linkedFrom h p (ys @ [y]) \<longleftrightarrow> linkedFrom h p ys \<and> y < length h \<and> bkBackward (h ! y) = Some (last (p # ys))"
  by (induction ys arbitrary: p) auto

lemma linkedFrom_bound: "linkedFrom h p ys \<Longrightarrow> y \<in> set ys \<Longrightarrow> y < length h"
  by (induction ys arbitrary: p) auto

lemma linkedFrom_since:
  assumes d: "downward h" and "x < length h" "a \<in> set (lineage h x)"
  shows "linkedFrom h a (rev (since h a x)) \<and> last (a # rev (since h a x)) = x"
  using assms(2,3)
proof (induction x rule: less_induct)
  case (less x)
  show ?case
  proof (cases "a = x")
    case False
    obtain p where p: "bkBackward (h ! x) = Some p" "p < x" "a \<in> set (lineage h p)"
      using lineage_step [OF less.prems(2) False] by blast
    then show ?thesis
      using less.IH [OF p(2) _ p(3)] less.prems(1) since_step [OF d less.prems(1) p(1)] False
      by (simp add: linkedFrom_snoc)
  qed simp
qed

lemma lineage_sub: "x \<in> set (lineage h y) \<Longrightarrow> set (lineage h x) \<subseteq> set (lineage h y)"
proof (induction y rule: less_induct)
  case (less y)
  show ?case
  proof (cases "x = y")
    case False
    obtain p where p: "bkBackward (h ! y) = Some p" "p < y" "x \<in> set (lineage h p)"
      using lineage_step [OF less.prems False] by blast
    have "set (lineage h p) \<subseteq> set (lineage h y)" using p(1,2) by (subst (2) lineage.simps) auto
    then show ?thesis using less.IH [OF p(2,3)] by blast
  qed simp
qed

lemma linkedFrom_descends:
  "downward h \<Longrightarrow> p < length h \<Longrightarrow> linkedFrom h p ys \<Longrightarrow> y \<in> set ys \<Longrightarrow> p < y \<and> p \<in> set (lineage h y)"
proof (induction ys arbitrary: p)
  case (Cons x ys)
  then have x: "p < x" "lineage h x = x # lineage h p" using downwardD lineage_parent by auto
  show ?case
  proof (cases "y = x")
    case False
    then have y: "x < y" "x \<in> set (lineage h y)" using Cons by auto
    then have "set (lineage h x) \<subseteq> set (lineage h y)" by (intro lineage_sub)
    then show ?thesis using x y by auto
  qed (use x in simp)
qed simp

section \<open>The branch that receives them\<close>

lemma extended_past:
  assumes "extended h n p h'" "downward h" "p < length h"
  shows "past h' (length h) = (bkBlock n, bkHeight n) # past h p"
proof -
  note d = extended_downward [OF assms]
  have old: "past h' a = past h a" if "a < length h" for a
    using that
  proof (induction a rule: less_induct)
    case (less a)
    have a: "a < length h'" "bkBackward (h' ! a) = bkBackward (h ! a)" "bkBlock (h' ! a) = bkBlock (h ! a)"
      "bkHeight (h' ! a) = bkHeight (h ! a)"
      using assms(1) less.prems by (simp_all add: extended_def)
    show ?case
    proof (cases "bkBackward (h ! a)")
      case None
      then show ?thesis using a by (simp add: past_def lineage_root)
    next
      case (Some q)
      then have "q < a" using downwardD [OF assms(2) less.prems] by simp
      then show ?thesis
        using less past_step [OF assms(2) less.prems Some] past_step [OF d a(1), of q] a Some by simp
    qed
  qed
  have "length h < length h'" "bkBackward (h' ! length h) = Some p" "bkBlock (h' ! length h) = bkBlock n"
    "bkHeight (h' ! length h) = bkHeight n"
    using assms(1) by (simp_all add: extended_def)
  then show ?thesis using past_step [OF d, of "length h" p] old [OF assms(3)] by simp
qed

lemma addTo_branch:
  assumes inv: "chain_inv env d" and i: "i \<in> set (cBranches d)"
  shows "past (cHeap (addTo i n d)) (brHead (br (addTo i n d) i)) =
      (bkBlock n, bkHeight n) # past (cHeap d) (brHead (br d i))"
    and "branchGetEvidence (br (addTo i n d) i) x \<noteq> None \<longleftrightarrow>
      branchGetEvidence (br d i) x \<noteq> None \<or> x \<in> eHash ` set (bEvds (bkBlock n))"
    and "j \<noteq> i \<Longrightarrow> j \<in> set (cBranches d) \<Longrightarrow> heightOf (addTo i n d) j = heightOf d j"
    and "length (cHeap (addTo i n d)) = Suc (length (cHeap d))"
proof -
  have sh: "shape d" and l: "links_ok env (cHeap d)" using inv by (auto simp: chain_inv_def)
  obtain h' b' where add: "branchAdd n (cHeap d) (br d i) = (h', b')" by (cases "branchAdd n (cHeap d) (br d i)")
  note hd = shape_update_branch [OF sh i]
  note e = branchAdd_extended [OF hd add] and b' = branchAdd_branch [OF hd add]
  have il: "i < length (cStore d)" using shape_branch [OF sh i] by simp
  show "past (cHeap (addTo i n d)) (brHead (br (addTo i n d) i)) =
      (bkBlock n, bkHeight n) # past (cHeap d) (brHead (br d i))"
    using extended_past [OF e links_downward [OF l] hd] b'(1) il by (simp add: addTo_def add)
  show "branchGetEvidence (br (addTo i n d) i) x \<noteq> None \<longleftrightarrow>
      branchGetEvidence (br d i) x \<noteq> None \<or> x \<in> eHash ` set (bEvds (bkBlock n))"
    using b'(3) [of x] il by (simp add: addTo_def add)
  show "heightOf (addTo i n d) j = heightOf d j" if "j \<noteq> i" "j \<in> set (cBranches d)"
    using that shape_update_branch [OF sh that(2)] e
    by (simp add: addTo_def add heightOf_def branchHeight_def extended_def)
  show "length (cHeap (addTo i n d)) = Suc (length (cHeap d))"
    using e by (simp add: addTo_def add extended_def)
qed


section \<open>All of them are accepted\<close>

text \<open>No evidence of the blocks is in the branch or in the database.\<close>

definition unknown :: "('sig, 'key, 'priv, 's) chain_env \<Rightarrow> 's chain \<Rightarrow> nat \<Rightarrow> Block list \<Rightarrow> bool" where
  "unknown env d i cbs \<longleftrightarrow> (\<forall>cb \<in> set cbs. \<forall>e \<in> set (bEvds cb).
     branchGetEvidence (br d i) (eHash e) = None \<and> \<not> HasEvidence (envBdg env) (eHash e) (cDb d))"

lemma addLoop_accepts:
  assumes r: "same_rules env env'" and l: "links_ok env h" and ap: "apart h"
  shows "linkedFrom h p ys \<Longrightarrow> p < length h \<Longrightarrow> deep h p \<Longrightarrow> chain_inv env' d \<Longrightarrow> height_inv d \<Longrightarrow>
    i \<in> set (cBranches d) \<Longrightarrow> same_past h p (cHeap d) (brHead (br d i)) \<Longrightarrow>
    unknown env' d i (map (\<lambda>y. bkBlock (h ! y)) ys) \<Longrightarrow>
    \<forall>k. \<forall>y \<in> set ys. timeSub (bkTime (h ! y), 0) (clock k) \<le> 3 * 1000000000 \<Longrightarrow>
    \<exists>d'. addLoop env' clock i (map (\<lambda>y. bkBlock (h ! y)) ys) d = Some (True, d') \<and>
      chain_inv env' d' \<and> height_inv d' \<and> cBranches d' = cBranches d \<and> cLastHeight d' = cLastHeight d \<and>
      same_past h (last (p # ys)) (cHeap d') (brHead (br d' i)) \<and>
      (\<forall>j \<in> set (cBranches d). j \<noteq> i \<longrightarrow> heightOf d' j = heightOf d j) \<and>
      length (cHeap d') = length (cHeap d) + length ys"
proof (induction ys arbitrary: p d clock)
  case (Cons y ys)
  let ?cb = "bkBlock (h ! y)"
  let ?n = "newBlk (envHash env') ?cb (heightOf d i + 1) False"
  let ?d = "addTo i ?n d"
  note d = links_downward [OF l] and inv = Cons.prems(4) and i = Cons.prems(6) and s = Cons.prems(7)
  have y: "y < length h" "bkBackward (h ! y) = Some p" "linkedFrom h y ys" using Cons.prems(1) by auto
  then have lk: "accepted env h p ?cb" "bkHeight (h ! y) = bkHeight (h ! p) + 1"
    using l by (simp_all add: links_ok_def)
  have sh: "shape d" and l': "links_ok env' (cHeap d)" using inv by (auto simp: chain_inv_def)
  have v: "verifyBlock env' (clock 0) (cDb d) (cHeap d) (br d i) ?cb = Some (Inr ())"
    by (rule accepted_verifies [OF r l l' Cons.prems(2) shape_update_branch [OF sh i] s Cons.prems(3) lk(1)])
      (use Cons.prems(8,9) in \<open>auto simp: unknown_def bkTime_def\<close>)
  have hd: "heightOf d i = bkHeight (h ! p)"
    using same_past_head [OF s] by (simp add: heightOf_def branchHeight_def)
  note at = addTo_branch [OF inv i, where n = ?n]
  have s': "same_past h y (cHeap ?d) (brHead (br ?d i))"
    by (rule same_past_step [OF s past_step [OF d y(1,2)]]) (simp only: at(1), simp add: newBlk_def hd lk(2))
  have "deep h y" by (rule deep_step [OF Cons.prems(3) past_step [OF d y(1,2)] lk(2)])
  moreover have "unknown env' ?d i (map (\<lambda>y. bkBlock (h ! y)) ys)"
    unfolding unknown_def
  proof (intro ballI)
    fix cb e assume cb: "cb \<in> set (map (\<lambda>y. bkBlock (h ! y)) ys)" and e: "e \<in> set (bEvds cb)"
    then obtain z where z: "z \<in> set ys" "cb = bkBlock (h ! z)" by auto
    then have "y < z" "y \<in> set (lineage h z)" using linkedFrom_descends [OF d y(1,3)] by auto
    moreover have "z < length h" using linkedFrom_bound [OF y(3) z(1)] .
    ultimately have "evds_at h z \<inter> evds_at h y = {}" using ap by (auto simp: apart_def)
    then have "eHash e \<notin> eHash ` set (bEvds ?cb)" using e z(2) by (auto simp: evds_at_def)
    then show "branchGetEvidence (br ?d i) (eHash e) = None \<and> \<not> HasEvidence (envBdg env') (eHash e) (cDb ?d)"
      using at(2) [where x = "eHash e"] Cons.prems(8) cb e by (auto simp: unknown_def newBlk_def frame_simps)
  qed
  ultimately obtain d' where "addLoop env' (\<lambda>k. clock (Suc k)) i (map (\<lambda>y. bkBlock (h ! y)) ys) ?d = Some (True, d')"
    "chain_inv env' d'" "height_inv d'" "cBranches d' = cBranches ?d" "cLastHeight d' = cLastHeight ?d"
    "same_past h (last (y # ys)) (cHeap d') (brHead (br d' i))"
    "\<forall>j \<in> set (cBranches ?d). j \<noteq> i \<longrightarrow> heightOf d' j = heightOf ?d j"
    "length (cHeap d') = length (cHeap ?d) + length ys"
    using Cons.IH [OF y(3,1) _ addTo_inv [OF inv i v] addTo_height [OF inv Cons.prems(5) i] _ s', of "\<lambda>k. clock (Suc k)"]
      Cons.prems(9) i by (auto simp: frame_simps)
  then show ?case using v at(3,4) by (intro exI [of _ d']) (simp add: frame_simps)
qed simp


section \<open>The new longest branch\<close>

text \<open>A branch higher than all others and than the last announced height is chosen and announced.\<close>

lemma notifyCheck_top:
  assumes inv: "chain_inv env c" and hi: "height_inv c" and len: "length (cHeap c) < 2 ^ 64" and i: "i \<in> set (cBranches c)"
    and top: "\<forall>j \<in> set (cBranches c). j \<noteq> i \<longrightarrow> heightOf c j < heightOf c i" and "cLastHeight c < heightOf c i"
  shows "notifyCheck coin c = Some (c\<lparr>cLongest := i, cLastHeight := heightOf c i, cNotify := True\<rparr>)"
proof -
  obtain b where b: "getLongestBranch coin c = Some b" "b \<in> set (cBranches c)" "\<forall>j \<in> set (cBranches c). heightOf c j \<le> heightOf c b"
    by (rule getLongestBranch_max [OF inv hi len])
  then have "b = i" using top i by (metis linorder_not_less)
  then show ?thesis using b(1) assms(6) by (simp add: notifyCheck_def)
qed

section \<open>Property\<close>

text \<open>
  The node with chain \<open>d\<close> is behind the one with chain \<open>c\<close>: its branch \<open>i\<close> ends in block \<open>a\<close> of the
  longest branch of \<open>c\<close>, it has none of the evidences that come after \<open>a\<close>, and its other branches
  are lower than the longest branch of \<open>c\<close>.
\<close>

definition behind ::
  "('sig, 'key, 'priv, 's) chain_env \<Rightarrow> 's chain \<Rightarrow> ('sig, 'key, 'priv, 't) chain_env \<Rightarrow> 't chain \<Rightarrow> addr \<Rightarrow> nat \<Rightarrow> bool" where
  "behind env c env' d a i \<longleftrightarrow> same_rules env env' \<and>
     a \<in> set (lineage (cHeap c) (brHead (longest c))) \<and> a \<noteq> brHead (longest c) \<and> deep (cHeap c) a \<and>
     getBranch d (bkHash (cHeap c ! a)) = Some i \<and> same_past (cHeap c) a (cHeap d) (brHead (br d i)) \<and>
     unknown env' d i (map (\<lambda>y. bkBlock (cHeap c ! y)) (since (cHeap c) a (brHead (longest c)))) \<and>
     (\<forall>j \<in> set (cBranches d). j \<noteq> i \<longrightarrow> heightOf d j < heightOf c (cLongest c))"

lemma behind_catches_up:
  assumes "kv_store (envBdg env) view" "starts env genesis db c0" "runs env c0 c" "length (cHeap c) < 2 ^ 32"
    and "kv_store (envBdg env') view'" "starts env' genesis' db' d0" "runs env' d0 d" "length (cHeap d) < 2 ^ 32"
    and b: "behind env c env' d a i"
    and t: "\<forall>k. \<forall>y \<in> set (since (cHeap c) a (brHead (longest c))). timeSub (bkTime (cHeap c ! y), 0) (clock k) \<le> 3 * 1000000000"
  shows "\<exists>d'. addBlocks env' clock coin (map (\<lambda>y. bkBlock (cHeap c ! y)) (rev (since (cHeap c) a (brHead (longest c))))) False d = Some d' \<and>
    LatestBlockHash d' = LatestBlockHash c \<and> heightOf d' (cLongest d') = heightOf c (cLongest c) \<and> cNotify d'"
proof -
  let ?h = "cHeap c" and ?x = "brHead (longest c)"
  let ?ys = "rev (since ?h a ?x)"
  let ?bs = "map (\<lambda>y. bkBlock (?h ! y)) ?ys"
  note reach = reachable_longest [OF assms(1-3)]
  have b': "same_rules env env'" "a \<in> set (lineage ?h ?x)" "a \<noteq> ?x" "deep ?h a" "getBranch d (bkHash (?h ! a)) = Some i"
    "same_past ?h a (cHeap d) (brHead (br d i))" "unknown env' d i ?bs"
    "\<forall>j \<in> set (cBranches d). j \<noteq> i \<longrightarrow> heightOf d j < heightOf c (cLongest c)"
    using b by (simp_all add: behind_def unknown_def)
  have inv: "chain_inv env' d" by (rule kv_store.reachable_inv [OF assms(5) refl assms(6,7)])
  have hi: "height_inv d" by (rule kv_store.reachable_height [OF assms(5) refl assms(6,7)])
  have i: "i \<in> set (cBranches d)" using b'(5) by (auto simp: getBranch_def find_Some_iff)
  note a = lineage_bound [OF reach(4) b'(2)]
  note link = linkedFrom_since [OF links_downward [OF reach(2)] reach(4) b'(2)]
  obtain d2 where d2: "addLoop env' clock i ?bs d = Some (True, d2)" "chain_inv env' d2" "height_inv d2"
    "cBranches d2 = cBranches d" "cLastHeight d2 = cLastHeight d" "same_past ?h (last (a # ?ys)) (cHeap d2) (brHead (br d2 i))"
    "\<forall>j \<in> set (cBranches d). j \<noteq> i \<longrightarrow> heightOf d2 j = heightOf d j" "length (cHeap d2) = length (cHeap d) + length ?ys"
    using addLoop_accepts [OF b'(1) reach(2,3) conjunct1 [OF link] a b'(4) inv hi i b'(6,7), of clock] t by auto
  have s: "same_past ?h ?x (cHeap d2) (brHead (br d2 i))" using d2(6) link by simp
  have H: "heightOf d2 i = heightOf c (cLongest c)"
    using same_past_head [OF s] by (simp add: heightOf_def branchHeight_def)
  have sh: "shape d" "shape d2" and l: "links_ok env' (cHeap d2)" using inv d2(2) by (simp_all add: chain_inv_def)
  have hash: "branchHash (cHeap d2) (br d2 i) = LatestBlockHash c"
    using same_past_head [OF s] l reach(2,4) shape_update_branch [OF sh(2), of i] i b'(1) d2(4)
    by (simp add: branchHash_def LatestBlockHash_def links_ok_def same_rules_def)
  have "bkHeight (?h ! a) < bkHeight (?h ! ?x)"
    by (rule height_less [OF reach(2,1) _ reach(4) b'(2,3)]) (use assms(4) in simp)
  then have "heightOf d i < heightOf c (cLongest c)"
    using same_past_head [OF b'(6)] by (simp add: heightOf_def branchHeight_def)
  then have "heightOf d (cLongest d) < heightOf c (cLongest c)"
    using b'(8) sh(1) by (cases "cLongest d = i") (auto simp: shape_def)
  then have last: "cLastHeight d2 < heightOf d2 i" using hi assms(8) H d2(5) by (auto simp: height_inv_def)
  have "length ?ys \<le> Suc ?x"
    using lineage_length_le [of ?h ?x] length_takeWhile_le [of _ "lineage ?h ?x"] le_trans unfolding since_def length_rev by blast
  then have len: "length (cHeap d2) < 2 ^ 64" using d2(8) assms(4,8) reach(4) by simp
  have "notifyCheck coin d2 = Some (d2\<lparr>cLongest := i, cLastHeight := heightOf d2 i, cNotify := True\<rparr>)"
    by (rule notifyCheck_top [OF d2(2,3) len]) (use i d2(4,7) b'(8) H last in auto)
  moreover obtain b0 rest where "?bs = b0 # rest" "bhLastHash (bHeader b0) = bkHash (?h ! a)"
    using since_linked [OF reach(2,4) b'(2) b'(3) [symmetric]] by (cases ?bs) (auto simp: Let_def)
  ultimately have "addBlocks env' clock coin ?bs False d = Some (d2\<lparr>cLongest := i, cLastHeight := heightOf d2 i, cNotify := True\<rparr>)"
    using d2(1) b'(5) by (simp add: addBlocks_def)
  then show ?thesis using hash H by (simp add: LatestBlockHash_def heightOf_def)
qed

text \<open>
  C5 A node that lags behind catches up.  Let the peer's chain \<open>c\<close> be in a reachable state in which
  fewer than \<open>2^32\<close> blocks were added and no two of them have the same hash, and let the node be
  \<open>behind\<close> it: it has the same rules, one of its branches ends in a block \<open>a\<close> of the longest branch
  of the peer, the two agree on the recent blocks that targets are computed from, the node has none of
  the evidences of the blocks after \<open>a\<close>, and its other branches are lower than the longest branch of
  the peer.  Then the peer answers \<open>GetSyncHash\<close> and \<open>GetSyncBlocks\<close> with the missing blocks,
  \<open>addBlocks\<close> of the node accepts every one of them, over whatever database, and does not fail, and
  afterwards its longest branch ends in the same block at the same height as the peer's and the change
  is announced.  The clocks of the node may be at most three seconds behind the times of the blocks.
\<close>

theorem lagging_node_catches_up:
  assumes "kv_store (envBdg env) view" "starts env genesis db c0" "runs env c0 c"
    and "length (cHeap c) < 2 ^ 32" "distinct_hashes (cHeap c)"
    and "kv_store (envBdg env') view'" "starts env' genesis db' d0" "runs env' d0 d" "length (cHeap d) < 2 ^ 32"
    and "behind env c env' d a i"
    and "\<forall>k. \<forall>y \<in> set (since (cHeap c) a (brHead (longest c))). timeSub (bkTime (cHeap c ! y), 0) (clock k) \<le> 3 * 1000000000"
  shows "let base = bkHash (cHeap c ! a) in
    \<exists>n bs d'. GetSyncHash env c base = Some (Inr (LatestBlockHash c, n)) \<and>
      GetSyncBlocks env c base (LatestBlockHash c) False = Some (Inr bs) \<and> length bs = unat n \<and>
      addBlocks env' clock coin bs False d = Some d' \<and>
      LatestBlockHash d' = LatestBlockHash c \<and> heightOf d' (cLongest d') = heightOf c (cLongest c) \<and> cNotify d'"
proof -
  have a: "a \<in> set (lineage (cHeap c) (brHead (longest c)))" "a \<noteq> brHead (longest c)"
    using assms(10) by (simp_all add: behind_def)
  show ?thesis
    using sync_range [OF assms(1-5) a] behind_catches_up [OF assms(1-4,6-11), of coin] by (auto simp: Let_def)
qed

lemma demo_behind:
  assumes "\<forall>x. length x = 32 \<longrightarrow> \<not> HasEvidence mem_badger x s"
  shows "behind demo_env (demo_c1 s) demo_env (demo_c0 s) 0 0"
proof -
  have c: "longest (demo_c1 s) = br (demo_c1 s) 0" by (simp add: demo_c1_def frame_simps) (simp add: demo_c0_def)
  have line: "lineage (cHeap (demo_c1 s)) (Suc 0) = [Suc 0, 0]"
    by (subst lineage.simps) (simp add: demo_c1_simps lineage_root)
  have "past (cHeap (demo_c1 s)) 0 = [(dblk 0, bkHeight (cHeap (demo_c1 s) ! 0))]"
    by (simp add: past_def lineage_root demo_c1_simps)
  moreover have "bkHeight (cHeap (demo_c1 s) ! 0) = 1"
    by (simp add: demo_c1_def addTo_def demo_c0_def branchAdd_def Let_def setBackward_def addFordward_def
      newBlk_def demo_branch_def)
  moreover have "past (cHeap (demo_c0 s)) (brHead (br (demo_c0 s) 0)) = [(dblk 0, 1)]"
    by (simp add: past_def demo_c0_def demo_branch_def newBlk_def lineage_root)
  moreover have "getBranch (demo_c0 s) (dh 0) = Some 0"
    by (simp add: getBranch_def demo_c0_def branchHash_def demo_branch_def newBlk_def dh_def)
  moreover have "unknown demo_env (demo_c0 s) 0 [demo_evd_block]"
    using assms by (simp add: unknown_def demo_evd_block_def demo_c0_def demo_branch_def branchGetEvidence_def)
      (simp add: demo_evd_def)
  ultimately show ?thesis
    unfolding behind_def c demo_c1_simps since_def line
    by (simp add: same_rules_def deep_def same_past_def demo_c1_hashes demo_c1_simps) (simp add: demo_c0_def)
qed

theorem lagging_node_catches_up_witness:
  "\<exists>s d'. addBlocks demo_env (\<lambda>_. (1, 0)) (\<lambda>_. True) [demo_evd_block] False (demo_c0 s) = Some d' \<and>
     LatestBlockHash d' = BlockHash pad_hash demo_evd_block \<and> cNotify d'"
proof -
  obtain s where s: "starts demo_env demo_genesis [] (demo_c0 s)" "\<forall>x. length x = 32 \<longrightarrow> \<not> HasEvidence mem_badger x s"
    using demo_starts by blast
  then have r: "runs demo_env (demo_c0 s) (demo_c1 s)" by (simp add: demo_c1_runs)
  have kv: "kv_store (envBdg demo_env) map_of" using mem.kv_store_axioms by simp
  have c: "cLongest (demo_c1 s) = 0" by (simp add: demo_c1_def frame_simps) (simp add: demo_c0_def)
  have line: "since (cHeap (demo_c1 s)) 0 (Suc 0) = [Suc 0]"
    unfolding since_def by (subst lineage.simps) (simp add: demo_c1_simps lineage_root)
  have "timeSub (bkTime (cHeap (demo_c1 s) ! Suc 0), 0) (1, 0) = 0"
    by (simp add: bkTime_def demo_c1_simps demo_evd_block_def timeSub_self)
  moreover have "length (cHeap (demo_c0 s)) = 1" by (simp add: demo_c0_def)
  moreover have "0 \<in> set (lineage (cHeap (demo_c1 s)) (Suc 0))" by (simp only: demo_c1_line) simp
  ultimately show ?thesis
    using lagging_node_catches_up [OF kv s(1) r _ _ kv s(1) runs_start _ demo_behind [OF s(2)], of "\<lambda>_. (1, 0)" "\<lambda>_. True"]
      demo_c1_distinct [of s] sync_range [OF kv s(1) r, of 0]
    by (auto simp: c demo_c1_simps demo_c1_hashes line Let_def LatestBlockHash_def branchHash_def)
qed

end
