(* ===== verification/DbBrowser.thy ===== *)
theory DbBrowser
  imports Client
begin

text \<open>
  The database browser, \<open>src/cmd/dbbrowser/main.go\<close>, with the package variable \<open>instance\<close> of
  \<open>src/db/db.go\<close> through which it reads.  The output is the text written so far; \<open>canWrite\<close> says
  whether a write after that text succeeds, and \<open>Exit\<close> is \<open>os.Exit\<close>.  \<open>None\<close> is a panic or a loop
  that does not end.  \<open>badger.Open\<close>, \<open>filepath.Abs\<close> and the text of a time are arguments.
\<close>

section \<open>The database\<close>

text \<open>\<open>Init\<close> of \<open>db.go\<close> sets \<open>instance\<close> before it opens the store.\<close>

datatype 's dbInstance = NilInstance | Unopened | Opened 's

datatype dbOpenError = AbsFailed | PathError key_error | OpenFailedInternal

definition badgerInit ::
  "(string \<Rightarrow> string option) \<Rightarrow> (string \<Rightarrow> 's option) \<Rightarrow> string \<Rightarrow> disk \<Rightarrow> dbOpenError + 's" where
  "badgerInit absPath openStore path d =
     (case absPath path of
        None \<Rightarrow> Inl AbsFailed
      | Some dbpath \<Rightarrow>
          (case AccessCheck dbpath d of
             Inl e \<Rightarrow> Inl (PathError e)
           | Inr _ \<Rightarrow> (case openStore dbpath of None \<Rightarrow> Inl OpenFailedInternal | Some s \<Rightarrow> Inr s)))"

definition dbInit ::
  "(string \<Rightarrow> string option) \<Rightarrow> (string \<Rightarrow> 's option) \<Rightarrow> string \<Rightarrow> disk \<Rightarrow> dbOpenError option \<times> 's dbInstance" where
  "dbInit absPath openStore path d =
     (case badgerInit absPath openStore path d of Inl e \<Rightarrow> (Some e, Unopened) | Inr s \<Rightarrow> (None, Opened s))"

text \<open>A call on a nil or unopened instance panics.\<close>

definition onInstance :: "('s \<Rightarrow> 'a) \<Rightarrow> 's dbInstance \<Rightarrow> 'a option" where
  "onInstance f i = (case i of Opened s \<Rightarrow> Some (f s) | _ \<Rightarrow> None)"

definition dbGetLatestHeight :: "'s badger \<Rightarrow> 's dbInstance \<Rightarrow> (db_error + u64) option" where
  "dbGetLatestHeight bdg i = onInstance (GetLatestHeight bdg) i"

definition dbGetBlockViaHeight :: "'s badger \<Rightarrow> u64 \<Rightarrow> 's dbInstance \<Rightarrow> (db_error + Block \<times> bytes) option" where
  "dbGetBlockViaHeight bdg height i = onInstance (GetBlockViaHeight bdg height) i"

definition dbGetBlockViaHash :: "'s badger \<Rightarrow> bytes \<Rightarrow> 's dbInstance \<Rightarrow> (db_error + Block \<times> u64) option" where
  "dbGetBlockViaHash bdg h i = onInstance (Database.GetBlockViaHash bdg h) i"

definition dbGetEvidenceViaHash :: "'s badger \<Rightarrow> bytes \<Rightarrow> 's dbInstance \<Rightarrow> (db_error + Evidence \<times> u64) option" where
  "dbGetEvidenceViaHash bdg h i = onInstance (GetEvidenceViaHash bdg h) i"

section \<open>Output\<close>

definition newline :: string where "newline = [CHR 0x0A]"
definition tabs :: "nat \<Rightarrow> string" where "tabs n = replicate n (CHR 0x09)"

text \<open>\<open>%X\<close> of a number.\<close>

function hexNumber :: "nat \<Rightarrow> string" where
  "hexNumber n = (if n < 16 then [ToUpper hextable ! n] else hexNumber (n div 16) @ [ToUpper hextable ! (n mod 16)])"
  by pat_completeness auto
termination
  by (relation "measure id") auto

declare hexNumber.simps [simp del]

text \<open>\<open>wirte\<close> ends the program when the output cannot be written; \<open>Exit\<close> has the output up to there.\<close>

datatype 'a exit = Exit string | Continue 'a

definition wirte :: "(string \<Rightarrow> bool) \<Rightarrow> string \<Rightarrow> string \<Rightarrow> string exit" where
  "wirte canWrite content out = (if canWrite out then Continue (out @ content) else Exit out)"

definition evidenceText :: "Evidence \<Rightarrow> string" where
  "evidenceText evd =
     ''[Evidence] '' @ ToHex (eHash evd) @ newline @
     ''version'' @ tabs 3 @ natString (unat (eVersion evd)) @ newline @
     ''owner_key'' @ tabs 2 @ ToHex (ePubKey evd) @ newline @
     ''signature'' @ tabs 2 @ ToHex (eSig evd) @ newline @
     ''description'' @ tabs 2 @ bytesStr (eDescription evd) @ newline @
     ''nonce'' @ tabs 3 @ natString (unat (eNonce evd)) @ newline @ newline"

definition formatOutputEvidence :: "(string \<Rightarrow> bool) \<Rightarrow> Evidence \<Rightarrow> string \<Rightarrow> string exit" where
  "formatOutputEvidence canWrite evd out = wirte canWrite (evidenceText evd) out"

definition blockText :: "(i64 \<Rightarrow> string) \<Rightarrow> Block \<Rightarrow> bytes \<Rightarrow> u64 \<Rightarrow> string" where
  "blockText timeText block hash height =
     (let h = bHeader block;
          difficulty = TargetToDiff (bhTarget h);
          evRoot = (if IsEmptyEvidenceRoot h then ''EMPTY'' else ToHex (bhEvidenceRoot h))
      in ''>>>>> [Block '' @ natString (unat height) @ ''] '' @ ToHex hash @ newline @
         ''version'' @ tabs 2 @ natString (unat (bhVersion h)) @ newline @
         ''time'' @ tabs 2 @ timeText (bhTime h) @ newline @
         ''nonce'' @ tabs 2 @ natString (unat (bhNonce h)) @ newline @
         ''difficulty'' @ tabs 1 @ hexNumber difficulty @ newline @
         ''lashHash'' @ tabs 1 @ ToHex (bhLastHash h) @ newline @
         ''miner'' @ tabs 2 @ ToHex (bhMiner h) @ newline @
         ''evRoot'' @ tabs 2 @ evRoot @ newline @ newline)"

fun outputEvidences :: "(string \<Rightarrow> bool) \<Rightarrow> Evidence list \<Rightarrow> string \<Rightarrow> string exit" where
  "outputEvidences canWrite [] out = Continue out"
| "outputEvidences canWrite (evd # evds) out =
     (case formatOutputEvidence canWrite evd out of
        Exit o1 \<Rightarrow> Exit o1 | Continue out' \<Rightarrow> outputEvidences canWrite evds out')"

definition formatOutputBlock ::
  "(i64 \<Rightarrow> string) \<Rightarrow> (string \<Rightarrow> bool) \<Rightarrow> Block \<Rightarrow> bytes \<Rightarrow> u64 \<Rightarrow> string \<Rightarrow> string exit" where
  "formatOutputBlock timeText canWrite block hash height out =
     (case wirte canWrite (blockText timeText block hash height) out of
        Exit o1 \<Rightarrow> Exit o1
      | Continue out' \<Rightarrow>
          if IsEmptyEvidenceRoot (bHeader block) then Continue out' else outputEvidences canWrite (bEvds block) out')"

section \<open>Views\<close>

datatype viewError =
    LatestHeightFailed db_error
  | InvalidIndex int
  | InvalidRange
  | GetHeightFailed u64
  | DecodeFailed string
  | WrongHashSize nat
  | GetBlockFailed string
  | GetEvidenceFailed string

text \<open>A view ends the program, or returns an error or none with the output so far.\<close>

type_synonym viewResult = "(viewError option \<times> string) exit"

partial_function (option) viewLoop ::
  "'s badger \<Rightarrow> (i64 \<Rightarrow> string) \<Rightarrow> (string \<Rightarrow> bool) \<Rightarrow> 's dbInstance \<Rightarrow> u64 \<Rightarrow> u64 \<Rightarrow> string \<Rightarrow> viewResult option" where
  "viewLoop bdg timeText canWrite inst i e out =
     (if i \<le> e
      then (case dbGetBlockViaHeight bdg i inst of
              None \<Rightarrow> None
            | Some (Inl _) \<Rightarrow> Some (Continue (Some (GetHeightFailed i), out))
            | Some (Inr (block, hash)) \<Rightarrow>
                (case formatOutputBlock timeText canWrite block hash i out of
                   Exit o1 \<Rightarrow> Some (Exit o1)
                 | Continue out' \<Rightarrow> viewLoop bdg timeText canWrite inst (i + 1) e out'))
      else Some (Continue (None, out)))"

text \<open>\<open>strconv.ParseInt(r, 10, 64)\<close> reads what \<open>Atoi\<close> reads.\<close>

definition rangeView ::
  "'s badger \<Rightarrow> (i64 \<Rightarrow> string) \<Rightarrow> (string \<Rightarrow> bool) \<Rightarrow> 's dbInstance \<Rightarrow> string \<Rightarrow> string \<Rightarrow> viewResult option" where
  "rangeView bdg timeText canWrite inst r out =
     (case Atoi r of
        Some num \<Rightarrow>
          (if num = - 1
           then (case dbGetLatestHeight bdg inst of
                   None \<Rightarrow> None
                 | Some (Inl err) \<Rightarrow> Some (Continue (Some (LatestHeightFailed err), out))
                 | Some (Inr height) \<Rightarrow> viewLoop bdg timeText canWrite inst height height out)
           else if num > 0 then viewLoop bdg timeText canWrite inst (word_of_int num) (word_of_int num) out
           else Some (Continue (Some (InvalidIndex num), out)))
      | None \<Rightarrow>
          (case scanRange r of
             None \<Rightarrow> Some (Continue (Some InvalidRange, out))
           | Some (b, e) \<Rightarrow>
               if b \<ge> e then Some (Continue (Some InvalidRange, out))
               else viewLoop bdg timeText canWrite inst b e out))"

definition blockView ::
  "'s badger \<Rightarrow> (i64 \<Rightarrow> string) \<Rightarrow> (string \<Rightarrow> bool) \<Rightarrow> 's dbInstance \<Rightarrow> string \<Rightarrow> string \<Rightarrow> viewResult option" where
  "blockView bdg timeText canWrite inst hash out =
     (case FromHex hash of
        Inl _ \<Rightarrow> Some (Continue (Some (DecodeFailed hash), out))
      | Inr raw \<Rightarrow>
          if length raw \<noteq> HashLength then Some (Continue (Some (WrongHashSize (length raw)), out))
          else case dbGetBlockViaHash bdg raw inst of
              None \<Rightarrow> None
            | Some (Inl _) \<Rightarrow> Some (Continue (Some (GetBlockFailed hash), out))
            | Some (Inr (block, height)) \<Rightarrow>
                (case formatOutputBlock timeText canWrite block raw height out of
                   Exit o1 \<Rightarrow> Some (Exit o1)
                 | Continue out' \<Rightarrow> Some (Continue (None, out'))))"

definition evidenceView ::
  "'s badger \<Rightarrow> (string \<Rightarrow> bool) \<Rightarrow> 's dbInstance \<Rightarrow> string \<Rightarrow> string \<Rightarrow> viewResult option" where
  "evidenceView bdg canWrite inst hash out =
     (case FromHex hash of
        Inl _ \<Rightarrow> Some (Continue (Some (DecodeFailed hash), out))
      | Inr raw \<Rightarrow>
          if length raw \<noteq> HashLength then Some (Continue (Some (WrongHashSize (length raw)), out))
          else case dbGetEvidenceViaHash bdg raw inst of
              None \<Rightarrow> None
            | Some (Inl _) \<Rightarrow> Some (Continue (Some (GetEvidenceFailed hash), out))
            | Some (Inr (evidence, _)) \<Rightarrow>
                (case formatOutputEvidence canWrite evidence out of
                   Exit o1 \<Rightarrow> Some (Exit o1)
                 | Continue out' \<Rightarrow> Some (Continue (None, out'))))"

section \<open>The command\<close>

record browserFlags =
  bfDbpath :: string
  bfRange :: string
  bfB :: string
  bfE :: string
  bfO :: string

text \<open>
  \<open>AccessCheck\<close> refuses an output file that does not exist, although \<open>OpenFile\<close> would create it.
\<close>

definition openOutput :: "string \<Rightarrow> disk \<Rightarrow> bool" where
  "openOutput path d \<longleftrightarrow> AccessCheck path d = Inr () \<and> dkWritable d path \<and> (\<exists>content. dkNodes d path = Some (Plain content))"

text \<open>
  The file is not truncated: the output replaces the beginning of what it held.
\<close>

definition writeOver :: "string \<Rightarrow> string \<Rightarrow> disk \<Rightarrow> disk" where
  "writeOver path out d =
     (case dkNodes d path of
        Some (Plain old) \<Rightarrow> d\<lparr>dkNodes := (dkNodes d)(path \<mapsto> Plain (out @ drop (length out) old))\<rparr>
      | _ \<Rightarrow> d)"

text \<open>The exit code, what was written to the standard output as output, and the disk.\<close>

definition browserEnd :: "string \<Rightarrow> int \<Rightarrow> string \<Rightarrow> disk \<Rightarrow> int \<times> string \<times> disk" where
  "browserEnd path code out d = (if path = [] then (code, out, d) else (code, [], writeOver path out d))"

definition browserMain ::
  "'s badger \<Rightarrow> (string \<Rightarrow> string option) \<Rightarrow> (string \<Rightarrow> 's option) \<Rightarrow> (i64 \<Rightarrow> string) \<Rightarrow> (string \<Rightarrow> bool) \<Rightarrow>
   browserFlags \<Rightarrow> disk \<Rightarrow> (int \<times> string \<times> disk) option" where
  "browserMain bdg absPath openStore timeText canWrite fl d =
     (if bfDbpath fl = [] \<or> AccessCheck (bfDbpath fl) d \<noteq> Inr () then Some (1, [], d)
      else case dbInit absPath openStore (bfDbpath fl) d of
          (Some _, _) \<Rightarrow> Some (1, [], d)
        | (None, inst) \<Rightarrow>
            if bfO fl \<noteq> [] \<and> \<not> openOutput (bfO fl) d then Some (1, [], d)
            else if bfRange fl = [] \<and> bfB fl = [] \<and> bfE fl = [] then Some (1, [], d)
            else map_option (\<lambda>r. case r of
                   Exit out \<Rightarrow> browserEnd (bfO fl) 1 out d
                 | Continue (err, out) \<Rightarrow> browserEnd (bfO fl) (if err = None then 0 else 1) out d)
               (if bfRange fl \<noteq> [] then rangeView bdg timeText canWrite inst (bfRange fl) []
                else if bfB fl \<noteq> [] then blockView bdg timeText canWrite inst (bfB fl) []
                else evidenceView bdg canWrite inst (bfE fl) []))"

section \<open>Numbers in a range\<close>

lemma ParseUint_natString: "n < 2 ^ 64 \<Longrightarrow> ParseUint (natString n) = Some (word_of_nat n)"
  by (simp add: ParseUint_def decVal_natString)

lemma digit_no_space:
  assumes "c \<in> set (natString n)"
  shows "48 \<le> (of_char c :: nat) \<and> (of_char c :: nat) \<le> 57"
  using natString_digits [OF assms] by (simp add: digitVal_def split: if_splits)

lemma skipSpace_digit:
  assumes "s \<noteq> []" "48 \<le> (of_char (hd s) :: nat)" "(of_char (hd s) :: nat) \<le> 57"
  shows "skipSpace whiteSpaces s = Some s"
proof -
  obtain c t where s: "s = c # t" using assms(1) by (cases s) auto
  have first: "w = [] \<or> \<not> (48 \<le> (of_char (hd w) :: nat) \<and> (of_char (hd w) :: nat) \<le> 57)" if "w \<in> set whiteSpaces" for w
    using that by (auto simp: whiteSpaces_def)
  have "find (\<lambda>w. w \<noteq> [] \<and> take (length w) s = w) whiteSpaces = None"
  proof (simp only: find_None_iff, intro notI, elim exE conjE)
    fix w assume w: "w \<in> set whiteSpaces" "w \<noteq> []" "take (length w) s = w"
    have "hd w = hd s" using w(2,3) s by (cases w) auto
    then show False using first [OF w(1)] w(2) assms(2,3) by simp
  qed
  moreover have "c \<noteq> CHR 0x0A" using assms(2) s by auto
  ultimately show ?thesis using s by (simp add: skipSpace.simps)
qed

lemma scanUint_natString:
  assumes "n < 2 ^ 64" "rest = [] \<or> digitVal (hd rest) = None"
  shows "scanUint (natString n @ rest) = Some (word_of_nat n, rest)"
proof -
  have dig: "\<forall>c \<in> set (natString n). isDigit c" using natString_digits by (simp add: isDigit_def)
  have hd: "hd (natString n @ rest) \<in> set (natString n)" by (simp add: hd_append)
  have "skipSpace whiteSpaces (natString n @ rest) = Some (natString n @ rest)"
    by (rule skipSpace_digit) (use digit_no_space [OF hd] in simp_all)
  moreover have "takeWhile isDigit rest = []" "dropWhile isDigit rest = rest"
    using assms(2) by (cases rest; simp add: isDigit_def)+
  ultimately show ?thesis
    using dig ParseUint_natString [OF assms(1)] by (simp add: scanUint_def takeWhile_append dropWhile_append)
qed

lemma scanRange_natString:
  assumes "b < 2 ^ 64" "e < 2 ^ 64"
  shows "scanRange (natString b @ ''-'' @ natString e) = Some (word_of_nat b, word_of_nat e)"
proof -
  have "scanUint (natString b @ ''-'' @ natString e) = Some (word_of_nat b, ''-'' @ natString e)"
    using scanUint_natString [OF assms(1), of "''-'' @ natString e"] by (simp add: digitVal_def)
  moreover have "scanUint (natString e) = Some (word_of_nat e, [])" using scanUint_natString [OF assms(2), of "[]"] by simp
  ultimately show ?thesis by (simp add: scanRange_def)
qed

lemma Atoi_range: "Atoi (natString b @ ''-'' @ s) = None"
proof -
  have "decVal 0 (natString b @ ''-'' @ s) = None" by (simp add: decVal_append decVal_natString digitVal_def)
  moreover have "hd (natString b @ ''-'' @ s) \<in> set (natString b)" by (simp add: hd_append)
  from digit_no_space [OF this] have "hd (natString b @ ''-'' @ s) \<noteq> CHR 0x2D" "hd (natString b @ ''-'' @ s) \<noteq> CHR 0x2B" by auto
  ultimately show ?thesis by (simp add: Atoi_def)
qed

section \<open>What the views show\<close>

text \<open>The text of a block with its evidences.\<close>

definition blockOutput :: "hasher \<Rightarrow> (i64 \<Rightarrow> string) \<Rightarrow> Block list \<Rightarrow> nat \<Rightarrow> string" where
  "blockOutput Hash timeText bs i =
     blockText timeText (bs ! i) (BlockHash Hash (bs ! i)) (heightAt i) @
     (if IsEmptyEvidenceRoot (bHeader (bs ! i)) then [] else concat (map evidenceText (bEvds (bs ! i))))"

lemma outputEvidences_all: "outputEvidences (\<lambda>_. True) evds out = Continue (out @ concat (map evidenceText evds))"
  by (induction evds arbitrary: out) (simp_all add: formatOutputEvidence_def wirte_def)

lemma formatOutputBlock_all:
  "formatOutputBlock timeText (\<lambda>_. True) (bs ! i) (BlockHash Hash (bs ! i)) (heightAt i) out =
   Continue (out @ blockOutput Hash timeText bs i)"
  by (simp add: formatOutputBlock_def wirte_def outputEvidences_all blockOutput_def)

text \<open>The loop prints the blocks until one is missing.\<close>

context kv_store
begin

lemma viewLoop_shows:
  assumes "holds Hash (view s) bs" "i \<le> j" "j < length bs" "Suc (Suc j) < 2 ^ 64"
  shows "viewLoop bdg timeText (\<lambda>_. True) (Opened s) (heightAt i) (heightAt j) out =
    Some (Continue (None, out @ concat (map (blockOutput Hash timeText bs) [i..<Suc j])))"
  using assms(2)
proof (induction "j - i" arbitrary: i out)
  case 0
  then have i: "i = j" by simp
  have "heightAt j + 1 = heightAt (Suc j)" by (simp add: heightAt_def)
  moreover have "\<not> heightAt (Suc j) \<le> heightAt j"
    using unat_heightAt [of "Suc j"] unat_heightAt [of j] assms(4) by (simp add: word_le_nat_alt)
  ultimately show ?case
    using i block_reads(1) [OF assms(1,3)] formatOutputBlock_all [of timeText bs j Hash out]
    by (simp add: viewLoop.simps dbGetBlockViaHeight_def onInstance_def)
next
  case (Suc d)
  then have lt: "i < j" by simp
  have "heightAt i + 1 = heightAt (Suc i)" by (simp add: heightAt_def)
  moreover have "heightAt i \<le> heightAt j"
    using unat_heightAt [of i] unat_heightAt [of j] assms(4) lt by (simp add: word_le_nat_alt)
  moreover have "[i..<Suc j] = i # [Suc i..<Suc j]" using lt by (simp add: upt_conv_Cons)
  ultimately show ?case
    using Suc.hyps(1) [of "Suc i" "out @ blockOutput Hash timeText bs i"] Suc.hyps(2) lt assms(3)
      block_reads(1) [OF assms(1), of i] formatOutputBlock_all [of timeText bs i Hash out]
    by (subst viewLoop.simps) (simp add: dbGetBlockViaHeight_def onInstance_def del: upt_Suc)
qed

lemma viewLoop_missing:
  assumes "holds Hash (view s) bs" "i < length bs" "length bs < e" "Suc e < 2 ^ 64"
  shows "viewLoop bdg timeText (\<lambda>_. True) (Opened s) (heightAt i) (word_of_nat e) out =
    Some (Continue (Some (GetHeightFailed (heightAt (length bs))), out @ concat (map (blockOutput Hash timeText bs) [i..<length bs])))"
  using assms(2)
proof (induction "length bs - Suc i" arbitrary: i out)
  have e: "unat (word_of_nat e :: u64) = e" using assms(4) by (simp add: unat_of_nat)
  have le: "heightAt k \<le> (word_of_nat e :: u64)" if "k \<le> length bs" for k
    using unat_heightAt [of k] that assms(3,4) e by (simp add: word_le_nat_alt)
  have missing: "GetBlockViaHeight bdg (heightAt (length bs)) s = Inl ErrNotFound"
  proof (rule missing_reads(1) [OF assms(1)])
    show "heightAt (length bs) \<notin> heightAt ` {..<length bs}"
    proof
      assume "heightAt (length bs) \<in> heightAt ` {..<length bs}"
      then obtain j where j: "j < length bs" "heightAt (length bs) = heightAt j" by auto
      then show False using heightAt_inject [of "length bs" j] assms(3,4) by simp
    qed
  qed
  have after: "heightAt k + 1 = heightAt (Suc k)" for k by (simp add: heightAt_def)
  {
    case 0
    then have i: "Suc i = length bs" by simp
    have "viewLoop bdg timeText (\<lambda>_. True) (Opened s) (heightAt (Suc i)) (word_of_nat e) out' =
        Some (Continue (Some (GetHeightFailed (heightAt (length bs))), out'))" for out'
      using le [of "length bs"] missing i by (subst viewLoop.simps) (simp add: dbGetBlockViaHeight_def onInstance_def)
    moreover have "[i..<length bs] = [i]" using i [symmetric] by simp
    ultimately show ?case
      using le [of i] block_reads(1) [OF assms(1), of i] 0(2) formatOutputBlock_all [of timeText bs i Hash out] after
      by (subst viewLoop.simps) (simp add: dbGetBlockViaHeight_def onInstance_def)
  next
    case (Suc d)
    then have lt: "Suc i < length bs" by simp
    have "[i..<length bs] = i # [Suc i..<length bs]" using lt by (simp add: upt_conv_Cons)
    then show ?case
      using Suc.hyps(1) [of "Suc i" "out @ blockOutput Hash timeText bs i"] Suc.hyps(2) lt le [of i]
        block_reads(1) [OF assms(1), of i] formatOutputBlock_all [of timeText bs i Hash out] after
      by (subst viewLoop.simps) (simp add: dbGetBlockViaHeight_def onInstance_def del: upt_Suc)
  }
qed

text \<open>The views by range, by block hash and by evidence hash.\<close>

lemma rangeView_shows:
  assumes "holds Hash (view s) bs" "1 \<le> b" "b < e" "b \<le> length bs" "Suc e < 2 ^ 64"
  shows "rangeView bdg timeText (\<lambda>_. True) (Opened s) (natString b @ ''-'' @ natString e) out =
    Some (Continue (if e \<le> length bs then None else Some (GetHeightFailed (heightAt (length bs))),
      out @ concat (map (blockOutput Hash timeText bs) [b - 1..<min e (length bs)])))"
proof -
  have range: "scanRange (natString b @ ''-'' @ natString e) = Some (word_of_nat b, word_of_nat e)"
    by (rule scanRange_natString) (use assms in simp_all)
  have "unat (word_of_nat b :: u64) = b" "unat (word_of_nat e :: u64) = e"
    using assms by (simp_all add: unat_of_nat)
  then have lt: "\<not> (word_of_nat b :: u64) \<ge> word_of_nat e" using assms(3) by (simp add: word_le_nat_alt)
  have b: "word_of_nat b = heightAt (b - 1)" and e: "word_of_nat e = heightAt (e - 1)"
    using assms(2,3) by (simp_all add: heightAt_def)
  show ?thesis
  proof (cases "e \<le> length bs")
    case True
    have "Suc (e - 1) = e" "min e (length bs) = e" using assms(2,3) True by simp_all
    then show ?thesis
      using viewLoop_shows [OF assms(1), of "b - 1" "e - 1" timeText out] assms(2,3,5) True lt
      by (simp add: rangeView_def Atoi_range range b e del: append.simps upt_Suc)
  next
    case False
    then show ?thesis
      using viewLoop_missing [OF assms(1), of "b - 1" e timeText out] assms(2-5) lt
      by (simp add: rangeView_def Atoi_range range b min_def del: append.simps upt_Suc)
  qed
qed

lemma rangeView_latest:
  assumes "holds Hash (view s) bs" "Suc (length bs) < 2 ^ 64"
  shows "rangeView bdg timeText (\<lambda>_. True) (Opened s) ''-1'' out =
    Some (Continue (None, out @ blockOutput Hash timeText bs (length bs - 1)))"
proof -
  have ne: "bs \<noteq> []" using assms(1) by (simp add: holds_def)
  have "Atoi ''-1'' = Some (- 1)" by code_simp
  moreover have "word_of_nat (length bs) = heightAt (length bs - 1)" using ne by (simp add: heightAt_def)
  moreover have "[length bs - 1..<length bs] = [length bs - 1]" using ne upt_conv_Cons [of "length bs - 1" "length bs"] by simp
  ultimately show ?thesis
    using viewLoop_shows [OF assms(1), of "length bs - 1" "length bs - 1" timeText out] GetLatestHeight_holds [OF assms(1)]
      assms(2) ne
    by (simp add: rangeView_def dbGetLatestHeight_def onInstance_def)
qed

lemma blockView_shows:
  assumes "holds Hash (view s) bs" "hash_ok Hash" "i < length bs"
  shows "blockView bdg timeText (\<lambda>_. True) (Opened s) (ToHex (BlockHash Hash (bs ! i))) out =
    Some (Continue (None, out @ blockOutput Hash timeText bs i))"
  using block_reads(2) [OF assms(1,3)] formatOutputBlock_all [of timeText bs i Hash out] assms(2)
  by (simp add: blockView_def dbGetBlockViaHash_def onInstance_def hash_ok_def BlockHash_def HeaderGetSerializedHash_def HashLength_def)

lemma evidenceView_shows:
  assumes "holds Hash (view s) bs" "i < length bs" "evd \<in> set (bEvds (bs ! i))"
  shows "evidenceView bdg (\<lambda>_. True) (Opened s) (ToHex (eHash evd)) out = Some (Continue (None, out @ evidenceText evd))"
proof -
  have "length (eHash evd) = 32"
    using assms by (auto simp: holds_def represents_def storable_def)
  then show ?thesis
    using evidence_reads(1) [OF assms]
    by (simp add: evidenceView_def dbGetEvidenceViaHash_def onInstance_def HashLength_def formatOutputEvidence_def wirte_def)
qed

end

section \<open>Properties\<close>

text \<open>A command line that names a database, and nothing as output file.\<close>

definition viewing :: "string \<Rightarrow> string \<Rightarrow> string \<Rightarrow> string \<Rightarrow> browserFlags" where
  "viewing path r b e = \<lparr>bfDbpath = path, bfRange = r, bfB = b, bfE = e, bfO = []\<rparr>"

lemma browserMain_viewing:
  assumes "path \<noteq> []" "AccessCheck path d = Inr ()" "dbInit absPath openStore path d = (None, inst)"
    and "r \<noteq> [] \<or> b \<noteq> [] \<or> e \<noteq> []"
    and "(if r \<noteq> [] then rangeView bdg timeText canWrite inst r []
          else if b \<noteq> [] then blockView bdg timeText canWrite inst b []
          else evidenceView bdg canWrite inst e []) = Some (Continue (err, out))"
  shows "browserMain bdg absPath openStore timeText canWrite (viewing path r b e) d =
    Some (if err = None then 0 else 1, out, d)"
  using assms unfolding browserMain_def viewing_def by (auto simp: browserEnd_def)

text \<open>
  C23 The database browser shows what the database holds: on a database of the blocks \<open>bs\<close> the range
  \<open>b-e\<close> prints the blocks \<open>b\<close> to \<open>e\<close> with their evidences, in this order, and ends with 0 if they
  all exist and otherwise with 1 after the last that does; \<open>-1\<close> prints the last block; the hash of a
  block prints that block and the hash of an evidence that evidence.  The disk stays as it is.
\<close>

theorem browser_shows_database:
  fixes timeText :: "i64 \<Rightarrow> string"
  assumes kv: "kv_store bdg view" and Hash: "hash_ok Hash" and holds: "holds Hash (view s) bs"
    and path: "path \<noteq> []" "AccessCheck path d = Inr ()" "dbInit absPath openStore path d = (None, Opened s)"
    and bound: "Suc (length bs) < 2 ^ 64"
  defines "run \<equiv> \<lambda>fl. browserMain bdg absPath openStore timeText (\<lambda>_. True) fl d"
    and "shown \<equiv> blockOutput Hash timeText bs"
  shows "(\<forall>b e x y. 1 \<le> b \<longrightarrow> b < e \<longrightarrow> b \<le> length bs \<longrightarrow> Suc e < 2 ^ 64 \<longrightarrow>
           run (viewing path (natString b @ ''-'' @ natString e) x y) =
           Some (if e \<le> length bs then 0 else 1, concat (map shown [b - 1..<min e (length bs)]), d)) \<and>
         (\<forall>x y. run (viewing path ''-1'' x y) = Some (0, shown (length bs - 1), d)) \<and>
         (\<forall>i < length bs.
           (\<forall>y. run (viewing path [] (ToHex (BlockHash Hash (bs ! i))) y) = Some (0, shown i, d)) \<and>
           (\<forall>evd \<in> set (bEvds (bs ! i)). run (viewing path [] [] (ToHex (eHash evd))) = Some (0, evidenceText evd, d)))"
proof -
  note main = browserMain_viewing [OF path, where bdg = bdg and timeText = timeText and canWrite = "\<lambda>_. True"]
  have "run (viewing path (natString b @ ''-'' @ natString e) x y) =
      Some (if e \<le> length bs then 0 else 1, concat (map shown [b - 1..<min e (length bs)]), d)"
    if "1 \<le> b" "b < e" "b \<le> length bs" "Suc e < 2 ^ 64" for b e x y
    using main kv_store.rangeView_shows [OF kv holds that, of timeText "[]"]
    by (simp add: run_def shown_def)
  moreover have "run (viewing path ''-1'' x y) = Some (0, shown (length bs - 1), d)" for x y
    using main kv_store.rangeView_latest [OF kv holds bound, of timeText "[]"] by (simp add: run_def shown_def)
  moreover have "run (viewing path [] (ToHex (BlockHash Hash (bs ! i))) y) = Some (0, shown i, d)" if "i < length bs" for i y
  proof -
    have "ToHex (BlockHash Hash (bs ! i)) \<noteq> []" using length_BlockHash [OF Hash, of "bs ! i"] by auto
    then show ?thesis
      using main kv_store.blockView_shows [OF kv holds Hash that, of timeText "[]"] by (simp add: run_def shown_def)
  qed
  moreover have "run (viewing path [] [] (ToHex (eHash evd))) = Some (0, evidenceText evd, d)"
    if "i < length bs" "evd \<in> set (bEvds (bs ! i))" for i evd
  proof -
    have "length (eHash evd) = 32" using holds that by (auto simp: holds_def represents_def storable_def)
    then have "ToHex (eHash evd) \<noteq> []" by auto
    then show ?thesis
      using main kv_store.evidenceView_shows [OF kv holds that, of "[]"] by (simp add: run_def)
  qed
  ultimately show ?thesis by blast
qed


theorem browser_shows_database_witness:
  "\<exists>s. holds mod_hash (map_of s) [demo_block] \<and>
     browserMain mem_badger Some (\<lambda>_. Some s) (\<lambda>_. ''now'') (\<lambda>_. True) (viewing ''p'' ''1-2'' [] []) demo_disk =
       Some (1, blockOutput mod_hash (\<lambda>_. ''now'') [demo_block] 0, demo_disk) \<and>
     browserMain mem_badger Some (\<lambda>_. Some s) (\<lambda>_. ''now'') (\<lambda>_. True) (viewing ''p'' ''-1'' [] []) demo_disk =
       Some (0, blockOutput mod_hash (\<lambda>_. ''now'') [demo_block] 0, demo_disk)"
proof -
  obtain s where s: "PutGenesis mem_badger mod_hash demo_block [] = Inr s" using demo_block_put by blast
  have h: "holds mod_hash (map_of s) [demo_block]"
    using mem.PutGenesis_holds [OF s mod_hash_ok _ demo_block_follows] by simp
  have path: "AccessCheck ''p'' demo_disk = Inr ()" by (simp add: AccessCheck_def demo_disk_def)
  then have opened: "dbInit Some (\<lambda>_. Some s) ''p'' demo_disk = (None, Opened s)" by (simp add: dbInit_def badgerInit_def)
  have one: "natString 1 @ ''-'' @ natString 2 = ''1-2''" by code_simp
  have numbers: "1 \<le> (1::nat)" "(1::nat) < 2" "1 \<le> length [demo_block]" "Suc 2 < 2 ^ 64"
    "\<not> 2 \<le> length [demo_block]" "[1 - 1..<min 2 (length [demo_block])] = [0]" "length [demo_block] - 1 = 0" by simp_all
  note browsed = browser_shows_database [OF mem.kv_store_axioms mod_hash_ok h _ path opened, of "\<lambda>_. ''now''"]
  from browsed have "browserMain mem_badger Some (\<lambda>_. Some s) (\<lambda>_. ''now'') (\<lambda>_. True)
      (viewing ''p'' (natString 1 @ ''-'' @ natString 2) [] []) demo_disk =
      Some (1, blockOutput mod_hash (\<lambda>_. ''now'') [demo_block] 0, demo_disk)"
    using numbers by (auto simp del: append.simps)
  moreover from browsed have "browserMain mem_badger Some (\<lambda>_. Some s) (\<lambda>_. ''now'') (\<lambda>_. True) (viewing ''p'' ''-1'' [] []) demo_disk =
      Some (0, blockOutput mod_hash (\<lambda>_. ''now'') [demo_block] 0, demo_disk)"
    by simp
  ultimately show ?thesis using h one by auto
qed

text \<open>
  The output file must exist before, and is not cut to the length of the output: the end of a longer
  file stays behind it.
\<close>

lemma new_output_refused:
  assumes "AccessCheck (bfO fl) d \<noteq> Inr ()" "bfO fl \<noteq> []"
    and "bfDbpath fl \<noteq> []" "AccessCheck (bfDbpath fl) d = Inr ()"
    and "dbInit absPath openStore (bfDbpath fl) d = (None, inst)"
  shows "browserMain bdg absPath openStore timeText canWrite fl d = Some (1, [], d)"
  using assms by (simp add: browserMain_def openOutput_def)

lemma old_output_remains:
  assumes "dkNodes d path = Some (Plain (a @ b))" "length out = length a"
  shows "dkNodes (writeOver path out d) path = Some (Plain (out @ b))"
  using assms by (simp add: writeOver_def)

end
