(* ===== verification/Log.thy ===== *)
theory Log
  imports Prelude
begin

text \<open>
  The logger, \<open>src/utils/log.go\<close>.  The lines written to the standard output are the state, \<open>sprintf\<close>
  is \<open>fmt.Sprintf\<close> on the values of the call, and \<open>Exited\<close> is \<open>os.Exit\<close> after the last line.  The date
  and the position in the source that the library's logger puts before each line are left out.
\<close>

section \<open>Levels and loggers\<close>

definition LogErrorLevel :: int where "LogErrorLevel = 0"
definition LogWarnLevel :: int where "LogWarnLevel = 1"
definition LogInfoLevel :: int where "LogInfoLevel = 2"
definition LogDebugLevel :: int where "LogDebugLevel = 3"

definition lineEnd :: string where "lineEnd = [CHR 0x0A]"

definition fatalLevelStr :: string where "fatalLevelStr = ''TAG[Fatal] ''"
definition fatalLevelStrln :: string where "fatalLevelStrln = ''TAG[Fatal] %v'' @ lineEnd"
definition errLevelStr :: string where "errLevelStr = ''TAG[Error] ''"
definition errLevelStrln :: string where "errLevelStrln = ''TAG[Error] %v'' @ lineEnd"
definition warnLevelStr :: string where "warnLevelStr = ''TAG[Warn] ''"
definition warnLevelStrln :: string where "warnLevelStrln = ''TAG[Warn] %v'' @ lineEnd"
definition infoLevelStr :: string where "infoLevelStr = ''TAG[Info] ''"
definition infoLevelStrln :: string where "infoLevelStrln = ''TAG[Info] %v'' @ lineEnd"
definition debugLevelStr :: string where "debugLevelStr = ''TAG[Debug] ''"
definition debugLevelStrln :: string where "debugLevelStrln = ''TAG[Debug] %v'' @ lineEnd"

record Logger =
  lgFatal :: string
  lgFatalln :: string
  lgErr :: string
  lgErrln :: string
  lgWarn :: string
  lgWarnln :: string
  lgInfo :: string
  lgInfoln :: string
  lgDebug :: string
  lgDebugln :: string

text \<open>\<open>strings.Replace(s, old, by, -1)\<close> for a non-empty \<open>old\<close>.\<close>

fun replaceAll :: "string \<Rightarrow> string \<Rightarrow> string \<Rightarrow> string" where
  "replaceAll old by [] = []"
| "replaceAll old by (c # s) =
     (if old \<noteq> [] \<and> take (length old) (c # s) = old then by @ replaceAll old by (drop (length old - 1) s)
      else c # replaceAll old by s)"

definition NewLogger :: "string \<Rightarrow> Logger" where
  "NewLogger tag =
     (let prefix = (if tag \<noteq> [] then ''['' @ tag @ '']'' else tag);
          put = replaceAll ''TAG'' prefix
      in \<lparr>lgFatal = put fatalLevelStr, lgFatalln = put fatalLevelStrln, lgErr = put errLevelStr,
          lgErrln = put errLevelStrln, lgWarn = put warnLevelStr, lgWarnln = put warnLevelStrln,
          lgInfo = put infoLevelStr, lgInfoln = put infoLevelStrln, lgDebug = put debugLevelStr,
          lgDebugln = put debugLevelStrln\<rparr>)"

section \<open>Logging\<close>

text \<open>The package variable \<open>logLevel\<close> and the lines written.\<close>

record logState =
  lsLevel :: int
  lsLines :: "string list"

definition initLog :: logState where "initLog = \<lparr>lsLevel = LogDebugLevel, lsLines = []\<rparr>"
definition stdoutLog :: Logger where "stdoutLog = NewLogger []"

definition SetLogLevel :: "int \<Rightarrow> logState \<Rightarrow> logState" where "SetLogLevel level s = s\<lparr>lsLevel := level\<rparr>"
definition GetLogLevel :: "logState \<Rightarrow> int" where "GetLogLevel s = lsLevel s"

definition Output :: "string \<Rightarrow> logState \<Rightarrow> logState" where "Output line s = s\<lparr>lsLines := lsLines s @ [line]\<rparr>"

datatype logExit = Exited logState

type_synonym 'v sprintf = "string \<Rightarrow> 'v list \<Rightarrow> string"

definition Fatal :: "'v sprintf \<Rightarrow> Logger \<Rightarrow> string \<Rightarrow> 'v list \<Rightarrow> logState \<Rightarrow> logExit" where
  "Fatal sprintf l format v s = Exited (Output (sprintf (lgFatal l @ format) v) s)"

definition Fatalln :: "'v sprintf \<Rightarrow> Logger \<Rightarrow> 'v list \<Rightarrow> logState \<Rightarrow> logExit" where
  "Fatalln sprintf l v s = Exited (Output (sprintf (lgFatalln l) v) s)"

definition logError :: "'v sprintf \<Rightarrow> Logger \<Rightarrow> string \<Rightarrow> 'v list \<Rightarrow> logState \<Rightarrow> logState" where
  "logError sprintf l format v s = Output (sprintf (lgErr l @ format) v) s"

definition Errorln :: "'v sprintf \<Rightarrow> Logger \<Rightarrow> 'v list \<Rightarrow> logState \<Rightarrow> logState" where
  "Errorln sprintf l v s = Output (sprintf (lgErrln l) v) s"

definition Warn :: "'v sprintf \<Rightarrow> Logger \<Rightarrow> string \<Rightarrow> 'v list \<Rightarrow> logState \<Rightarrow> logState" where
  "Warn sprintf l format v s = (if LogWarnLevel \<le> lsLevel s then Output (sprintf (lgWarn l @ format) v) s else s)"

definition Warnln :: "'v sprintf \<Rightarrow> Logger \<Rightarrow> 'v list \<Rightarrow> logState \<Rightarrow> logState" where
  "Warnln sprintf l v s = (if LogWarnLevel \<le> lsLevel s then Output (sprintf (lgWarnln l) v) s else s)"

definition Info :: "'v sprintf \<Rightarrow> Logger \<Rightarrow> string \<Rightarrow> 'v list \<Rightarrow> logState \<Rightarrow> logState" where
  "Info sprintf l format v s = (if LogInfoLevel \<le> lsLevel s then Output (sprintf (lgInfo l @ format) v) s else s)"

definition Infoln :: "'v sprintf \<Rightarrow> Logger \<Rightarrow> 'v list \<Rightarrow> logState \<Rightarrow> logState" where
  "Infoln sprintf l v s = (if LogInfoLevel \<le> lsLevel s then Output (sprintf (lgInfoln l) v) s else s)"

definition Debug :: "'v sprintf \<Rightarrow> Logger \<Rightarrow> string \<Rightarrow> 'v list \<Rightarrow> logState \<Rightarrow> logState" where
  "Debug sprintf l format v s = (if LogDebugLevel \<le> lsLevel s then Output (sprintf (lgDebug l @ format) v) s else s)"

definition Debugln :: "'v sprintf \<Rightarrow> Logger \<Rightarrow> 'v list \<Rightarrow> logState \<Rightarrow> logState" where
  "Debugln sprintf l v s = (if LogDebugLevel \<le> lsLevel s then Output (sprintf (lgDebugln l) v) s else s)"

section \<open>Tags and levels\<close>

lemma replaceAll_id: "hd old \<notin> set s \<Longrightarrow> old \<noteq> [] \<Longrightarrow> replaceAll old by s = s"
proof (induction s)
  case (Cons c s)
  then have "take (length old) (c # s) \<noteq> old" by (cases old) auto
  then show ?case using Cons by simp
qed simp

lemma replaceAll_TAG: "CHR ''T'' \<notin> set s \<Longrightarrow> replaceAll ''TAG'' prefix (''TAG'' @ s) = prefix @ s"
  by (simp add: replaceAll_id)

text \<open>Every format of a logger is its tag in brackets, the name of the level and the format of the call.\<close>

lemma NewLogger_tagged:
  assumes "tag \<noteq> []"
  shows "lgFatal (NewLogger tag) = ''['' @ tag @ ''][Fatal] ''" "lgErr (NewLogger tag) = ''['' @ tag @ ''][Error] ''"
    "lgWarn (NewLogger tag) = ''['' @ tag @ ''][Warn] ''" "lgInfo (NewLogger tag) = ''['' @ tag @ ''][Info] ''"
    "lgDebug (NewLogger tag) = ''['' @ tag @ ''][Debug] ''"
    "lgWarnln (NewLogger tag) = ''['' @ tag @ ''][Warn] %v'' @ lineEnd"
    "lgErrln (NewLogger tag) = ''['' @ tag @ ''][Error] %v'' @ lineEnd"
  using assms by (simp_all add: NewLogger_def Let_def fatalLevelStr_def errLevelStr_def warnLevelStr_def
      infoLevelStr_def debugLevelStr_def warnLevelStrln_def errLevelStrln_def lineEnd_def)

text \<open>The level bounds what is written: a message of a higher level leaves no line, one of the level or below does.\<close>

lemma level_silences:
  "lsLevel s < LogWarnLevel \<Longrightarrow> Warn sprintf l f v s = s \<and> Warnln sprintf l v s = s"
  "lsLevel s < LogInfoLevel \<Longrightarrow> Info sprintf l f v s = s \<and> Infoln sprintf l v s = s"
  "lsLevel s < LogDebugLevel \<Longrightarrow> Debug sprintf l f v s = s \<and> Debugln sprintf l v s = s"
  by (simp_all add: Warn_def Warnln_def Info_def Infoln_def Debug_def Debugln_def)

lemma level_order:
  assumes "Debug sprintf l f v s \<noteq> s"
  shows "lsLines (Info sprintf l f v s) \<noteq> lsLines s" "lsLines (Warn sprintf l f v s) \<noteq> lsLines s"
  using assms by (auto simp: Debug_def Info_def Warn_def Output_def LogInfoLevel_def LogDebugLevel_def LogWarnLevel_def
      split: if_splits)

text \<open>
  The logger of \<open>src/utils/utils.go\<close> is a literal of the type with the library's logger and no formats:
  \<open>Warn\<close> writes without a level and a tag, \<open>Warnln\<close> writes what \<open>Sprintf\<close> makes of an empty format.
\<close>

definition utilsLogger :: Logger where
  "utilsLogger = \<lparr>lgFatal = [], lgFatalln = [], lgErr = [], lgErrln = [], lgWarn = [], lgWarnln = [],
     lgInfo = [], lgInfoln = [], lgDebug = [], lgDebugln = []\<rparr>"

lemma utilsLogger_loses_text:
  assumes "LogWarnLevel \<le> lsLevel s"
  shows "lsLines (Warnln sprintf utilsLogger v s) = lsLines s @ [sprintf [] v]"
    "lsLines (Errorln sprintf utilsLogger v s) = lsLines s @ [sprintf [] v]"
    "lsLines (Warn sprintf utilsLogger f v s) = lsLines s @ [sprintf f v]"
  using assms by (simp_all add: Warnln_def Errorln_def Warn_def Output_def utilsLogger_def)

end
