(* ===== verification/NodeMain.thy ===== *)
theory NodeMain
  imports CoreNode Client DbBrowser Provider P2PNode Log
begin

text \<open>
  The program of the node, \<open>src/cmd/anti996\<close>: its configuration, and \<open>main\<close>, which restores the key
  and starts the provider, the p2p node, the database and the core with it.  A fatal error ends the
  program after the parts that were started before it; \<open>None\<close> is a panic.  The arguments that the code
  takes from the system are the fields of \<open>host\<close>.
\<close>

section \<open>Configuration\<close>

record nodeConfig =
  ncNodeType :: u8
  ncIP :: string
  ncPort :: int
  ncSeeds :: "string list"
  ncMaxPeers :: int
  ncLogLevel :: int
  ncDataPath :: string
  ncKey :: keyConfig
  ncChainID :: u8
  ncBlockDifficultyLimit :: string
  ncEvidenceDifficultyLimit :: string
  ncBlockInterval :: int
  ncParallelMine :: int
  ncGenesis :: string
  ncHTTPPort :: int

datatype node_error =
    MissConfigFile
  | PathFailed key_error
  | NodeConfigReadFailed
  | NodeConfigParseFailed
  | InvalidNodeType u8
  | NoLightNode
  | InvalidIPv4 string
  | InvalidNodePort int
  | InvalidMaxPeers int
  | InvalidLogLevel int
  | NodeInvalidKeyType
  | InvalidDifficultyLimit
  | InvalidBlockInterval
  | InvalidParallelNum
  | InvalidGenesis
  | InvalidHTTPPort int

definition verifyNodeConfig ::
  "(string \<Rightarrow> IP option) \<Rightarrow> int \<Rightarrow> disk \<Rightarrow> nodeConfig \<Rightarrow> node_error + unit" where
  "verifyNodeConfig parseIP numCPU d c =
     (if ncNodeType c \<noteq> FullNode \<and> ncNodeType c \<noteq> LightNode then Inl (InvalidNodeType (ncNodeType c))
      else if ncNodeType c = LightNode then Inl NoLightNode
      else if (case parseIP (ncIP c) of None \<Rightarrow> True | Some ip \<Rightarrow> To4 ip = None) then Inl (InvalidIPv4 (ncIP c))
      else if ncPort c \<le> 0 \<or> ncPort c > 65535 then Inl (InvalidNodePort (ncPort c))
      else if ncMaxPeers c \<le> 0 then Inl (InvalidMaxPeers (ncMaxPeers c))
      else if ncLogLevel c < LogErrorLevel \<or> ncLogLevel c > LogDebugLevel then Inl (InvalidLogLevel (ncLogLevel c))
      else case AccessCheck (ncDataPath c) d of
        Inl e \<Rightarrow> Inl (PathFailed e)
      | Inr _ \<Rightarrow>
          if kcType (ncKey c) \<noteq> SealKeyType \<and> kcType (ncKey c) \<noteq> PlainKeyType then Inl NodeInvalidKeyType
          else case AccessCheck (kcPath (ncKey c)) d of
            Inl e \<Rightarrow> Inl (PathFailed e)
          | Inr _ \<Rightarrow>
              if length (ncBlockDifficultyLimit c) \<noteq> 8 \<or> length (ncEvidenceDifficultyLimit c) \<noteq> 8
              then Inl InvalidDifficultyLimit
              else if ncBlockInterval c \<le> 0 then Inl InvalidBlockInterval
              else if ncParallelMine c < 0 \<or> ncParallelMine c > numCPU then Inl InvalidParallelNum
              else if ncGenesis c = [] then Inl InvalidGenesis
              else if ncHTTPPort c \<le> 0 \<or> ncHTTPPort c > 65535 \<or> ncHTTPPort c = ncPort c
              then Inl (InvalidHTTPPort (ncHTTPPort c))
              else Inr ())"

text \<open>
  \<open>json.Unmarshal\<close> into the pointer \<open>conf\<close>: an error, or the configuration, or nil for the document
  \<open>null\<close>, on which \<open>verifyConfig\<close> panics.
\<close>

definition parseNodeConfig ::
  "(string \<Rightarrow> IP option) \<Rightarrow> (string \<Rightarrow> nodeConfig option option) \<Rightarrow> int \<Rightarrow> string \<Rightarrow> disk \<Rightarrow>
   (node_error + nodeConfig) option" where
  "parseNodeConfig parseIP unmarshal numCPU cf d =
     (if cf = [] then Some (Inl MissConfigFile)
      else case AccessCheck cf d of
        Inl e \<Rightarrow> Some (Inl (PathFailed e))
      | Inr _ \<Rightarrow>
          (case dkNodes d cf of
             Some (Plain jsonContent) \<Rightarrow>
               (case unmarshal jsonContent of
                  None \<Rightarrow> Some (Inl NodeConfigParseFailed)
                | Some None \<Rightarrow> None
                | Some (Some conf) \<Rightarrow> Some (attempt (verifyNodeConfig parseIP numCPU d conf) (\<lambda>_. Inr conf)))
           | _ \<Rightarrow> Some (Inl NodeConfigReadFailed)))"

text \<open>Seeds that are not an IPv4 address with a port are left out without a message.\<close>

fun parseSeeds ::
  "('sig, 'key, 'priv) btcec \<Rightarrow> (string \<Rightarrow> IP option) \<Rightarrow> string list \<Rightarrow> 'key Peer list \<Rightarrow> 'key Peer list" where
  "parseSeeds ec parseIP [] acc = acc"
| "parseSeeds ec parseIP (seed # seeds) acc =
     (let (ip, port) = ParseIPPort parseIP seed
      in if ip = [] then parseSeeds ec parseIP seeds acc
         else parseSeeds ec parseIP seeds (acc @ [NewPeer ec ip port None]))"

section \<open>Starting\<close>

text \<open>
  What \<open>main\<close> takes from outside: the key library and the passphrase that is typed, the JSON library,
  the number of processors, whether the ports can be listened on, and the opening of the database.
\<close>

record ('sig, 'key, 'priv, 's, 'block, 'aead) host =
  hoKeys :: "('key, 'priv, 'block, 'aead) key_lib"
  hoTyped :: "bytes option"
  hoProvider :: "('sig, 'key, 'priv) provider_env"
  hoUnmarshal :: "string \<Rightarrow> nodeConfig option option"
  hoNumCPU :: int
  hoListenUDP :: bool
  hoListenTCP :: bool
  hoAbs :: "string \<Rightarrow> string option"
  hoOpen :: "string \<Rightarrow> 's option"
  hoHash :: hasher
  hoBdg :: "'s badger"

datatype fatal =
    ConfigFatal node_error
  | KeyFatal key_error
  | IPFatal string
  | UDPFatal
  | TCPFatal
  | DbFatal dbOpenError
  | LimitFatal string
  | TypeFatal
  | CoreFatal

record ('sig, 'key, 'priv, 's, 'aead) startedNode =
  stProvider :: "'key provider"
  stNode :: "('key, 'priv, 'aead) node"
  stEnv :: "('sig, 'key, 'priv, 's) chain_env"
  stCore :: "('priv, 's) core"
  stHTTPPort :: int

definition restoreKey ::
  "('key, 'priv, 'block, 'aead) key_lib \<Rightarrow> bytes option \<Rightarrow> keyConfig \<Rightarrow> disk \<Rightarrow> (key_error + 'priv) option" where
  "restoreKey lib typed key d =
     (if kcType key = PlainKeyType then Some (RestorePKey lib (kcPath key) d)
      else if kcType key = SealKeyType then RestoreSKey lib typed (kcPath key) d
      else None)"

definition startProvider ::
  "('sig, 'key, 'priv, 's, 'block, 'aead) host \<Rightarrow> nodeConfig \<Rightarrow> 'key \<Rightarrow> fatal + 'key provider" where
  "startProvider h conf pubKey =
     (let env = hoProvider h
      in case peParseIP env (ncIP conf) of
           None \<Rightarrow> Inl (IPFatal (ncIP conf))
         | Some _ \<Rightarrow>
             (let p = AddSeeds env (parseSeeds (pePkg env) (peParseIP env) (ncSeeds conf) []) (newProvider env pubKey)
              in if hoListenUDP h then Inr p else Inl UDPFatal))"

definition startNode ::
  "('sig, 'key, 'priv, 's, 'block, 'aead) host \<Rightarrow> nodeConfig \<Rightarrow> 'priv \<Rightarrow> fatal + ('key, 'priv, 'aead2) node" where
  "startNode h conf privKey =
     (case newNode (pePkg (hoProvider h)) privKey (ncChainID conf) (ncNodeType conf) (nat (ncMaxPeers conf)) of
        None \<Rightarrow> Inl TypeFatal
      | Some n \<Rightarrow>
          (case peParseIP (hoProvider h) (ncIP conf) of
             None \<Rightarrow> Inl (IPFatal (ncIP conf))
           | Some _ \<Rightarrow> if hoListenTCP h then Inr n else Inl TCPFatal))"

definition openDb :: "('sig, 'key, 'priv, 's, 'block, 'aead) host \<Rightarrow> nodeConfig \<Rightarrow> disk \<Rightarrow> fatal + 's" where
  "openDb h conf d =
     (case dbInit (hoAbs h) (hoOpen h) (ncDataPath conf) d of
        (Some e, _) \<Rightarrow> Inl (DbFatal e)
      | (None, Opened s) \<Rightarrow> Inr s
      | (None, _) \<Rightarrow> Inl CoreFatal)"

definition parseLimit :: "string \<Rightarrow> fatal + u32" where
  "parseLimit s = (case ParseTarget s of None \<Rightarrow> Inl (LimitFatal s) | Some target \<Rightarrow> Inr target)"

definition coreConfigOf :: "nodeConfig \<Rightarrow> 'priv \<Rightarrow> u32 \<Rightarrow> u32 \<Rightarrow> 'priv coreConfig" where
  "coreConfigOf conf privKey blockLimit evidenceLimit =
     \<lparr>ccNodeType = ncNodeType conf, ccPrivKey = privKey, ccParallelMine = nat (ncParallelMine conf),
      ccChain = \<lparr>cfgBlockTargetLimit = blockLimit, cfgEvidenceTargetLimit = evidenceLimit,
        cfgBlockInterval = ncBlockInterval conf, cfgGenesis = ncGenesis conf\<rparr>\<rparr>"

text \<open>The core starts with mining parameters that \<open>Init\<close> sets; those of \<open>blank\<close> are not read before.\<close>

definition startCore ::
  "('sig, 'key, 'priv, 's, 'block, 'aead) host \<Rightarrow> mining_params \<Rightarrow> nodeConfig \<Rightarrow> 'priv \<Rightarrow> u32 \<Rightarrow> u32 \<Rightarrow> 's \<Rightarrow>
   fatal + ('sig, 'key, 'priv, 's) chain_env \<times> ('priv, 's) core" where
  "startCore h blank conf privKey blockLimit evidenceLimit db =
     (case NewCore \<lparr>envEc = pePkg (hoProvider h), envHash = hoHash h, envBdg = hoBdg h, envParams = blank\<rparr>
        (coreConfigOf conf privKey blockLimit evidenceLimit) db of
        None \<Rightarrow> Inl CoreFatal
      | Some r \<Rightarrow> Inr r)"

definition nodeMain ::
  "('sig, 'key, 'priv, 's, 'block, 'aead) host \<Rightarrow> mining_params \<Rightarrow> string \<Rightarrow> disk \<Rightarrow>
   (fatal + ('sig, 'key, 'priv, 's, 'aead2) startedNode) option" where
  "nodeMain h blank cf d =
     (case parseNodeConfig (peParseIP (hoProvider h)) (hoUnmarshal h) (hoNumCPU h) cf d of
        None \<Rightarrow> None
      | Some (Inl e) \<Rightarrow> Some (Inl (ConfigFatal e))
      | Some (Inr conf) \<Rightarrow>
          (case restoreKey (hoKeys h) (hoTyped h) (ncKey conf) d of
             None \<Rightarrow> None
           | Some (Inl e) \<Rightarrow> Some (Inl (KeyFatal e))
           | Some (Inr privKey) \<Rightarrow>
               Some (attempt (startProvider h conf (PubKeyOf (pePkg (hoProvider h)) privKey)) (\<lambda>provider.
                 attempt (startNode h conf privKey) (\<lambda>node.
                 attempt (openDb h conf d) (\<lambda>db.
                 attempt (parseLimit (ncBlockDifficultyLimit conf)) (\<lambda>blockLimit.
                 attempt (parseLimit (ncEvidenceDifficultyLimit conf)) (\<lambda>evidenceLimit.
                 attempt (startCore h blank conf privKey blockLimit evidenceLimit db) (\<lambda>(env, core).
                   Inr \<lparr>stProvider = provider, stNode = node, stEnv = env, stCore = core,
                     stHTTPPort = ncHTTPPort conf\<rparr>)))))))))"


text \<open>
  The end of \<open>main\<close> after a signal: the core is stopped, then the p2p node, whose connections are
  closed.  The provider is not stopped.
\<close>

definition nodeStop :: "('key, 'priv, 'aead) node \<Rightarrow> ('key, 'priv, 'aead) node" where
  "nodeStop n = n\<lparr>ndConnMgr := cmStop (ndConnMgr n)\<rparr>"

definition mainStop :: "('sig, 'key, 'priv, 's, 'aead) startedNode \<Rightarrow> ('sig, 'key, 'priv, 's, 'aead) startedNode" where
  "mainStop st = st\<lparr>stCore := coreStop (stCore st), stNode := nodeStop (stNode st)\<rparr>"

section \<open>What a started node consists of\<close>

lemma startProvider_made:
  "startProvider h conf pubKey = Inr p \<Longrightarrow> provider_run (hoProvider h) (newProvider (hoProvider h) pubKey) p"
  by (auto simp: startProvider_def Let_def intro!: r_into_rtranclp provider_step.seeds split: option.splits if_splits)

lemma startNode_made:
  "startNode h conf privKey = Inr n \<Longrightarrow>
   newNode (pePkg (hoProvider h)) privKey (ncChainID conf) (ncNodeType conf) (nat (ncMaxPeers conf)) = Some n"
  by (auto simp: startNode_def split: option.splits if_splits)

lemma nodeMain_started:
  assumes "nodeMain h blank cf d = Some (Inr st)"
  obtains conf privKey db blockLimit evidenceLimit where
    "parseNodeConfig (peParseIP (hoProvider h)) (hoUnmarshal h) (hoNumCPU h) cf d = Some (Inr conf)"
    "restoreKey (hoKeys h) (hoTyped h) (ncKey conf) d = Some (Inr privKey)"
    "startProvider h conf (PubKeyOf (pePkg (hoProvider h)) privKey) = Inr (stProvider st)"
    "startNode h conf privKey = Inr (stNode st)" "openDb h conf d = Inr db"
    "ParseTarget (ncBlockDifficultyLimit conf) = Some blockLimit"
    "ParseTarget (ncEvidenceDifficultyLimit conf) = Some evidenceLimit"
    "NewCore \<lparr>envEc = pePkg (hoProvider h), envHash = hoHash h, envBdg = hoBdg h, envParams = blank\<rparr>
       (coreConfigOf conf privKey blockLimit evidenceLimit) db = Some (stEnv st, stCore st)"
  using assms
  by (auto simp: nodeMain_def parseLimit_def startCore_def attempt_def split: option.splits sum.splits)

section \<open>One identity\<close>

lemma pool_step_key: "pool_step ec Hash limit e e' \<Longrightarrow> epKey e' = epKey e"
  by (induction rule: pool_step.induct)
    (auto simp: addEvidence_def addRawEvidence_def calculateRaw_def nextEvidence_def Let_def
      split: option.splits if_splits list.splits prod.splits)

lemma pool_runs_key: "(pool_step ec Hash limit)\<^sup>*\<^sup>* e e' \<Longrightarrow> epKey e' = epKey e"
  by (induction rule: rtranclp_induct) (auto dest: pool_step_key)

lemma pushTasks_ng: "pushTasks ps n = Some n' \<Longrightarrow> ndNg n' = ndNg n"
  by (induction ps n rule: pushTasks.induct) (auto split: if_splits)

lemma addConn_ng [simp]: "ndNg (addConn peer c ec n) = ndNg n"
  by (simp add: addConn_def split: sum.split)

lemma node_step_ng: "node_step ec Hash lib n n' \<Longrightarrow> ndNg n' = ndNg n"
proof (induction rule: node_step.induct)
  case (find_peers ask n n')
  then show ?case by (auto simp: getPeersToConnect_def Let_def dest: pushTasks_ng split: if_splits)
next
  case (send i dp n n')
  then show ?case by (cases "cmSend lib i dp (ndConnMgr n)") (auto simp: p2pSend_def split: sum.splits)
qed (auto simp: cleanNgBlackList_def setupConn_def recvConn_def p2pAddProtocol_def addNgBlackList_def Let_def
    split: option.splits sum.splits prod.splits if_splits)

lemma node_runs_ng: "(node_step ec Hash lib)\<^sup>*\<^sup>* n n' \<Longrightarrow> ndNg n' = ndNg n"
  by (induction rule: rtranclp_induct) (auto dest: node_step_ng)

text \<open>The scheduler builds its blocks for its own key.\<close>

definition mined_by :: "bytes \<Rightarrow> ('priv, 's) scheduler \<Rightarrow> bool" where
  "mined_by key s \<longleftrightarrow> sdMiner s = key \<and> (\<not> sdNewRound s \<or> sdJob s \<noteq> None \<longrightarrow> bhMiner (bHeader (sdBlock s)) = key)"

lemma mined_by_view [simp]: "mined_by key (schedView co s) = mined_by key s"
  by (simp add: mined_by_def)

lemma startRound_mined:
  assumes "mined_by key s" "startRound env sh now s = Some s'"
  shows "mined_by key s'"
proof (cases "sdNewRound s")
  case True
  obtain evs pool target where "schedGetEvidence env sh (sdChain s) (sdPool s) = (evs, pool)"
    and "let b = genBlock (envHash env) (sdMiner s) now evs (LatestBlockHash (sdChain s)); hdr = SetTarget (bHeader b) target in
      s' = s\<lparr>sdPool := pool, sdBlock := b\<lparr>bHeader := hdr\<rparr>, sdJob := Some (TargetToDiff target, mineInit (sdParallel s) hdr)\<rparr>"
    using startRound_new [OF assms(2) True] by blast
  then show ?thesis
    using assms(1) by (auto simp: mined_by_def Let_def SetTarget_def genBlock_def genEmptyBlock_def NewBlock_def NewBlockHeaderV1_def
        split: sum.splits)
next
  case False
  then show ?thesis
    using assms by (auto simp: mined_by_def startRound_def Let_def SetTarget_def split: bind_splits)
qed

lemma onResult_mined:
  assumes "mined_by key s" "sdJob s \<noteq> None" "onResult env clock coin now r s = Some s'"
  shows "mined_by key s'" "mrFound r \<Longrightarrow> b \<in> set (sdSent s') \<Longrightarrow> b \<notin> set (sdSent s) \<Longrightarrow> bhMiner (bHeader b) = key"
  using assms by (auto simp: mined_by_def onResult_def Let_def UpdateTime_def HeaderSetNonce_def split: if_splits bind_splits)

lemma core_step_mined:
  assumes "core_step env co (Some co')" "\<And>s. coSched co = Some s \<Longrightarrow> mined_by key s" "coSched co' = Some s'"
  shows "mined_by key s'"
  using assms(1)
proof (cases rule: core_step.cases)
  case (core_round s sh now clock)
  show ?thesis
    using startRound_mined [of key "schedView co s" env sh clock s'] core_round assms(2)
      schedTurn_sched [OF core_round(1) [symmetric] assms(3)] by simp
next
  case (core_search s d m m')
  then show ?thesis using assms(2) [OF core_search(2)] assms(3) by (auto simp: mined_by_def)
next
  case (core_passive s now)
  then show ?thesis
    using assms(2) [of s] schedTurn_sched [OF core_passive(1) [symmetric] assms(3)]
    by (auto simp: onPassiveChange_def schedView_def mined_by_def)
next
  case (core_result s d m result now clock coin later)
  show ?thesis
    using onResult_mined(1) [of key "schedView co s" env clock coin later result s'] core_result assms(2)
      schedTurn_sched [OF core_result(1) [symmetric] assms(3)] by simp
next
  case core_stop
  then show ?thesis
    using assms(2,3) by (auto simp: stopPart_def onStop_def mined_by_def split: list.splits if_splits)
next
  case (core_http now json req r)
  then show ?thesis using assms(2,3) by (auto simp: coreServe_def)
qed (use assms(2,3) in \<open>auto simp: schedReady_def dest!: turns_keep_sched\<close>)

lemma core_runs_mined:
  assumes "NewCore env0 conf db = Some (env, co0)" "core_runs env co0 co" "coSched co = Some s"
  shows "mined_by (SerializeCompressed (envEc env) (PubKeyOf (envEc env) (ccPrivKey conf))) s"
  using assms(2,3)
proof (induction arbitrary: s rule: core_runs.induct)
  case core_start
  then show ?case using NewCore_state(4) [OF assms(1)] by (auto simp: mined_by_def newScheduler_def split: if_splits)
next
  case (core_next co co')
  then show ?case using core_step_mined [OF core_next(2) _ core_next(4)] by blast
qed


lemma NewPKey_restores:
  assumes "key_files lib" "keygen lib 2 s p (Some k) typed se d0 = Some (Inr d)"
  shows "RestorePKey lib p d = Inr k"
  using assms(2)
  by (auto simp: keygen_def NewPKey_def saveOnDisk_def Let_def attempt_def split: if_splits sum.splits
      intro!: key_files.RestorePKey_plain [OF assms(1)])

section \<open>Properties\<close>

text \<open>
  C9 One identity: a node whose configuration names the key file that \<open>keygen\<close> wrote is this key
  everywhere and for as long as it runs: in the pings of the provider and the identifier of its peer
  table, in the handshakes of the p2p node, in the evidences its pool signs, and as the miner of every block
  that it builds and broadcasts.
\<close>

theorem node_has_one_identity:
  assumes keys: "key_files (hoKeys h)" "keygen (hoKeys h) 2 src p (Some k) typed se d0 = Some (Inr d)"
    and start: "nodeMain h blank cf d = Some (Inr st)"
    and conf: "parseNodeConfig (peParseIP (hoProvider h)) (hoUnmarshal h) (hoNumCPU h) cf d = Some (Inr conf)"
      "ncKey conf = \<lparr>kcType = PlainKeyType, kcPath = p\<rparr>"
    and runs: "core_runs (stEnv st) (stCore st) co" "provider_run (hoProvider h) (stProvider st) pv"
      "(node_step ec Hash lib)\<^sup>*\<^sup>* (stNode st) nd"
  defines "publicKey \<equiv> PubKeyOf (pePkg (hoProvider h)) k"
    and "compressed \<equiv> SerializeCompressed (pePkg (hoProvider h)) (PubKeyOf (pePkg (hoProvider h)) k)"
  shows "pvCompressedKey pv = compressed \<and> tbSelfID (pvTable pv) = PubKeyToID (pePkg (hoProvider h)) publicKey \<and>
    ngPrivKey (ndNg nd) = k \<and> ngPubKey (ndNg nd) = publicKey \<and> epKey (nPool (coNet co)) = k \<and>
    (\<forall>s. coSched co = Some s \<longrightarrow> sdMiner s = compressed \<and>
       (\<forall>clock coin later r s' b. sdJob s \<noteq> None \<longrightarrow> mrFound r \<longrightarrow>
          onResult (stEnv st) clock coin later r (schedView co s) = Some s' \<longrightarrow> b \<in> set (sdSent s') \<longrightarrow>
          bhMiner (bHeader b) = compressed))"
proof -
  obtain privKey db l1 l2 where
      key: "restoreKey (hoKeys h) (hoTyped h) (ncKey conf) d = Some (Inr privKey)"
    and provider: "startProvider h conf (PubKeyOf (pePkg (hoProvider h)) privKey) = Inr (stProvider st)"
    and node: "startNode h conf privKey = Inr (stNode st)"
    and core: "NewCore \<lparr>envEc = pePkg (hoProvider h), envHash = hoHash h, envBdg = hoBdg h, envParams = blank\<rparr>
        (coreConfigOf conf privKey l1 l2) db = Some (stEnv st, stCore st)"
    by (rule nodeMain_started [OF start]) (use conf(1) in auto)
  have k: "privKey = k" using key conf(2) NewPKey_restores [OF keys] by (simp add: restoreKey_def)
  have "provider_run (hoProvider h) (newProvider (hoProvider h) publicKey) pv"
    using rtranclp_trans [OF startProvider_made [OF provider] runs(2)] by (simp add: publicKey_def k)
  note pv = provider_run_table(2) [OF this] provider_run_wf(2) [OF this]
  have ng: "ndNg nd = newNegotiator (pePkg (hoProvider h)) k (ncChainID conf) (ncNodeType conf)"
    using node_runs_ng [OF runs(3)] startNode_made [OF node] by (auto simp: newNode_def k split: if_splits dest: sym)
  have pool: "epKey (nPool (coNet co)) = k"
    using core_runs_moves [OF runs(1)] NewCore_state(2) [OF core] pool_runs_key
    by (fastforce simp: net_moves_def newEvidencePool_def coreConfigOf_def k)
  have ec: "envEc (stEnv st) = pePkg (hoProvider h)"
    using NewCore_state(1) [OF core] by (auto simp: Init_def Let_def split: bind_splits dest: sym)
  have mined: "mined_by compressed s" if "coSched co = Some s" for s
    using core_runs_mined [OF core runs(1) that] by (simp add: ec k compressed_def coreConfigOf_def)
  have "bhMiner (bHeader b) = compressed"
    if "coSched co = Some s" "sdJob s \<noteq> None" "mrFound r" "onResult (stEnv st) clock coin later r (schedView co s) = Some s'"
      "b \<in> set (sdSent s')" for s clock coin later r s' b
    using onResult_mined(2) [of compressed "schedView co s", OF _ _ that(4) that(3,5)] mined [OF that(1)] that(2) by simp
  then show ?thesis
    using pv ng pool mined by (auto simp: newNegotiator_def publicKey_def compressed_def mined_by_def)
qed


definition demo_key_lib :: "(unit, unit, bytes, bytes) key_lib" where
  "demo_key_lib = \<lparr>GenerateSharedSecret = (\<lambda>_ _. [7]), Sum512 = (\<lambda>_. replicate 64 5), NewCipher = Some,
     NewGCM = Some, Seal = (\<lambda>_ _ x. x @ replicate 16 0), Open = (\<lambda>_ _ x. Some (take (length x - 16) x)),
     Serialize = (\<lambda>_. [1]), PrivKeyFromBytes = (\<lambda>_. Some ()), ScryptKey = (\<lambda>_ _ _ _ _ _. Some (replicate 32 9)),
     MarshalIndent = toyMarshal, Unmarshal = toyUnmarshal\<rparr>"

interpretation demo_keys: key_files demo_key_lib
proof
  show "\<exists>j. MarshalIndent demo_key_lib (sealJSON (ToHex n) (ToHex c) (ToHex s)) = Some j \<and>
      Unmarshal demo_key_lib j = Some (sealJSON (ToHex n) (ToHex c) (ToHex s)) \<and> hd j = CHR ''{'' \<and> last j = CHR ''}''" for n c s
    using toy_keys.json [of n c s] by (simp add: demo_key_lib_def toy_key_lib_def)
qed (simp_all add: demo_key_lib_def)

definition demo_node_conf :: nodeConfig where
  "demo_node_conf = \<lparr>ncNodeType = FullNode, ncIP = ''ip'', ncPort = 1, ncSeeds = [], ncMaxPeers = 4, ncLogLevel = 2,
     ncDataPath = ''q'', ncKey = \<lparr>kcType = PlainKeyType, kcPath = ''p''\<rparr>, ncChainID = 1,
     ncBlockDifficultyLimit = ''ffffffff'', ncEvidenceDifficultyLimit = ''ffffffff'', ncBlockInterval = 10,
     ncParallelMine = 1, ncGenesis = demo_genesis, ncHTTPPort = 2\<rparr>"

definition demo_host :: "(bytes, unit, unit, (bytes \<times> bytes) list, bytes, bytes) host" where
  "demo_host = \<lparr>hoKeys = demo_key_lib, hoTyped = None,
     hoProvider = \<lparr>pePkg = toy_ec, peHash = mod_hash, peIPString = (\<lambda>_. []), peParseIP = (\<lambda>_. Some [127, 0, 0, 1]),
       peMarshalText = (\<lambda>_. []), peUnmarshalText = (\<lambda>_. None), peResolve = (\<lambda>_. None)\<rparr>,
     hoUnmarshal = (\<lambda>_. Some (Some demo_node_conf)), hoNumCPU = 1, hoListenUDP = True, hoListenTCP = True,
     hoAbs = Some, hoOpen = (\<lambda>_. Some []), hoHash = pad_hash, hoBdg = mem_badger\<rparr>"

definition node_disk :: disk where
  "node_disk = demo_disk\<lparr>dkNodes := (dkNodes demo_disk)(''c'' \<mapsto> Plain [])\<rparr>"

lemma demo_node_starts:
  "\<exists>d st s. keygen demo_key_lib 2 [] ''p'' (Some ()) None (demo_sealing 0) node_disk = Some (Inr d) \<and>
     nodeMain demo_host (initMiningParams demo_conf) ''c'' d =
       Some (Inr (st :: (bytes, unit, unit, (bytes \<times> bytes) list, bytes) startedNode)) \<and>
     parseNodeConfig (peParseIP (hoProvider demo_host)) (hoUnmarshal demo_host) (hoNumCPU demo_host) ''c'' d =
       Some (Inr demo_node_conf) \<and> stCore st = demo_core s"
proof -
  obtain s where s: "starts demo_env demo_genesis [] (demo_c0 s)" using demo_starts by blast
  define d where "d = node_disk\<lparr>dkNodes := (dkNodes node_disk)(''p/.pKey'' \<mapsto> Plain (ToHex [1]))\<rparr>"
  have made: "keygen demo_key_lib 2 [] ''p'' (Some ()) None (demo_sealing 0) node_disk = Some (Inr d)"
    by (simp add: keygen_def NewPKey_def checkBeforeNewKey_def saveOnDisk_def AccessCheck_def node_disk_def demo_disk_def
        PlainKey_def demo_key_lib_def d_def)
  have nodes: "dkNodes d ''p'' = Some Dir" "dkNodes d ''q'' = Some Dir" "dkNodes d ''c'' = Some (Plain [])"
    by (simp_all add: d_def node_disk_def demo_disk_def)
  have genesis: "demo_genesis \<noteq> []"
    by (simp add: demo_genesis_def MarshalBlock_def MarshalBlockHeader_def putU8_def putU16_def)
  have conf: "parseNodeConfig (peParseIP (hoProvider demo_host)) (hoUnmarshal demo_host) (hoNumCPU demo_host) ''c'' d =
      Some (Inr demo_node_conf)"
    using nodes genesis by (simp add: parseNodeConfig_def verifyNodeConfig_def AccessCheck_def demo_host_def demo_node_conf_def
        To4_def LogErrorLevel_def LogDebugLevel_def FullNode_def LightNode_def PlainKeyType_def)
  have key: "restoreKey demo_key_lib None (ncKey demo_node_conf) d = Some (Inr ())"
    using NewPKey_restores [OF demo_keys.key_files_axioms made] by (simp add: restoreKey_def demo_node_conf_def)
  have limit: "ParseTarget ''ffffffff'' = Some 0xFFFFFFFF" by (simp add: ParseTarget_def fromHexChar_def)
  have config: "coreConfigOf demo_node_conf () 0xFFFFFFFF 0xFFFFFFFF = demo_core_conf"
    by (simp add: coreConfigOf_def demo_node_conf_def demo_core_conf_def demo_conf_def)
  have env: "\<lparr>envEc = toy_ec, envHash = pad_hash, envBdg = mem_badger, envParams = initMiningParams demo_conf\<rparr> = demo_env"
    by (simp add: demo_env_def)
  have "\<exists>st. nodeMain demo_host (initMiningParams demo_conf) ''c'' d =
      Some (Inr (st :: (bytes, unit, unit, (bytes \<times> bytes) list, bytes) startedNode)) \<and> stCore st = demo_core s"
    using key conf limit config env demo_core_new [OF s] nodes
    by (simp add: nodeMain_def startProvider_def startNode_def openDb_def parseLimit_def startCore_def demo_host_def
        dbInit_def badgerInit_def AccessCheck_def newNode_def demo_node_conf_def Let_def)
  then show ?thesis using made conf by blast
qed

theorem node_has_one_identity_witness:
  "\<exists>d st s. keygen demo_key_lib 2 [] ''p'' (Some ()) None (demo_sealing 0) node_disk = Some (Inr d) \<and>
     nodeMain demo_host (initMiningParams demo_conf) ''c'' d =
       Some (Inr (st :: (bytes, unit, unit, (bytes \<times> bytes) list, bytes) startedNode)) \<and>
     pvCompressedKey (stProvider st) = SerializeCompressed toy_ec () \<and>
     coSched (stCore st) = Some s \<and> sdMiner s = SerializeCompressed toy_ec ()"
proof -
  obtain d s0 and st :: "(bytes, unit, unit, (bytes \<times> bytes) list, bytes) startedNode" where
    made: "keygen demo_key_lib 2 [] ''p'' (Some ()) None (demo_sealing 0) node_disk = Some (Inr d)"
    and start: "nodeMain demo_host (initMiningParams demo_conf) ''c'' d = Some (Inr st)"
    and conf: "parseNodeConfig (peParseIP (hoProvider demo_host)) (hoUnmarshal demo_host) (hoNumCPU demo_host) ''c'' d =
        Some (Inr demo_node_conf)" and core: "stCore st = demo_core s0"
    using demo_node_starts by blast
  have keys: "hoKeys demo_host = demo_key_lib" "pePkg (hoProvider demo_host) = toy_ec" by (simp_all add: demo_host_def)
  have "ncKey demo_node_conf = \<lparr>kcType = PlainKeyType, kcPath = ''p''\<rparr>" by (simp add: demo_node_conf_def)
  note one = node_has_one_identity [of demo_host, unfolded keys, OF demo_keys.key_files_axioms made start conf this
      core_runs.core_start rtranclp.rtrancl_refl rtranclp.rtrancl_refl]
  obtain s where s: "coSched (stCore st) = Some s" by (simp add: core demo_core_def)
  have "PubKeyOf toy_ec () = ()" by simp
  with one s show ?thesis using made start by (intro exI [of _ d] exI [of _ st] exI [of _ s]) simp
qed

section \<open>Faults\<close>

text \<open>
  The configuration is checked for the length of the difficulty limits only: limits of eight other
  characters are accepted, and end the program after its provider, node and database were started.
\<close>

lemma limit_is_not_checked:
  assumes "parseNodeConfig (peParseIP (hoProvider h)) (hoUnmarshal h) (hoNumCPU h) cf d = Some (Inr conf)"
    and "restoreKey (hoKeys h) (hoTyped h) (ncKey conf) d = Some (Inr k)" "hoListenUDP h" "hoListenTCP h"
    and "openDb h conf d = Inr db" "ncBlockDifficultyLimit conf = ''hardhard''"
  shows "nodeMain h blank cf d = Some (Inl (LimitFatal ''hardhard''))"
proof -
  have bad: "ParseTarget ''hardhard'' = None" by code_simp
  have "verifyNodeConfig (peParseIP (hoProvider h)) (hoNumCPU h) d conf = Inr ()"
    using assms(1) by (auto simp: parseNodeConfig_def attempt_def split: if_splits sum.splits option.splits dnode.splits)
  then obtain ip where "peParseIP (hoProvider h) (ncIP conf) = Some ip" "ncNodeType conf = FullNode"
    by (auto simp: verifyNodeConfig_def split: if_splits sum.splits option.splits)
  then show ?thesis
    using assms bad by (simp add: nodeMain_def startProvider_def startNode_def newNode_def parseLimit_def Let_def)
qed

end
