(* ===== verification/ClientMain.thy ===== *)
theory ClientMain
  imports Client DbBrowser NodeMain
begin

text \<open>
  \<open>main\<close> of \<open>src/cmd/client\<close>: the choice of the operation by the flags and the tables that
  \<open>src/cmd/client/http_client.go\<close> prints for the answers.  The result of a run is the exit code and the text
  on the standard output.  The operations on hash files, which \<open>HashFile\<close> models over a tree of files, and
  the text of an error are arguments; the progress messages of an upload are left out.
\<close>

section \<open>Printed answers\<close>

definition responseText :: "(rpc_data \<Rightarrow> string) \<Rightarrow> outcome \<Rightarrow> string" where
  "responseText f o1 =
     (case o1 of
        Succeeded d \<Rightarrow> f d
      | FailedWith m \<Rightarrow> ''failed: '' @ m @ newline
      | BadRequest \<Rightarrow> ''bad request, please check your input'' @ newline
      | UnknownCode c \<Rightarrow> ''response unknown code:'' @ intString c @ newline)"

definition uploadText :: "rpc_data \<Rightarrow> string" where
  "uploadText d = ''>>> upload hash successfully'' @ newline"

fun accountLines :: "nat \<Rightarrow> string list \<Rightarrow> string" where
  "accountLines i [] = []"
| "accountLines i (e # es) = tabs 1 @ natString (i + 1) @ ''.'' @ e @ newline @ accountLines (i + 1) es"

definition accountText :: "string \<Rightarrow> rpc_data \<Rightarrow> string" where
  "accountText accountID d =
     (let (evds, score) = (case d of AccountData evds score \<Rightarrow> (evds, score) | _ \<Rightarrow> ([], 0))
      in ''Account'' @ tabs 1 @ ''<'' @ accountID @ ''>'' @ newline @ ''Score:'' @ tabs 1 @ natString (unat score) @ newline @
         ''Evidence:'' @ newline @ accountLines 0 evds @ newline)"

definition ruler :: string where "ruler = replicate 56 CHR ''-'' @ newline"

definition evidenceRow :: "(i64 \<Rightarrow> string) \<Rightarrow> EvidenceJSON \<Rightarrow> string" where
  "evidenceRow timeText evd =
     ruler @ ''Evidence <'' @ ejHash evd @ ''>'' @ newline @ ''[Version] '' @ natString (unat (ejVersion evd)) @ newline @
     ''[PubKey] '' @ ejPubKey evd @ newline @ ''[Signature] '' @ ejSig evd @ newline @
     ''[Description] '' @ ejDescription evd @ newline @ ''[Nonce] '' @ natString (unat (ejNonce evd)) @ newline @
     ''[Height] '' @ natString (unat (ejHeight evd)) @ newline @ ''[Block] '' @ ejBlockHash evd @ newline @
     ''[Time] '' @ timeText (ejTime evd) @ newline @ newline"

definition evidencesText :: "(i64 \<Rightarrow> string) \<Rightarrow> rpc_data \<Rightarrow> string" where
  "evidencesText timeText d = concat (map (evidenceRow timeText) (case d of EvidenceData evds \<Rightarrow> evds | _ \<Rightarrow> []))"

fun ownerLines :: "nat \<Rightarrow> EvidenceInBlockJSON list \<Rightarrow> string" where
  "ownerLines i [] = []"
| "ownerLines i (e # es) =
     ''['' @ natString i @ '']'' @ tabs 1 @ ebHash e @ tabs 1 @ ebOwner e @ newline @ ownerLines (i + 1) es"

definition blockRow :: "(i64 \<Rightarrow> string) \<Rightarrow> BlockJSON \<Rightarrow> string" where
  "blockRow timeText b =
     newline @ ''Block <'' @ bjHash b @ ''> Height:'' @ natString (unat (bjHeight b)) @ newline @
     ''Time'' @ tabs 2 @ timeText (bjTime b) @ newline @ ''Version'' @ tabs 2 @ natString (unat (bjVersion b)) @ newline @
     ''Nonce'' @ tabs 2 @ natString (unat (bjNonce b)) @ newline @
     ''Difficulty'' @ tabs 1 @ hexNumber (TargetToDiff (bjTarget b)) @ newline @
     ''LastBlock'' @ tabs 1 @ bjLastHash b @ newline @ ''Miner'' @ tabs 2 @ bjMiner b @ newline @
     ''Root'' @ tabs 2 @ bjEvidenceRoot b @ newline @ newline @ ''Evidece details:'' @ newline @
     ''No'' @ tabs 1 @ ''Hash'' @ tabs 9 @ ''Owner'' @ newline @ ownerLines 0 (bjEvds b) @ newline @ ruler"

definition blocksText :: "(i64 \<Rightarrow> string) \<Rightarrow> rpc_data \<Rightarrow> string" where
  "blocksText timeText d = concat (map (blockRow timeText) (case d of BlocksData blocks \<Rightarrow> blocks | _ \<Rightarrow> []))"

section \<open>Hashing one file\<close>

datatype sha_error = ShaPath key_error | ShaDirectory | ShaReadFailed

definition getSha256HashOfFile :: "hasher \<Rightarrow> string \<Rightarrow> disk \<Rightarrow> sha_error + bytes" where
  "getSha256HashOfFile Hash path d =
     (case AccessCheck path d of
        Inl e \<Rightarrow> Inl (ShaPath e)
      | Inr _ \<Rightarrow>
          (case dkNodes d path of
             Some (Plain content) \<Rightarrow> Inr (Hash (strBytes content))
           | Some Dir \<Rightarrow> Inl ShaDirectory
           | _ \<Rightarrow> Inl ShaReadFailed))"

section \<open>The command\<close>

record clientFlags =
  cfConfigFile :: string
  cfE :: string
  cfSha256 :: string
  cfV :: string
  cfU :: string
  cfM :: string
  cfQa :: bool
  cfQe :: string
  cfQb :: string

datatype operation =
    GenerateHashFile string bool
  | Sha256File string
  | VerifyHashFile string
  | UploadHashFile string string
  | QueryAccount
  | QueryEvidenceHashes string
  | QueryBlocks string
  | UnknownOperation

definition chosen :: "clientFlags \<Rightarrow> client_config \<Rightarrow> operation" where
  "chosen fl conf =
     (if cfE fl \<noteq> [] then GenerateHashFile (cfE fl) (ccIgnoreHidden conf = 1)
      else if cfSha256 fl \<noteq> [] then Sha256File (cfSha256 fl)
      else if cfV fl \<noteq> [] then VerifyHashFile (cfV fl)
      else if cfU fl \<noteq> [] then UploadHashFile (cfU fl) (cfM fl)
      else if cfQa fl then QueryAccount
      else if cfQe fl \<noteq> [] then QueryEvidenceHashes (cfQe fl)
      else if cfQb fl \<noteq> [] then QueryBlocks (cfQb fl)
      else UnknownOperation)"

datatype main_error = OfClient client_error | OfSha sha_error | OfHashFile string

text \<open>
  What the operations need from outside: the libraries, the exchange with the node, and the operations
  on hash files with the text they print.
\<close>

record ('sig, 'key, 'priv) outside =
  osEc :: "('sig, 'key, 'priv) btcec"
  osHash :: hasher
  osHashFile :: "string \<Rightarrow> hashFile option"
  osMarshalEvds :: "EvidenceJSON option list \<Rightarrow> bytes"
  osMarshalHashes :: "string list \<Rightarrow> bytes"
  osSend :: "request \<Rightarrow> transport"
  osTime :: "i64 \<Rightarrow> string"
  osGenerate :: "string \<Rightarrow> bool \<Rightarrow> string + string"
  osVerify :: "string \<Rightarrow> string + string"

definition printing :: "(rpc_data \<Rightarrow> string) \<Rightarrow> client_error + outcome \<Rightarrow> main_error + string" where
  "printing f r = (case r of Inl e \<Rightarrow> Inl (OfClient e) | Inr o1 \<Rightarrow> Inr (responseText f o1))"

definition perform ::
  "('sig, 'key, 'priv) outside \<Rightarrow> 'priv httpClient \<Rightarrow> disk \<Rightarrow> operation \<Rightarrow> (main_error + string) option" where
  "perform os client d op =
     (case op of
        GenerateHashFile path ignoreHidden \<Rightarrow> Some (wrapErr OfHashFile (osGenerate os path ignoreHidden))
      | Sha256File path \<Rightarrow>
          Some (case getSha256HashOfFile (osHash os) path d of
             Inl e \<Rightarrow> Inl (OfSha e)
           | Inr digest \<Rightarrow> Inr (''Sha256 of '' @ path @ '' is '' @ ToHex digest @ newline))
      | VerifyHashFile path \<Rightarrow> Some (wrapErr OfHashFile (osVerify os path))
      | UploadHashFile path description \<Rightarrow>
          map_option (printing uploadText)
            (uploadHashFile (osEc os) (osHash os) (osHashFile os) (osMarshalEvds os) (osSend os) client path description d)
      | QueryAccount \<Rightarrow>
          Some (printing (accountText (PrivKeyToID (osEc os) (hcPrivKey client))) (clientQueryAccount (osEc os) (osSend os) client))
      | QueryEvidenceHashes params \<Rightarrow>
          Some (printing (evidencesText (osTime os)) (clientQueryEvidence (osMarshalHashes os) (osSend os) params))
      | QueryBlocks params \<Rightarrow> Some (printing (blocksText (osTime os)) (clientQueryBlocks (osSend os) params))
      | UnknownOperation \<Rightarrow> None)"

text \<open>
  The exit code and the output, the messages of errors left out.  A configuration or a key that cannot
  be read is reported with the exit code 0.
\<close>

definition clientMain ::
  "(string \<Rightarrow> bytes option) \<Rightarrow> (string \<Rightarrow> client_config option) \<Rightarrow> ('key, 'priv, 'block, 'aead) key_lib \<Rightarrow> bytes option \<Rightarrow>
   ('sig, 'key, 'priv) outside \<Rightarrow> clientFlags \<Rightarrow> disk \<Rightarrow> (int \<times> string) option" where
  "clientMain parseIP unmarshal lib typed os fl d =
     (if cfConfigFile fl = [] then Some (0, ''not found config file'' @ newline)
      else case parseConfig parseIP unmarshal (cfConfigFile fl) d of
          None \<Rightarrow> None
        | Some (Inl _) \<Rightarrow> Some (0, [])
        | Some (Inr conf) \<Rightarrow>
            (case initHTTPClient lib typed conf d of
               None \<Rightarrow> None
             | Some (Inl _) \<Rightarrow> Some (0, [])
             | Some (Inr client) \<Rightarrow>
                 (let op = chosen fl conf
                  in if op = UnknownOperation then Some (1, ''unknown operation'')
                     else map_option (\<lambda>r. case r of
                         Inl _ \<Rightarrow> (1, [])
                       | Inr out \<Rightarrow> (0, out @ ''Finished.'' @ newline))
                       (perform os client d op))))"


section \<open>Properties\<close>

definition asking :: "string \<Rightarrow> string \<Rightarrow> string \<Rightarrow> clientFlags" where
  "asking cf hash blocks = \<lparr>cfConfigFile = cf, cfE = [], cfSha256 = [], cfV = [], cfU = [], cfM = [], cfQa = False,
     cfQe = hash, cfQb = blocks\<rparr>"

text \<open>The exchange with a node that serves the request at once.\<close>

definition answeredBy ::
  "('sig, 'key, 'priv, 's) chain_env \<Rightarrow> 's chain \<Rightarrow> (nat \<Rightarrow> gotime) \<Rightarrow> json_lib \<Rightarrow> 'priv rpc_state \<Rightarrow> request \<Rightarrow> transport" where
  "answeredBy env c now json st req =
     (case serve env c now json req st of None \<Rightarrow> None | Some (r, _) \<Rightarrow> replyTransport r)"

lemma clientQueryEvidence_answered:
  assumes hash: "length h = HashLength" and json: "jlQueryEvidence json (marshal [ToHex h]) = Some [ToHex h]"
    and found: "qcGetEvidence env c (now 0) [ToHex h] (rpCache st) = Some ([ei], qc')"
  shows "clientQueryEvidence marshal (answeredBy env c now json st) (ToHex h) =
    Inr (Succeeded (EvidenceData [fromEvidenceInfo ei]))"
proof -
  have "CHR '','' \<notin> set (ToHex h)" using set_ToHex [of h] by auto
  then have "splitAt CHR '','' (ToHex h) = [ToHex h]" by (rule splitAt_free)
  moreover have "route (version1Path @ ''/evidence/query'') = Some QueryEvidence" by (simp add: route_def handlers_def)
  ultimately show ?thesis
    using assms by (simp add: clientQueryEvidence_def answeredBy_def serve_def clientGenRequest_def queryEvidence_def
        maxBatchQueryNum_def withCache_def clientOutcome_def parseResponse_def replyTransport_def responseHandle_def
        successWithDataResponse_def doResponse_def Let_def)
qed

text \<open>
  C22 From the chain to the terminal: asked for the hash of an evidence that is in a block of the
  longest branch, a client that is configured and reaches the node prints exactly one entry, with this hash
  and the height and the hash of that block, and ends with the exit code 0.
\<close>

theorem client_prints_evidence:
  assumes kv: "kv_store (envBdg env) view" "starts env genesis db c0" "runs env c0 c"
    and a: "a \<in> set (unstored c)" and e: "e \<in> set (bEvds (bkBlock (cHeap c ! a)))" "length (eHash e) = HashLength"
    and due: "timeSub (now 0) (qcLastRefresh (rpCache st)) > refreshInterval"
    and json: "jlQueryEvidence json (osMarshalHashes os [ToHex (eHash e)]) = Some [ToHex (eHash e)]"
    and reach: "osSend os = answeredBy env c now json st"
    and conf: "cf \<noteq> []" "parseConfig parseIP unmarshal cf d = Some (Inr conf)"
      "initHTTPClient lib typed conf d = Some (Inr client)"
  shows "\<exists>ei. eHash (eiEvidence ei) = eHash e \<and> eiHeight ei = bkHeight (cHeap c ! a) \<and>
    eiBlockHash ei = bkHash (cHeap c ! a) \<and>
    clientMain parseIP unmarshal lib typed os (asking cf (ToHex (eHash e)) qb) d =
      Some (0, evidenceRow (osTime os) (fromEvidenceInfo ei) @ ''Finished.'' @ newline)"
proof -
  have inv: "chain_inv env c" by (rule kv_store.reachable_inv [OF kv(1) refl kv(2,3)])
  have "eHash e \<in> evds_at (cHeap c) a" using e(1) by (simp add: evds_at_def)
  from unstored_evidence_found [OF inv a this due] obtain ei qc' where
    ei: "qcGetEvidence env c (now 0) [ToHex (eHash e)] (rpCache st) = Some ([ei], qc')" "eHash (eiEvidence ei) = eHash e"
      "eiHeight ei = bkHeight (cHeap c ! a)" "eiBlockHash ei = bkHash (cHeap c ! a)" by blast
  have "ToHex (eHash e) \<noteq> []" using e(2) by (auto simp: HashLength_def)
  then have "chosen (asking cf (ToHex (eHash e)) qb) conf = QueryEvidenceHashes (ToHex (eHash e))"
    by (simp add: chosen_def asking_def)
  moreover have "cfConfigFile (asking cf (ToHex (eHash e)) qb) = cf" by (simp add: asking_def)
  ultimately show ?thesis
    using ei(2-4) conf clientQueryEvidence_answered [where marshal = "osMarshalHashes os" and now = now, OF e(2) json ei(1)]
    by (intro exI [of _ ei]) (simp add: clientMain_def perform_def reach printing_def responseText_def evidencesText_def)
qed


definition demo_client_conf :: client_config where
  "demo_client_conf = \<lparr>ccServerIP = ''ip'', ccServerPort = 1, ccScheme = ''http'', ccIgnoreHidden = 0,
     ccKey = Some \<lparr>kcType = PlainKeyType, kcPath = ''p''\<rparr>, ccDifficulty = ''ffffffff''\<rparr>"

definition client_disk :: disk where
  "client_disk = demo_disk\<lparr>dkNodes := (dkNodes demo_disk)(''c'' \<mapsto> Plain [], ''p/.pKey'' \<mapsto> Plain (ToHex [1]))\<rparr>"

definition demo_json :: json_lib where
  "demo_json = \<lparr>jlUploadEvds = (\<lambda>_. None), jlUploadRaw = (\<lambda>_. False), jlQueryEvidence = (\<lambda>_. Some [ToHex (replicate 32 5)])\<rparr>"

definition demo_served :: "unit rpc_state" where
  "demo_served = \<lparr>rpPool = newEvidencePool (), rpCache = newQCache\<rparr>"

definition demo_outside :: "(bytes \<times> bytes) list \<Rightarrow> (bytes, unit, unit) outside" where
  "demo_outside s = \<lparr>osEc = toy_ec, osHash = pad_hash, osHashFile = (\<lambda>_. None), osMarshalEvds = (\<lambda>_. []),
     osMarshalHashes = (\<lambda>_. []),
     osSend = answeredBy demo_env (demo_c1 s) (\<lambda>_. (1600000000, 0)) demo_json demo_served,
     osTime = (\<lambda>_. ''now''), osGenerate = (\<lambda>_ _. Inl []), osVerify = (\<lambda>_. Inl [])\<rparr>"

theorem client_prints_evidence_witness:
  "\<exists>s ei. Suc 0 \<in> set (unstored (demo_c1 s)) \<and> eHash (eiEvidence ei) = replicate 32 5 \<and> eiHeight ei = 2 \<and>
     clientMain (\<lambda>_. Some []) (\<lambda>_. Some demo_client_conf) demo_key_lib None (demo_outside s)
       (asking ''c'' (ToHex (replicate 32 5)) []) client_disk =
       Some (0, evidenceRow (\<lambda>_. ''now'') (fromEvidenceInfo ei) @ ''Finished.'' @ newline)"
proof (rule demo_query)
  fix s assume s: "starts demo_env demo_genesis [] (demo_c0 s)" "runs demo_env (demo_c0 s) (demo_c1 s)"
    "kv_store (envBdg demo_env) map_of" "longest (demo_c1 s) = br (demo_c1 s) 0" "unstored (demo_c1 s) = [Suc 0]"
    "timeSub (1600000000, 0) (qcLastRefresh newQCache) > refreshInterval"
  have evd: "demo_evd \<in> set (bEvds (bkBlock (cHeap (demo_c1 s) ! Suc 0)))" "eHash demo_evd = replicate 32 5"
    by (simp_all add: demo_c1_simps demo_evd_block_def mk_def NewBlock_def) (simp add: demo_evd_def)
  have nodes: "dkNodes client_disk ''p'' = Some Dir" "dkNodes client_disk ''c'' = Some (Plain [])"
    "dkNodes client_disk (''p'' @ ''/'' @ PlainKey) = Some (Plain (ToHex (Serialize demo_key_lib ())))"
    by (simp_all add: client_disk_def demo_disk_def PlainKey_def demo_key_lib_def)
  have conf: "parseConfig (\<lambda>_. Some []) (\<lambda>_. Some demo_client_conf) ''c'' client_disk = Some (Inr demo_client_conf)"
    using nodes(1,2) by (simp add: parseConfig_def verifyConfig_def AccessCheck_def demo_client_conf_def)
  have limit: "ParseTarget ''ffffffff'' = Some 0xFFFFFFFF" by (simp add: ParseTarget_def fromHexChar_def)
  have "PlainKeyType \<noteq> SealKeyType" by (simp add: PlainKeyType_def SealKeyType_def)
  then obtain client where client: "initHTTPClient demo_key_lib None demo_client_conf client_disk = Some (Inr client)"
    using demo_keys.RestorePKey_plain [OF nodes(3)] limit by (simp add: initHTTPClient_def demo_client_conf_def)
  have a: "Suc 0 \<in> set (unstored (demo_c1 s))" using s(5) by simp
  have rest: "length (eHash demo_evd) = HashLength" "timeSub (1600000000, 0) (qcLastRefresh (rpCache demo_served)) > refreshInterval"
    "jlQueryEvidence demo_json (osMarshalHashes (demo_outside s) [ToHex (eHash demo_evd)]) = Some [ToHex (eHash demo_evd)]"
    "osSend (demo_outside s) = answeredBy demo_env (demo_c1 s) (\<lambda>_. (1600000000, 0)) demo_json demo_served" "''c'' \<noteq> []"
    using evd(2) s(6) by (simp_all add: HashLength_def demo_served_def demo_json_def demo_outside_def)
  have "osTime (demo_outside s) = (\<lambda>_. ''now'')" by (simp add: demo_outside_def)
  then show ?thesis
    using client_prints_evidence [OF s(3,1,2) a evd(1) rest(1) rest(2) rest(3-5) conf client, of "[]"] a evd(2)
    by (metis demo_c1_simps(7))
qed

section \<open>The exit code\<close>

text \<open>A configuration or a key that cannot be used is reported with the exit code of success.\<close>

lemma bad_config_exits_zero:
  assumes "parseConfig parseIP unmarshal (cfConfigFile fl) d = Some (Inl e)" "cfConfigFile fl \<noteq> []"
  shows "clientMain parseIP unmarshal lib typed os fl d = Some (0, [])"
  using assms by (simp add: clientMain_def)

lemma failed_operation_exits_one:
  assumes "parseConfig parseIP unmarshal (cfConfigFile fl) d = Some (Inr conf)" "cfConfigFile fl \<noteq> []"
    and "initHTTPClient lib typed conf d = Some (Inr client)" "perform os client d (chosen fl conf) = Some (Inl e)"
  shows "clientMain parseIP unmarshal lib typed os fl d = Some (1, [])"
  using assms by (cases "chosen fl conf = UnknownOperation") (simp_all add: clientMain_def perform_def)

end
