(* ===== verification/TcpServer.thy ===== *)
theory TcpServer
  imports TcpConn LoopMode Peer
begin

text \<open>
  The TCP server of \<open>src/utils/tcp.go\<close> and \<open>TCPConnectTo\<close>.  A socket that the listener accepts is a name
  \<open>'sock\<close> with the connection of \<open>TcpConn\<close> that \<open>newTCPConn\<close> starts on it; the goroutine \<open>loop\<close> is the
  one routine of an owner as in \<open>LoopMode\<close>.
\<close>

section \<open>State\<close>

definition tcpConnQSize :: nat where "tcpConnQSize = 128"

text \<open>\<open>tsClosed\<close> is whether the listener was closed, \<open>tsDropped\<close> the connections that found no room.\<close>

record 'sock tcpServer =
  tsIP :: IP
  tsPort :: int
  tsAcceptConn :: "('sock \<times> tcpConn) list"
  tsDropped :: "('sock \<times> tcpConn) list"
  tsOwner :: owner
  tsClosed :: bool

text \<open>\<open>NewTCPServer\<close> with \<open>Start\<close>, which returns false when the address cannot be listened on.\<close>

definition NewTCPServer :: "IP \<Rightarrow> int \<Rightarrow> 'sock tcpServer option" where
  "NewTCPServer ip port =
     map_option (\<lambda>l. \<lparr>tsIP = ip, tsPort = port, tsAcceptConn = [], tsDropped = [],
         tsOwner = \<lparr>owLoop = l, owStop = NotCalled, owRoutines = []\<rparr>, tsClosed = False\<rparr>)
       (NewLoop 1)"

definition tcpServerStart :: "bool \<Rightarrow> 'sock tcpServer \<Rightarrow> bool \<times> 'sock tcpServer" where
  "tcpServerStart listens s =
     (if \<not> listens then (False, s)
      else (True, s\<lparr>tsOwner := (tsOwner s)\<lparr>owLoop := StartWorking (owLoop (tsOwner s)), owRoutines := [Spawned]\<rparr>\<rparr>))"

definition tcpServerAddr :: "(IP \<Rightarrow> string) \<Rightarrow> 'sock tcpServer \<Rightarrow> string" where
  "tcpServerAddr ipString s = ipString (tsIP s) @ '':'' @ intString (tsPort s)"

definition TCPConnectTo :: "bool \<Rightarrow> tcpConn option" where
  "TCPConnectTo dialled = (if dialled then Some newTCPConn else None)"

section \<open>Accepting\<close>

text \<open>
  A round of \<open>loop\<close>.  The operand of the send is evaluated before \<open>select\<close> looks at the queue: also a
  connection that is dropped was started, and its reader meets the closed socket and stops it.
\<close>

definition acceptRound :: "'sock option \<Rightarrow> 'sock tcpServer \<Rightarrow> 'sock tcpServer" where
  "acceptRound accepted s =
     (case accepted of
        None \<Rightarrow> s
      | Some sock \<Rightarrow>
          (let c = newTCPConn
           in if length (tsAcceptConn s) < tcpConnQSize then s\<lparr>tsAcceptConn := tsAcceptConn s @ [(sock, c)]\<rparr>
              else s\<lparr>tsDropped := tsDropped s @ [(sock, tcpStop c)]\<rparr>))"

datatype 'sock tcp_event = AcceptedSock 'sock | HandedOver 'sock

inductive tcp_server_step :: "'sock tcpServer \<Rightarrow> 'sock tcp_event list \<Rightarrow> 'sock tcpServer \<Rightarrow> bool" where
  accept: "owRoutines (tsOwner s) = [Looping] \<Longrightarrow> lmD (owLoop (tsOwner s)) = 0 \<Longrightarrow> \<not> tsClosed s \<Longrightarrow>
    tcp_server_step s (map AcceptedSock (case accepted of None \<Rightarrow> [] | Some sock \<Rightarrow> [sock])) (acceptRound accepted s)"
| handOver: "tsAcceptConn s = (sock, c) # rest \<Longrightarrow> tcp_server_step s [HandedOver sock] (s\<lparr>tsAcceptConn := rest\<rparr>)"
| waits: "i < length (tsAcceptConn s) \<Longrightarrow> tsAcceptConn s ! i = (sock, c) \<Longrightarrow> tcpRecv r c = Some c' \<Longrightarrow>
    tcp_server_step s [] (s\<lparr>tsAcceptConn := (tsAcceptConn s)[i := (sock, c')]\<rparr>)"
| own: "owner_step (tsOwner s) (Some ow) \<Longrightarrow> tcp_server_step s [] (s\<lparr>tsOwner := ow\<rparr>)"
| close: "owStop (tsOwner s) = Returned True \<Longrightarrow> tcp_server_step s [] (s\<lparr>tsClosed := True\<rparr>)"

inductive tcp_server_runs :: "'sock tcp_event list \<Rightarrow> 'sock tcpServer \<Rightarrow> bool" where
  begin_run: "NewTCPServer ip port = Some s0 \<Longrightarrow> tcpServerStart True s0 = (True, s) \<Longrightarrow> tcp_server_runs [] s"
| continue_run: "tcp_server_runs es s \<Longrightarrow> tcp_server_step s e s' \<Longrightarrow> tcp_server_runs (es @ e) s'"

section \<open>Where accepted connections are\<close>

fun acceptedSocks :: "'sock tcp_event list \<Rightarrow> 'sock list" where
  "acceptedSocks [] = []"
| "acceptedSocks (AcceptedSock x # es) = x # acceptedSocks es"
| "acceptedSocks (HandedOver x # es) = acceptedSocks es"

fun handedSocks :: "'sock tcp_event list \<Rightarrow> 'sock list" where
  "handedSocks [] = []"
| "handedSocks (AcceptedSock x # es) = handedSocks es"
| "handedSocks (HandedOver x # es) = x # handedSocks es"

lemma socks_append [simp]:
  "acceptedSocks (es @ fs) = acceptedSocks es @ acceptedSocks fs"
  "handedSocks (es @ fs) = handedSocks es @ handedSocks fs"
  by (induction es rule: acceptedSocks.induct) auto

definition server_inv :: "'sock tcp_event list \<Rightarrow> 'sock tcpServer \<Rightarrow> bool" where
  "server_inv es s \<longleftrightarrow>
     mset (acceptedSocks es) = mset (handedSocks es) + mset (map fst (tsAcceptConn s)) + mset (map fst (tsDropped s)) \<and>
     length (tsAcceptConn s) \<le> tcpConnQSize \<and> (\<forall>(sock, c) \<in> set (tsAcceptConn s). \<not> tcHasSplit c \<and> tcRecvQ c = []) \<and>
     (\<forall>(sock, c) \<in> set (tsDropped s). \<not> tcWorking c) \<and> owner_runs 1 (tsOwner s)"

lemma tcp_server_step_inv:
  assumes "tcp_server_step s e s'" "server_inv es s"
  shows "server_inv (es @ e) s'"
  using assms(1)
proof cases
  case (accept accepted)
  then show ?thesis
    using assms(2) by (auto simp: server_inv_def acceptRound_def tcpStop_def newTCPConn_def Let_def split: option.split)
next
  case (handOver sock c rest)
  then show ?thesis using assms(2) by (auto simp: server_inv_def)
next
  case (waits i sock c r c')
  then have c: "\<not> tcHasSplit c" "tcRecvQ c = []" using assms(2) nth_mem [OF waits(3)] by (auto simp: server_inv_def)
  then have "\<not> tcHasSplit c' \<and> tcRecvQ c' = []"
    using waits(5) by (auto simp: tcpRecv_def tcpStop_def Let_def split: read_result.splits if_splits)
  moreover have "map fst ((tsAcceptConn s)[i := (sock, c')]) = map fst (tsAcceptConn s)"
    using waits(3,4) by (simp add: map_update list_update_same_conv)
  ultimately show ?thesis
    using assms(2) waits(1,2) set_update_subset_insert [of "tsAcceptConn s" i "(sock, c')"]
    by (fastforce simp: server_inv_def simp del: mset_map)
next
  case (own ow)
  then show ?thesis using assms(2) by (auto simp: server_inv_def intro: owner_runs.step)
next
  case close
  then show ?thesis using assms(2) by (simp add: server_inv_def)
qed

text \<open>
  In every run of the server each accepted connection is in exactly one place: handed to the node,
  waiting, or dropped and stopped; at most 128 wait, and nothing that they read while they wait has been cut
  into packets.
\<close>

lemma accepted_once:
  assumes "tcp_server_runs es s"
  shows "mset (acceptedSocks es) = mset (handedSocks es) + mset (map fst (tsAcceptConn s)) + mset (map fst (tsDropped s))"
    "length (tsAcceptConn s) \<le> tcpConnQSize" "(sock, c) \<in> set (tsAcceptConn s) \<Longrightarrow> \<not> tcHasSplit c \<and> tcRecvQ c = []"
    "(sock, c) \<in> set (tsDropped s) \<Longrightarrow> \<not> tcWorking c"
proof -
  from assms have "server_inv es s"
  proof (induction rule: tcp_server_runs.induct)
    case (begin_run ip port s0 s)
    then have "started 1 (tsOwner s)"
      by (auto simp: NewTCPServer_def tcpServerStart_def started_def NewLoop_def)
    with begin_run show ?case
      by (auto simp: server_inv_def NewTCPServer_def tcpServerStart_def NewLoop_def intro: owner_runs.init)
  qed (rule tcp_server_step_inv)
  then show "mset (acceptedSocks es) = mset (handedSocks es) + mset (map fst (tsAcceptConn s)) + mset (map fst (tsDropped s))"
    "length (tsAcceptConn s) \<le> tcpConnQSize" "(sock, c) \<in> set (tsAcceptConn s) \<Longrightarrow> \<not> tcHasSplit c \<and> tcRecvQ c = []"
    "(sock, c) \<in> set (tsDropped s) \<Longrightarrow> \<not> tcWorking c"
    by (auto simp: server_inv_def)
qed

text \<open>
  \<open>Stop\<close> closes the listener and nothing else: the connections that still wait are left as they are,
  with their goroutines, although the node no longer takes them.
\<close>

lemma stop_leaves_waiting:
  assumes "tcp_server_step s e s'" "tsClosed s' \<noteq> tsClosed s"
  shows "tsAcceptConn s' = tsAcceptConn s"
  using assms by cases (auto simp: acceptRound_def split: option.splits)

end
