(* ===== verification/CpTesting.thy ===== *)
theory CpTesting
  imports CoreProtocolFacts Peer Rpc
begin

text \<open>
  The generators and checks of \<open>src/serialize/cp/testing.go\<close> that the tests of several packages use.
  Random numbers, the clock and new private keys are arguments.
\<close>

section \<open>Random values\<close>

definition randStrs :: "string list" where
  "randStrs =
     [''It is certain'', ''It is decidedly so'', ''Without a doubt'', ''Yes definitely'', ''You may rely on it'',
      ''As I see it yes'', ''Most likely'', ''Outlook good'', ''Yes'', ''Signs point to yes'', ''Reply hazy try again'',
      ''Ask again later'', ''Better not tell you now'', ''Cannot predict now'', ''Concentrate and ask again'',
      ''Don'' @ [CHR 0x27] @ ''t count on it'', ''My reply is no'', ''My sources say no'', ''Outlook not so good'', ''Very doubtful'']"

definition randBytes :: "nat \<Rightarrow> i64 \<Rightarrow> bytes" where
  "randBytes n nano = strBytes (randStrs ! (n mod length randStrs) @ '' -- '' @ intString (sint nano))"

section \<open>Parameters and what they generate\<close>

record 'priv EvidenceParams =
  paHash :: bytes
  paDescription :: bytes
  paPrivKey :: 'priv
  paPubKeyBytes :: bytes
  paNonce :: u32

definition NewEvidenceParams ::
  "('sig, 'key, 'priv) btcec \<Rightarrow> hasher \<Rightarrow> bytes \<Rightarrow> bytes \<Rightarrow> 'priv \<Rightarrow> u32 \<Rightarrow> 'priv EvidenceParams" where
  "NewEvidenceParams ec Hash rand description privKey num =
     \<lparr>paHash = Hash rand, paDescription = description, paPrivKey = privKey,
      paPubKeyBytes = SerializeCompressed ec (PubKeyOf ec privKey), paNonce = num\<rparr>"

text \<open>The error of \<open>Sign\<close> is dropped.\<close>

definition GenEvidenceFromParams :: "('sig, 'key, 'priv) btcec \<Rightarrow> hasher \<Rightarrow> 'priv EvidenceParams \<Rightarrow> Evidence" where
  "GenEvidenceFromParams ec Hash p =
     (let evd = EvidenceSetNonce (NewEvidenceV1 (paHash p) (paDescription p) (paPubKeyBytes p)) (paNonce p)
      in case EvidenceSign ec Hash evd (paPrivKey p) of None \<Rightarrow> evd | Some e \<Rightarrow> e)"

record BlockHeaderParams =
  paLastHash :: bytes
  paMiner :: bytes
  paEvRoot :: bytes
  paTarget :: u32
  paHeaderNonce :: u32

definition NewBlockHeaderParams ::
  "('sig, 'key, 'priv) btcec \<Rightarrow> hasher \<Rightarrow> 'priv \<Rightarrow> bytes \<Rightarrow> bytes \<Rightarrow> u32 \<Rightarrow> u32 \<Rightarrow> BlockHeaderParams" where
  "NewBlockHeaderParams ec Hash minerPrivKey rand1 rand2 num1 num2 =
     \<lparr>paLastHash = Hash rand1, paMiner = SerializeCompressed ec (PubKeyOf ec minerPrivKey), paEvRoot = Hash rand2,
      paTarget = num1, paHeaderNonce = num2\<rparr>"

definition GenBlockHeaderFromParams :: "i64 \<Rightarrow> BlockHeaderParams \<Rightarrow> BlockHeader" where
  "GenBlockHeaderFromParams now p =
     SetTarget (HeaderSetNonce (NewBlockHeaderV1 now (paLastHash p) (paMiner p) (paEvRoot p)) (paHeaderNonce p)) (paTarget p)"

record 'priv BlockParams =
  paHeader :: BlockHeaderParams
  paEvdsParams :: "'priv EvidenceParams list"

text \<open>\<open>evdsParams\<close> are the one to ten parameters that are made when the block is not empty.\<close>

definition NewBlockParams :: "bool \<Rightarrow> BlockHeaderParams \<Rightarrow> 'priv EvidenceParams list \<Rightarrow> 'priv BlockParams" where
  "NewBlockParams noEvidence headerParams evdsParams =
     (if \<not> noEvidence then \<lparr>paHeader = headerParams, paEvdsParams = evdsParams\<rparr>
      else \<lparr>paHeader = headerParams\<lparr>paEvRoot := EmptyEvidenceRoot\<rparr>, paEvdsParams = []\<rparr>)"

definition GenBlockFromParams :: "('sig, 'key, 'priv) btcec \<Rightarrow> hasher \<Rightarrow> i64 \<Rightarrow> 'priv BlockParams \<Rightarrow> Block" where
  "GenBlockFromParams ec Hash now p =
     NewBlock (GenBlockHeaderFromParams now (paHeader p)) (map (GenEvidenceFromParams ec Hash) (paEvdsParams p))"

section \<open>Checks\<close>

datatype check_error =
    EvidenceVersionDiffers | EvidenceHashDiffers | DescriptionDiffers | PublicKeyDiffers | EvidenceNonceDiffers
  | BlockVersionDiffers | BlockNonceDiffers | TargetDiffers | LastHashDiffers | MinerDiffers | EvidenceRootDiffers
  | EvidenceSizeDiffers

definition CheckEvidence :: "Evidence \<Rightarrow> 'priv EvidenceParams \<Rightarrow> check_error + unit" where
  "CheckEvidence e p =
     (if eVersion e \<noteq> CoreProtocolV1 then Inl EvidenceVersionDiffers
      else if eHash e \<noteq> paHash p then Inl EvidenceHashDiffers
      else if eDescription e \<noteq> paDescription p then Inl DescriptionDiffers
      else if ePubKey e \<noteq> paPubKeyBytes p then Inl PublicKeyDiffers
      else if eNonce e \<noteq> paNonce p then Inl EvidenceNonceDiffers
      else Inr ())"

definition CheckBlockHeader :: "BlockHeader \<Rightarrow> BlockHeaderParams \<Rightarrow> check_error + unit" where
  "CheckBlockHeader b p =
     (if bhVersion b \<noteq> CoreProtocolV1 then Inl BlockVersionDiffers
      else if bhNonce b \<noteq> paHeaderNonce p then Inl BlockNonceDiffers
      else if bhTarget b \<noteq> paTarget p then Inl TargetDiffers
      else if bhLastHash b \<noteq> paLastHash p then Inl LastHashDiffers
      else if bhMiner b \<noteq> paMiner p then Inl MinerDiffers
      else if bhEvidenceRoot b \<noteq> paEvRoot p then Inl EvidenceRootDiffers
      else Inr ())"

text \<open>The loop of \<open>CheckBlock\<close> returns nil, not the error, at the first evidence that differs.\<close>

fun checkLoop :: "Evidence list \<Rightarrow> 'priv EvidenceParams list \<Rightarrow> check_error + unit" where
  "checkLoop (e # es) (p # ps) = (case CheckEvidence e p of Inl _ \<Rightarrow> Inr () | Inr _ \<Rightarrow> checkLoop es ps)"
| "checkLoop es ps = Inr ()"

definition CheckBlock :: "Block \<Rightarrow> 'priv BlockParams \<Rightarrow> check_error + unit" where
  "CheckBlock b p =
     attempt (CheckBlockHeader (bHeader b) (paHeader p)) (\<lambda>_.
       if length (bEvds b) \<noteq> length (paEvdsParams p) then Inl EvidenceSizeDiffers
       else checkLoop (bEvds b) (paEvdsParams p))"

section \<open>What the checks see\<close>

lemma CheckEvidence_ok:
  "CheckEvidence e p = Inr () \<longleftrightarrow> eVersion e = CoreProtocolV1 \<and> eHash e = paHash p \<and> eDescription e = paDescription p \<and>
     ePubKey e = paPubKeyBytes p \<and> eNonce e = paNonce p"
  by (simp add: CheckEvidence_def)

lemma CheckBlockHeader_ok:
  "CheckBlockHeader b p = Inr () \<longleftrightarrow> bhVersion b = CoreProtocolV1 \<and> bhNonce b = paHeaderNonce p \<and> bhTarget b = paTarget p \<and>
     bhLastHash b = paLastHash p \<and> bhMiner b = paMiner p \<and> bhEvidenceRoot b = paEvRoot p"
  by (simp add: CheckBlockHeader_def)

lemma checkLoop_blind: "checkLoop es ps = Inr ()"
  by (induction es ps rule: checkLoop.induct) (auto split: sum.split)

text \<open>\<open>CheckBlock\<close> accepts every block with the right header and the right number of evidences, whatever they are.\<close>

lemma CheckBlock_blind:
  "CheckBlock b p = Inr () \<longleftrightarrow> CheckBlockHeader (bHeader b) (paHeader p) = Inr () \<and> length (bEvds b) = length (paEvdsParams p)"
  by (cases "CheckBlockHeader (bHeader b) (paHeader p)") (simp_all add: CheckBlock_def checkLoop_blind)

lemma generated_evidence_checks: "CheckEvidence (GenEvidenceFromParams ec Hash p) p = Inr ()"
  by (simp add: CheckEvidence_ok GenEvidenceFromParams_def Let_def EvidenceSign_def EvidenceSetNonce_def NewEvidenceV1_def
      split: option.split)

lemma generated_block_checks: "CheckBlock (GenBlockFromParams ec Hash now p) p = Inr ()"
  by (simp add: CheckBlock_blind CheckBlockHeader_ok GenBlockFromParams_def NewBlock_def GenBlockHeaderFromParams_def
      SetTarget_def HeaderSetNonce_def NewBlockHeaderV1_def)

text \<open>An evidence made from new parameters with a random text is one that \<open>Verify\<close> accepts.\<close>

lemma generated_evidence_verifies:
  assumes "signatures ec" "\<And>h. SignHash ec privKey h \<noteq> None" "length (Hash rand) = 32" "length description \<le> 140"
  shows "EvidenceVerify ec Hash (GenEvidenceFromParams ec Hash (NewEvidenceParams ec Hash rand description privKey num)) = Inr ()"
proof -
  let ?p = "NewEvidenceParams ec Hash rand description privKey num"
  define evd where "evd = EvidenceSetNonce (NewEvidenceV1 (paHash ?p) (paDescription ?p) (paPubKeyBytes ?p)) (paNonce ?p)"
  obtain s where s: "SignHash ec privKey (getSignContentHash Hash evd) = Some s" using assms(2) by blast
  have gen: "GenEvidenceFromParams ec Hash ?p = evd\<lparr>eSig := s\<rparr>"
    using s by (simp add: GenEvidenceFromParams_def EvidenceSign_def NewEvidenceParams_def evd_def)
  have "getSignContentHash Hash (evd\<lparr>eSig := s\<rparr>) = getSignContentHash Hash evd" by (simp add: getSignContentHash_def)
  then show ?thesis
    unfolding gen using signatures.sign_verifies [OF assms(1) s] signatures.parse_compressed [OF assms(1)]
      signatures.compressed_length [OF assms(1)] assms(3) RuneCountInString_le [of description] assms(4)
    by (auto simp: EvidenceVerify_ok evd_def EvidenceSetNonce_def NewEvidenceV1_def NewEvidenceParams_def
        PubKeyBytesLenCompressed_def)
qed

end
