(* ===== verification/Spec2Isabelle.thy ===== *)
theory Spec2Isabelle
  imports CoreProtocolFacts StorageFormat Provider P2PNode Merkle Difficulty
    Discover Mine EvPool Net Client LoopMode CoreNode CatchUp DbBrowser NodeMain ClientMain TcpServer CpTesting Log
begin

text \<open>
  A verification development of the 996.Blockchain node, a proof-of-work chain for hashes of
  documents (``evidences'') written in Go.  Paths are relative to \<open>src/\<close>.

  \<^bold>\<open>The program.\<close>  A node keeps a tree of recent blocks in memory and all older blocks in a key-value
  store.  Peers find each other with UDP datagrams, open encrypted TCP connections and exchange
  blocks and evidences.  A scheduler takes evidences from a pool, mines blocks over them in parallel
  and adds them to the chain; the longest branch wins.  Clients upload evidences and query blocks.

  \<^bold>\<open>How the parts interact.\<close>  \<open>Provider\<close> (discovery) offers peers from its table to the \<open>node\<close>,
  which negotiates a connection and hands it to its connection manager.  Messages of the core
  protocol travel through the connections to \<open>net\<close>, which calls the chain and the evidence pool.
  The chain calls the database for everything that is no longer in memory, and announces a new
  longest branch to the scheduler, which calls pool, miner, chain and net.  The query cache and the
  uploads of \<open>core.go\<close> call chain, pool and database; the HTTP handlers call them for the clients.  Every
  part runs in goroutines that the helper \<open>LoopMode\<close> starts and stops.

  \<^bold>\<open>Theories, in the order of the layers.\<close>
  \<^item> \<open>Prelude\<close>, \<open>Bytes\<close>, \<open>Utils\<close>: names of Go's types, results as \<open>error + 'a\<close>, big-endian
    encodings, length-prefixed byte slices, hexadecimal text (\<open>utils/utils.go\<close>).  The locales
    \<open>wire\<close> and \<open>codec\<close> state the contract of an encoder and a decoder once; every message of the
    program interprets one of them.
  \<^item> \<open>CoreProtocol\<close>, \<open>CoreProtocolFacts\<close>, \<open>StorageFormat\<close>, \<open>Handshake\<close>, \<open>Discover\<close>: all messages and
    stored values of \<open>serialize/\<close> with \<open>Marshal\<close>, \<open>Unmarshal\<close>, \<open>Verify\<close>, \<open>Sign\<close> and \<open>Size\<close>.  A decoder
    fails where the code returns an error.  Proved: round trips, canonical encodings, what passes
    \<open>Verify\<close> fits its length fields, what a signature binds.
  \<^item> \<open>TcpPacket\<close>: the framing of \<open>p2p/tcp_utils.go\<close>, with the 32-bit wrap of the packet length.
    Proved: sent packets are recovered however the stream is cut into reads, and where the wrap breaks this.
  \<^item> \<open>Merkle\<close>, \<open>Difficulty\<close>, \<open>Pow\<close>, \<open>Mine\<close>: \<open>core/merkle\<close>, \<open>core/blockchain/difficulty.go\<close> (targets,
    and the retarget with its \<open>big.Float\<close> rounding written out), the nonce search of
    \<open>serialize/cp\<close> and the goroutines of \<open>core/parallel_mine.go\<close> as a step relation over their
    interleavings.  Proved: equivalence with the recursive root, binding, bounds and monotony of the
    retarget, correctness and termination of the search under every interleaving.
  \<^item> \<open>Database\<close>, \<open>DatabaseFacts\<close>: \<open>db/schema.go\<close>, \<open>db/db.go\<close>, \<open>db/badger.go\<close> over a store that
    meets the locale \<open>kv_store\<close>.  Proved: the operations refine an append-only list of blocks, keys of
    different records never collide.
  \<^item> \<open>Branch\<close>, \<open>Chain\<close>: \<open>core/blockchain/block.go\<close>, \<open>branch.go\<close>, \<open>chain.go\<close>.  Go's pointers to
    blocks and branches are addresses in two explicit heaps, because blocks are shared between
    branches.  \<open>ChainFacts\<close>, \<open>ChainDemo\<close>, \<open>ChainProperties\<close>, \<open>ForkChoice\<close>, \<open>BranchCache\<close>,
    \<open>SyncAnswers\<close>, \<open>CatchUp\<close>, \<open>ChainFaults\<close> prove the invariants over all runs (\<open>runs\<close>: any start on any
    store, any blocks, maintenance at any time), fork choice, that the cache of a branch holds exactly its
    blocks as long as no two blocks ever added have the same hash, the answers to peers from memory and from
    the database, that a node that lags behind accepts these answers and ends in the same head, and the
    runs that end in a panic.
  \<^item> \<open>EvPool\<close>, \<open>Scheduler\<close>, \<open>Net\<close>: \<open>core/ev_pool.go\<close>, \<open>core/scheduler.go\<close>, \<open>core/net.go\<close>, the
    handlers as functions and the goroutines as step relations.  Proved: the order of the pool, a
    found block becomes the head of the own chain, block transfer, a broadcast is used and relayed the first time
    and never again while it is remembered.
  \<^item> \<open>PeerID\<close>, \<open>Peer\<close>, \<open>PeerTable\<close>, \<open>Provider\<close>: \<open>crypto/id.go\<close> (base 32) and \<open>p2p/peer/\<close>.  The locale
    \<open>peer_provider\<close> is what the node relies on; the table interprets it.
  \<^item> \<open>Negotiator\<close>, \<open>TcpConn\<close>, \<open>Connections\<close>, \<open>P2PNode\<close>: \<open>p2p/negotiator.go\<close>, \<open>p2p/codec.go\<close>,
    \<open>utils/tcp.go\<close>, \<open>p2p/conn.go\<close>, \<open>p2p/conn_manager.go\<close>, \<open>p2p/protocol.go\<close>, \<open>p2p/node.go\<close>.
    Proved: agreement of the handshake, delivery of messages, bounds on the connections.
  \<^item> \<open>Query\<close>, \<open>Rpc\<close>: \<open>core/qcache.go\<close>, the uploads and queries of \<open>core/core.go\<close>, and the handlers of \<open>rpc/\<close>
    from a decoded request to the response.  Proved: queries by height, hash, evidence and range answer
    from the longest branch.
  \<^item> \<open>HashFile\<close>, \<open>Keys\<close>, \<open>Client\<close>: \<open>cmd/client\<close> and the key files of \<open>crypto/pkey.go\<close>, \<open>crypto/skey.go\<close> and
    \<open>cmd/keygen\<close>, over a model of the disk.  Proved: a hash file verifies and has the hash of
    the reference definition \<open>treeHash\<close>, keys survive sealing and opening, and an evidence that a client generates
    passes the handler, the chain's verification and enters the pool.
  \<^item> \<open>LoopMode\<close>, \<open>TcpServer\<close>: \<open>utils/lm.go\<close> with its token channel and wait group, the queues of \<open>utils/udp.go\<close>,
    and the accepting server of \<open>utils/tcp.go\<close>.  Proved: stopping ends all goroutines, the datagrams keep their
    order, an accepted connection is in one place.
  \<^item> \<open>CoreNode\<close>: \<open>core/core.go\<close> from \<open>NewCore\<close> to \<open>Stop\<close>, the goroutines of chain, pool, network, scheduler and
    server in one step relation \<open>core_step\<close> over the chain and the pool they share.  Proved: what the
    node broadcasts is genuine, an uploaded evidence is recorded, and when it is not.
  \<^item> \<open>NodeMain\<close>, \<open>ClientMain\<close>, \<open>DbBrowser\<close>: the commands \<open>cmd/anti996\<close>, \<open>cmd/client\<close> and \<open>cmd/dbbrowser\<close> with their
    flags, configurations, exit codes and printed tables.  Proved: a started node has one identity, the client
    prints what the chain holds, the browser what the database holds.
  \<^item> \<open>Log\<close>, \<open>CpTesting\<close>: the logger of \<open>utils/log.go\<close>, and the generators and checks of \<open>serialize/cp/testing.go\<close>.

  \<^bold>\<open>State and operations.\<close>  A struct is a record with the fields of the source, a method is a function
  from the state to the new state, an \<open>(value, error)\<close> result is a sum, and \<open>None\<close> stands for a
  panic, for \<open>logger.Fatal\<close> or for a call that does not return; each theory says which.  Fixed-width
  integers are words of their width.  A goroutine is a set of rules of a step relation, one per event
  it handles; a mutex makes the handler that holds it one step.

  \<^bold>\<open>Loops.\<close>  Structural loops are \<open>fun\<close>, loops with a measure are \<open>function\<close> with a termination proof.
  A loop that may not end is \<open>partial_function (option)\<close>, so that not returning is \<open>None\<close>: for
  those the properties state that a result exists (\<open>fork_choice\<close>, \<open>sync_answers\<close>,
  \<open>range_query_answers\<close>), or that it does not (\<open>split_diverges_on_wrapped_length\<close>,
  \<open>range_from_zero_never_returns\<close>).  No fuel is used.

  \<^bold>\<open>Parameters.\<close>  Code outside \<open>src/\<close> is an argument: the elliptic curve \<open>btcec\<close> (record of key and
  signature operations, laws in the locales \<open>signatures\<close> and \<open>key_exchange\<close>), the hash function, the
  \<open>badger\<close> store (locale \<open>kv_store\<close>), the ciphers and scrypt (locales \<open>key_exchange\<close> and \<open>key_files\<close>),
  the text of IP addresses (locale \<open>ip_text\<close>) and \<open>encoding/json\<close>, of which the theorems assume that what
  was written is read back.  So are the clock, random numbers, the iteration order of Go maps, typed
  passphrases and the results of socket and file calls.  Each locale is interpreted on a concrete instance,
  on which the witnesses evaluate.

  \<^bold>\<open>Bounds.\<close>  Heights are \<open>uint64\<close>: properties that compare heights assume that fewer than \<open>2 ^ 64\<close> blocks
  were ever added.  Encodings are read back when the lengths fit their fields, which \<open>Verify\<close> ensures
  for evidences.

  \<^bold>\<open>Not modelled.\<close>  The texts of log and error messages and the \<open>String\<close> methods, which nothing reads; the date and
  place the library's logger puts before a line; opening, closing and garbage collection of badger, listening and
  dialling on sockets and the HTTP server itself, of which the results are arguments; the pprof server and the signals of
  \<open>cmd/anti996\<close>; the pools of buffers in \<open>utils/utils.go\<close>; \<open>utils/test_tools.go\<close>, which serves the tests only.  Data races on
  fields that no mutex guards are not modelled: a handler is one step.
\<close>

end
